(* ===== verification/Prelude.thy ===== *)
theory Prelude
  imports Main "HOL-Library.Word"
begin

text \<open>
  The prelude of the development: the machine types of the Go sources, the big-endian byte
  codecs that \<^verbatim>\<open>encoding/binary\<close> and \<^verbatim>\<open>common.Hash\<close> provide, the outcome type of a Go call
  (a value, an error or a panic) and the combinators that sequence calls over an explicit state,
  together with the lemma collections the component theories share.
\<close>

named_theorems run_simps \<open>symbolic execution of a call on a known state\<close>
named_theorems ok_iffs \<open>when a call returns a value\<close>
named_theorems word_nat \<open>reading machine words as natural numbers\<close>

section \<open>Machine types\<close>

type_synonym u8 = "8 word"
type_synonym u16 = "16 word"
type_synonym u32 = "32 word"
type_synonym u64 = "64 word"
type_synonym i64 = "64 word"
type_synonym hash = "256 word"
type_synonym address = "160 word"
type_synonym bytes = "8 word list"

lemma unat_u64_bound [simp]: "unat (x :: u64) < 18446744073709551616"
  using unsigned_less [of x] by simp

lemma unat_u32_bound [simp]: "unat (x :: u32) < 4294967296"
  using unsigned_less [of x] by simp

lemma unat_u16_bound [simp]: "unat (x :: u16) < 65536"
  using unsigned_less [of x] by simp

lemma unat_u8_bound [simp]: "unat (x :: u8) < 256"
  using unsigned_less [of x] by simp

lemma word_eq_unat: "(x = y) \<longleftrightarrow> (unat x = unat y)"
  by (simp add: word_unat_eq_iff)

lemmas word_to_nat [word_nat] = word_less_nat_alt word_le_nat_alt word_eq_unat

lemma unat_plus_mod: "unat (x + y :: 'a::len word) = (unat x + unat y) mod 2 ^ LENGTH('a)"
  by (simp add: unat_word_ariths)

lemma unat_times_mod: "unat (x * y :: 'a::len word) = (unat x * unat y) mod 2 ^ LENGTH('a)"
  by (simp add: unat_word_ariths)

lemma unat_minus_le: "y \<le> x \<Longrightarrow> unat (x - y :: 'a::len word) = unat x - unat y"
  by (simp add: unat_sub)

lemma unat_ucast_bound:
  "LENGTH('a::len) \<le> LENGTH('b::len) \<Longrightarrow> unat (ucast (x :: 'a word) :: 'b word) = unat x"
  by (simp add: unsigned_ucast_eq take_bit_nat_eq_self_iff
      order_less_le_trans [OF unsigned_less power_increasing])

lemma le_unat_u64: "i \<le> unat (x :: u64) \<Longrightarrow> i < 2 ^ 64"
  using unat_u64_bound [of x] by (simp del: unat_u64_bound)

lemma unat_of_nat_u64: "n < 2 ^ 64 \<Longrightarrow> unat (of_nat n :: u64) = n"
  by (simp add: unat_of_nat)

lemma of_nat_u64_eq: "m < 2 ^ 64 \<Longrightarrow> n < 2 ^ 64 \<Longrightarrow> (of_nat m :: u64) = of_nat n \<longleftrightarrow> m = n"
  by (metis unat_of_nat_u64)

lemma of_nat_Suc_neq_0: "Suc n < 2 ^ 64 \<Longrightarrow> (of_nat (Suc n) :: u64) \<noteq> 0"
  by (metis nat.distinct(1) unat_of_nat_u64 unsigned_0)

lemma ucast_inject:
  "LENGTH('a::len) \<le> LENGTH('b::len) \<Longrightarrow>
    (ucast (x :: 'a word) :: 'b word) = ucast y \<longleftrightarrow> x = y"
  by (metis unat_ucast_bound word_unat_eq_iff)

lemma ucast_down_up [simp]:
  "LENGTH('a::len) \<le> LENGTH('b::len) \<Longrightarrow> (ucast (ucast (x :: 'a word) :: 'b word) :: 'a word) = x"
proof -
  assume "LENGTH('a) \<le> LENGTH('b)"
  then have "unat (ucast (ucast x :: 'b word) :: 'a word) = take_bit LENGTH('a) (unat x)"
    by (simp only: unsigned_ucast_eq [of "ucast x :: 'b word"] unat_ucast_bound)
  then show ?thesis by (simp add: word_unat_eq_iff take_bit_nat_eq_self)
qed

section \<open>Big-endian bytes\<close>

text \<open>
  \<open>be_nat\<close> reads a byte slice as \<^verbatim>\<open>big.Int.SetBytes\<close> and \<^verbatim>\<open>binary.BigEndian\<close> do;
  \<open>be_bytes n\<close> writes the \<open>n\<close> low bytes of a number, most significant first.
\<close>

definition be_nat :: "bytes \<Rightarrow> nat" where
  "be_nat bs = foldl (\<lambda>acc b. acc * 256 + unat b) 0 bs"

primrec be_bytes :: "nat \<Rightarrow> nat \<Rightarrow> bytes" where
  "be_bytes 0 x = []"
| "be_bytes (Suc n) x = be_bytes n (x div 256) @ [of_nat (x mod 256)]"

lemma be_nat_Nil [simp]: "be_nat [] = 0"
  by (simp add: be_nat_def)

lemma be_nat_snoc [simp]: "be_nat (bs @ [b]) = be_nat bs * 256 + unat b"
  by (simp add: be_nat_def)

lemma be_nat_append: "be_nat (xs @ ys) = be_nat xs * 256 ^ length ys + be_nat ys"
proof (induction ys rule: rev_induct)
  case Nil
  then show ?case by simp
next
  case (snoc y ys)
  then show ?case
    by (simp add: append_assoc [symmetric] algebra_simps del: append_assoc)
qed

lemma length_be_bytes [simp]: "length (be_bytes n x) = n"
  by (induction n arbitrary: x) auto

lemma be_nat_less: "be_nat bs < 256 ^ length bs"
proof (induction bs rule: rev_induct)
  case Nil
  then show ?case by simp
next
  case (snoc b bs)
  have "be_nat bs + 1 \<le> 256 ^ length bs" using snoc by simp
  then have "(be_nat bs + 1) * 256 \<le> 256 ^ length bs * 256" by (rule mult_le_mono1)
  then show ?case
    using unat_u8_bound [of b] by (simp add: mult.commute del: unat_u8_bound)
qed

lemma be_nat_be_bytes: "be_nat (be_bytes n x) = x mod 256 ^ n"
proof (induction n arbitrary: x)
  case 0
  then show ?case by simp
next
  case (Suc n)
  have "unat (of_nat (x mod 256) :: u8) = x mod 256"
    by (simp add: unat_of_nat)
  then show ?case
    by (simp add: Suc mod_mult2_eq mult.commute)
qed

lemma be_bytes_be_nat: "length bs = n \<Longrightarrow> be_bytes n (be_nat bs) = bs"
proof (induction bs arbitrary: n rule: rev_induct)
  case Nil
  then show ?case by simp
next
  case (snoc b bs)
  then obtain m where n: "n = Suc m" and m: "length bs = m" by auto
  have "(be_nat bs * 256 + unat b) div 256 = be_nat bs"
    and "(be_nat bs * 256 + unat b) mod 256 = unat b"
    by simp_all
  with snoc.IH [OF m] n show ?case
    by (simp del: be_nat_snoc add: be_nat_snoc)
qed

lemma be_bytes_inject:
  "x < 256 ^ n \<Longrightarrow> y < 256 ^ n \<Longrightarrow> be_bytes n x = be_bytes n y \<longleftrightarrow> x = y"
  by (metis be_nat_be_bytes mod_less)

lemma be_bytes_append:
  "be_bytes (m + n) x = be_bytes m (x div 256 ^ n) @ be_bytes n x"
proof (induction n arbitrary: x)
  case 0
  then show ?case by simp
next
  case (Suc n)
  then show ?case
    by (simp add: div_mult2_eq [symmetric] mult.commute)
qed

lemma take_be_bytes: "m \<le> n \<Longrightarrow> take m (be_bytes n x) = be_bytes m (x div 256 ^ (n - m))"
  using be_bytes_append [of m "n - m" x] by simp

lemma drop_be_bytes: "m \<le> n \<Longrightarrow> drop m (be_bytes n x) = be_bytes (n - m) x"
  using be_bytes_append [of m "n - m" x] by simp

lemma be_bytes_mod: "be_bytes n (x mod 256 ^ n) = be_bytes n x"
  by (metis be_bytes_be_nat be_nat_be_bytes length_be_bytes)

text \<open>
  \<^verbatim>\<open>common.Hash.Bytes\<close>, \<^verbatim>\<open>common.BytesToHash\<close> (crops on the left, pads on the left), and
  the same for addresses: the wrap-around of \<open>of_nat\<close> is the crop.
\<close>

definition hash_bytes :: "hash \<Rightarrow> bytes" where
  "hash_bytes h = be_bytes 32 (unat h)"

definition bytes_hash :: "bytes \<Rightarrow> hash" where
  "bytes_hash bs = of_nat (be_nat bs)"

definition address_bytes :: "address \<Rightarrow> bytes" where
  "address_bytes a = be_bytes 20 (unat a)"

definition bytes_address :: "bytes \<Rightarrow> address" where
  "bytes_address bs = of_nat (be_nat bs)"

lemma length_hash_bytes [simp]: "length (hash_bytes h) = 32"
  by (simp add: hash_bytes_def)

lemma length_address_bytes [simp]: "length (address_bytes h) = 20"
  by (simp add: address_bytes_def)

lemma bytes_hash_inverse [simp]: "bytes_hash (hash_bytes h) = h"
proof -
  have "unat h < 2 ^ LENGTH(256)" by (rule unsigned_less)
  then have "unat h mod 256 ^ 32 = unat h" by simp
  then show ?thesis
    by (simp add: bytes_hash_def hash_bytes_def be_nat_be_bytes)
qed

lemma hash_bytes_inverse: "length bs = 32 \<Longrightarrow> hash_bytes (bytes_hash bs) = bs"
proof -
  assume l: "length bs = 32"
  have "be_nat bs < 256 ^ 32" using be_nat_less [of bs] l by simp
  then have "unat (of_nat (be_nat bs) :: hash) = be_nat bs"
    by (simp add: unat_of_nat)
  with l show ?thesis by (simp add: hash_bytes_def bytes_hash_def be_bytes_be_nat)
qed

lemma hash_bytes_inject [simp]: "hash_bytes x = hash_bytes y \<longleftrightarrow> x = y"
  by (metis bytes_hash_inverse)

lemma bytes_hash_inject: "length xs = 32 \<Longrightarrow> length ys = 32 \<Longrightarrow> bytes_hash xs = bytes_hash ys \<longleftrightarrow> xs = ys"
  by (metis hash_bytes_inverse)

lemma bytes_hash_address: "bytes_hash (address_bytes a) = ucast a"
proof -
  have "unat a < 2 ^ LENGTH(160)" by (rule unsigned_less)
  then have "unat a mod 256 ^ 20 = unat a" by simp
  then show ?thesis
    by (simp add: bytes_hash_def address_bytes_def be_nat_be_bytes)
qed

section \<open>Outcomes and calls\<close>

text \<open>
  A Go call returns a value, returns an error, or panics, and leaves a state in each case.
  \<open>bindM\<close> is the source's \<open>if err != nil { return err }\<close> after a call; \<open>ignoreM\<close> and
  \<open>orM\<close> are the source's \<open>_ = f()\<close> and \<open>x, _ := f()\<close>, which carry on after an error
  with the zero value. \<open>ErrMsg\<close> is an error by its text, \<open>ErrArgs\<close> one that also carries numbers.
\<close>

datatype go_error =
    ErrOutOfGas
  | ErrWriteProtection
  | ErrInsufficientBalance
  | ErrInsufficientFunds
  | ErrExecutionReverted
  | ErrDepth
  | ErrMsg string
  | ErrArgs string "nat list"

datatype 'a res = Ok 'a | Err go_error | Panic

type_synonym ('s, 'a) call = "'s \<Rightarrow> 'a res \<times> 's"

definition returnM :: "'a \<Rightarrow> ('s, 'a) call" where
  "returnM x s = (Ok x, s)"

definition failM :: "go_error \<Rightarrow> ('s, 'a) call" where
  "failM e s = (Err e, s)"

definition panicM :: "('s, 'a) call" where
  "panicM s = (Panic, s)"

definition bindM :: "('s, 'a) call \<Rightarrow> ('a \<Rightarrow> ('s, 'b) call) \<Rightarrow> ('s, 'b) call" where
  "bindM m f s =
     (case m s of
        (Ok x, s') \<Rightarrow> f x s'
      | (Err e, s') \<Rightarrow> (Err e, s')
      | (Panic, s') \<Rightarrow> (Panic, s'))"

definition orM :: "'a \<Rightarrow> ('s, 'a) call \<Rightarrow> ('s, 'a) call" where
  "orM z m s =
     (case m s of
        (Ok x, s') \<Rightarrow> (Ok x, s')
      | (Err e, s') \<Rightarrow> (Ok z, s')
      | (Panic, s') \<Rightarrow> (Panic, s'))"

text \<open>A caller that replaces whatever error a call returns by its own.\<close>

definition mapErrM :: "go_error \<Rightarrow> ('s, 'a) call \<Rightarrow> ('s, 'a) call" where
  "mapErrM e m s =
     (case m s of
        (Ok x, s') \<Rightarrow> (Ok x, s')
      | (Err _, s') \<Rightarrow> (Err e, s')
      | (Panic, s') \<Rightarrow> (Panic, s'))"

abbreviation ignoreM :: "('s, unit) call \<Rightarrow> ('s, unit) call" where
  "ignoreM m \<equiv> orM () m"

abbreviation thenM :: "('s, unit) call \<Rightarrow> ('s, 'b) call \<Rightarrow> ('s, 'b) call" where
  "thenM m n \<equiv> bindM m (\<lambda>_. n)"

lemma returnM_run [simp, run_simps]: "returnM x s = (Ok x, s)"
  by (simp add: returnM_def)

lemma failM_run [simp, run_simps]: "failM e s = (Err e, s)"
  by (simp add: failM_def)

lemma panicM_run [simp, run_simps]: "panicM s = (Panic, s)"
  by (simp add: panicM_def)

lemma bindM_Ok [run_simps]: "m s = (Ok x, s') \<Longrightarrow> bindM m f s = f x s'"
  by (simp add: bindM_def)

lemma bindM_Ok_bool [run_simps]:
  "m s = (Ok True, s') \<Longrightarrow> bindM m f s = f True s'"
  "m s = (Ok False, s') \<Longrightarrow> bindM m f s = f False s'"
  by (simp_all add: bindM_def)

lemma bindM_Err [run_simps]: "m s = (Err e, s') \<Longrightarrow> bindM m f s = (Err e, s')"
  by (simp add: bindM_def)

lemma bindM_Panic [run_simps]: "m s = (Panic, s') \<Longrightarrow> bindM m f s = (Panic, s')"
  by (simp add: bindM_def)

lemma orM_Ok [run_simps]: "m s = (Ok x, s') \<Longrightarrow> orM z m s = (Ok x, s')"
  by (simp add: orM_def)

lemma orM_Err [run_simps]: "m s = (Err e, s') \<Longrightarrow> orM z m s = (Ok z, s')"
  by (simp add: orM_def)

lemma orM_Panic [run_simps]: "m s = (Panic, s') \<Longrightarrow> orM z m s = (Panic, s')"
  by (simp add: orM_def)

lemma mapErrM_Ok [run_simps]: "m s = (Ok x, s') \<Longrightarrow> mapErrM e m s = (Ok x, s')"
  by (simp add: mapErrM_def)

lemma mapErrM_Err [run_simps]: "m s = (Err e', s') \<Longrightarrow> mapErrM e m s = (Err e, s')"
  by (simp add: mapErrM_def)

lemma bindM_Ok_iff [ok_iffs]:
  "bindM m f s = (Ok y, t) \<longleftrightarrow> (\<exists>x s'. m s = (Ok x, s') \<and> f x s' = (Ok y, t))"
  by (auto simp: bindM_def split: prod.splits res.splits)

lemma bindM_return [simp]: "bindM (returnM x) f = f x"
  by (rule ext) (simp add: bindM_def)

lemma bindM_fail [simp]: "bindM (failM e) f = failM e"
  by (rule ext) (simp add: bindM_def)

lemma bindM_panic [simp]: "bindM panicM f = panicM"
  by (rule ext) (simp add: bindM_def)

lemma bindM_assoc: "bindM (bindM m f) g = bindM m (\<lambda>x. bindM (f x) g)"
  by (rule ext) (simp add: bindM_def split: prod.splits res.splits)

lemma returnM_Ok_iff [ok_iffs]: "returnM x s = (Ok y, t) \<longleftrightarrow> y = x \<and> t = s"
  by auto

lemma failM_Ok_iff [ok_iffs]: "failM e s = (Ok y, t) \<longleftrightarrow> False"
  by auto

lemma panicM_Ok_iff [ok_iffs]: "panicM s = (Ok y, t) \<longleftrightarrow> False"
  by auto

lemma if_call_Ok_iff [ok_iffs]:
  "(if b then m else n) s = (Ok y, t) \<longleftrightarrow> (if b then m s = (Ok y, t) else n s = (Ok y, t))"
  by simp

lemma bindM_cong [fundef_cong]:
  assumes "m s = m' s'" and "\<And>x t. m' s' = (Ok x, t) \<Longrightarrow> f x t = f' x t" and "s = s'"
  shows "bindM m f s = bindM m' f' s'"
  using assms by (auto simp: bindM_def split: prod.splits res.splits)

end
