(* ===== verification/Arbmath.thy ===== *)
theory Arbmath
  imports Prelude
begin

text \<open>
  Package \<^verbatim>\<open>util/arbmath\<close>: saturating and rounding arithmetic on Go's machine integers, big
  integer helpers, basis points, the fixed-width byte codecs and the moving average. Machine
  integers are words of their width: an unsigned Go type is read with \<open>unat\<close> and compared with
  \<open><\<close>, a signed one is the same word read with \<open>sint\<close> and compared with \<open><s\<close>. A
  \<^verbatim>\<open>big.Int\<close> is an \<open>int\<close>. Functions that can divide by zero or read past a slice return a
  \<open>res\<close> and panic where the source does.
\<close>

unbundle bit_operations_syntax

section \<open>Pure results\<close>

definition bindR :: "'a res \<Rightarrow> ('a \<Rightarrow> 'b res) \<Rightarrow> 'b res" where
  "bindR r f = (case r of Ok x \<Rightarrow> f x | Err e \<Rightarrow> Err e | Panic \<Rightarrow> Panic)"

lemma bindR_simps [simp]:
  "bindR (Ok x) f = f x" "bindR (Err e) f = Err e" "bindR Panic f = Panic"
  by (simp_all add: bindR_def)

lemma bindR_Ok_iff: "bindR m f = Ok b \<longleftrightarrow> (\<exists>a. m = Ok a \<and> f a = Ok b)"
  by (cases m) auto

definition liftR :: "'a res \<Rightarrow> ('s, 'a) call" where
  "liftR r s = (r, s)"

lemma liftR_run [simp]: "liftR r s = (r, s)"
  by (simp add: liftR_def)

section \<open>Powers of two\<close>

text \<open>\<open>bit_len\<close> is \<^verbatim>\<open>bits.Len64\<close> and \<^verbatim>\<open>big.Int.BitLen\<close>.\<close>

fun bit_len :: "nat \<Rightarrow> nat" where
  "bit_len n = (if n = 0 then 0 else Suc (bit_len (n div 2)))"

declare bit_len.simps [simp del]

definition LeadingZeros64 :: "u64 \<Rightarrow> nat" where
  "LeadingZeros64 value = 64 - bit_len (unat value)"

definition Log2ceil :: "u64 \<Rightarrow> u64" where
  "Log2ceil value = of_nat (64 - LeadingZeros64 value)"

definition NextPowerOf2 :: "u64 \<Rightarrow> u64" where
  "NextPowerOf2 value = push_bit (unat (Log2ceil value)) 1"

definition NextOrCurrentPowerOf2 :: "u64 \<Rightarrow> u64" where
  "NextOrCurrentPowerOf2 value =
     (let power = NextPowerOf2 value
      in if power = 2 * value then power div 2 else power)"

section \<open>Comparisons\<close>

definition MinInt :: "'a::linorder \<Rightarrow> 'a \<Rightarrow> 'a" where
  "MinInt value ceiling = (if value > ceiling then ceiling else value)"

text \<open>The variadic \<^verbatim>\<open>MaxInt(values...)\<close>: the first value and the rest.\<close>

fun MaxInt :: "'a::linorder \<Rightarrow> 'a list \<Rightarrow> 'a" where
  "MaxInt mx [] = mx"
| "MaxInt mx (value # values) = MaxInt (if value > mx then value else mx) values"

definition AbsValue :: "'a::len word \<Rightarrow> 'a word" where
  "AbsValue value = (if value <s 0 then - value else value)"

definition Within :: "'a::len word \<Rightarrow> 'a word \<Rightarrow> 'a word \<Rightarrow> bool" where
  "Within a b bound = (let mn = MinInt a b; mx = MaxInt a [b] in mx - mn \<le> bound)"

definition WithinRange :: "'a::len word \<Rightarrow> 'a word \<Rightarrow> 'a word \<Rightarrow> bool" where
  "WithinRange value a b \<longleftrightarrow> a \<le> value \<and> value \<le> b"

section \<open>Big integers\<close>

definition UintToBig :: "u64 \<Rightarrow> int" where
  "UintToBig value = uint value"

definition IsUint64 :: "int \<Rightarrow> bool" where
  "IsUint64 value \<longleftrightarrow> 0 \<le> value \<and> value < 2 ^ 64"

text \<open>\<^verbatim>\<open>big.Int.Uint64\<close> is the low 64 bits of the absolute value.\<close>

definition big_Uint64 :: "int \<Rightarrow> u64" where
  "big_Uint64 value = word_of_int \<bar>value\<bar>"

definition BigToUintSaturating :: "int \<Rightarrow> u64" where
  "BigToUintSaturating value =
     (if value < 0 then 0 else if \<not> IsUint64 value then NOT 0 else big_Uint64 value)"

definition BigToUintOrPanic :: "int \<Rightarrow> u64 res" where
  "BigToUintOrPanic value =
     (if value < 0 then Panic else if \<not> IsUint64 value then Panic else Ok (big_Uint64 value))"

definition SaturatingCastToUint :: "int \<Rightarrow> u64" where
  "SaturatingCastToUint value =
     (if value < 0 then 0 else if \<not> IsUint64 value then NOT 0 else big_Uint64 value)"

definition BigEquals :: "int \<Rightarrow> int \<Rightarrow> bool" where
  "BigEquals first second \<longleftrightarrow> first = second"

definition BigLessThan :: "int \<Rightarrow> int \<Rightarrow> bool" where
  "BigLessThan first second \<longleftrightarrow> first < second"

definition BigGreaterThan :: "int \<Rightarrow> int \<Rightarrow> bool" where
  "BigGreaterThan first second \<longleftrightarrow> first > second"

definition BigGreaterThanOrEqual :: "int \<Rightarrow> int \<Rightarrow> bool" where
  "BigGreaterThanOrEqual first second \<longleftrightarrow> first \<ge> second"

definition BigMin :: "int \<Rightarrow> int \<Rightarrow> int" where
  "BigMin first second = (if BigLessThan first second then first else second)"

definition BigMax :: "int \<Rightarrow> int \<Rightarrow> int" where
  "BigMax first second = (if BigGreaterThan first second then first else second)"

definition BigAdd :: "int \<Rightarrow> int \<Rightarrow> int" where
  "BigAdd augend addend = augend + addend"

definition BigSub :: "int \<Rightarrow> int \<Rightarrow> int" where
  "BigSub minuend subtrahend = minuend - subtrahend"

definition BigMul :: "int \<Rightarrow> int \<Rightarrow> int" where
  "BigMul multiplicand multiplier = multiplicand * multiplier"

text \<open>
  \<^verbatim>\<open>big.Int.Div\<close> is Euclidean division (the remainder is never negative) and panics on a zero
  divisor.
\<close>

definition euclid_div :: "int \<Rightarrow> int \<Rightarrow> int" where
  "euclid_div x y = (if y > 0 then x div y else - (x div (- y)))"

definition BigDiv :: "int \<Rightarrow> int \<Rightarrow> int res" where
  "BigDiv dividend divisor = (if divisor = 0 then Panic else Ok (euclid_div dividend divisor))"

definition BigAbs :: "int \<Rightarrow> int" where
  "BigAbs value = \<bar>value\<bar>"

definition BigAddByUint :: "int \<Rightarrow> u64 \<Rightarrow> int" where
  "BigAddByUint augend addend = augend + UintToBig addend"

definition BigSubByUint :: "int \<Rightarrow> u64 \<Rightarrow> int" where
  "BigSubByUint minuend subtrahend = minuend - UintToBig subtrahend"

definition BigMulByFrac :: "int \<Rightarrow> i64 \<Rightarrow> i64 \<Rightarrow> int res" where
  "BigMulByFrac value numerator denominator = BigDiv (value * sint numerator) (sint denominator)"

definition BigMulByUfrac :: "int \<Rightarrow> u64 \<Rightarrow> u64 \<Rightarrow> int res" where
  "BigMulByUfrac value numerator denominator = BigDiv (value * uint numerator) (uint denominator)"

definition BigMulByInt :: "int \<Rightarrow> i64 \<Rightarrow> int" where
  "BigMulByInt multiplicand multiplier = multiplicand * sint multiplier"

definition BigMulByUint :: "int \<Rightarrow> u64 \<Rightarrow> int" where
  "BigMulByUint multiplicand multiplier = multiplicand * uint multiplier"

definition BigDivByUint :: "int \<Rightarrow> u64 \<Rightarrow> int res" where
  "BigDivByUint dividend divisor = BigDiv dividend (UintToBig divisor)"

definition BigDivByInt :: "int \<Rightarrow> i64 \<Rightarrow> int res" where
  "BigDivByInt dividend divisor = BigDiv dividend (sint divisor)"

section \<open>Saturating arithmetic\<close>

definition SaturatingAdd :: "'a::len word \<Rightarrow> 'a word \<Rightarrow> 'a word" where
  "SaturatingAdd a b =
     (let s0 = a + b;
          s1 = (if 0 <s b \<and> s0 <s a then signed_drop_bit 1 (NOT 0) else s0);
          s2 = (if b <s 0 \<and> a <s s1 then signed_drop_bit 1 (NOT 0) + 1 else s1)
      in s2)"

definition SaturatingUAdd :: "'a::len word \<Rightarrow> 'a word \<Rightarrow> 'a word" where
  "SaturatingUAdd a b = (let s = a + b in if s < a \<or> s < b then NOT 0 else s)"

definition SaturatingSub :: "i64 \<Rightarrow> i64 \<Rightarrow> i64" where
  "SaturatingSub minuend subtrahend = SaturatingAdd minuend (- subtrahend)"

definition SaturatingUSub :: "'a::len word \<Rightarrow> 'a word \<Rightarrow> 'a word" where
  "SaturatingUSub a b = (if b \<ge> a then 0 else a - b)"

definition SaturatingUMul :: "'a::len word \<Rightarrow> 'a word \<Rightarrow> 'a word" where
  "SaturatingUMul a b =
     (let product = a * b in if b \<noteq> 0 \<and> product div b \<noteq> a then NOT 0 else product)"

text \<open>Go's signed division truncates towards zero and wraps on \<open>MinInt / -1\<close>.\<close>

definition tdiv :: "int \<Rightarrow> int \<Rightarrow> int" where
  "tdiv a b = sgn a * sgn b * (\<bar>a\<bar> div \<bar>b\<bar>)"

definition sdivw :: "'a::len word \<Rightarrow> 'a word \<Rightarrow> 'a word" where
  "sdivw a b = word_of_int (tdiv (sint a) (sint b))"

definition SaturatingMul :: "'a::len word \<Rightarrow> 'a word \<Rightarrow> 'a word" where
  "SaturatingMul a b =
     (let product = a * b
      in if b \<noteq> 0 \<and> sdivw product b \<noteq> a then
           (if (0 <s a \<and> 0 <s b) \<or> (a <s 0 \<and> b <s 0) then signed_drop_bit 1 (NOT 0)
            else signed_drop_bit 1 (NOT 0) + 1)
         else product)"

definition SaturatingCast :: "'t::len word \<Rightarrow> 's::len word" where
  "SaturatingCast value =
     (let tBig = (LENGTH('t) \<ge> LENGTH('s));
          sMax = drop_bit 1 (push_bit LENGTH('s) 1 - 1 :: 't word)
      in if tBig \<and> value > sMax then ucast sMax else ucast value)"

definition SaturatingUCast :: "'s::len word \<Rightarrow> 't::len word" where
  "SaturatingUCast value =
     (if value \<le>s 0 then 0
      else let tSmall = (LENGTH('t) < LENGTH('s))
           in if tSmall \<and> ucast (NOT 0 :: 't word) \<le>s value then NOT 0 else scast value)"

definition SaturatingUUCast :: "'t::len word \<Rightarrow> 'u::len word" where
  "SaturatingUUCast value =
     (let tBig = (LENGTH('t) > LENGTH('u))
      in if tBig \<and> value > ucast (NOT 0 :: 'u word) then NOT 0 else ucast value)"

definition SaturatingNeg :: "'a::len word \<Rightarrow> 'a word" where
  "SaturatingNeg value = (if value = NOT 0 then signed_drop_bit 1 (NOT 0) else - value)"

definition DivCeil :: "'a::len word \<Rightarrow> 'a word \<Rightarrow> 'a word res" where
  "DivCeil value divisor =
     (if divisor = 0 then Panic
      else if value mod divisor = 0 then Ok (value div divisor)
      else Ok (value div divisor + 1))"

definition SquareUint :: "u64 \<Rightarrow> u64" where
  "SquareUint value = value * value"

text \<open>The EVM's 256-bit numbers: two's complement, big endian.\<close>

definition U256 :: "int \<Rightarrow> int" where
  "U256 x = x mod 2 ^ 256"

definition U256Bytes :: "int \<Rightarrow> bytes" where
  "U256Bytes n = be_bytes 32 (nat (U256 n))"

definition Uint64ToU256Bytes :: "u64 \<Rightarrow> bytes" where
  "Uint64ToU256Bytes n = U256Bytes (UintToBig n)"

section \<open>Basis points and the exponential\<close>

type_synonym Bips = i64
type_synonym UBips = u64

definition OneInBips :: Bips where
  "OneInBips = 10000"

definition OneInUBips :: UBips where
  "OneInUBips = 10000"

definition NaturalToBips :: "i64 \<Rightarrow> Bips" where
  "NaturalToBips natural = SaturatingMul natural OneInBips"

definition PercentToBips :: "i64 \<Rightarrow> Bips" where
  "PercentToBips percentage = SaturatingMul percentage 100"

definition BigToBips :: "int \<Rightarrow> Bips" where
  "BigToBips natural = big_Uint64 natural"

definition BigMulByBips :: "int \<Rightarrow> Bips \<Rightarrow> int res" where
  "BigMulByBips value bips = BigMulByFrac value bips OneInBips"

definition IntMulByBips :: "i64 \<Rightarrow> Bips \<Rightarrow> i64" where
  "IntMulByBips value bips = sdivw (value * bips) OneInBips"

definition UintMulByBips :: "u64 \<Rightarrow> Bips \<Rightarrow> u64" where
  "UintMulByBips value bips = (value * bips) div OneInBips"

definition SaturatingCastToBips :: "u64 \<Rightarrow> Bips" where
  "SaturatingCastToBips value = SaturatingCast value"

definition BigDivToBips :: "int \<Rightarrow> int \<Rightarrow> Bips res" where
  "BigDivToBips dividend divisor =
     bindR (BigDiv (BigMulByInt dividend OneInBips) divisor) (\<lambda>value. Ok (BigToUintSaturating value))"

text \<open>Unsigned division of the source: panics on a zero divisor.\<close>

definition udivR :: "'a::len word \<Rightarrow> 'a word \<Rightarrow> 'a word res" where
  "udivR a b = (if b = 0 then Panic else Ok (a div b))"

text \<open>The loop of \<^verbatim>\<open>ApproxExpBasisPoints\<close> over the counters \<open>i = 1, \<dots>, degree - 1\<close>.\<close>

fun approx_exp_loop :: "u64 \<Rightarrow> u64 \<Rightarrow> nat list \<Rightarrow> u64 \<Rightarrow> u64 res" where
  "approx_exp_loop x degree [] r = Ok r"
| "approx_exp_loop x degree (i # is) r =
     bindR (udivR (SaturatingUMul r x) ((degree - of_nat i) * OneInBips))
       (\<lambda>q. approx_exp_loop x degree is (OneInBips + q))"

definition ApproxExpBasisPoints :: "Bips \<Rightarrow> u64 \<Rightarrow> Bips res" where
  "ApproxExpBasisPoints value degree =
     (let negative = (value <s 0);
          x = (if negative then - value else value);
          bips = OneInBips
      in bindR (udivR x degree) (\<lambda>q.
         bindR (approx_exp_loop x degree [1..<unat degree] (bips + q)) (\<lambda>r.
         if negative then bindR (udivR (bips * bips) r) (\<lambda>inv. Ok (SaturatingCast inv))
         else Ok (SaturatingCast r))))"

section \<open>Newton's square root\<close>

text \<open>
  The first loop halves until \<open>approx * approx / 2 \<le> value\<close>. It stops because a true guard
  needs a positive \<open>approx\<close>.
\<close>

function sqrt_start :: "u64 \<Rightarrow> u64 \<Rightarrow> u64" where
  "sqrt_start value approx =
     (if SaturatingUMul approx approx div 2 > value then sqrt_start value (approx div 2)
      else approx)"
  by pat_completeness auto
termination
proof (relation "measure (\<lambda>(value, approx). unat approx)", simp, goal_cases)
  case (1 v a)
  then have "a \<noteq> 0" by (auto simp: SaturatingUMul_def)
  then have "0 < unat a" by (simp add: unat_gt_0)
  then show ?case by (simp add: unat_div)
qed

declare sqrt_start.simps [simp del]

fun sqrt_newton :: "nat \<Rightarrow> u64 \<Rightarrow> u64 \<Rightarrow> u64 res" where
  "sqrt_newton 0 value approx = Ok approx"
| "sqrt_newton (Suc n) value approx =
     bindR (udivR value approx) (\<lambda>q.
       if approx > q then sqrt_newton n value (SaturatingUAdd q ((approx - q) div 2))
       else sqrt_newton n value (SaturatingUAdd approx ((q - approx) div 2)))"

definition ApproxSquareRoot :: "u64 \<Rightarrow> u64 res" where
  "ApproxSquareRoot value =
     (if value = 0 then Ok 0 else sqrt_newton 4 value (sqrt_start value value))"

section \<open>Correctness of the saturating operations\<close>

lemma unat_NOT_0: "unat (NOT 0 :: 'a::len word) = 2 ^ LENGTH('a) - 1"
  by (simp add: unsigned_minus_1_eq_mask mask_eq_exp_minus_1)

lemma word_less_max: "unat (x :: 'a::len word) \<le> 2 ^ LENGTH('a) - 1"
  using unsigned_less [of x] by (simp add: less_Suc_eq_le [symmetric])

lemma unat_SaturatingUAdd:
  "unat (SaturatingUAdd a b :: 'a::len word) = min (unat a + unat b) (2 ^ LENGTH('a) - 1)"
proof (cases "unat a + unat b < 2 ^ LENGTH('a)")
  case True
  then have "unat (a + b) = unat a + unat b" by (simp add: unat_plus_mod)
  with True show ?thesis
    by (auto simp: SaturatingUAdd_def Let_def word_less_nat_alt)
next
  case False
  have less: "unat a < 2 ^ LENGTH('a)" "unat b < 2 ^ LENGTH('a)" by (rule unsigned_less)+
  from False have "unat (a + b) = (unat a + unat b - 2 ^ LENGTH('a)) mod 2 ^ LENGTH('a)"
    by (simp add: unat_plus_mod le_mod_geq)
  also have "\<dots> = unat a + unat b - 2 ^ LENGTH('a)"
    using less by (intro mod_less) linarith
  finally have "a + b < a"
    unfolding word_less_nat_alt using False less by linarith
  with False show ?thesis
    by (simp add: SaturatingUAdd_def Let_def unat_NOT_0 del: bit.compl_zero)
qed

lemma unat_SaturatingUSub: "unat (SaturatingUSub a b) = unat a - unat b"
  by (auto simp: SaturatingUSub_def unat_sub word_le_nat_alt not_le)

lemma unat_SaturatingUMul:
  "unat (SaturatingUMul a b :: 'a::len word) = min (unat a * unat b) (2 ^ LENGTH('a) - 1)"
proof (cases "unat a * unat b < 2 ^ LENGTH('a)")
  case True
  then have u: "unat (a * b) = unat a * unat b"
    unfolding unat_times_mod by (rule mod_less)
  have "a * b div b = a" if "b \<noteq> 0"
  proof -
    have "unat b \<noteq> 0" using that by (simp add: unat_eq_0)
    then have "unat (a * b div b) = unat a" by (simp add: unat_div u)
    then show ?thesis by (rule unsigned_word_eqI)
  qed
  then have "SaturatingUMul a b = a * b" unfolding SaturatingUMul_def Let_def by meson
  then show ?thesis using True by (simp add: u)
next
  case False
  then have b: "b \<noteq> 0" by auto
  have "unat (a * b) < unat a * unat b"
    using False unsigned_less [of "a * b"] by (meson less_le_trans not_less)
  moreover have "0 < unat b" using b by (simp add: unat_gt_0)
  ultimately have "unat (a * b) div unat b < unat a"
    by (simp only: div_less_iff_less_mult)
  then have "a * b div b \<noteq> a"
    by (metis unat_div less_irrefl)
  then have "SaturatingUMul a b = NOT 0" using b unfolding SaturatingUMul_def Let_def by meson
  moreover have "2 ^ LENGTH('a) - 1 \<le> unat a * unat b" using False by simp
  ultimately show ?thesis by (simp only: unat_NOT_0 min_absorb2)
qed

lemma unat_MinInt: "unat (MinInt a b) = min (unat a) (unat b)"
  by (auto simp: MinInt_def word_less_nat_alt)

lemma MaxInt_eq: "MaxInt a xs = Max (insert a (set xs))"
proof (induction xs arbitrary: a)
  case Nil
  then show ?case by simp
next
  case (Cons x xs)
  have "MaxInt a (x # xs) = Max (insert (max a x) (set xs))"
    by (simp add: Cons max_def not_less)
  also have "\<dots> = Max (insert a (set (x # xs)))"
    by (cases "xs = []") (simp_all add: max.assoc insert_commute)
  finally show ?case .
qed


lemma sint_range:
  "- (2 ^ (LENGTH('a::len) - 1)) \<le> sint (x :: 'a word)" "sint x < 2 ^ (LENGTH('a) - 1)"
  by (rule sint_ge, rule sint_lt)

lemma signed_take_bit_high:
  fixes s :: int
  assumes "2 ^ n \<le> s" "s < 2 ^ Suc n"
  shows "signed_take_bit n s = s - 2 ^ Suc n"
proof -
  have "signed_take_bit n (s - 2 ^ Suc n) = s - 2 ^ Suc n"
    using assms by (intro signed_take_bit_int_eq_self) auto
  moreover have "take_bit (Suc n) (s - 2 ^ Suc n) = take_bit (Suc n) s"
    by (simp add: take_bit_eq_mod)
  ultimately show ?thesis
    by (metis signed_take_bit_eq_iff_take_bit_eq)
qed

lemma signed_take_bit_low:
  fixes s :: int
  assumes "s < - (2 ^ n)" "- (2 ^ Suc n) \<le> s"
  shows "signed_take_bit n s = s + 2 ^ Suc n"
proof -
  have "signed_take_bit n (s + 2 ^ Suc n) = s + 2 ^ Suc n"
    using assms by (intro signed_take_bit_int_eq_self) auto
  moreover have "take_bit (Suc n) (s + 2 ^ Suc n) = take_bit (Suc n) s"
    by (simp add: take_bit_eq_mod)
  ultimately show ?thesis
    by (metis signed_take_bit_eq_iff_take_bit_eq)
qed

lemma signed_ones: "signed_drop_bit n (NOT 0 :: 'a::len word) = NOT 0"
  by (rule bit_word_eqI) (simp add: bit_signed_drop_bit_iff bit_not_iff)

lemma SaturatingAdd_exact:
  fixes a b :: "'a::len word"
  assumes "- (2 ^ (LENGTH('a) - 1)) \<le> sint a + sint b" "sint a + sint b < 2 ^ (LENGTH('a) - 1)"
  shows "sint (SaturatingAdd a b) = sint a + sint b"
proof -
  have "sint (a + b) = sint a + sint b"
    using assms by (simp add: sint_word_add signed_take_bit_int_eq_self)
  then show ?thesis
    by (simp add: SaturatingAdd_def Let_def word_sless_alt)
qed

lemma SaturatingAdd_high:
  fixes a b :: "'a::len word"
  assumes "sint a + sint b \<ge> 2 ^ (LENGTH('a) - 1)"
  shows "sint (SaturatingAdd a b) = - 1"
proof -
  have l: "Suc (LENGTH('a) - 1) = LENGTH('a)" by simp
  have p: "(2::int) ^ LENGTH('a) = 2 * 2 ^ (LENGTH('a) - 1)"
    by (metis l power_Suc)
  note r = sint_range [of a] sint_range [of b]
  have "sint (a + b) = sint a + sint b - 2 ^ LENGTH('a)"
    unfolding sint_word_add using signed_take_bit_high [of "LENGTH('a) - 1" "sint a + sint b"] assms r p
    by simp
  then have "0 <s b" "a + b <s a" "\<not> b <s 0"
    using assms r p by (simp_all add: word_sless_alt)
  then show ?thesis
    by (simp add: SaturatingAdd_def Let_def signed_ones del: bit.compl_zero) simp
qed

lemma SaturatingAdd_low:
  fixes a b :: "'a::len word"
  assumes "sint a + sint b < - (2 ^ (LENGTH('a) - 1))"
  shows "SaturatingAdd a b = 0"
proof -
  have l: "Suc (LENGTH('a) - 1) = LENGTH('a)" by simp
  have p: "(2::int) ^ LENGTH('a) = 2 * 2 ^ (LENGTH('a) - 1)"
    by (metis l power_Suc)
  note r = sint_range [of a] sint_range [of b]
  have "sint (a + b) = sint a + sint b + 2 ^ LENGTH('a)"
    unfolding sint_word_add using signed_take_bit_low [of "sint a + sint b" "LENGTH('a) - 1"] assms r p
    by simp
  then have "\<not> 0 <s b" "a <s a + b" "b <s 0"
    using assms r p by (simp_all add: word_sless_alt)
  then show ?thesis
    by (simp add: SaturatingAdd_def Let_def signed_ones)
qed

lemma sint_small: "uint (w :: 'a::len word) < 2 ^ (LENGTH('a) - 1) \<Longrightarrow> sint w = uint w"
  unfolding sint_uint
  by (rule signed_take_bit_int_eq_self) (auto intro: order_trans [of _ 0])

lemma sMax_uint:
  assumes "LENGTH('s::len) \<le> LENGTH('t::len)"
  shows "uint (drop_bit 1 (push_bit LENGTH('s) 1 - 1 :: 't word)) = 2 ^ (LENGTH('s) - 1) - 1"
proof -
  have l: "LENGTH('s) - 1 \<le> LENGTH('t)" using assms by simp
  have "(push_bit LENGTH('s) 1 - 1 :: 't word) = mask LENGTH('s)"
    by (simp add: mask_eq_exp_minus_1 push_bit_of_1)
  moreover have "drop_bit 1 (uint (mask LENGTH('s) :: 't word)) = mask (LENGTH('s) - 1)"
    using assms by (simp add: uint_mask_eq drop_bit_mask_eq min_absorb2)
  moreover have "take_bit LENGTH('t) (uint (mask LENGTH('s) :: 't word)) = uint (mask LENGTH('s) :: 't word)"
    by (rule take_bit_int_eq_self) simp_all
  ultimately show ?thesis
    by (simp only: unsigned_drop_bit_eq mask_eq_exp_minus_1 [of "_ - _"])
qed

lemma SaturatingCast_sint:
  "sint (SaturatingCast (v :: 't::len word) :: 's::len word) = min (uint v) (2 ^ (LENGTH('s) - 1) - 1)"
proof -
  let ?m = "drop_bit 1 (push_bit LENGTH('s) 1 - 1 :: 't word)"
  have up: "sint (ucast w :: 's word) = uint w" if "uint w < 2 ^ (LENGTH('s) - 1)" for w :: "'t word"
  proof -
    have "uint (ucast w :: 's word) = uint w"
      using that less_le_trans [OF that power_increasing [of "LENGTH('s) - 1" "LENGTH('s)" "2::int"]]
      by (simp add: unsigned_ucast_eq take_bit_int_eq_self)
    with that show ?thesis by (simp add: sint_small)
  qed
  show ?thesis
  proof (cases "LENGTH('s) \<le> LENGTH('t) \<and> ?m < v")
    case True
    then have m: "uint ?m = 2 ^ (LENGTH('s) - 1) - 1" and "uint ?m < uint v"
      using sMax_uint word_less_def by blast+
    moreover have "(SaturatingCast v :: 's word) = ucast ?m"
      unfolding SaturatingCast_def Let_def using True by (rule if_P)
    ultimately show ?thesis using up [of ?m] by simp
  next
    case False
    have "uint v < 2 ^ (LENGTH('s) - 1)"
    proof (cases "LENGTH('s) \<le> LENGTH('t)")
      case True
      with False have "uint v \<le> uint ?m" by (simp add: word_le_def not_less)
      with sMax_uint [OF True] show ?thesis by simp
    next
      case f: False
      have "uint v < 2 ^ LENGTH('t)" by (rule uint_lt2p)
      also have "(2::int) ^ LENGTH('t) \<le> 2 ^ (LENGTH('s) - 1)" using f by (intro power_increasing) auto
      finally show ?thesis .
    qed
    moreover have "(SaturatingCast v :: 's word) = ucast v"
      unfolding SaturatingCast_def Let_def using False by (rule if_not_P)
    ultimately show ?thesis using up [of v] by simp
  qed
qed

lemma SaturatingUCast_unat:
  "uint (SaturatingUCast (v :: 's::len word) :: 't::len word) = max 0 (min (sint v) (2 ^ LENGTH('t) - 1))"
proof (cases "v \<le>s 0")
  case True
  then have "sint v \<le> 0" by (simp add: word_sle_eq)
  with True show ?thesis by (simp add: SaturatingUCast_def)
next
  case pos: False
  then have p: "0 < sint v" by (simp add: word_sle_eq)
  have sc: "uint (scast v :: 't word) = sint v" if "sint v < 2 ^ LENGTH('t)"
    unfolding scast_eq uint_word_of_int_eq using that p by (intro take_bit_int_eq_self) simp_all
  show ?thesis
  proof (cases "LENGTH('t) < LENGTH('s)")
    case True
    have "uint (ucast (NOT 0 :: 't word) :: 's word) = uint (NOT 0 :: 't word)"
      using True by (intro uint_up_ucast) (simp add: is_up)
    also have "\<dots> = 2 ^ LENGTH('t) - 1"
      by (simp add: unsigned_minus_1_eq_mask mask_eq_exp_minus_1)
    finally have e: "uint (ucast (NOT 0 :: 't word) :: 's word) = 2 ^ LENGTH('t) - 1" .
    have "(2::int) ^ LENGTH('t) \<le> 2 ^ (LENGTH('s) - 1)" using True by (intro power_increasing) auto
    with e have "uint (ucast (NOT 0 :: 't word) :: 's word) < 2 ^ (LENGTH('s) - 1)" by linarith
    then have m: "sint (ucast (NOT 0 :: 't word) :: 's word) = 2 ^ LENGTH('t) - 1"
      by (simp only: sint_small e)
    show ?thesis
    proof (cases "ucast (NOT 0 :: 't word) \<le>s v")
      case c: True
      then have "2 ^ LENGTH('t) - 1 \<le> sint v" by (simp only: word_sle_eq m)
      with c True pos show ?thesis
        by (simp add: SaturatingUCast_def unsigned_minus_1_eq_mask mask_eq_exp_minus_1)
    next
      case c: False
      then have "sint v < 2 ^ LENGTH('t) - 1" by (simp only: word_sle_eq m not_le)
      with c True pos p sc show ?thesis
        by (simp add: SaturatingUCast_def)
    qed
  next
    case False
    have "sint v < 2 ^ (LENGTH('s) - 1)" by (rule sint_lt)
    also have "(2::int) ^ (LENGTH('s) - 1) \<le> 2 ^ LENGTH('t)" using False by (intro power_increasing) auto
    finally show ?thesis using False pos p sc by (simp add: SaturatingUCast_def)
  qed
qed

lemma SaturatingUUCast_unat:
  "unat (SaturatingUUCast (v :: 't::len word) :: 'u::len word) = min (unat v) (2 ^ LENGTH('u) - 1)"
proof (cases "LENGTH('u) < LENGTH('t)")
  case True
  then have w: "unat (ucast (NOT 0 :: 'u word) :: 't word) = 2 ^ LENGTH('u) - 1"
    by (simp add: unat_ucast_bound unat_NOT_0 del: bit.compl_zero)
  show ?thesis
  proof (cases "v > ucast (NOT 0 :: 'u word)")
    case v: True
    then have "2 ^ LENGTH('u) - 1 < unat v" by (simp only: word_less_nat_alt w)
    with True v show ?thesis by (simp add: SaturatingUUCast_def unat_NOT_0 del: bit.compl_zero)
  next
    case v: False
    then have "unat v \<le> 2 ^ LENGTH('u) - 1" by (simp only: word_less_nat_alt w not_less)
    moreover have "(0::nat) < 2 ^ LENGTH('u)" by simp
    ultimately have "unat v < 2 ^ LENGTH('u)" by linarith
    then have "unat (ucast v :: 'u word) = unat v"
      by (simp add: unsigned_ucast_eq take_bit_nat_eq_self)
    with True v \<open>unat v \<le> _\<close> show ?thesis by (simp add: SaturatingUUCast_def del: bit.compl_zero)
  qed
next
  case False
  have "unat v < 2 ^ LENGTH('t)" by (rule unsigned_less)
  also have "(2::nat) ^ LENGTH('t) \<le> 2 ^ LENGTH('u)" using False by (intro power_increasing) auto
  finally have "unat v \<le> 2 ^ LENGTH('u) - 1" by simp
  with False show ?thesis
    by (simp add: SaturatingUUCast_def unat_ucast_bound)
qed

lemma tdiv_mult:
  assumes "y \<noteq> 0"
  shows "tdiv (x * y) y = x"
proof -
  have "sgn y * sgn y = 1" using assms by (simp add: sgn_if)
  then have "sgn (x * y) * sgn y = sgn x"
    by (simp only: sgn_mult mult.assoc mult_1_right)
  moreover have "\<bar>x * y\<bar> div \<bar>y\<bar> = \<bar>x\<bar>"
    using assms by (simp add: abs_mult)
  ultimately show ?thesis by (simp add: tdiv_def sgn_mult_abs)
qed

lemma sint_word_of_int_small:
  "- (2 ^ (LENGTH('a::len) - 1)) \<le> k \<Longrightarrow> k < 2 ^ (LENGTH('a) - 1) \<Longrightarrow> sint (word_of_int k :: 'a word) = k"
  by (simp add: sint_sbintrunc' signed_take_bit_int_eq_self)

lemma SaturatingMul_exact:
  fixes a b :: "'a::len word"
  assumes "- (2 ^ (LENGTH('a) - 1)) \<le> sint a * sint b" "sint a * sint b < 2 ^ (LENGTH('a) - 1)"
  shows "sint (SaturatingMul a b) = sint a * sint b"
proof -
  have p: "sint (a * b) = sint a * sint b"
    unfolding sint_word_mult using assms by (rule signed_take_bit_int_eq_self)
  have "sdivw (a * b) b = a" if "b \<noteq> 0"
  proof -
    have "sint b \<noteq> 0" using that by (simp add: signed_eq_0_iff)
    then show ?thesis by (simp add: sdivw_def p tdiv_mult)
  qed
  then have "SaturatingMul a b = a * b"
    unfolding SaturatingMul_def Let_def by meson
  with p show ?thesis by simp
qed

lemma int_div_le_self: "0 \<le> p \<Longrightarrow> 0 < b \<Longrightarrow> p div b \<le> (p :: int)"
  using zdiv_mono2 [of p 1 b] by simp

lemma SaturatingMul_high:
  fixes a b :: "'a::len word"
  assumes a: "0 < sint a" and b: "0 < sint b" and o: "sint a * sint b \<ge> 2 ^ (LENGTH('a) - 1)"
  shows "SaturatingMul a b = NOT 0"
proof -
  let ?p = "sint (a * b)"
  have r: "- (2 ^ (LENGTH('a) - 1)) \<le> ?p" "?p < 2 ^ (LENGTH('a) - 1)" by (rule sint_range)+
  have "sdivw (a * b) b \<noteq> a"
  proof (cases "0 \<le> ?p")
    case True
    then have t: "tdiv ?p (sint b) = ?p div sint b"
      using b by (simp add: tdiv_def sgn_if)
    have "?p div sint b < sint a"
    proof (rule ccontr)
      assume "\<not> ?p div sint b < sint a"
      then have "sint a * sint b \<le> (?p div sint b) * sint b"
        using b by (intro mult_right_mono) auto
      also have "\<dots> \<le> ?p" using b by (simp add: minus_mod_eq_div_mult [symmetric])
      finally show False using r o by linarith
    qed
    moreover have "0 \<le> ?p div sint b" using True b by (simp add: pos_imp_zdiv_nonneg_iff)
    moreover have "?p div sint b \<le> ?p" using True b by (intro int_div_le_self)
    ultimately have "sint (sdivw (a * b) b) < sint a"
      using r unfolding sdivw_def t by (subst sint_word_of_int_small) auto
    then show ?thesis by auto
  next
    case False
    then have t: "tdiv ?p (sint b) = - (- ?p div sint b)"
      using b by (simp add: tdiv_def sgn_if)
    have "0 \<le> - ?p div sint b" using False b by (simp add: pos_imp_zdiv_nonneg_iff)
    moreover have "- ?p div sint b \<le> - ?p" using False b by (intro int_div_le_self) auto
    ultimately have "sint (sdivw (a * b) b) \<le> 0"
      using r unfolding sdivw_def t by (subst sint_word_of_int_small) auto
    then show ?thesis using a by auto
  qed
  moreover have "b \<noteq> 0" using b by auto
  ultimately show ?thesis
    using a b by (simp add: SaturatingMul_def Let_def word_sless_alt signed_ones)
qed

lemma unat_less_2p: "unat (v :: 'a::len word) < 2 ^ LENGTH('a)"
  by (rule unsigned_less)

lemma bit_len_le_iff: "bit_len n \<le> k \<longleftrightarrow> n < 2 ^ k"
proof (induction n arbitrary: k rule: bit_len.induct)
  case (1 n)
  show ?case
  proof (cases "n = 0")
    case True
    then show ?thesis by (simp add: bit_len.simps)
  next
    case False
    note eq = bit_len.simps [of n]
    show ?thesis
    proof (cases k)
      case 0
      with False eq show ?thesis by simp
    next
      case (Suc j)
      have "bit_len n \<le> k \<longleftrightarrow> bit_len (n div 2) \<le> j" using False Suc eq by simp
      also have "\<dots> \<longleftrightarrow> n div 2 < 2 ^ j" using 1 False by simp
      also have "\<dots> \<longleftrightarrow> n < 2 ^ k" using Suc by (simp add: div_less_iff_less_mult mult.commute)
      finally show ?thesis .
    qed
  qed
qed

lemma less_bit_len_iff: "k < bit_len n \<longleftrightarrow> 2 ^ k \<le> n"
  using bit_len_le_iff [of n k] by auto

lemma bit_len_u64: "bit_len (unat (v :: u64)) \<le> 64"
  by (simp add: bit_len_le_iff)

lemma unat_Log2ceil: "unat (Log2ceil v) = bit_len (unat v)"
  using bit_len_u64 [of v] by (simp add: Log2ceil_def LeadingZeros64_def unat_of_nat)

lemma NextPowerOf2_unat:
  "unat (NextPowerOf2 v) = (if unat v < 2 ^ 63 then 2 ^ bit_len (unat v) else 0)"
proof -
  have k: "unat v < 2 ^ 63 \<longleftrightarrow> bit_len (unat v) < 64"
    using bit_len_le_iff [of "unat v" 63] by linarith
  have "NextPowerOf2 v = 2 ^ bit_len (unat v)"
    by (simp add: NextPowerOf2_def unat_Log2ceil push_bit_of_1)
  moreover have "unat ((2 :: u64) ^ j) = (if j < 64 then 2 ^ j else 0)" for j
  proof -
    have "unat ((2 :: u64) ^ j) = 2 ^ j mod 2 ^ 64"
      using unat_of_nat [of "2 ^ j", where 'a = 64] by simp
    moreover have "(2::nat) ^ j mod 2 ^ 64 = 0" if "\<not> j < 64"
      using that by (intro dvd_imp_mod_0 le_imp_power_dvd) simp
    moreover have "(2::nat) ^ j mod 2 ^ 64 = 2 ^ j" if "j < 64"
      using that by (intro mod_less power_strict_increasing) auto
    ultimately show ?thesis by auto
  qed
  ultimately show ?thesis using k by simp
qed

lemma nat_div_ceil:
  assumes "0 < (d::nat)"
  shows "(v + d - 1) div d = (if v mod d = 0 then v div d else v div d + 1)"
proof -
  obtain q r where v: "v = q * d + r" and r: "r < d"
    using assms mod_less_divisor div_mult_mod_eq by metis
  then have q: "v div d = q" and m: "v mod d = r" by auto
  show ?thesis
  proof (cases "r = 0")
    case True
    then have "(v + d - 1) div d = q"
      using v assms by (intro div_nat_eqI) (auto simp: algebra_simps)
    with True q m show ?thesis by simp
  next
    case False
    then have "(v + d - 1) div d = q + 1"
      using v r by (intro div_nat_eqI) (auto simp: algebra_simps)
    with False q m show ?thesis by simp
  qed
qed

lemma DivCeil_unat:
  fixes v d :: "'a::len word"
  assumes "d \<noteq> 0"
  shows "\<exists>q. DivCeil v d = Ok q \<and> unat q = (unat v + unat d - 1) div unat d"
proof -
  have d: "0 < unat d" using assms by (simp add: unat_gt_0)
  have m: "v mod d = 0 \<longleftrightarrow> unat v mod unat d = 0"
    by (metis unat_mod unat_eq_0)
  show ?thesis
  proof (cases "v mod d = 0")
    case True
    then show ?thesis
      using m d assms nat_div_ceil [of "unat d" "unat v"] by (simp add: DivCeil_def unat_div)
  next
    case False
    then have "unat d \<noteq> 1" "0 < unat v" using m by (auto intro: Suc_lessI gr0I)
    then have "unat v div unat d < unat v" using d by (intro div_less_dividend) auto
    then have "unat v div unat d + 1 < 2 ^ LENGTH('a)"
      using unat_less_2p [of v] by linarith
    then have "unat (v div d + 1) = unat v div unat d + 1"
      by (simp add: unat_plus_mod unat_div)
    then show ?thesis
      using False m d assms nat_div_ceil [of "unat d" "unat v"] by (simp add: DivCeil_def)
  qed
qed

fun exp_nat_loop :: "nat \<Rightarrow> nat \<Rightarrow> nat list \<Rightarrow> nat \<Rightarrow> nat" where
  "exp_nat_loop x degree [] r = r"
| "exp_nat_loop x degree (i # is) r =
     exp_nat_loop x degree is
       (10000 + min (r * x) (2 ^ 64 - 1) div ((degree - i) * 10000))"

definition exp_nat :: "nat \<Rightarrow> nat \<Rightarrow> nat" where
  "exp_nat x degree = exp_nat_loop x degree [1..<degree] (10000 + x div degree)"

lemma exp_nat_loop_mono:
  "x \<le> y \<Longrightarrow> r \<le> s \<Longrightarrow> exp_nat_loop x degree is r \<le> exp_nat_loop y degree is s"
proof (induction "is" arbitrary: r s)
  case Nil
  then show ?case by simp
next
  case (Cons i "is")
  have "min (r * x) (2 ^ 64 - 1) div ((degree - i) * 10000)
      \<le> min (s * y) (2 ^ 64 - 1) div ((degree - i) * 10000)"
    using Cons.prems by (intro div_le_mono min.mono mult_le_mono order_refl) 
  then show ?case
    unfolding exp_nat_loop.simps by (intro Cons.IH Cons.prems(1) add_left_mono)
qed

lemma exp_nat_loop_bound:
  assumes "r \<le> 1844674407380955" "\<forall>i \<in> set is. i < degree"
  shows "exp_nat_loop x degree is r \<le> 1844674407380955"
  using assms
proof (induction "is" arbitrary: r)
  case Nil
  then show ?case by simp
next
  case (Cons i "is")
  have "1 \<le> degree - i" using Cons.prems by auto
  then have "min (r * x) (2 ^ 64 - 1) div ((degree - i) * 10000) \<le> (2 ^ 64 - 1) div (1 * 10000)"
    by (intro order_trans [OF div_le_mono div_le_mono2]) auto
  then show ?case
    unfolding exp_nat_loop.simps using Cons.prems by (intro Cons.IH) auto
qed

lemma exp_nat_loop_lower:
  "10000 \<le> r \<Longrightarrow> 10000 \<le> exp_nat_loop x degree is r"
  by (induction "is" arbitrary: r) auto

lemma exp_nat_mono: "x \<le> y \<Longrightarrow> exp_nat x degree \<le> exp_nat y degree"
  unfolding exp_nat_def by (intro exp_nat_loop_mono) (auto intro: div_le_mono)

lemma exp_nat_lower: "10000 \<le> exp_nat x degree"
  unfolding exp_nat_def by (intro exp_nat_loop_lower) auto

lemma exp_nat_zero: "exp_nat 0 degree = 10000"
proof -
  have "exp_nat_loop 0 degree is 10000 = 10000" for "is"
    by (induction "is") auto
  then show ?thesis by (simp add: exp_nat_def)
qed

lemma unat_OneInBips: "unat OneInBips = 10000"
  by (simp add: OneInBips_def)

lemma approx_exp_loop_nat:
  assumes "\<forall>i \<in> set is. i < unat degree" and "unat degree * 10000 < 2 ^ 64"
  shows "\<exists>q. approx_exp_loop x degree is r = Ok q
           \<and> unat q = exp_nat_loop (unat x) (unat degree) is (unat r)"
  using assms
proof (induction "is" arbitrary: r)
  case Nil
  then show ?case by simp
next
  case (Cons i "is")
  let ?d = "(degree - of_nat i) * OneInBips"
  have i: "i < unat degree" using Cons.prems(1) by simp
  have "unat (degree - of_nat i) = unat degree - i"
    using i unat_u64_bound [of degree]
    by (subst unat_sub) (simp_all add: word_le_nat_alt unat_of_nat del: unat_u64_bound)
  then have d: "unat ?d = (unat degree - i) * 10000"
    using Cons.prems(2) by (simp add: unat_times_mod unat_OneInBips)
  then have d0: "?d \<noteq> 0" using i by (metis diff_is_0_eq mult_is_0 not_le unat_0 zero_neq_numeral)
  let ?m = "min (unat r * unat x) (2 ^ 64 - 1) div ((unat degree - i) * 10000)"
  have "?m \<le> (2 ^ 64 - 1) div (1 * 10000)"
    using i by (intro order_trans [OF div_le_mono div_le_mono2]) auto
  then have s: "unat (OneInBips + SaturatingUMul r x div ?d) = 10000 + ?m"
    by (simp add: unat_plus_mod unat_OneInBips unat_div d unat_SaturatingUMul)
  have "udivR (SaturatingUMul r x) ?d = Ok (SaturatingUMul r x div ?d)"
    using d0 by (simp add: udivR_def)
  then show ?case
    using Cons.IH [of "OneInBips + SaturatingUMul r x div ?d"] Cons.prems s by simp
qed

lemma unat_nonneg: "0 \<le> sint v \<Longrightarrow> unat (v :: 'a::len word) = nat (sint v)"
proof -
  assume p: "0 \<le> sint v"
  have "sint v < 2 ^ (LENGTH('a) - 1)" by (rule sint_lt)
  also have "(2::int) ^ (LENGTH('a) - 1) \<le> 2 ^ LENGTH('a)" by (intro power_increasing) auto
  finally have "uint v = sint v"
    using p by (simp only: uint_sint take_bit_int_eq_self)
  then show ?thesis by (simp only: unat_eq_nat_uint)
qed

lemma unat_neg: "sint v < 0 \<Longrightarrow> unat (- v :: 'a::len word) = nat (- sint v)"
proof -
  assume p: "sint v < 0"
  have r: "- (2 ^ (LENGTH('a) - 1)) \<le> sint v" by (rule sint_range)
  have "(2::int) ^ (LENGTH('a) - 1) < 2 ^ LENGTH('a)" by (intro power_strict_increasing) auto
  with r have "- sint v < 2 ^ LENGTH('a)" by linarith
  moreover have "- v = word_of_int (- sint v)" by simp
  ultimately have "uint (- v) = - sint v"
    using p by (simp only: uint_word_of_int_eq) (simp add: take_bit_int_eq_self)
  then show ?thesis by (simp only: unat_eq_nat_uint)
qed

lemma ApproxExp_core:
  assumes "unat x \<le> 2 ^ 63" "0 < unat degree" "unat degree * 10000 < 2 ^ 64"
  shows "\<exists>q. bindR (udivR x degree) (\<lambda>q. approx_exp_loop x degree [1..<unat degree] (OneInBips + q)) = Ok q
           \<and> unat q = exp_nat (unat x) (unat degree)"
proof -
  have "udivR x degree = Ok (x div degree)"
    using assms by (auto simp: udivR_def)
  moreover have "unat x div unat degree \<le> 2 ^ 63"
    using assms(1) by (meson div_le_dividend order_trans)
  then have "unat (OneInBips + x div degree) = 10000 + unat x div unat degree"
    by (simp add: unat_plus_mod unat_OneInBips unat_div)
  ultimately show ?thesis
    using approx_exp_loop_nat [of "[1..<unat degree]" degree x "OneInBips + x div degree"] assms
    by (simp add: exp_nat_def)
qed

lemma ApproxExpBasisPoints_nonneg:
  assumes "0 \<le> sint v" "0 < unat degree" "unat degree * 10000 < 2 ^ 64"
  shows "\<exists>q. ApproxExpBasisPoints v degree = Ok q
           \<and> sint q = min (int (exp_nat (nat (sint v)) (unat degree))) (2 ^ 63 - 1)"
proof -
  have v: "unat v = nat (sint v)" using assms(1) by (rule unat_nonneg)
  have "sint v < 2 ^ (LENGTH(64) - 1)" by (rule sint_lt)
  with v have "unat v \<le> 2 ^ 63" by simp
  from ApproxExp_core [OF this assms(2,3)] v obtain q
    where q: "bindR (udivR v degree) (\<lambda>q. approx_exp_loop v degree [1..<unat degree] (OneInBips + q)) = Ok q"
      and u: "unat q = exp_nat (nat (sint v)) (unat degree)" by auto
  have n: "\<not> v <s 0" using assms by (simp add: word_sless_alt)
  have "ApproxExpBasisPoints v degree = Ok (SaturatingCast q)"
    using q n by (auto simp: ApproxExpBasisPoints_def Let_def bindR_def split: res.splits)
  moreover have "sint (SaturatingCast q :: Bips) = min (uint q) (2 ^ 63 - 1)"
    using SaturatingCast_sint [of q, where 's = 64] by simp
  moreover have "uint q = int (exp_nat (nat (sint v)) (unat degree))"
    using u by (metis of_nat_unat)
  ultimately show ?thesis by simp
qed

lemma ApproxExpBasisPoints_neg:
  assumes "sint v < 0" "0 < unat degree" "unat degree * 10000 < 2 ^ 64"
  shows "\<exists>q. ApproxExpBasisPoints v degree = Ok q
           \<and> sint q = 100000000 div int (exp_nat (nat (- sint v)) (unat degree))"
proof -
  have v: "unat (- v) = nat (- sint v)" using assms(1) by (rule unat_neg)
  have "- (2 ^ (LENGTH(64) - 1)) \<le> sint v" by (rule sint_range)
  with v have "unat (- v) \<le> 2 ^ 63" by simp
  from ApproxExp_core [OF this assms(2,3)] v obtain q
    where q: "bindR (udivR (- v) degree) (\<lambda>q. approx_exp_loop (- v) degree [1..<unat degree] (OneInBips + q)) = Ok q"
      and u: "unat q = exp_nat (nat (- sint v)) (unat degree)" by auto
  have n: "v <s 0" using assms by (simp add: word_sless_alt)
  have q0: "q \<noteq> 0" using u exp_nat_lower [of "nat (- sint v)" "unat degree"] by auto
  let ?i = "OneInBips * OneInBips div q"
  have "ApproxExpBasisPoints v degree = Ok (SaturatingCast ?i)"
    using q n q0 by (auto simp: ApproxExpBasisPoints_def Let_def bindR_def udivR_def split: res.splits if_splits)
  moreover have "sint (SaturatingCast ?i :: Bips) = min (uint ?i) (2 ^ 63 - 1)"
    using SaturatingCast_sint [of ?i, where 's = 64] by simp
  moreover have "uint ?i = 100000000 div int (exp_nat (nat (- sint v)) (unat degree))"
    using u by (simp add: uint_div OneInBips_def) (metis of_nat_unat)
  moreover have "100000000 div int (exp_nat (nat (- sint v)) (unat degree)) \<le> 100000000"
    by (intro int_div_le_self) (use exp_nat_lower [of "nat (- sint v)" "unat degree"] in auto)
  ultimately show ?thesis by simp
qed

text \<open>The square root never divides by zero.\<close>

lemma sqrt_start_nonzero: "v \<noteq> 0 \<Longrightarrow> a \<noteq> 0 \<Longrightarrow> sqrt_start v a \<noteq> 0"
proof (induction v a rule: sqrt_start.induct)
  case (1 v a)
  show ?case
  proof (cases "SaturatingUMul a a div 2 > v")
    case True
    have "unat a \<noteq> 1"
    proof
      assume "unat a = 1"
      then have "unat (SaturatingUMul a a div 2) = 0"
        by (simp add: unat_div unat_SaturatingUMul)
      with True show False by (simp add: unat_eq_0)
    qed
    moreover have "0 < unat a" using 1 by (simp add: unat_gt_0)
    ultimately have "0 < unat (a div 2)" by (simp add: unat_div)
    then have "a div 2 \<noteq> 0" by auto
    with 1 True show ?thesis by (simp add: sqrt_start.simps [of v a])
  next
    case False
    with 1 show ?thesis by (simp add: sqrt_start.simps [of v a])
  qed
qed

lemma sqrt_newton_Ok: "v \<noteq> 0 \<Longrightarrow> a \<noteq> 0 \<Longrightarrow> \<exists>r. sqrt_newton n v a = Ok r \<and> r \<noteq> 0"
proof (induction n arbitrary: a)
  case 0
  then show ?case by simp
next
  case (Suc n)
  let ?q = "v div a"
  have a: "0 < unat a" and v: "0 < unat v" using Suc.prems by (simp_all add: unat_gt_0)
  have up: "SaturatingUAdd x y \<noteq> 0" if "0 < unat x + unat y" for x y :: u64
  proof -
    have "0 < unat (SaturatingUAdd x y)" using that by (simp add: unat_SaturatingUAdd)
    then show ?thesis by auto
  qed
  have n1: "0 < unat ?q + unat ((a - ?q) div 2)" if "a > ?q"
  proof (cases "unat ?q = 0")
    case True
    then have "unat v < unat a" using a by (simp add: unat_div div_eq_0_iff)
    moreover have "unat (a - ?q) = unat a" using True by (simp add: unat_eq_0)
    ultimately show ?thesis using v by (simp add: unat_div)
  qed simp
  have "0 < unat a + unat ((?q - a) div 2)" using a by simp
  with n1 up Suc show ?case
    by (auto simp: udivR_def)
qed

lemma ApproxSquareRoot_Ok: "\<exists>r. ApproxSquareRoot v = Ok r"
  using sqrt_newton_Ok [of v "sqrt_start v v" 4] sqrt_start_nonzero [of v v]
  by (auto simp: ApproxSquareRoot_def)

section \<open>Properties\<close>

text \<open>
  The unsigned saturating operations compute the exact sum, difference and product, clipped to
  the range of their type, at every width.
\<close>

theorem saturating_unsigned_exact:
  "unat (SaturatingUAdd a b :: 'a::len word) = min (unat a + unat b) (2 ^ LENGTH('a) - 1) \<and>
   unat (SaturatingUSub a b) = unat a - unat b \<and>
   unat (SaturatingUMul a b) = min (unat a * unat b) (2 ^ LENGTH('a) - 1)"
  by (simp add: unat_SaturatingUAdd unat_SaturatingUSub unat_SaturatingUMul)

text \<open>
  C27. The signed \<^verbatim>\<open>SaturatingAdd\<close> at 64 bits, on every branch: the exact sum when it fits, and
  otherwise \<open>-1\<close> on overflow and \<open>0\<close> on underflow, because the arithmetic shift
  \<^verbatim>\<open>^T(0) >> 1\<close> of a signed type is \<open>-1\<close> and not the largest value.
\<close>

theorem saturating_signed_add_branches:
  "sint (SaturatingAdd a b :: i64) =
     (if sint a + sint b \<ge> 2 ^ 63 then - 1
      else if sint a + sint b < - (2 ^ 63) then 0
      else sint a + sint b)"
  using SaturatingAdd_high [of a b] SaturatingAdd_low [of a b] SaturatingAdd_exact [of a b]
  by simp

text \<open>
  The basis-point exponential of a non-negative exponent never panics, is at least one (10000
  basis points) and grows with its argument, for every degree the pricing code can use.
\<close>

theorem approx_exp_monotone:
  assumes "0 \<le> sint v" and "sint v \<le> sint w"
    and "0 < unat degree" and "unat degree * 10000 < 2 ^ 64"
  shows "\<exists>q r. ApproxExpBasisPoints v degree = Ok q \<and> ApproxExpBasisPoints w degree = Ok r \<and>
           10000 \<le> sint q \<and> sint q \<le> sint r"
proof -
  obtain q where q: "ApproxExpBasisPoints v degree = Ok q"
      "sint q = min (int (exp_nat (nat (sint v)) (unat degree))) (2 ^ 63 - 1)"
    using ApproxExpBasisPoints_nonneg [of v degree] assms by blast
  obtain r where r: "ApproxExpBasisPoints w degree = Ok r"
      "sint r = min (int (exp_nat (nat (sint w)) (unat degree))) (2 ^ 63 - 1)"
    using ApproxExpBasisPoints_nonneg [of w degree] assms by fastforce
  have "exp_nat (nat (sint v)) (unat degree) \<le> exp_nat (nat (sint w)) (unat degree)"
    using assms by (intro exp_nat_mono) simp
  with q r exp_nat_lower [of "nat (sint v)" "unat degree"] show ?thesis
    by (auto simp: min_le_iff_disj)
qed

end
