(* ===== verification/Arbbits.thy ===== *)
theory Arbbits
  imports Arbmath
begin

text \<open>
  The rest of package \<^verbatim>\<open>util/arbmath\<close>: the big-endian codecs of \<^verbatim>\<open>bits.go\<close>, the 24-bit
  integers of \<^verbatim>\<open>uint24.go\<close>, \<^verbatim>\<open>time.go\<close> and the moving average of \<^verbatim>\<open>moving_average.go\<close>, with
  the round trips of the codecs and the meaning of the moving average.
\<close>

unbundle bit_operations_syntax

section \<open>Bytes and bits\<close>

definition FlipBit :: "hash \<Rightarrow> u8 \<Rightarrow> hash" where
  "FlipBit data b =
     (let bs = hash_bytes data; i = unat (b div 8)
      in bytes_hash (bs[i := (bs ! i) XOR push_bit (unat (7 - b mod 8)) 1]))"

fun ConcatByteSlices :: "bytes list \<Rightarrow> bytes" where
  "ConcatByteSlices [] = []"
| "ConcatByteSlices (sl # sls) = sl @ ConcatByteSlices sls"

definition WordsForBytes :: "u64 \<Rightarrow> u64" where
  "WordsForBytes nbytes = (nbytes + 31) div 32"

definition UintToBytes :: "u64 \<Rightarrow> bytes" where
  "UintToBytes v = be_bytes 8 (unat v)"

definition Uint32ToBytes :: "u32 \<Rightarrow> bytes" where
  "Uint32ToBytes v = be_bytes 4 (unat v)"

definition Uint16ToBytes :: "u16 \<Rightarrow> bytes" where
  "Uint16ToBytes v = be_bytes 2 (unat v)"

definition Uint8ToBytes :: "u8 \<Rightarrow> bytes" where
  "Uint8ToBytes v = [v]"

definition BoolToBytes :: "bool \<Rightarrow> bytes" where
  "BoolToBytes v = (if v then Uint8ToBytes 1 else Uint8ToBytes 0)"

text \<open>\<^verbatim>\<open>binary.BigEndian\<close> reads the first bytes of the slice and panics on a shorter one.\<close>

definition be_read :: "nat \<Rightarrow> bytes \<Rightarrow> 'a::len word res" where
  "be_read n bs = (if length bs < n then Panic else Ok (of_nat (be_nat (take n bs))))"

definition BytesToUint :: "bytes \<Rightarrow> u64 res" where
  "BytesToUint bs = be_read 8 bs"

definition BytesToUint32 :: "bytes \<Rightarrow> u32 res" where
  "BytesToUint32 bs = be_read 4 bs"

definition BytesToUint16 :: "bytes \<Rightarrow> u16 res" where
  "BytesToUint16 bs = be_read 2 bs"

definition BytesToUint8 :: "bytes \<Rightarrow> u8 res" where
  "BytesToUint8 bs = (case bs of [] \<Rightarrow> Panic | b # _ \<Rightarrow> Ok b)"

definition BytesToBool :: "bytes \<Rightarrow> bool res" where
  "BytesToBool bs = (case bs of [] \<Rightarrow> Panic | b # _ \<Rightarrow> Ok (b \<noteq> 0))"

definition BoolToUint8 :: "bool \<Rightarrow> u8" where
  "BoolToUint8 v = (if v then 1 else 0)"

definition BoolToUint32 :: "bool \<Rightarrow> u32" where
  "BoolToUint32 v = (if v then 1 else 0)"

definition UintToBool :: "'a::len word \<Rightarrow> bool" where
  "UintToBool v \<longleftrightarrow> v \<noteq> 0"

definition SliceWithRunoff :: "'a list \<Rightarrow> int \<Rightarrow> int \<Rightarrow> 'a list" where
  "SliceWithRunoff xs start0 end0 =
     (let len = int (length xs);
          start = MaxInt start0 [0];
          end' = MaxInt start [end0]
      in if start \<ge> len then []
         else drop (nat start) (take (nat (MinInt end' len)) xs))"

section \<open>24-bit integers and days\<close>

type_synonym Uint24 = u32

definition MaxUint24 :: nat where
  "MaxUint24 = 2 ^ 24 - 1"

text \<open>On a value out of range the Go function returns the maximum together with an error.\<close>

definition IntToUint24 :: "'a::len word \<Rightarrow> Uint24 \<times> go_error option" where
  "IntToUint24 v =
     (if unat v > MaxUint24 then (of_nat MaxUint24, Some (ErrMsg ''value out of range''))
      else (of_nat (unat v), None))"

definition BigToUint24OrPanic :: "int \<Rightarrow> Uint24 res" where
  "BigToUint24OrPanic v =
     (if v < 0 then Panic
      else if \<not> IsUint64 v \<or> unat (big_Uint64 v) > MaxUint24 then Panic
      else Ok (ucast (big_Uint64 v)))"

definition BytesToUint24 :: "bytes \<Rightarrow> Uint24 res" where
  "BytesToUint24 bs = be_read 4 (ConcatByteSlices [[0], bs])"

definition Uint24ToBytes :: "Uint24 \<Rightarrow> bytes" where
  "Uint24ToBytes v = drop 1 (be_bytes 4 (unat v))"

definition DaysToSeconds :: "'a::len word \<Rightarrow> u64" where
  "DaysToSeconds days = ucast days * 24 * 60 * 60"

section \<open>Moving average\<close>

text \<open>
  The instance at \<^verbatim>\<open>uint64\<close>, the one \<^verbatim>\<open>arbnode/batch_poster.go\<close> uses. The slice \<open>buffer\<close> has
  length up to its capacity, the period.
\<close>

record MovingAverage =
  ma_buffer :: "u64 list"
  ma_cap :: nat
  ma_bufferPosition :: nat
  ma_sum :: u64

definition NewMovingAverage :: "int \<Rightarrow> MovingAverage res" where
  "NewMovingAverage period =
     (if period \<le> 0 then Err (ErrMsg ''MovingAverage period must be positive'')
      else Ok \<lparr>ma_buffer = [], ma_cap = nat period, ma_bufferPosition = 0, ma_sum = 0\<rparr>)"

definition MovingAverage_Update :: "MovingAverage \<Rightarrow> u64 \<Rightarrow> MovingAverage" where
  "MovingAverage_Update a v =
     (let period = ma_cap a
      in if period = 0 then a
         else if length (ma_buffer a) < period then
           a\<lparr>ma_buffer := ma_buffer a @ [v], ma_sum := ma_sum a + v\<rparr>
         else
           a\<lparr>ma_sum := ma_sum a + v - ma_buffer a ! ma_bufferPosition a,
             ma_buffer := (ma_buffer a)[ma_bufferPosition a := v],
             ma_bufferPosition := (ma_bufferPosition a + 1) mod period\<rparr>)"

definition MovingAverage_Average :: "MovingAverage \<Rightarrow> u64" where
  "MovingAverage_Average a =
     (if ma_buffer a = [] then 0 else ma_sum a div of_nat (length (ma_buffer a)))"


lemma ConcatByteSlices_concat [simp]: "ConcatByteSlices xs = concat xs"
  by (induction xs) auto

lemma be_read_exact:
  "n * 8 = LENGTH('a) \<Longrightarrow> be_read n (be_bytes n (unat (v :: 'a::len word)) @ rest) = Ok v"
proof -
  assume n: "n * 8 = LENGTH('a)"
  have "(256::nat) ^ n = (2 ^ 8) ^ n" by simp
  also have "\<dots> = 2 ^ LENGTH('a)" by (simp only: n [symmetric] power_mult [symmetric] mult.commute)
  finally have "(256::nat) ^ n = 2 ^ LENGTH('a)" .
  then have "unat v mod 256 ^ n = unat v" using unat_less_2p [of v] by simp
  then show ?thesis by (simp add: be_read_def be_nat_be_bytes)
qed


lemma length_ToBytes [simp]:
  "length (Uint16ToBytes v) = 2" "length (Uint24ToBytes u) = 3" "length (Uint32ToBytes u) = 4"
  "length (UintToBytes x) = 8" "length (Uint8ToBytes b) = 1" "length (BoolToBytes c) = 1"
  by (simp_all add: Uint16ToBytes_def Uint24ToBytes_def Uint32ToBytes_def UintToBytes_def Uint8ToBytes_def BoolToBytes_def)

lemma BytesToUint_UintToBytes: "BytesToUint (UintToBytes v @ rest) = Ok v"
  by (simp add: BytesToUint_def UintToBytes_def be_read_exact)

lemma BytesToUint32_Uint32ToBytes: "BytesToUint32 (Uint32ToBytes v @ rest) = Ok v"
  by (simp add: BytesToUint32_def Uint32ToBytes_def be_read_exact)

lemma BytesToUint16_Uint16ToBytes: "BytesToUint16 (Uint16ToBytes v @ rest) = Ok v"
  by (simp add: BytesToUint16_def Uint16ToBytes_def be_read_exact)

lemma BytesToUint8_Uint8ToBytes: "BytesToUint8 (Uint8ToBytes v @ rest) = Ok v"
  by (simp add: BytesToUint8_def Uint8ToBytes_def)

lemma BytesToBool_BoolToBytes: "BytesToBool (BoolToBytes b @ rest) = Ok b"
  by (simp add: BytesToBool_def BoolToBytes_def Uint8ToBytes_def)

lemma BytesToUint24_Uint24ToBytes:
  assumes "unat v \<le> MaxUint24"
  shows "BytesToUint24 (Uint24ToBytes v @ rest) = Ok v"
proof -
  have v: "unat v < 256 ^ 3" using assms by (simp add: MaxUint24_def)
  have "drop 1 (be_bytes 4 (unat v)) = be_bytes 3 (unat v)"
    using drop_be_bytes [of 1 4 "unat v"] by simp
  moreover have "be_nat [0] = 0" by (simp add: be_nat_def)
  then have "be_nat (0 # be_bytes 3 (unat v)) = unat v"
    using be_nat_append [of "[0]" "be_bytes 3 (unat v)"] v
    by (simp add: be_nat_be_bytes)
  ultimately show ?thesis
    by (simp add: BytesToUint24_def be_read_def Uint24ToBytes_def)
qed

lemma IntToUint24_ok:
  "unat v \<le> MaxUint24 \<Longrightarrow> IntToUint24 v = (of_nat (unat v), None)"
  by (simp add: IntToUint24_def)

text \<open>
  The moving average against its specification: after feeding the history \<open>h\<close>, the buffer
  read from the write position is the last \<open>period\<close> values.
\<close>

definition ma_inv :: "MovingAverage \<Rightarrow> u64 list \<Rightarrow> bool" where
  "ma_inv a h \<longleftrightarrow>
     0 < ma_cap a \<and> ma_sum a = sum_list (ma_buffer a) \<and>
     (if length h < ma_cap a then ma_buffer a = h \<and> ma_bufferPosition a = 0
      else length (ma_buffer a) = ma_cap a \<and> ma_bufferPosition a < ma_cap a \<and>
        drop (ma_bufferPosition a) (ma_buffer a) @ take (ma_bufferPosition a) (ma_buffer a)
          = drop (length h - ma_cap a) h)"

lemma sum_list_update_group:
  fixes xs :: "'b::ab_group_add list"
  shows "k < length xs \<Longrightarrow> sum_list (xs[k := x]) = sum_list xs + x - xs ! k"
proof (induction xs arbitrary: k)
  case Nil
  then show ?case by simp
next
  case (Cons y ys)
  then show ?case by (cases k) (simp_all add: algebra_simps)
qed

lemma MovingAverage_Update_inv:
  assumes "ma_inv a h"
  shows "ma_inv (MovingAverage_Update a v) (h @ [v])"
proof (cases "length h < ma_cap a")
  case True
  with assms have b: "ma_buffer a = h" "ma_bufferPosition a = 0" "ma_sum a = sum_list h" "0 < ma_cap a"
    by (auto simp: ma_inv_def)
  with True show ?thesis
    by (auto simp: ma_inv_def MovingAverage_Update_def not_less)
next
  case False
  let ?b = "ma_buffer a" and ?p = "ma_bufferPosition a" and ?n = "ma_cap a"
  from False assms have n: "0 < ?n" and s: "ma_sum a = sum_list ?b" and l: "length ?b = ?n"
    and p: "?p < ?n" and rot: "drop ?p ?b @ take ?p ?b = drop (length h - ?n) h"
    by (auto simp: ma_inv_def)
  have split: "drop ?p ?b = ?b ! ?p # drop (Suc ?p) ?b"
    using p l by (simp add: Cons_nth_drop_Suc)
  have tl: "drop (Suc ?p) ?b @ take ?p ?b = drop (Suc (length h - ?n)) h"
    using rot split by (metis append_Cons drop_Suc list.sel(3) tl_drop)
  have "drop (length (h @ [v]) - ?n) (h @ [v]) = drop (Suc (length h - ?n)) h @ [v]"
    using False n by (simp add: Suc_diff_le)
  then have h: "drop (length (h @ [v]) - ?n) (h @ [v]) = drop (Suc ?p) ?b @ take ?p ?b @ [v]"
    using tl by simp
  have "drop ((?p + 1) mod ?n) (?b[?p := v]) @ take ((?p + 1) mod ?n) (?b[?p := v])
      = drop (Suc ?p) ?b @ take ?p ?b @ [v]"
  proof (cases "Suc ?p = ?n")
    case True
    then show ?thesis using l p by (simp add: upd_conv_take_nth_drop)
  next
    case False
    with p have "Suc ?p < ?n" by simp
    then show ?thesis using l by (simp add: upd_conv_take_nth_drop take_Suc_conv_app_nth)
  qed
  with h False n s l p show ?thesis
    by (simp add: ma_inv_def MovingAverage_Update_def sum_list_update_group)
qed

lemma ma_inv_foldl:
  "ma_inv a [] \<Longrightarrow> ma_inv (foldl MovingAverage_Update a h) h \<and> ma_cap (foldl MovingAverage_Update a h) = ma_cap a"
proof (induction h rule: rev_induct)
  case Nil
  then show ?case by simp
next
  case (snoc v h)
  then show ?case
    by (auto simp: MovingAverage_Update_inv) (auto simp: MovingAverage_Update_def Let_def)
qed

section \<open>Properties\<close>

text \<open>
  The moving average of a stream of values is the sum of its last \<open>period\<close> values (all of
  them while fewer have been added) divided by their number, whatever the length of the stream.
\<close>

theorem moving_average_last_period:
  assumes "NewMovingAverage period = Ok a"
  shows "MovingAverage_Average (foldl MovingAverage_Update a h) =
           (let k = min (length h) (nat period)
            in if k = 0 then 0 else sum_list (drop (length h - k) h) div of_nat k)"
proof -
  let ?b = "foldl MovingAverage_Update a h"
  have p: "0 < nat period" "ma_inv a []" "ma_cap a = nat period"
    using assms by (auto simp: NewMovingAverage_def ma_inv_def split: if_splits)
  have i: "ma_inv ?b h" and c: "ma_cap ?b = nat period"
    using p ma_inv_foldl [of a] by auto
  show ?thesis
  proof (cases "length h < nat period")
    case True
    with i c show ?thesis
      by (simp add: ma_inv_def MovingAverage_Average_def)
  next
    case False
    let ?q = "ma_bufferPosition ?b"
    from False i c have l: "length (ma_buffer ?b) = nat period"
      and s: "ma_sum ?b = sum_list (ma_buffer ?b)"
      and r: "drop ?q (ma_buffer ?b) @ take ?q (ma_buffer ?b) = drop (length h - nat period) h"
      by (auto simp: ma_inv_def)
    have "sum_list (ma_buffer ?b) = sum_list (drop ?q (ma_buffer ?b) @ take ?q (ma_buffer ?b))"
      by (metis add.commute append_take_drop_id sum_list_append)
    with False l s r p(1) show ?thesis
      by (auto simp: MovingAverage_Average_def min_absorb2)
  qed
qed

end
