(* ===== verification/Burn.thy ===== *)
theory Burn
  imports Arbbits
begin

text \<open>
  Gas accounting (\<^verbatim>\<open>arbos/burn/burn.go\<close> and the metered burner of
  \<^verbatim>\<open>precompiles/context.go\<close>) and the state every ArbOS call works on. A Go \<^verbatim>\<open>Burner\<close> interface
  value is a \<open>burner\<close>: the unmetered \<open>SystemBurner\<close> or a precompile's \<open>Context\<close>. The
  \<open>world\<close> holds what the storages, the burner and the EVM share by pointer: the storage of the
  ArbOS account, the burner, and the balances, code hashes and nonces of the state database.

  The second half is the library the other components rest on: symbolic execution under an
  unmetered writable burner (\<open>sys\<close>, \<open>charge\<close>, \<open>upd\<close>), and three closure properties of
  calls built with \<open>bindM\<close>: what they may write (\<open>frame\<close>), that a read-only burner lets
  nothing change (\<open>ro_safe\<close>), and that a metered run that succeeds does what the unmetered run
  does (\<open>meter_sim\<close>).
\<close>

section \<open>Burners\<close>

record SystemBurner =
  sys_gasBurnt :: u64
  sys_readOnly :: bool

record Context =
  ctx_caller :: address
  ctx_gasSupplied :: u64
  ctx_gasLeft :: u64
  ctx_readOnly :: bool

datatype burner = BSystem SystemBurner | BContext Context

definition NewSystemBurner :: "bool \<Rightarrow> SystemBurner" where
  "NewSystemBurner readOnly = \<lparr>sys_gasBurnt = 0, sys_readOnly = readOnly\<rparr>"

definition SystemBurner_Burn :: "u64 \<Rightarrow> (SystemBurner, unit) call" where
  "SystemBurner_Burn amount b = (Ok (), b\<lparr>sys_gasBurnt := sys_gasBurnt b + amount\<rparr>)"

definition SystemBurner_Burned :: "SystemBurner \<Rightarrow> u64" where
  "SystemBurner_Burned b = sys_gasBurnt b"

definition SystemBurner_BurnOut :: "(SystemBurner, unit) call" where
  "SystemBurner_BurnOut = panicM"

definition SystemBurner_GasLeft :: "(SystemBurner, u64) call" where
  "SystemBurner_GasLeft = panicM"

definition SystemBurner_Restrict :: "go_error option \<Rightarrow> (SystemBurner, unit) call" where
  "SystemBurner_Restrict err = returnM ()"

definition SystemBurner_HandleError :: "go_error \<Rightarrow> (SystemBurner, unit) call" where
  "SystemBurner_HandleError err = panicM"

definition Context_BurnOut :: "(Context, unit) call" where
  "Context_BurnOut c = (Err ErrOutOfGas, c\<lparr>ctx_gasLeft := 0\<rparr>)"

definition Context_Burn :: "u64 \<Rightarrow> (Context, unit) call" where
  "Context_Burn amount c =
     (if ctx_gasLeft c < amount then Context_BurnOut c
      else (Ok (), c\<lparr>ctx_gasLeft := ctx_gasLeft c - amount\<rparr>))"

definition Context_Burned :: "Context \<Rightarrow> u64" where
  "Context_Burned c = ctx_gasSupplied c - ctx_gasLeft c"

definition Context_GasLeft :: "(Context, u64) call" where
  "Context_GasLeft c = (Ok (ctx_gasLeft c), c)"

text \<open>\<^verbatim>\<open>log.Crit\<close> ends the process.\<close>

definition Context_Restrict :: "go_error option \<Rightarrow> (Context, unit) call" where
  "Context_Restrict err = panicM"

definition Context_HandleError :: "go_error \<Rightarrow> (Context, unit) call" where
  "Context_HandleError err = failM err"

section \<open>The shared state\<close>

record world =
  sdb :: "hash \<Rightarrow> hash"
  w_burner :: burner
  w_balance :: "address \<Rightarrow> int"
  w_codeHash :: "address \<Rightarrow> hash"
  w_nonce :: "address \<Rightarrow> u64"

type_synonym 'a arb = "(world, 'a) call"

text \<open>Dispatch of the \<^verbatim>\<open>Burner\<close> interface's methods on the world's burner.\<close>

definition on_burner ::
  "(SystemBurner, 'a) call \<Rightarrow> (Context, 'a) call \<Rightarrow> 'a arb" where
  "on_burner f g w =
     (case w_burner w of
        BSystem b \<Rightarrow> (case f b of (r, b') \<Rightarrow> (r, w\<lparr>w_burner := BSystem b'\<rparr>))
      | BContext c \<Rightarrow> (case g c of (r, c') \<Rightarrow> (r, w\<lparr>w_burner := BContext c'\<rparr>)))"

definition Burn :: "u64 \<Rightarrow> unit arb" where
  "Burn amount = on_burner (SystemBurner_Burn amount) (Context_Burn amount)"

definition Burned :: "u64 arb" where
  "Burned = on_burner (\<lambda>b. (Ok (SystemBurner_Burned b), b)) (\<lambda>c. (Ok (Context_Burned c), c))"

definition BurnOut :: "unit arb" where
  "BurnOut = on_burner SystemBurner_BurnOut Context_BurnOut"

definition GasLeft :: "u64 arb" where
  "GasLeft = on_burner SystemBurner_GasLeft Context_GasLeft"

definition Restrict :: "go_error option \<Rightarrow> unit arb" where
  "Restrict err = on_burner (SystemBurner_Restrict err) (Context_Restrict err)"

definition HandleError :: "go_error \<Rightarrow> unit arb" where
  "HandleError err = on_burner (SystemBurner_HandleError err) (Context_HandleError err)"

definition read_only :: "burner \<Rightarrow> bool" where
  "read_only b = (case b of BSystem s \<Rightarrow> sys_readOnly s | BContext c \<Rightarrow> ctx_readOnly c)"

definition ReadOnly :: "bool arb" where
  "ReadOnly w = (Ok (read_only (w_burner w)), w)"

text \<open>The state database's slots of the ArbOS account.\<close>

definition GetState :: "hash \<Rightarrow> hash arb" where
  "GetState slot w = (Ok (sdb w slot), w)"

definition SetState :: "hash \<Rightarrow> hash \<Rightarrow> unit arb" where
  "SetState slot v w = (Ok (), w\<lparr>sdb := (sdb w)(slot := v)\<rparr>)"

section \<open>The burner interface\<close>

text \<open>
  What the callers of a \<^verbatim>\<open>Burner\<close> rely on: burning either succeeds and is accounted for exactly, or
  fails, and it never panics nor changes the read-only flag.
\<close>

locale burner_spec =
  fixes burn :: "u64 \<Rightarrow> ('b, unit) call"
    and burned :: "'b \<Rightarrow> u64"
    and readonly :: "'b \<Rightarrow> bool"
  assumes burn_ok: "burn n b = (Ok (), b') \<Longrightarrow> burned b' = burned b + n"
    and burn_no_panic: "fst (burn n b) \<noteq> Panic"
    and burn_readonly: "readonly (snd (burn n b)) = readonly b"
begin

primrec burn_all :: "u64 list \<Rightarrow> ('b, unit) call" where
  "burn_all [] = returnM ()"
| "burn_all (n # ns) = thenM (burn n) (burn_all ns)"

lemma burn_all_accounts:
  "burn_all ns b = (Ok (), b') \<Longrightarrow> burned b' = burned b + sum_list ns \<and> readonly b' = readonly b"
proof (induction ns arbitrary: b)
  case Nil
  then show ?case by simp
next
  case (Cons n ns)
  from Cons.prems obtain c where c: "burn n b = (Ok (), c)" and r: "burn_all ns c = (Ok (), b')"
    by (auto simp: ok_iffs)
  from c have "burned c = burned b + n" and "readonly c = readonly b"
    using burn_ok burn_readonly [of n b] by auto
  with Cons.IH [OF r] show ?case by (simp add: algebra_simps)
qed

end

interpretation sysb: burner_spec SystemBurner_Burn SystemBurner_Burned sys_readOnly
  by unfold_locales (auto simp: SystemBurner_Burn_def SystemBurner_Burned_def)

interpretation ctxb: burner_spec Context_Burn Context_Burned ctx_readOnly
  by unfold_locales
    (auto simp: Context_Burn_def Context_BurnOut_def Context_Burned_def split: if_splits)

section \<open>Symbolic execution under an unmetered writable burner\<close>

definition sys :: "world \<Rightarrow> bool" where
  "sys w = (case w_burner w of BSystem b \<Rightarrow> \<not> sys_readOnly b | BContext c \<Rightarrow> False)"

definition charge :: "u64 \<Rightarrow> world \<Rightarrow> world" where
  "charge n w =
     (case w_burner w of
        BSystem b \<Rightarrow> w\<lparr>w_burner := BSystem (b\<lparr>sys_gasBurnt := sys_gasBurnt b + n\<rparr>)\<rparr>
      | BContext c \<Rightarrow> w)"

definition upd :: "hash \<Rightarrow> hash \<Rightarrow> world \<Rightarrow> world" where
  "upd a v w = w\<lparr>sdb := (sdb w)(a := v)\<rparr>"

lemma charge_sel [simp]:
  "sdb (charge n w) = sdb w" "w_balance (charge n w) = w_balance w"
  "w_codeHash (charge n w) = w_codeHash w" "w_nonce (charge n w) = w_nonce w" "sys (charge n w) = sys w"
  by (simp_all add: charge_def sys_def split: burner.splits)

lemma upd_sel [simp]:
  "sdb (upd a v w) = (sdb w)(a := v)" "w_balance (upd a v w) = w_balance w"
  "w_codeHash (upd a v w) = w_codeHash w" "w_nonce (upd a v w) = w_nonce w" "w_burner (upd a v w) = w_burner w" "sys (upd a v w) = sys w"
  by (simp_all add: upd_def sys_def)

lemma Burn_sys [run_simps]: "sys w \<Longrightarrow> Burn n w = (Ok (), charge n w)"
  by (auto simp: sys_def Burn_def on_burner_def SystemBurner_Burn_def charge_def split: burner.splits)

lemma sys_not_read_only: "sys w \<Longrightarrow> \<not> read_only (w_burner w)"
  by (auto simp: sys_def read_only_def split: burner.splits)

lemma ReadOnly_sys [run_simps]: "sys w \<Longrightarrow> ReadOnly w = (Ok False, w)"
  by (auto simp: sys_def ReadOnly_def read_only_def split: burner.splits)

lemma GetState_run [run_simps]: "GetState a w = (Ok (sdb w a), w)"
  by (simp add: GetState_def)

lemma SetState_run [run_simps]: "SetState a v w = (Ok (), upd a v w)"
  by (simp add: SetState_def upd_def)

lemma HandleError_sys [run_simps]: "sys w \<Longrightarrow> HandleError e w = (Panic, w)"
  by (auto simp: sys_def HandleError_def on_burner_def SystemBurner_HandleError_def split: burner.splits)

section \<open>Closure properties of calls\<close>

named_theorems frame_intros \<open>what a call may write\<close>
named_theorems ro_intros \<open>calls that change nothing under a read-only burner\<close>
named_theorems bal_intros \<open>calls that move no balance\<close>
named_theorems sim_intros \<open>calls whose metered success agrees with the unmetered run\<close>

text \<open>A call writes the ArbOS account's slots in \<open>F\<close> only.\<close>

definition frame :: "hash set \<Rightarrow> 'a arb \<Rightarrow> bool" where
  "frame F m \<longleftrightarrow> (\<forall>w a. a \<notin> F \<longrightarrow> sdb (snd (m w)) a = sdb w a)"

lemma frameD: "frame F m \<Longrightarrow> m w = (r, w') \<Longrightarrow> a \<notin> F \<Longrightarrow> sdb w' a = sdb w a"
  by (metis frame_def snd_conv)

lemma frame_mono: "frame F m \<Longrightarrow> F \<subseteq> G \<Longrightarrow> frame G m"
  by (auto simp: frame_def)

lemma snd_orM [simp]: "snd (orM z m w) = snd (m w)"
  by (simp add: orM_def split: prod.splits res.splits)

lemma snd_mapErrM [simp]: "snd (mapErrM e m w) = snd (m w)"
  by (simp add: mapErrM_def split: prod.splits res.splits)

lemma frame_bindM [frame_intros]:
  "frame F m \<Longrightarrow> (\<And>x. frame F (f x)) \<Longrightarrow> frame F (bindM m f)"
  by (auto simp: frame_def bindM_def split: prod.splits res.splits) (metis snd_conv)+

lemma frame_orM [frame_intros]: "frame F m \<Longrightarrow> frame F (orM z m)"
  by (simp add: frame_def)

lemma frame_mapErrM [frame_intros]: "frame F m \<Longrightarrow> frame F (mapErrM e m)"
  by (simp add: frame_def)

lemma frame_if [frame_intros]: "(b \<Longrightarrow> frame F m) \<Longrightarrow> (\<not> b \<Longrightarrow> frame F n) \<Longrightarrow> frame F (if b then m else n)"
  by simp

lemma frame_basic [frame_intros]:
  "frame F (returnM x)" "frame F (failM e)" "frame F panicM" "frame F (liftR r)"
  "frame F (Burn n)" "frame F ReadOnly" "frame F (GetState a)" "frame F (HandleError e)"
  by (simp_all add: frame_def Burn_def ReadOnly_def GetState_def HandleError_def on_burner_def
      split: burner.splits prod.splits)

lemma frame_SetState [frame_intros]: "a \<in> F \<Longrightarrow> frame F (SetState a v)"
  by (auto simp: frame_def SetState_def)

text \<open>A call moves no balance.\<close>

definition keeps_balance :: "'a arb \<Rightarrow> bool" where
  "keeps_balance m \<longleftrightarrow> (\<forall>w. w_balance (snd (m w)) = w_balance w)"

lemma keeps_balanceD: "keeps_balance m \<Longrightarrow> m w = (r, w') \<Longrightarrow> w_balance w' = w_balance w"
  by (metis keeps_balance_def snd_conv)

lemma keeps_balance_bindM [bal_intros]:
  "keeps_balance m \<Longrightarrow> (\<And>x. keeps_balance (f x)) \<Longrightarrow> keeps_balance (bindM m f)"
  by (auto simp: keeps_balance_def bindM_def split: prod.splits res.splits) (metis snd_conv)+

lemma keeps_balance_orM [bal_intros]: "keeps_balance m \<Longrightarrow> keeps_balance (orM z m)"
  by (simp add: keeps_balance_def)

lemma keeps_balance_basic [bal_intros]:
  "keeps_balance (returnM x)" "keeps_balance (failM e)" "keeps_balance panicM" "keeps_balance (liftR r)"
  "keeps_balance (Burn n)" "keeps_balance ReadOnly" "keeps_balance (GetState a)" "keeps_balance (SetState a v)"
  "keeps_balance (HandleError e)"
  by (simp_all add: keeps_balance_def Burn_def ReadOnly_def GetState_def SetState_def HandleError_def on_burner_def
      split: burner.splits prod.splits)

text \<open>Under a read-only burner a call leaves storage and balances alone.\<close>

definition ro_safe :: "'a arb \<Rightarrow> bool" where
  "ro_safe m \<longleftrightarrow>
     (\<forall>w. read_only (w_burner w) \<longrightarrow>
        sdb (snd (m w)) = sdb w \<and> w_balance (snd (m w)) = w_balance w
        \<and> read_only (w_burner (snd (m w))))"

lemma ro_safeD:
  "ro_safe m \<Longrightarrow> read_only (w_burner w) \<Longrightarrow> m w = (r, w') \<Longrightarrow>
     sdb w' = sdb w \<and> w_balance w' = w_balance w \<and> read_only (w_burner w')"
  by (metis ro_safe_def snd_conv)

lemma ro_safe_sdb: "ro_safe m \<Longrightarrow> read_only (w_burner w) \<Longrightarrow> sdb (snd (m w)) = sdb w"
  by (simp add: ro_safe_def)

lemma ro_safe_bindM [ro_intros]:
  assumes "ro_safe m" "\<And>x. ro_safe (f x)"
  shows "ro_safe (bindM m f)"
  unfolding ro_safe_def
proof (intro allI impI)
  fix w :: world assume w: "read_only (w_burner w)"
  obtain r w1 where m: "m w = (r, w1)" by (cases "m w")
  note 1 = ro_safeD [OF assms(1) w m]
  show "sdb (snd (bindM m f w)) = sdb w \<and> w_balance (snd (bindM m f w)) = w_balance w
      \<and> read_only (w_burner (snd (bindM m f w)))"
  proof (cases r)
    case (Ok x)
    obtain r2 w2 where f: "f x w1 = (r2, w2)" by (cases "f x w1")
    from 1 f assms(2) have "sdb w2 = sdb w1 \<and> w_balance w2 = w_balance w1 \<and> read_only (w_burner w2)"
      by (blast dest: ro_safeD)
    with Ok m f 1 show ?thesis by (simp add: bindM_def)
  qed (use m 1 in \<open>simp_all add: bindM_def\<close>)
qed

lemma ro_safe_orM [ro_intros]: "ro_safe m \<Longrightarrow> ro_safe (orM z m)"
  by (simp add: ro_safe_def)

lemma ro_safe_mapErrM [ro_intros]: "ro_safe m \<Longrightarrow> ro_safe (mapErrM e m)"
  by (simp add: ro_safe_def)

lemma ro_safe_if [ro_intros]: "(b \<Longrightarrow> ro_safe m) \<Longrightarrow> (\<not> b \<Longrightarrow> ro_safe n) \<Longrightarrow> ro_safe (if b then m else n)"
  by simp

lemma ro_safe_basic [ro_intros]:
  "ro_safe (returnM x)" "ro_safe (failM e)" "ro_safe panicM" "ro_safe (liftR r)"
  "ro_safe ReadOnly" "ro_safe (GetState a)"
  by (simp_all add: ro_safe_def ReadOnly_def GetState_def)

lemma ro_safe_guard [ro_intros]: "ro_safe (bindM ReadOnly (\<lambda>ro. if ro then failM e else m))"
  by (auto simp: ro_safe_def ReadOnly_def bindM_def)

lemma ro_safe_Burn [ro_intros]: "ro_safe (Burn n)" "ro_safe (HandleError e)"
  by (auto simp: ro_safe_def Burn_def HandleError_def on_burner_def read_only_def SystemBurner_Burn_def
      Context_Burn_def Context_BurnOut_def SystemBurner_HandleError_def Context_HandleError_def
      split: burner.splits prod.splits if_splits)

text \<open>
  A run that succeeds under any burner has the same result and the same effect on storage and
  balances as the run under an unmetered writable burner.
\<close>

definition same_data :: "world \<Rightarrow> world \<Rightarrow> bool" where
  "same_data w v \<longleftrightarrow> sdb w = sdb v \<and> w_balance w = w_balance v \<and> w_codeHash w = w_codeHash v
     \<and> w_nonce w = w_nonce v"

definition meter_sim :: "'a arb \<Rightarrow> bool" where
  "meter_sim m \<longleftrightarrow>
     (\<forall>w r w' v. m w = (Ok r, w') \<longrightarrow> sys v \<longrightarrow> same_data w v \<longrightarrow>
        (\<exists>v'. m v = (Ok r, v') \<and> sys v' \<and> same_data w' v'))"

lemma meter_simD:
  "meter_sim m \<Longrightarrow> m w = (Ok r, w') \<Longrightarrow> sys v \<Longrightarrow> same_data w v \<Longrightarrow>
     \<exists>v'. m v = (Ok r, v') \<and> sys v' \<and> same_data w' v'"
  by (auto simp: meter_sim_def)

lemma meter_sim_bindM [sim_intros]:
  assumes "meter_sim m" "\<And>x. meter_sim (f x)"
  shows "meter_sim (bindM m f)"
  unfolding meter_sim_def
proof (intro allI impI)
  fix w r w' v
  assume run: "bindM m f w = (Ok r, w')" and v: "sys v" "same_data w v"
  from run obtain x w1 where 1: "m w = (Ok x, w1)" and 2: "f x w1 = (Ok r, w')"
    by (auto simp: ok_iffs)
  from meter_simD [OF assms(1) 1 v] obtain v1 where v1: "m v = (Ok x, v1)" "sys v1" "same_data w1 v1"
    by blast
  from meter_simD [OF assms(2) 2 v1(2,3)] show "\<exists>v'. bindM m f v = (Ok r, v') \<and> sys v' \<and> same_data w' v'"
    using v1(1) by (auto simp: bindM_Ok)
qed

lemma meter_sim_if [sim_intros]:
  "(b \<Longrightarrow> meter_sim m) \<Longrightarrow> (\<not> b \<Longrightarrow> meter_sim n) \<Longrightarrow> meter_sim (if b then m else n)"
  by simp

lemma meter_sim_basic [sim_intros]:
  "meter_sim (returnM x)" "meter_sim (failM e)" "meter_sim panicM" "meter_sim (liftR r)"
  "meter_sim (GetState a)" "meter_sim (HandleError e)"
  by (auto simp: meter_sim_def GetState_def same_data_def HandleError_def on_burner_def
      SystemBurner_HandleError_def Context_HandleError_def split: burner.splits)

lemma meter_sim_guard [sim_intros]:
  "meter_sim m \<Longrightarrow> meter_sim (bindM ReadOnly (\<lambda>ro. if ro then failM e else m))"
  unfolding meter_sim_def
  by (auto simp: ReadOnly_def bindM_def sys_not_read_only split: if_splits)

lemma meter_sim_SetState [sim_intros]: "meter_sim (SetState a v)"
  by (auto simp: meter_sim_def SetState_def same_data_def sys_def)

lemma meter_sim_Burn [sim_intros]: "meter_sim (Burn n)"
proof -
  have "same_data w' (charge n v)" if "Burn n w = (Ok (), w')" "same_data w v" for w w' v
    using that by (auto simp: same_data_def Burn_def on_burner_def SystemBurner_Burn_def Context_Burn_def
        Context_BurnOut_def split: burner.splits prod.splits if_splits)
  then show ?thesis by (auto simp: meter_sim_def Burn_sys)
qed

end
