(* ===== verification/ArbosUtil.thy ===== *)
theory ArbosUtil
  imports Burn
begin

text \<open>
  \<^verbatim>\<open>arbos/util/util.go\<close> and \<^verbatim>\<open>arbos/util/transfer.go\<close>: conversions to storage words, the
  byte-stream readers and writers the retryable and message codecs use, the aliasing of L1
  addresses, and balance transfers outside of calls. An \<^verbatim>\<open>io.Reader\<close> over a byte slice is the
  list of the bytes not read yet; an \<^verbatim>\<open>io.Writer\<close> is the list of the bytes written so far. The
  tracer is absent (\<^verbatim>\<open>evm.Config.Tracer == nil\<close>).
\<close>

section \<open>Conversions\<close>

text \<open>\<^verbatim>\<open>big.Int.Bytes\<close>: the shortest big-endian representation of the absolute value.\<close>

definition big_bytes :: "int \<Rightarrow> bytes" where
  "big_bytes x = be_bytes ((bit_len (nat \<bar>x\<bar>) + 7) div 8) (nat \<bar>x\<bar>)"

definition BigToHash :: "int \<Rightarrow> hash" where
  "BigToHash x = bytes_hash (big_bytes x)"

definition AddressToHash :: "address \<Rightarrow> hash" where
  "AddressToHash a = bytes_hash (address_bytes a)"

definition IntToHash :: "i64 \<Rightarrow> hash" where
  "IntToHash v = BigToHash (sint v)"

definition UintToHash :: "u64 \<Rightarrow> hash" where
  "UintToHash v = BigToHash (uint v)"

definition HashPlusInt :: "hash \<Rightarrow> i64 \<Rightarrow> hash" where
  "HashPlusInt x y = BigToHash (uint x + sint y)"

definition AddressAliasOffset :: int where
  "AddressAliasOffset = 0x1111000000000000000000000000000000001111"

definition InverseAddressAliasOffset :: int where
  "InverseAddressAliasOffset = BigSub (2 ^ 160) AddressAliasOffset"

definition RemapL1Address :: "address \<Rightarrow> address" where
  "RemapL1Address l1Addr =
     (let sumBytes = big_bytes (int (be_nat (address_bytes l1Addr)) + AddressAliasOffset)
      in bytes_address (if length sumBytes > 20 then drop (length sumBytes - 20) sumBytes else sumBytes))"

definition InverseRemapL1Address :: "address \<Rightarrow> address" where
  "InverseRemapL1Address l1Addr =
     (let sumBytes = big_bytes (int (be_nat (address_bytes l1Addr)) + InverseAddressAliasOffset)
      in bytes_address (if length sumBytes > 20 then drop (length sumBytes - 20) sumBytes else sumBytes))"

text \<open>The transaction types of go-ethereum's Arbitrum fork that the sources name.\<close>

datatype tx_type =
    LegacyTxType | AccessListTxType | DynamicFeeTxType | BlobTxType
  | ArbitrumDepositTxType | ArbitrumUnsignedTxType | ArbitrumContractTxType | ArbitrumRetryTxType
  | ArbitrumSubmitRetryableTxType | ArbitrumInternalTxType | ArbitrumLegacyTxType

definition DoesTxTypeAlias :: "tx_type option \<Rightarrow> bool" where
  "DoesTxTypeAlias txType =
     (case txType of None \<Rightarrow> False
      | Some t \<Rightarrow> t \<in> {ArbitrumUnsignedTxType, ArbitrumContractTxType, ArbitrumRetryTxType})"

definition TxTypeHasPosterCosts :: "tx_type \<Rightarrow> bool" where
  "TxTypeHasPosterCosts t =
     (t \<notin> {ArbitrumUnsignedTxType, ArbitrumContractTxType, ArbitrumRetryTxType,
            ArbitrumInternalTxType, ArbitrumSubmitRetryableTxType})"

text \<open>The gas constants of go-ethereum that the sources use.\<close>

definition TxDataZeroGas :: u64 where "TxDataZeroGas = 4"
definition TxDataNonZeroGasEIP2028 :: u64 where "TxDataNonZeroGasEIP2028 = 16"
definition Keccak256Gas :: u64 where "Keccak256Gas = 30"
definition Keccak256WordGas :: u64 where "Keccak256WordGas = 6"
definition SstoreSetGasEIP2200 :: u64 where "SstoreSetGasEIP2200 = 20000"
definition GWei :: int where "GWei = 1000000000"

section \<open>Readers and writers\<close>

definition ErrEOF :: go_error where
  "ErrEOF = ErrMsg ''EOF''"

definition ErrUnexpectedEOF :: go_error where
  "ErrUnexpectedEOF = ErrMsg ''unexpected EOF''"

text \<open>\<^verbatim>\<open>io.ReadFull\<close> into a buffer of \<open>n\<close> bytes, and \<^verbatim>\<open>Writer.Write\<close>.\<close>

definition ReadFull :: "nat \<Rightarrow> (bytes, bytes) call" where
  "ReadFull n rd =
     (if n \<le> length rd then (Ok (take n rd), drop n rd)
      else (Err (if rd = [] then ErrEOF else ErrUnexpectedEOF), []))"

definition WriteBytes :: "bytes \<Rightarrow> (bytes, unit) call" where
  "WriteBytes bs wr = (Ok (), wr @ bs)"

definition HashFromReader :: "(bytes, hash) call" where
  "HashFromReader = bindM (ReadFull 32) (\<lambda>buf. returnM (bytes_hash buf))"

definition Uint256FromReader :: "(bytes, int) call" where
  "Uint256FromReader = bindM HashFromReader (\<lambda>asHash. returnM (uint asHash))"

definition HashToWriter :: "hash \<Rightarrow> (bytes, unit) call" where
  "HashToWriter val = WriteBytes (hash_bytes val)"

definition AddressFromReader :: "(bytes, address) call" where
  "AddressFromReader = bindM (ReadFull 20) (\<lambda>buf. returnM (bytes_address buf))"

definition AddressFrom256FromReader :: "(bytes, address) call" where
  "AddressFrom256FromReader =
     bindM HashFromReader (\<lambda>h. returnM (bytes_address (drop 12 (hash_bytes h))))"

definition AddressToWriter :: "address \<Rightarrow> (bytes, unit) call" where
  "AddressToWriter val = WriteBytes (address_bytes val)"

definition AddressTo256ToWriter :: "address \<Rightarrow> (bytes, unit) call" where
  "AddressTo256ToWriter val = thenM (WriteBytes (replicate 12 0)) (AddressToWriter val)"

definition Uint64FromReader :: "(bytes, u64) call" where
  "Uint64FromReader = bindM (ReadFull 8) (\<lambda>buf. returnM (of_nat (be_nat buf)))"

definition Uint64ToWriter :: "u64 \<Rightarrow> (bytes, unit) call" where
  "Uint64ToWriter val = WriteBytes (be_bytes 8 (unat val))"

definition BytestringFromReader :: "u64 \<Rightarrow> (bytes, bytes) call" where
  "BytestringFromReader maxBytesToRead =
     bindM Uint64FromReader (\<lambda>size.
       if size > maxBytesToRead then failM (ErrMsg ''size too large in ByteStringFromReader'')
       else ReadFull (unat size))"

definition BytestringToWriter :: "bytes \<Rightarrow> (bytes, unit) call" where
  "BytestringToWriter val = thenM (Uint64ToWriter (of_nat (length val))) (WriteBytes val)"

section \<open>Transfers\<close>

definition GetBalance :: "address \<Rightarrow> int arb" where
  "GetBalance a w = (Ok (w_balance w a), w)"

definition SubBalance :: "address \<Rightarrow> int \<Rightarrow> unit arb" where
  "SubBalance a n w = (Ok (), w\<lparr>w_balance := (w_balance w)(a := w_balance w a - n)\<rparr>)"

definition AddBalance :: "address \<Rightarrow> int \<Rightarrow> unit arb" where
  "AddBalance a n w = (Ok (), w\<lparr>w_balance := (w_balance w)(a := w_balance w a + n)\<rparr>)"

definition TransferBalance :: "address option \<Rightarrow> address option \<Rightarrow> int \<Rightarrow> unit arb" where
  "TransferBalance from to amount =
     (if amount < 0 then panicM
      else thenM
        (case from of None \<Rightarrow> returnM ()
         | Some f \<Rightarrow> bindM (GetBalance f) (\<lambda>balance.
             if BigLessThan balance amount then failM ErrInsufficientBalance
             else SubBalance f amount))
        (case to of None \<Rightarrow> returnM () | Some t \<Rightarrow> AddBalance t amount))"

definition MintBalance :: "address option \<Rightarrow> int \<Rightarrow> unit arb" where
  "MintBalance to amount w =
     (case TransferBalance None to amount w of
        (Err e, w') \<Rightarrow> (Panic, w')
      | rw \<Rightarrow> rw)"

definition BurnBalance :: "address option \<Rightarrow> int \<Rightarrow> unit arb" where
  "BurnBalance from amount = TransferBalance from None amount"

text \<open>The total of the balances of a set of accounts.\<close>

definition totalOf :: "address set \<Rightarrow> world \<Rightarrow> int" where
  "totalOf A w = sum (w_balance w) A"

section \<open>Conversions: lemmas\<close>

lemma be_nat_big_bytes [simp]: "be_nat (big_bytes x) = nat \<bar>x\<bar>"
proof -
  let ?n = "(bit_len (nat \<bar>x\<bar>) + 7) div 8"
  have "bit_len (nat \<bar>x\<bar>) \<le> 8 * ?n" by simp
  then have "nat \<bar>x\<bar> < 2 ^ (8 * ?n)" by (simp add: bit_len_le_iff)
  then show ?thesis by (simp add: big_bytes_def be_nat_be_bytes power_mult)
qed

lemma BigToHash_abs: "BigToHash x = word_of_int \<bar>x\<bar>"
  by (simp add: BigToHash_def bytes_hash_def)

lemma UintToHash_ucast: "UintToHash v = ucast v"
  by (simp add: UintToHash_def BigToHash_abs unsigned_ucast_eq)

lemma unat_UintToHash [simp]: "unat (UintToHash v) = unat v"
  by (simp add: UintToHash_ucast unat_ucast_bound)

lemma UintToHash_inject [simp]: "UintToHash x = UintToHash y \<longleftrightarrow> x = y"
  by (simp add: UintToHash_ucast ucast_inject)

lemma UintToHash_0 [simp]: "UintToHash 0 = 0"
  by (simp add: UintToHash_ucast)

lemma ucast_UintToHash [simp]: "ucast (UintToHash v) = v"
  by (simp add: UintToHash_ucast)

lemma AddressToHash_ucast: "AddressToHash a = ucast a"
  by (simp add: AddressToHash_def bytes_hash_address)

lemma AddressToHash_inject [simp]: "AddressToHash x = AddressToHash y \<longleftrightarrow> x = y"
  by (simp add: AddressToHash_ucast ucast_inject)

lemma bytes_address_hash [simp]: "bytes_address (hash_bytes h) = ucast h"
proof -
  have "be_nat (hash_bytes h) = unat h"
    using unat_less_2p [of h] by (simp add: hash_bytes_def be_nat_be_bytes)
  then show ?thesis by (simp add: bytes_address_def)
qed

lemma ucast_AddressToHash [simp]: "ucast (AddressToHash a) = a"
  by (simp add: AddressToHash_ucast)

lemma be_nat_address_bytes [simp]: "be_nat (address_bytes a) = unat a"
  using unat_less_2p [of a] by (simp add: address_bytes_def be_nat_be_bytes)

lemma be_nat_drop: "be_nat (drop k bs) = be_nat bs mod 256 ^ (length bs - k)"
proof -
  have "be_nat bs = be_nat (take k bs) * 256 ^ (length bs - k) + be_nat (drop k bs)"
    using be_nat_append [of "take k bs" "drop k bs"] by simp
  then show ?thesis
    using be_nat_less [of "drop k bs"] by simp
qed

lemma bytes_address_crop:
  "bytes_address (if length bs > 20 then drop (length bs - 20) bs else bs) = bytes_address bs"
proof -
  have "(of_nat (be_nat bs mod 256 ^ 20) :: address) = of_nat (be_nat bs)"
    by (simp add: of_nat_inverse word_eq_unat unat_of_nat)
  then show ?thesis by (simp add: bytes_address_def be_nat_drop)
qed

lemma RemapL1Address_add: "RemapL1Address a = a + word_of_int AddressAliasOffset"
  unfolding RemapL1Address_def Let_def bytes_address_crop
  by (simp add: bytes_address_def AddressAliasOffset_def)

lemma InverseRemapL1Address_sub: "InverseRemapL1Address a = a - word_of_int AddressAliasOffset"
proof -
  have "word_of_int InverseAddressAliasOffset = (- word_of_int AddressAliasOffset :: address)"
    by (simp add: InverseAddressAliasOffset_def AddressAliasOffset_def BigSub_def)
  moreover have "0 \<le> InverseAddressAliasOffset"
    by (simp add: InverseAddressAliasOffset_def AddressAliasOffset_def BigSub_def)
  ultimately show ?thesis
    unfolding InverseRemapL1Address_def Let_def bytes_address_crop
    by (simp add: bytes_address_def)
qed

text \<open>
  Aliasing an L1 address and un-aliasing it are inverse to each other, in both directions, and no
  address is its own alias.
\<close>

theorem alias_roundtrip:
  "InverseRemapL1Address (RemapL1Address a) = a \<and> RemapL1Address (InverseRemapL1Address a) = a
   \<and> RemapL1Address a \<noteq> a"
  by (simp add: RemapL1Address_add InverseRemapL1Address_sub) (simp add: AddressAliasOffset_def)

section \<open>Readers and writers: lemmas\<close>

lemma ReadFull_append [run_simps]: "length bs = n \<Longrightarrow> ReadFull n (bs @ rest) = (Ok bs, rest)"
  by (simp add: ReadFull_def)

lemma WriteBytes_run [run_simps]: "WriteBytes bs wr = (Ok (), wr @ bs)"
  by (simp add: WriteBytes_def)

lemma HashFromReader_run [run_simps]: "HashFromReader (hash_bytes h @ rest) = (Ok h, rest)"
  by (simp add: HashFromReader_def bindM_def ReadFull_append)

lemma Uint64FromReader_run [run_simps]: "Uint64FromReader (be_bytes 8 (unat v) @ rest) = (Ok v, rest)"
  using unat_less_2p [of v]
  by (simp add: Uint64FromReader_def bindM_def ReadFull_append be_nat_be_bytes)

lemma AddressFromReader_run [run_simps]: "AddressFromReader (address_bytes a @ rest) = (Ok a, rest)"
  by (simp add: AddressFromReader_def bindM_def ReadFull_append bytes_address_def)

lemma be_bytes_zero: "be_bytes n 0 = replicate n 0"
  by (induction n) (simp_all add: replicate_append_same)

lemma hash_bytes_AddressToHash: "hash_bytes (AddressToHash a) = replicate 12 0 @ address_bytes a"
proof -
  have "be_bytes 32 (unat a) = be_bytes 12 (unat a div 256 ^ 20) @ be_bytes 20 (unat a)"
    using be_bytes_append [of 12 20 "unat a"] by simp
  moreover have "unat a div 256 ^ 20 = 0"
    using unat_less_2p [of a] by simp
  moreover have "be_bytes 12 0 = replicate 12 0"
    by (rule be_bytes_zero)
  ultimately show ?thesis
    by (simp add: hash_bytes_def AddressToHash_ucast unat_ucast_bound address_bytes_def)
qed

lemma AddressFrom256FromReader_run [run_simps]:
  "AddressFrom256FromReader (replicate 12 0 @ address_bytes a @ rest) = (Ok a, rest)"
proof -
  have "HashFromReader (replicate 12 0 @ address_bytes a @ rest) = (Ok (AddressToHash a), rest)"
    using HashFromReader_run [of "AddressToHash a" rest] by (simp add: hash_bytes_AddressToHash)
  then show ?thesis
    by (simp add: AddressFrom256FromReader_def bindM_def hash_bytes_AddressToHash bytes_address_def)
qed

text \<open>
  Whatever the writers emit, the readers read back, leaving the rest of the stream: hashes,
  addresses in both encodings, 64-bit integers, and byte strings up to the reader's limit.
\<close>

theorem stream_roundtrip:
  assumes "length bs < 2 ^ 64" and "of_nat (length bs) \<le> limit"
  shows "HashFromReader (snd (HashToWriter h []) @ rest) = (Ok h, rest) \<and>
    AddressFromReader (snd (AddressToWriter a []) @ rest) = (Ok a, rest) \<and>
    AddressFrom256FromReader (snd (AddressTo256ToWriter a []) @ rest) = (Ok a, rest) \<and>
    Uint64FromReader (snd (Uint64ToWriter v []) @ rest) = (Ok v, rest) \<and>
    BytestringFromReader limit (snd (BytestringToWriter bs []) @ rest) = (Ok bs, rest)"
proof -
  have n: "unat (of_nat (length bs) :: u64) = length bs"
    using assms(1) by (simp add: unat_of_nat)
  have "Uint64FromReader (be_bytes 8 (length bs) @ bs @ rest) = (Ok (of_nat (length bs)), bs @ rest)"
    using Uint64FromReader_run [of "of_nat (length bs)" "bs @ rest"] by (simp add: n)
  then show ?thesis
    using assms(2)
    by (simp add: HashToWriter_def AddressToWriter_def AddressTo256ToWriter_def BytestringFromReader_def
        BytestringToWriter_def Uint64ToWriter_def run_simps n not_less)
qed

section \<open>Transfers: lemmas\<close>

lemma TransferBalance_run:
  "0 \<le> amount \<Longrightarrow> amount \<le> w_balance w f \<Longrightarrow>
     TransferBalance (Some f) (Some t) amount w =
       (Ok (), w\<lparr>w_balance := (w_balance w)(f := w_balance w f - amount,
          t := (if t = f then w_balance w f else w_balance w t + amount))\<rparr>)"
  by (simp add: TransferBalance_def GetBalance_def SubBalance_def AddBalance_def BigLessThan_def bindM_def)

text \<open>The balances after a payment.\<close>

definition moved :: "address \<Rightarrow> address \<Rightarrow> int \<Rightarrow> (address \<Rightarrow> int) \<Rightarrow> address \<Rightarrow> int" where
  "moved f t n B = B(f := B f - n, t := (if t = f then B f else B t + n))"

lemma moved_0 [simp]: "moved f t 0 B = B"
  by (auto simp: moved_def)

lemma moved_pool: "0 \<le> n \<Longrightarrow> B f - n \<le> moved f t n B f"
  by (simp add: moved_def)

lemma TransferBalance_moved:
  "0 \<le> n \<Longrightarrow> n \<le> w_balance w f \<Longrightarrow>
     TransferBalance (Some f) (Some t) n w = (Ok (), w\<lparr>w_balance := moved f t n (w_balance w)\<rparr>)"
  by (simp add: TransferBalance_run moved_def)

lemma sum_fun_upd:
  assumes "finite A" "a \<in> A"
  shows "(\<Sum>x\<in>A. if x = a then v else g x) = sum g A - g a + (v :: int)"
proof -
  have "(\<Sum>x\<in>A. if x = a then v else g x) = v + (\<Sum>x\<in>A - {a}. if x = a then v else g x)"
    using assms by (simp add: sum.remove [of A a])
  also have "(\<Sum>x\<in>A - {a}. if x = a then v else g x) = sum g (A - {a})"
    by (rule sum.cong) auto
  finally show ?thesis using assms by (simp add: sum.remove [of A a g])
qed

lemma totalOf_transfer:
  assumes "finite A" "f \<in> A" "t \<in> A"
    and "TransferBalance (Some f) (Some t) amount w = (r, w')"
  shows "totalOf A w' = totalOf A w"
  using assms
  by (auto simp: TransferBalance_def GetBalance_def SubBalance_def AddBalance_def bindM_def
      totalOf_def sum_fun_upd split: if_splits)

lemma TransferBalance_Ok_cases:
  assumes "TransferBalance from to amount w = (Ok (), w')"
  shows "0 \<le> amount" and "\<And>f. from = Some f \<Longrightarrow> amount \<le> w_balance w f"
  using assms
  by (auto simp: TransferBalance_def GetBalance_def BigLessThan_def bindM_def split: if_splits)

lemma TransferBalance_fails:
  "0 \<le> amount \<Longrightarrow> w_balance w f < amount \<Longrightarrow>
     TransferBalance (Some f) to amount w = (Err ErrInsufficientBalance, w)"
  by (simp add: TransferBalance_def GetBalance_def BigLessThan_def bindM_def)

lemma MintBalance_run:
  "0 \<le> amount \<Longrightarrow>
     MintBalance (Some t) amount w = (Ok (), w\<lparr>w_balance := (w_balance w)(t := w_balance w t + amount)\<rparr>)"
  by (simp add: MintBalance_def TransferBalance_def AddBalance_def)

lemma BurnBalance_run:
  "0 \<le> amount \<Longrightarrow> amount \<le> w_balance w f \<Longrightarrow>
     BurnBalance (Some f) amount w = (Ok (), w\<lparr>w_balance := (w_balance w)(f := w_balance w f - amount)\<rparr>)"
  by (simp add: BurnBalance_def TransferBalance_def GetBalance_def SubBalance_def BigLessThan_def bindM_def)

text \<open>
  A transfer between two accounts conserves the total of any set of accounts that holds both, whether
  it succeeds or fails; it succeeds exactly when the sender can pay and changes nothing when it
  fails; a mint always succeeds and raises the total by exactly the amount, and a burn the account can
  pay lowers it by exactly the amount.
\<close>

theorem transfer_conserves:
  assumes fin: "finite A" and f: "f \<in> A" and t: "t \<in> A" and amt: "0 \<le> amount"
  shows "totalOf A (snd (TransferBalance (Some f) (Some t) amount w)) = totalOf A w \<and>
    (if amount \<le> w_balance w f then fst (TransferBalance (Some f) (Some t) amount w) = Ok ()
     else TransferBalance (Some f) (Some t) amount w = (Err ErrInsufficientBalance, w)) \<and>
    fst (MintBalance (Some t) amount w) = Ok () \<and>
    totalOf A (snd (MintBalance (Some t) amount w)) = totalOf A w + amount \<and>
    (if amount \<le> w_balance w f
     then totalOf A (snd (BurnBalance (Some f) amount w)) = totalOf A w - amount
     else BurnBalance (Some f) amount w = (Err ErrInsufficientBalance, w))"
proof -
  have "totalOf A (snd (TransferBalance (Some f) (Some t) amount w)) = totalOf A w"
    by (rule totalOf_transfer [OF fin f t]) (rule surjective_pairing)
  have "if amount \<le> w_balance w f then fst (TransferBalance (Some f) (Some t) amount w) = Ok ()
     else TransferBalance (Some f) (Some t) amount w = (Err ErrInsufficientBalance, w)"
    using amt by (simp add: TransferBalance_run TransferBalance_fails)
  have "if amount \<le> w_balance w f
     then totalOf A (snd (BurnBalance (Some f) amount w)) = totalOf A w - amount
     else BurnBalance (Some f) amount w = (Err ErrInsufficientBalance, w)"
    using amt fin f
    by (simp add: BurnBalance_run totalOf_def sum_fun_upd) (simp add: BurnBalance_def TransferBalance_fails)
  have "fst (MintBalance (Some t) amount w) = Ok ()"
    and "totalOf A (snd (MintBalance (Some t) amount w)) = totalOf A w + amount"
    using amt fin t by (simp_all add: MintBalance_run totalOf_def sum_fun_upd)
  show ?thesis by (intro conjI; fact)
qed

end
