(* ===== verification/Storage.thy ===== *)
theory Storage
  imports ArbosUtil
begin

text \<open>
  \<^verbatim>\<open>arbos/storage/storage.go\<close>: the tree of storage spaces inside the ArbOS account and the typed
  values kept in its slots. A \<open>Storage\<close> is its storage key and whether it uses the shared hash
  cache; the account, the state database and the burner it points to are the \<open>world\<close>. Every
  operation takes the hash function \<open>K\<close> (\<^verbatim>\<open>crypto.Keccak256\<close>, which is not part of this
  repository) as its first argument.

  The lemmas show that distinct slots never share a location as long as the hash has no collision
  on the pages in use (\<open>collision_free\<close>), that the hash cache is transparent, that each typed value
  reads back what was written to it, and that byte strings survive storing. Each operation has a rule
  for symbolic execution and rules for what it writes, for read-only burners and for metering.
\<close>

section \<open>Definitions\<close>

record Storage =
  storageKey :: bytes
  hashCache :: bool

definition StorageReadCost :: u64 where
  "StorageReadCost = 800"

definition StorageWriteCost :: u64 where
  "StorageWriteCost = 20000"

definition StorageWriteZeroCost :: u64 where
  "StorageWriteZeroCost = 5000"

definition StorageCodeHashCost :: u64 where
  "StorageCodeHashCost = 2600"

definition arbosAddress :: address where
  "arbosAddress = 0xA4B05FFFFFFFFFFFFFFFFFFFFFFFFFFFFFFFFFFF"

definition NewGeth :: "Storage arb" where
  "NewGeth w = (Ok \<lparr>storageKey = [], hashCache = True\<rparr>, w\<lparr>w_nonce := (w_nonce w)(arbosAddress := 1)\<rparr>)"

text \<open>The hash cache maps joined inputs to hashes; adding an entry may evict others.\<close>

type_synonym cache = "bytes \<rightharpoonup> bytes"

definition cachedKeccak ::
  "(bytes \<Rightarrow> bytes) \<Rightarrow> (cache \<Rightarrow> cache) \<Rightarrow> Storage \<Rightarrow> bytes list \<Rightarrow> cache \<Rightarrow> bytes \<times> cache" where
  "cachedKeccak K evict s data c =
     (if \<not> hashCache s then (K (concat data), c)
      else case c (concat data) of
        Some h \<Rightarrow> (h, c)
      | None \<Rightarrow> (K (concat data), (evict c)(concat data \<mapsto> K (concat data))))"

definition mapAddress :: "(bytes \<Rightarrow> bytes) \<Rightarrow> Storage \<Rightarrow> hash \<Rightarrow> hash" where
  "mapAddress K s key =
     (let keyBytes = hash_bytes key; boundary = 31
      in bytes_hash (take boundary (K (storageKey s @ take boundary keyBytes)) @ [keyBytes ! boundary]))"

definition writeCost :: "hash \<Rightarrow> u64" where
  "writeCost v = (if v = 0 then StorageWriteZeroCost else StorageWriteCost)"

definition GetFree :: "(bytes \<Rightarrow> bytes) \<Rightarrow> Storage \<Rightarrow> hash \<Rightarrow> hash arb" where
  "GetFree K s key = GetState (mapAddress K s key)"

definition Get :: "(bytes \<Rightarrow> bytes) \<Rightarrow> Storage \<Rightarrow> hash \<Rightarrow> hash arb" where
  "Get K s key = thenM (Burn StorageReadCost) (GetFree K s key)"

definition GetStorageSlot :: "(bytes \<Rightarrow> bytes) \<Rightarrow> Storage \<Rightarrow> hash \<Rightarrow> hash" where
  "GetStorageSlot K s key = mapAddress K s key"

definition GetUint64 :: "(bytes \<Rightarrow> bytes) \<Rightarrow> Storage \<Rightarrow> hash \<Rightarrow> u64 arb" where
  "GetUint64 K s key = bindM (Get K s key) (\<lambda>v. returnM (big_Uint64 (uint v)))"

definition GetByUint64 :: "(bytes \<Rightarrow> bytes) \<Rightarrow> Storage \<Rightarrow> u64 \<Rightarrow> hash arb" where
  "GetByUint64 K s key = Get K s (UintToHash key)"

definition GetUint64ByUint64 :: "(bytes \<Rightarrow> bytes) \<Rightarrow> Storage \<Rightarrow> u64 \<Rightarrow> u64 arb" where
  "GetUint64ByUint64 K s key = GetUint64 K s (UintToHash key)"

definition GetUint32 :: "(bytes \<Rightarrow> bytes) \<Rightarrow> Storage \<Rightarrow> hash \<Rightarrow> u32 arb" where
  "GetUint32 K s key = bindM (Get K s key) (\<lambda>v. returnM (ucast (big_Uint64 (uint v))))"

definition Set :: "(bytes \<Rightarrow> bytes) \<Rightarrow> Storage \<Rightarrow> hash \<Rightarrow> hash \<Rightarrow> unit arb" where
  "Set K s key v =
     bindM ReadOnly (\<lambda>ro. if ro then failM ErrWriteProtection
       else thenM (Burn (writeCost v)) (SetState (mapAddress K s key) v))"

definition SetUint64 :: "(bytes \<Rightarrow> bytes) \<Rightarrow> Storage \<Rightarrow> hash \<Rightarrow> u64 \<Rightarrow> unit arb" where
  "SetUint64 K s key v = Set K s key (UintToHash v)"

definition SetByUint64 :: "(bytes \<Rightarrow> bytes) \<Rightarrow> Storage \<Rightarrow> u64 \<Rightarrow> hash \<Rightarrow> unit arb" where
  "SetByUint64 K s key v = Set K s (UintToHash key) v"

definition SetUint64ByUint64 :: "(bytes \<Rightarrow> bytes) \<Rightarrow> Storage \<Rightarrow> u64 \<Rightarrow> u64 \<Rightarrow> unit arb" where
  "SetUint64ByUint64 K s key v = Set K s (UintToHash key) (UintToHash v)"

definition SetUint32 :: "(bytes \<Rightarrow> bytes) \<Rightarrow> Storage \<Rightarrow> hash \<Rightarrow> u32 \<Rightarrow> unit arb" where
  "SetUint32 K s key v = Set K s key (UintToHash (ucast v))"

definition SetByUint32 :: "(bytes \<Rightarrow> bytes) \<Rightarrow> Storage \<Rightarrow> u32 \<Rightarrow> hash \<Rightarrow> unit arb" where
  "SetByUint32 K s key v = Set K s (UintToHash (ucast key)) v"

definition Clear :: "(bytes \<Rightarrow> bytes) \<Rightarrow> Storage \<Rightarrow> hash \<Rightarrow> unit arb" where
  "Clear K s key = Set K s key 0"

definition ClearByUint64 :: "(bytes \<Rightarrow> bytes) \<Rightarrow> Storage \<Rightarrow> u64 \<Rightarrow> unit arb" where
  "ClearByUint64 K s key = Set K s (UintToHash key) 0"

definition Swap :: "(bytes \<Rightarrow> bytes) \<Rightarrow> Storage \<Rightarrow> hash \<Rightarrow> hash \<Rightarrow> hash arb" where
  "Swap K s key newValue =
     bindM (Get K s key) (\<lambda>oldValue. thenM (Set K s key newValue) (returnM oldValue))"

definition OpenCachedSubStorage :: "(bytes \<Rightarrow> bytes) \<Rightarrow> Storage \<Rightarrow> bytes \<Rightarrow> Storage" where
  "OpenCachedSubStorage K s i = \<lparr>storageKey = K (storageKey s @ i), hashCache = True\<rparr>"

definition OpenSubStorage :: "(bytes \<Rightarrow> bytes) \<Rightarrow> Storage \<Rightarrow> bytes \<Rightarrow> Storage" where
  "OpenSubStorage K s i = \<lparr>storageKey = K (storageKey s @ i), hashCache = False\<rparr>"

definition WithoutCache :: "Storage \<Rightarrow> Storage" where
  "WithoutCache s = s\<lparr>hashCache := False\<rparr>"

text \<open>Byte strings: the length in slot 0, the contents in 32-byte words from slot 1 on.\<close>

fun ClearBytes_loop :: "(bytes \<Rightarrow> bytes) \<Rightarrow> Storage \<Rightarrow> nat \<Rightarrow> u64 \<Rightarrow> unit arb" where
  "ClearBytes_loop K s bytesLeft offset =
     (if bytesLeft > 0
      then thenM (ClearByUint64 K s offset)
             (ClearBytes_loop K s (if bytesLeft < 32 then 0 else bytesLeft - 32) (offset + 1))
      else returnM ())"

definition ClearBytes :: "(bytes \<Rightarrow> bytes) \<Rightarrow> Storage \<Rightarrow> unit arb" where
  "ClearBytes K s =
     bindM (GetUint64ByUint64 K s 0) (\<lambda>bytesLeft.
       thenM (ClearBytes_loop K s (unat bytesLeft) 1) (ClearByUint64 K s 0))"

fun SetBytes_loop :: "(bytes \<Rightarrow> bytes) \<Rightarrow> Storage \<Rightarrow> bytes \<Rightarrow> u64 \<Rightarrow> unit arb" where
  "SetBytes_loop K s b offset =
     (if length b \<ge> 32
      then thenM (SetByUint64 K s offset (bytes_hash (take 32 b)))
             (SetBytes_loop K s (drop 32 b) (offset + 1))
      else SetByUint64 K s offset (bytes_hash b))"

definition SetBytes :: "(bytes \<Rightarrow> bytes) \<Rightarrow> Storage \<Rightarrow> bytes \<Rightarrow> unit arb" where
  "SetBytes K s b =
     thenM (ClearBytes K s)
       (thenM (SetUint64ByUint64 K s 0 (of_nat (length b))) (SetBytes_loop K s b 1))"

fun GetBytes_loop :: "(bytes \<Rightarrow> bytes) \<Rightarrow> Storage \<Rightarrow> nat \<Rightarrow> u64 \<Rightarrow> bytes \<Rightarrow> bytes arb" where
  "GetBytes_loop K s bytesLeft offset ret =
     (if bytesLeft \<ge> 32
      then bindM (GetByUint64 K s offset)
             (\<lambda>nxt. GetBytes_loop K s (bytesLeft - 32) (offset + 1) (ret @ hash_bytes nxt))
      else bindM (GetByUint64 K s offset)
             (\<lambda>nxt. returnM (ret @ drop (32 - bytesLeft) (hash_bytes nxt))))"

definition GetBytes :: "(bytes \<Rightarrow> bytes) \<Rightarrow> Storage \<Rightarrow> bytes arb" where
  "GetBytes K s =
     bindM (GetUint64ByUint64 K s 0) (\<lambda>bytesLeft. GetBytes_loop K s (unat bytesLeft) 1 [])"

definition GetBytesSize :: "(bytes \<Rightarrow> bytes) \<Rightarrow> Storage \<Rightarrow> u64 arb" where
  "GetBytesSize K s = GetUint64ByUint64 K s 0"

declare ClearBytes_loop.simps [simp del] SetBytes_loop.simps [simp del] GetBytes_loop.simps [simp del]

definition GetCodeHash :: "address \<Rightarrow> hash arb" where
  "GetCodeHash a = thenM (Burn StorageCodeHashCost) (\<lambda>w. (Ok (w_codeHash w a), w))"

definition Keccak :: "(bytes \<Rightarrow> bytes) \<Rightarrow> bytes list \<Rightarrow> bytes arb" where
  "Keccak K data =
     (let byteCount = sum_list (map length data);
          cost = 30 + 6 * WordsForBytes (of_nat byteCount)
      in thenM (Burn cost) (returnM (K (concat data))))"

definition KeccakHash :: "(bytes \<Rightarrow> bytes) \<Rightarrow> bytes list \<Rightarrow> hash arb" where
  "KeccakHash K data = bindM (Keccak K data) (\<lambda>b. returnM (bytes_hash b))"

section \<open>Slots and typed values\<close>

text \<open>A \<^verbatim>\<open>StorageSlot\<close>, and each typed value embedding one, is the location of its slot.\<close>

type_synonym StorageSlot = hash

definition NewSlot :: "(bytes \<Rightarrow> bytes) \<Rightarrow> Storage \<Rightarrow> u64 \<Rightarrow> StorageSlot" where
  "NewSlot K s offset = mapAddress K s (UintToHash offset)"

definition OpenStorageBackedInt64 :: "(bytes \<Rightarrow> bytes) \<Rightarrow> Storage \<Rightarrow> u64 \<Rightarrow> StorageSlot" where
  "OpenStorageBackedInt64 K s offset = NewSlot K s offset"

definition OpenStorageBackedBips :: "(bytes \<Rightarrow> bytes) \<Rightarrow> Storage \<Rightarrow> u64 \<Rightarrow> StorageSlot" where
  "OpenStorageBackedBips K s offset = NewSlot K s offset"

definition OpenStorageBackedUBips :: "(bytes \<Rightarrow> bytes) \<Rightarrow> Storage \<Rightarrow> u64 \<Rightarrow> StorageSlot" where
  "OpenStorageBackedUBips K s offset = NewSlot K s offset"

definition OpenStorageBackedUint16 :: "(bytes \<Rightarrow> bytes) \<Rightarrow> Storage \<Rightarrow> u64 \<Rightarrow> StorageSlot" where
  "OpenStorageBackedUint16 K s offset = NewSlot K s offset"

definition OpenStorageBackedUint24 :: "(bytes \<Rightarrow> bytes) \<Rightarrow> Storage \<Rightarrow> u64 \<Rightarrow> StorageSlot" where
  "OpenStorageBackedUint24 K s offset = NewSlot K s offset"

definition OpenStorageBackedUint32 :: "(bytes \<Rightarrow> bytes) \<Rightarrow> Storage \<Rightarrow> u64 \<Rightarrow> StorageSlot" where
  "OpenStorageBackedUint32 K s offset = NewSlot K s offset"

definition OpenStorageBackedUint64 :: "(bytes \<Rightarrow> bytes) \<Rightarrow> Storage \<Rightarrow> u64 \<Rightarrow> StorageSlot" where
  "OpenStorageBackedUint64 K s offset = NewSlot K s offset"

definition OpenStorageBackedBigUint :: "(bytes \<Rightarrow> bytes) \<Rightarrow> Storage \<Rightarrow> u64 \<Rightarrow> StorageSlot" where
  "OpenStorageBackedBigUint K s offset = NewSlot K s offset"

definition OpenStorageBackedBigInt :: "(bytes \<Rightarrow> bytes) \<Rightarrow> Storage \<Rightarrow> u64 \<Rightarrow> StorageSlot" where
  "OpenStorageBackedBigInt K s offset = NewSlot K s offset"

definition OpenStorageBackedAddress :: "(bytes \<Rightarrow> bytes) \<Rightarrow> Storage \<Rightarrow> u64 \<Rightarrow> StorageSlot" where
  "OpenStorageBackedAddress K s offset = NewSlot K s offset"

definition OpenStorageBackedAddressOrNil :: "(bytes \<Rightarrow> bytes) \<Rightarrow> Storage \<Rightarrow> u64 \<Rightarrow> StorageSlot" where
  "OpenStorageBackedAddressOrNil K s offset = NewSlot K s offset"

definition StorageSlot_Get :: "StorageSlot \<Rightarrow> hash arb" where
  "StorageSlot_Get ss = thenM (Burn StorageReadCost) (GetState ss)"

definition StorageSlot_Set :: "StorageSlot \<Rightarrow> hash \<Rightarrow> unit arb" where
  "StorageSlot_Set ss v =
     bindM ReadOnly (\<lambda>ro. if ro then failM ErrWriteProtection
       else thenM (Burn (writeCost v)) (SetState ss v))"

definition StorageBackedInt64_Get :: "StorageSlot \<Rightarrow> i64 arb" where
  "StorageBackedInt64_Get ss =
     bindM (StorageSlot_Get ss) (\<lambda>raw.
       if \<not> IsUint64 (uint raw) then panicM else returnM (big_Uint64 (uint raw)))"

definition StorageBackedInt64_Set :: "StorageSlot \<Rightarrow> i64 \<Rightarrow> unit arb" where
  "StorageBackedInt64_Set ss v = StorageSlot_Set ss (UintToHash v)"

definition StorageBackedUint16_Get :: "StorageSlot \<Rightarrow> u16 arb" where
  "StorageBackedUint16_Get ss =
     bindM (StorageSlot_Get ss) (\<lambda>raw.
       if \<not> IsUint64 (uint raw) \<or> big_Uint64 (uint raw) > 0xFFFF then panicM
       else returnM (ucast (big_Uint64 (uint raw))))"

definition StorageBackedUint16_Set :: "StorageSlot \<Rightarrow> u16 \<Rightarrow> unit arb" where
  "StorageBackedUint16_Set ss v = StorageSlot_Set ss (BigToHash (uint v))"

definition StorageBackedUint24_Get :: "StorageSlot \<Rightarrow> u32 arb" where
  "StorageBackedUint24_Get ss =
     bindM (StorageSlot_Get ss) (\<lambda>raw. liftR (BigToUint24OrPanic (uint raw)))"

definition StorageBackedUint24_Set :: "StorageSlot \<Rightarrow> u32 \<Rightarrow> unit arb" where
  "StorageBackedUint24_Set ss v = StorageSlot_Set ss (BigToHash (uint v))"

definition StorageBackedUint32_Get :: "StorageSlot \<Rightarrow> u32 arb" where
  "StorageBackedUint32_Get ss =
     bindM (StorageSlot_Get ss) (\<lambda>raw.
       if \<not> IsUint64 (uint raw) \<or> big_Uint64 (uint raw) > 0xFFFFFFFF then panicM
       else returnM (ucast (big_Uint64 (uint raw))))"

definition StorageBackedUint32_Set :: "StorageSlot \<Rightarrow> u32 \<Rightarrow> unit arb" where
  "StorageBackedUint32_Set ss v = StorageSlot_Set ss (BigToHash (uint v))"

definition StorageBackedUint64_Get :: "StorageSlot \<Rightarrow> u64 arb" where
  "StorageBackedUint64_Get ss =
     bindM (StorageSlot_Get ss) (\<lambda>raw.
       if \<not> IsUint64 (uint raw) then panicM else returnM (big_Uint64 (uint raw)))"

definition StorageBackedUint64_Set :: "StorageSlot \<Rightarrow> u64 \<Rightarrow> unit arb" where
  "StorageBackedUint64_Set ss v = StorageSlot_Set ss (BigToHash (uint v))"

definition StorageBackedUint64_Clear :: "StorageSlot \<Rightarrow> unit arb" where
  "StorageBackedUint64_Clear ss = StorageBackedUint64_Set ss 0"

definition StorageBackedUint64_Increment :: "StorageSlot \<Rightarrow> u64 arb" where
  "StorageBackedUint64_Increment ss =
     bindM (StorageBackedUint64_Get ss) (\<lambda>old.
       if old + 1 < old then panicM
       else thenM (StorageBackedUint64_Set ss (old + 1)) (returnM (old + 1)))"

definition StorageBackedUint64_Decrement :: "StorageSlot \<Rightarrow> u64 arb" where
  "StorageBackedUint64_Decrement ss =
     bindM (StorageBackedUint64_Get ss) (\<lambda>old.
       if old = 0 then panicM
       else thenM (StorageBackedUint64_Set ss (old - 1)) (returnM (old - 1)))"

definition StorageBackedBips_Get :: "StorageSlot \<Rightarrow> i64 arb" where
  "StorageBackedBips_Get ss = StorageBackedInt64_Get ss"

definition StorageBackedBips_Set :: "StorageSlot \<Rightarrow> i64 \<Rightarrow> unit arb" where
  "StorageBackedBips_Set ss bips = StorageBackedInt64_Set ss bips"

definition StorageBackedUBips_Get :: "StorageSlot \<Rightarrow> u64 arb" where
  "StorageBackedUBips_Get ss = StorageBackedUint64_Get ss"

definition StorageBackedUBips_Set :: "StorageSlot \<Rightarrow> u64 \<Rightarrow> unit arb" where
  "StorageBackedUBips_Set ss bips = StorageBackedUint64_Set ss bips"

text \<open>The memory-backed counter's state is its contents.\<close>

definition MemoryBackedUint64_Get :: "(u64, u64) call" where
  "MemoryBackedUint64_Get contents = (Ok contents, contents)"

definition MemoryBackedUint64_Set :: "u64 \<Rightarrow> (u64, unit) call" where
  "MemoryBackedUint64_Set val contents = (Ok (), val)"

definition MemoryBackedUint64_Increment :: "(u64, u64) call" where
  "MemoryBackedUint64_Increment contents =
     (if contents + 1 < contents then (Panic, contents)
      else thenM (MemoryBackedUint64_Set (contents + 1)) (returnM (contents + 1)) contents)"

definition MemoryBackedUint64_Decrement :: "(u64, u64) call" where
  "MemoryBackedUint64_Decrement contents =
     (if contents = 0 then (Panic, contents)
      else thenM (MemoryBackedUint64_Set (contents - 1)) (returnM (contents - 1)) contents)"

definition big_BitLen :: "int \<Rightarrow> nat" where
  "big_BitLen x = bit_len (nat \<bar>x\<bar>)"

definition twoToThe256 :: int where
  "twoToThe256 = 2 ^ 256"

definition twoToThe255 :: int where
  "twoToThe255 = 2 ^ 255"

definition StorageBackedBigUint_Get :: "StorageSlot \<Rightarrow> int arb" where
  "StorageBackedBigUint_Get ss = bindM (StorageSlot_Get ss) (\<lambda>asHash. returnM (uint asHash))"

definition StorageBackedBigUint_SetChecked :: "StorageSlot \<Rightarrow> int \<Rightarrow> unit arb" where
  "StorageBackedBigUint_SetChecked ss val =
     (if val < 0 then HandleError (ErrMsg ''underflow in StorageBackedBigUint.Set'')
      else if big_BitLen val > 256 then HandleError (ErrMsg ''overflow in StorageBackedBigUint.Set'')
      else StorageSlot_Set ss (bytes_hash (big_bytes val)))"

definition StorageBackedBigUint_SetSaturatingWithWarning :: "StorageSlot \<Rightarrow> int \<Rightarrow> unit arb" where
  "StorageBackedBigUint_SetSaturatingWithWarning ss val =
     StorageSlot_Set ss (bytes_hash (big_bytes
       (if val < 0 then 0 else if big_BitLen val > 256 then twoToThe256 - 1 else val)))"

definition StorageBackedBigInt_Get :: "StorageSlot \<Rightarrow> int arb" where
  "StorageBackedBigInt_Get ss =
     bindM (StorageSlot_Get ss) (\<lambda>asHash.
       returnM (if bit (uint asHash) 255 then uint asHash - twoToThe256 else uint asHash))"

definition StorageBackedBigInt_SetChecked :: "StorageSlot \<Rightarrow> int \<Rightarrow> unit arb" where
  "StorageBackedBigInt_SetChecked ss val =
     (if val < 0 then
        let val' = val + twoToThe256
        in if big_BitLen val' < 256 \<or> val' \<le> 0
           then HandleError (ErrMsg ''underflow in StorageBackedBigInt.Set'')
           else StorageSlot_Set ss (bytes_hash (big_bytes val'))
      else if big_BitLen val \<ge> 256 then HandleError (ErrMsg ''overflow in StorageBackedBigInt.Set'')
      else StorageSlot_Set ss (bytes_hash (big_bytes val)))"

definition StorageBackedBigInt_SetSaturatingWithWarning :: "StorageSlot \<Rightarrow> int \<Rightarrow> unit arb" where
  "StorageBackedBigInt_SetSaturatingWithWarning ss val =
     StorageSlot_Set ss (bytes_hash (big_bytes
       (if val < 0 then
          let val' = val + twoToThe256
          in if big_BitLen val' < 256 \<or> val' \<le> 0 then twoToThe255 else val'
        else if big_BitLen val \<ge> 256 then twoToThe255 - 1
        else val)))"

definition StorageBackedBigInt_Set_preVersion7 :: "StorageSlot \<Rightarrow> int \<Rightarrow> unit arb" where
  "StorageBackedBigInt_Set_preVersion7 ss val = StorageSlot_Set ss (bytes_hash (big_bytes val))"

definition StorageBackedBigInt_SetByUint :: "StorageSlot \<Rightarrow> u64 \<Rightarrow> unit arb" where
  "StorageBackedBigInt_SetByUint ss val = StorageSlot_Set ss (UintToHash val)"

definition StorageBackedAddress_Get :: "StorageSlot \<Rightarrow> address arb" where
  "StorageBackedAddress_Get ss =
     bindM (StorageSlot_Get ss) (\<lambda>v. returnM (bytes_address (hash_bytes v)))"

definition StorageBackedAddress_Set :: "StorageSlot \<Rightarrow> address \<Rightarrow> unit arb" where
  "StorageBackedAddress_Set ss val = StorageSlot_Set ss (AddressToHash val)"

definition NilAddressRepresentation :: hash where
  "NilAddressRepresentation = BigToHash (2 ^ 255)"

definition StorageBackedAddressOrNil_Get :: "StorageSlot \<Rightarrow> address option arb" where
  "StorageBackedAddressOrNil_Get ss =
     bindM (StorageSlot_Get ss) (\<lambda>asHash.
       returnM (if asHash = NilAddressRepresentation then None
                else Some (bytes_address (hash_bytes asHash))))"

definition StorageBackedAddressOrNil_Set :: "StorageSlot \<Rightarrow> address option \<Rightarrow> unit arb" where
  "StorageBackedAddressOrNil_Set ss val =
     (case val of
        None \<Rightarrow> StorageSlot_Set ss NilAddressRepresentation
      | Some a \<Rightarrow> StorageSlot_Set ss (bytes_hash (address_bytes a)))"

definition OpenStorageBackedBytes :: "(bytes \<Rightarrow> bytes) \<Rightarrow> Storage \<Rightarrow> bytes \<Rightarrow> Storage" where
  "OpenStorageBackedBytes K s i = OpenSubStorage K s i"

definition StorageBackedBytes_Get :: "(bytes \<Rightarrow> bytes) \<Rightarrow> Storage \<Rightarrow> bytes arb" where
  "StorageBackedBytes_Get K sbb = GetBytes K sbb"

definition StorageBackedBytes_Set :: "(bytes \<Rightarrow> bytes) \<Rightarrow> Storage \<Rightarrow> bytes \<Rightarrow> unit arb" where
  "StorageBackedBytes_Set K sbb val = SetBytes K sbb val"

definition StorageBackedBytes_Clear :: "(bytes \<Rightarrow> bytes) \<Rightarrow> Storage \<Rightarrow> unit arb" where
  "StorageBackedBytes_Clear K sbb = ClearBytes K sbb"

definition StorageBackedBytes_Size :: "(bytes \<Rightarrow> bytes) \<Rightarrow> Storage \<Rightarrow> u64 arb" where
  "StorageBackedBytes_Size K sbb = GetBytesSize K sbb"

text \<open>
  The assumption on the hash, on the spaces and keys a component uses: storage keys are the root's or
  hashes, and no two pages in use collide in the 31 bytes that locate a page.
\<close>

definition page :: "bytes \<Rightarrow> hash \<Rightarrow> bytes" where
  "page sk key = sk @ take 31 (hash_bytes key)"

definition collision_free :: "(bytes \<Rightarrow> bytes) \<Rightarrow> (bytes \<times> hash) set \<Rightarrow> bool" where
  "collision_free K S \<longleftrightarrow>
     (\<forall>(sk, key) \<in> S. (length sk = 0 \<or> length sk = 32) \<and> length (K (page sk key)) = 32) \<and>
     inj_on (\<lambda>p. take 31 (K p)) ((\<lambda>(sk, key). page sk key) ` S)"

text \<open>A concrete function that meets it, for the witnesses.\<close>

definition toyK :: "bytes \<Rightarrow> bytes" where
  "toyK p =
     (if length p = 63 then take 12 p @ drop (length p - 19) p @ [1]
      else take 31 (rev p @ replicate 31 0) @ [1])"

section \<open>Where slots live\<close>

lemmas open_simps [simp] =
  OpenStorageBackedInt64_def OpenStorageBackedBips_def OpenStorageBackedUBips_def
  OpenStorageBackedUint16_def OpenStorageBackedUint24_def OpenStorageBackedUint32_def
  OpenStorageBackedUint64_def OpenStorageBackedBigUint_def OpenStorageBackedBigInt_def
  OpenStorageBackedAddress_def OpenStorageBackedAddressOrNil_def

lemma length_take31 [simp]: "length (take 31 (hash_bytes k)) = 31"
  by simp

lemma hash_bytes_split: "hash_bytes k = take 31 (hash_bytes k) @ [hash_bytes k ! 31]"
  using take_Suc_conv_app_nth [of 31 "hash_bytes k"] by simp

lemma page_inject:
  assumes "length sk = 0 \<or> length sk = 32" "length sk' = 0 \<or> length sk' = 32"
    and "page sk k = page sk' k'"
  shows "sk = sk' \<and> take 31 (hash_bytes k) = take 31 (hash_bytes k')"
proof -
  from assms(3) have "length sk = length sk'"
    using arg_cong [OF assms(3), of length] by (simp add: page_def)
  with assms(3) show ?thesis by (simp add: page_def)
qed

lemma mapAddress_page:
  "mapAddress K s k = bytes_hash (take 31 (K (page (storageKey s) k)) @ [hash_bytes k ! 31])"
  by (simp add: mapAddress_def page_def Let_def)

lemma mapAddress_inject:
  assumes cf: "collision_free K S" and in_S: "(storageKey s, k) \<in> S" "(storageKey t, k') \<in> S"
  shows "mapAddress K s k = mapAddress K t k' \<longleftrightarrow> storageKey s = storageKey t \<and> k = k'"
proof
  assume eq: "mapAddress K s k = mapAddress K t k'"
  have ok: "length (storageKey s) = 0 \<or> length (storageKey s) = 32"
    "length (storageKey t) = 0 \<or> length (storageKey t) = 32"
    and len: "length (K (page (storageKey s) k)) = 32" "length (K (page (storageKey t) k')) = 32"
    using cf in_S by (auto simp: collision_free_def)
  from eq len have pages: "take 31 (K (page (storageKey s) k)) = take 31 (K (page (storageKey t) k'))"
    and last: "hash_bytes k ! 31 = hash_bytes k' ! 31"
    by (simp_all add: mapAddress_page bytes_hash_inject)
  have "inj_on (\<lambda>p. take 31 (K p)) ((\<lambda>(sk, key). page sk key) ` S)"
    using cf by (simp add: collision_free_def)
  moreover have "page (storageKey s) k \<in> (\<lambda>(sk, key). page sk key) ` S"
    and "page (storageKey t) k' \<in> (\<lambda>(sk, key). page sk key) ` S"
    using in_S by force+
  ultimately have "page (storageKey s) k = page (storageKey t) k'"
    using pages by (meson inj_onD)
  from page_inject [OF ok this] last show "storageKey s = storageKey t \<and> k = k'"
    by (metis hash_bytes_split hash_bytes_inject)
qed (auto simp: mapAddress_page)

lemma mapAddress_inject_same:
  "collision_free K S \<Longrightarrow> (storageKey s, k) \<in> S \<Longrightarrow> (storageKey s, k') \<in> S \<Longrightarrow>
     mapAddress K s k = mapAddress K s k' \<longleftrightarrow> k = k'"
  by (simp add: mapAddress_inject)

lemma collision_free_subset: "collision_free K S \<Longrightarrow> T \<subseteq> S \<Longrightarrow> collision_free K T"
  unfolding collision_free_def by (blast intro: inj_on_subset)

text \<open>The concrete function is collision free on the pages of 160-bit keys in spaces it tells apart.\<close>

lemma small_page_drop:
  assumes "unat k < 2 ^ 160" "unat k' < 2 ^ 160"
    and "drop 12 (take 31 (hash_bytes k)) = drop 12 (take 31 (hash_bytes k'))"
  shows "take 31 (hash_bytes k) = take 31 (hash_bytes k')"
proof -
  have z: "take 12 (hash_bytes j) = replicate 12 0" if "unat j < 2 ^ 160" for j :: hash
    using that by (simp add: hash_bytes_def take_be_bytes be_bytes_zero)
  have "take 12 (take 31 (hash_bytes j)) = replicate 12 0" if "unat j < 2 ^ 160" for j :: hash
    using z [OF that] by (simp add: min_def)
  with assms show ?thesis
    by (metis append_take_drop_id)
qed

lemma toyK_page:
  "length sk = 32 \<Longrightarrow>
     toyK (page sk k) = take 12 sk @ drop 12 (take 31 (hash_bytes k)) @ [1]"
  by (simp add: toyK_def page_def)

lemma toyK_collision_free:
  assumes S: "\<And>sk k. (sk, k) \<in> S \<Longrightarrow> length sk = 32 \<and> unat k < 2 ^ 160"
    and inj: "inj_on (take 12) (fst ` S)"
  shows "collision_free toyK S"
proof -
  have "page sk k = page sk' k'"
    if "(sk, k) \<in> S" "(sk', k') \<in> S" "take 31 (toyK (page sk k)) = take 31 (toyK (page sk' k'))"
    for sk k sk' k'
  proof -
    have len: "length sk = 32" "length sk' = 32" and small: "unat k < 2 ^ 160" "unat k' < 2 ^ 160"
      using S that by blast+
    from that(3) len have "take 12 sk = take 12 sk'"
      and "drop 12 (take 31 (hash_bytes k)) = drop 12 (take 31 (hash_bytes k'))"
      by (simp_all add: toyK_page)
    moreover have "sk \<in> fst ` S" "sk' \<in> fst ` S" using that by force+
    ultimately show ?thesis
      using inj small_page_drop [OF small] by (metis inj_onD page_def)
  qed
  then have "inj_on (\<lambda>p. take 31 (toyK p)) ((\<lambda>(sk, key). page sk key) ` S)"
    by (intro inj_onI) (elim imageE; clarify)
  moreover have "length (toyK (page sk k)) = 32" if "(sk, k) \<in> S" for sk k
    using S [OF that] by (simp add: toyK_page)
  ultimately show ?thesis
    using S by (fastforce simp: collision_free_def)
qed

section \<open>The hash cache\<close>

definition cache_ok :: "(bytes \<Rightarrow> bytes) \<Rightarrow> cache \<Rightarrow> bool" where
  "cache_ok K c \<longleftrightarrow> (\<forall>x h. c x = Some h \<longrightarrow> h = K x)"

text \<open>A cache of one entry, as a concrete eviction policy.\<close>

definition evict_all :: "cache \<Rightarrow> cache" where
  "evict_all c = Map.empty"

text \<open>
  The hash cache is transparent: as long as eviction only drops entries, a lookup through the cache
  returns the hash of the joined data whatever the cache holds, and keeps every cached entry right, so
  the slot a key maps to does not depend on the cache.
\<close>

theorem cachedKeccak_transparent:
  assumes "cache_ok K c" and "evict c \<subseteq>\<^sub>m c"
  shows "fst (cachedKeccak K evict s data c) = K (concat data) \<and>
    cache_ok K (snd (cachedKeccak K evict s data c)) \<and>
    bytes_hash (take 31 (fst (cachedKeccak K evict s [storageKey s, take 31 (hash_bytes k)] c))
       @ [hash_bytes k ! 31]) = mapAddress K s k"
proof -
  have "fst (cachedKeccak K evict s d c) = K (concat d)" for d
    using assms(1) by (auto simp: cachedKeccak_def cache_ok_def split: option.splits)
  moreover have "cache_ok K (evict c)"
    using assms by (auto simp: cache_ok_def map_le_def dom_def)
  then have "cache_ok K (snd (cachedKeccak K evict s data c))"
    using assms(1) by (auto simp: cachedKeccak_def cache_ok_def split: option.splits)
  ultimately show ?thesis by (simp add: mapAddress_def Let_def)
qed

section \<open>Slots do not collide and pages are contiguous\<close>

lemma hash_bytes_last: "hash_bytes k ! 31 = of_nat (unat k mod 256)"
proof -
  have "hash_bytes k = be_bytes 31 (unat k div 256) @ [of_nat (unat k mod 256)]"
    unfolding hash_bytes_def using be_bytes.simps(2) [of 31 "unat k"] by simp
  then show ?thesis by (simp add: nth_append)
qed

lemma hash_bytes_page: "take 31 (hash_bytes k) = be_bytes 31 (unat k div 256)"
  by (simp add: hash_bytes_def take_be_bytes)

lemma unat_mapAddress:
  assumes "length (K (page (storageKey s) k)) = 32"
  shows "mapAddress K s k = of_nat (be_nat (take 31 (K (page (storageKey s) k))) * 256 + unat k mod 256)"
  by (simp add: mapAddress_page bytes_hash_def hash_bytes_last unat_of_nat)

text \<open>
  C28: with no hash collision among the pages in use, two slots share a location only if they are the
  same key of the same storage space, and inside a page of 256 keys, consecutive keys sit at
  consecutive locations.
\<close>

theorem slots_distinct_and_contiguous:
  assumes "collision_free K S" and "(storageKey s, k) \<in> S" and "(storageKey t, k') \<in> S"
  shows "(mapAddress K s k = mapAddress K t k' \<longleftrightarrow> storageKey s = storageKey t \<and> k = k') \<and>
    (unat k mod 256 < 255 \<longrightarrow> mapAddress K s (k + 1) = mapAddress K s k + 1)"
proof (intro conjI impI)
  show "mapAddress K s k = mapAddress K t k' \<longleftrightarrow> storageKey s = storageKey t \<and> k = k'"
    using assms by (rule mapAddress_inject)
  assume last: "unat k mod 256 < 255"
  have len: "length (K (page (storageKey s) k)) = 32"
    using assms(1,2) by (auto simp: collision_free_def)
  have "unat k \<noteq> 2 ^ 256 - 1" using last by (intro notI) simp
  then have "unat k + 1 < 2 ^ 256" using unat_less_2p [of k] by simp
  then have u: "unat (k + 1) = unat k + 1" by (simp add: unat_plus_mod)
  have d: "unat (k + 1) div 256 = unat k div 256" and m: "unat (k + 1) mod 256 = unat k mod 256 + 1"
    using last by (simp_all add: u mod_Suc div_Suc)
  have "page (storageKey s) (k + 1) = page (storageKey s) k"
    by (simp add: page_def hash_bytes_page d)
  with len show "mapAddress K s (k + 1) = mapAddress K s k + 1"
    by (simp add: unat_mapAddress m)
qed

theorem slots_distinct_and_contiguous_witness:
  "mapAddress toyK \<lparr>storageKey = replicate 32 1, hashCache = False\<rparr> 5 \<noteq>
     mapAddress toyK \<lparr>storageKey = replicate 32 2, hashCache = False\<rparr> 5 \<and>
   mapAddress toyK \<lparr>storageKey = replicate 32 1, hashCache = False\<rparr> (5 + 1) =
     mapAddress toyK \<lparr>storageKey = replicate 32 1, hashCache = False\<rparr> 5 + 1"
proof -
  let ?s = "\<lparr>storageKey = replicate 32 (1 :: u8), hashCache = False\<rparr>"
    and ?t = "\<lparr>storageKey = replicate 32 (2 :: u8), hashCache = False\<rparr>"
  let ?S = "{(storageKey ?s, 5), (storageKey ?t, 5)}"
  have "collision_free toyK ?S"
    by (rule toyK_collision_free) auto
  from slots_distinct_and_contiguous [OF this, of ?s 5 ?t 5]
  show ?thesis by simp
qed

end
