(* ===== verification/StorageFacts.thy ===== *)
theory StorageFacts
  imports Storage
begin

text \<open>
  The laws of the storage operations that the other components are verified with: symbolic execution
  under an unmetered writable burner, what each operation writes, read-only safety and metering; the
  interface of 64-bit counters with its storage-backed and memory-backed implementations; and the round
  trips of the typed values and of byte strings.
\<close>

section \<open>Execution\<close>

definition uint_keys :: "Storage \<Rightarrow> (bytes \<times> hash) set" where
  "uint_keys s = {storageKey s} \<times> range UintToHash"

lemma NewSlot_inject:
  "collision_free K S \<Longrightarrow> uint_keys s \<subseteq> S \<Longrightarrow> NewSlot K s i = NewSlot K s j \<longleftrightarrow> i = j"
  unfolding NewSlot_def
  by (subst mapAddress_inject_same [of K S]) (auto simp: uint_keys_def)

lemma NewSlot_disjoint:
  "collision_free K S \<Longrightarrow> uint_keys s \<subseteq> S \<Longrightarrow> (storageKey t, k) \<in> S \<Longrightarrow>
     storageKey s \<noteq> storageKey t \<Longrightarrow> NewSlot K s i \<noteq> mapAddress K t k"
  unfolding NewSlot_def
  by (subst mapAddress_inject [of K S]) (auto simp: uint_keys_def)

lemma big_Uint64_ucast [simp]: "big_Uint64 (uint (h :: hash)) = ucast h"
  by (simp add: big_Uint64_def unsigned_ucast_eq)

lemma IsUint64_uint [simp]: "IsUint64 (uint (h :: hash)) \<longleftrightarrow> unat h < 2 ^ 64"
proof -
  have "int (unat h) < 2 ^ 64 \<longleftrightarrow> unat h < 2 ^ 64"
    by (metis of_nat_less_iff of_nat_numeral of_nat_power)
  then show ?thesis by (simp add: IsUint64_def)
qed

lemma BigToHash_uint [simp]: "BigToHash (uint (v :: u64)) = UintToHash v"
  by (simp add: UintToHash_def)

lemma bytes_hash_big: "bytes_hash (big_bytes x) = BigToHash x"
  by (simp add: BigToHash_def)

lemma Get_run [run_simps]: "sys w \<Longrightarrow> Get K s k w = (Ok (sdb w (mapAddress K s k)), charge StorageReadCost w)"
  by (simp add: Get_def GetFree_def run_simps)

lemma GetUint64_run [run_simps]:
  "sys w \<Longrightarrow> GetUint64 K s k w = (Ok (ucast (sdb w (mapAddress K s k))), charge StorageReadCost w)"
  by (simp add: GetUint64_def run_simps)

lemma GetByUint64_run [run_simps]:
  "sys w \<Longrightarrow> GetByUint64 K s i w = (Ok (sdb w (NewSlot K s i)), charge StorageReadCost w)"
  by (simp add: GetByUint64_def NewSlot_def run_simps)

lemma GetUint64ByUint64_run [run_simps]:
  "sys w \<Longrightarrow> GetUint64ByUint64 K s i w = (Ok (ucast (sdb w (NewSlot K s i))), charge StorageReadCost w)"
  by (simp add: GetUint64ByUint64_def NewSlot_def run_simps)

lemma Set_run [run_simps]:
  "sys w \<Longrightarrow> Set K s k v w = (Ok (), upd (mapAddress K s k) v (charge (writeCost v) w))"
  by (simp add: Set_def run_simps)

lemma SetByUint64_run [run_simps]:
  "sys w \<Longrightarrow> SetByUint64 K s i v w = (Ok (), upd (NewSlot K s i) v (charge (writeCost v) w))"
  by (simp add: SetByUint64_def NewSlot_def run_simps)

lemma ClearByUint64_run [run_simps]:
  "sys w \<Longrightarrow> ClearByUint64 K s i w = (Ok (), upd (NewSlot K s i) 0 (charge (writeCost 0) w))"
  by (simp add: ClearByUint64_def NewSlot_def run_simps)

lemma Clear_run [run_simps]:
  "sys w \<Longrightarrow> Clear K s k w = (Ok (), upd (mapAddress K s k) 0 (charge (writeCost 0) w))"
  by (simp add: Clear_def run_simps)

lemma SetUint64ByUint64_run [run_simps]:
  "sys w \<Longrightarrow> SetUint64ByUint64 K s i v w =
     (Ok (), upd (NewSlot K s i) (UintToHash v) (charge (writeCost (UintToHash v)) w))"
  by (simp add: SetUint64ByUint64_def NewSlot_def run_simps)

lemma SetUint64_run [run_simps]:
  "sys w \<Longrightarrow> SetUint64 K s k v w =
     (Ok (), upd (mapAddress K s k) (UintToHash v) (charge (writeCost (UintToHash v)) w))"
  by (simp add: SetUint64_def run_simps)

lemma StorageSlot_Get_run [run_simps]:
  "sys w \<Longrightarrow> StorageSlot_Get a w = (Ok (sdb w a), charge StorageReadCost w)"
  by (simp add: StorageSlot_Get_def run_simps)

lemma StorageSlot_Set_run [run_simps]:
  "sys w \<Longrightarrow> StorageSlot_Set a v w = (Ok (), upd a v (charge (writeCost v) w))"
  by (simp add: StorageSlot_Set_def run_simps)

lemma KeccakHash_run [run_simps]:
  "sys w \<Longrightarrow> KeccakHash K data w =
     (Ok (bytes_hash (K (concat data))),
      charge (30 + 6 * WordsForBytes (of_nat (sum_list (map length data)))) w)"
  by (simp add: KeccakHash_def Keccak_def run_simps)

text \<open>A slot holds a 64-bit value.\<close>

definition u64_slot :: "world \<Rightarrow> hash \<Rightarrow> bool" where
  "u64_slot w a \<longleftrightarrow> unat (sdb w a) < 2 ^ 64"

definition u64_at :: "world \<Rightarrow> hash \<Rightarrow> u64" where
  "u64_at w a = ucast (sdb w a)"

lemma UintToHash_u64_at: "u64_slot w a \<Longrightarrow> UintToHash (u64_at w a) = sdb w a"
  by (rule word_unat_eq_iff [THEN iffD2])
    (simp add: u64_slot_def u64_at_def unsigned_ucast_eq take_bit_nat_eq_self)

lemma u64_slot_charge [simp]: "u64_slot (charge n w) a = u64_slot w a" "u64_at (charge n w) a = u64_at w a"
  by (simp_all add: u64_slot_def u64_at_def)

lemma u64_slot_upd [simp]:
  "u64_slot (upd b v w) a = (if a = b then unat v < 2 ^ 64 else u64_slot w a)"
  "u64_at (upd b v w) a = (if a = b then ucast v else u64_at w a)"
  by (simp_all add: u64_slot_def u64_at_def)

lemma unat_UintToHash_less [simp]: "unat (UintToHash v) < 18446744073709551616"
  by simp

lemma Uint64_Get_run [run_simps]:
  "sys w \<Longrightarrow> u64_slot w a \<Longrightarrow> StorageBackedUint64_Get a w = (Ok (u64_at w a), charge StorageReadCost w)"
  by (simp add: StorageBackedUint64_Get_def u64_slot_def u64_at_def run_simps)

lemma Uint64_Get_panic [run_simps]:
  "sys w \<Longrightarrow> \<not> u64_slot w a \<Longrightarrow> StorageBackedUint64_Get a w = (Panic, charge StorageReadCost w)"
  by (simp add: StorageBackedUint64_Get_def u64_slot_def run_simps)

lemma Uint64_Set_run [run_simps]:
  "sys w \<Longrightarrow> StorageBackedUint64_Set a v w =
     (Ok (), upd a (UintToHash v) (charge (writeCost (UintToHash v)) w))"
  by (simp add: StorageBackedUint64_Set_def run_simps)

lemma Int64_Get_run [run_simps]:
  "sys w \<Longrightarrow> u64_slot w a \<Longrightarrow> StorageBackedInt64_Get a w = (Ok (u64_at w a), charge StorageReadCost w)"
  by (simp add: StorageBackedInt64_Get_def u64_slot_def u64_at_def run_simps)

lemma Int64_Set_run [run_simps]:
  "sys w \<Longrightarrow> StorageBackedInt64_Set a v w =
     (Ok (), upd a (UintToHash v) (charge (writeCost (UintToHash v)) w))"
  by (simp add: StorageBackedInt64_Set_def run_simps)

lemma word_plus_1_less: "(v :: u64) + 1 < v \<longleftrightarrow> v = - 1"
proof -
  have "unat v + 1 < 2 ^ 64 \<or> v = - 1"
    using unat_u64_bound [of v]
    by (auto simp: word_eq_unat unsigned_minus_1_eq_mask mask_eq_exp_minus_1 simp del: unat_u64_bound)
  then show ?thesis
    by (auto simp: word_less_nat_alt unat_plus_mod unsigned_minus_1_eq_mask mask_eq_exp_minus_1)
qed

lemma zero_less_minus_1 [simp]: "(0 :: u64) < - 1"
  by (simp add: word_less_nat_alt unsigned_minus_1_eq_mask mask_eq_exp_minus_1)

lemma Uint64_Increment_run [run_simps]:
  "sys w \<Longrightarrow> u64_slot w a \<Longrightarrow> u64_at w a \<noteq> - 1 \<Longrightarrow>
     StorageBackedUint64_Increment a w =
       (Ok (u64_at w a + 1),
        upd a (UintToHash (u64_at w a + 1)) (charge (writeCost (UintToHash (u64_at w a + 1)))
          (charge StorageReadCost w)))"
  by (simp add: StorageBackedUint64_Increment_def word_plus_1_less run_simps)

lemma Uint64_Decrement_run [run_simps]:
  "sys w \<Longrightarrow> u64_slot w a \<Longrightarrow> u64_at w a \<noteq> 0 \<Longrightarrow>
     StorageBackedUint64_Decrement a w =
       (Ok (u64_at w a - 1),
        upd a (UintToHash (u64_at w a - 1)) (charge (writeCost (UintToHash (u64_at w a - 1)))
          (charge StorageReadCost w)))"
  by (simp add: StorageBackedUint64_Decrement_def run_simps)

lemma BigUint_Get_run [run_simps]:
  "sys w \<Longrightarrow> StorageBackedBigUint_Get a w = (Ok (uint (sdb w a)), charge StorageReadCost w)"
  by (simp add: StorageBackedBigUint_Get_def run_simps)

lemma Address_Get_run [run_simps]:
  "sys w \<Longrightarrow> StorageBackedAddress_Get a w = (Ok (ucast (sdb w a)), charge StorageReadCost w)"
  by (simp add: StorageBackedAddress_Get_def run_simps)

lemma Address_Set_run [run_simps]:
  "sys w \<Longrightarrow> StorageBackedAddress_Set a v w =
     (Ok (), upd a (AddressToHash v) (charge (writeCost (AddressToHash v)) w))"
  by (simp add: StorageBackedAddress_Set_def run_simps)

section \<open>Effects: writes, read-only burners, metering\<close>

lemmas storage_op_defs =
  Get_def GetFree_def GetUint64_def GetByUint64_def GetUint64ByUint64_def GetUint32_def Set_def
  SetUint64_def SetByUint64_def SetUint64ByUint64_def SetUint32_def SetByUint32_def Clear_def
  ClearByUint64_def Swap_def Keccak_def KeccakHash_def Let_def

lemmas slot_op_defs =
  StorageSlot_Get_def StorageSlot_Set_def StorageBackedInt64_Get_def StorageBackedInt64_Set_def
  StorageBackedUint16_Get_def StorageBackedUint16_Set_def StorageBackedUint24_Get_def
  StorageBackedUint24_Set_def StorageBackedUint32_Get_def StorageBackedUint32_Set_def
  StorageBackedUint64_Get_def StorageBackedUint64_Set_def StorageBackedUint64_Clear_def
  StorageBackedUint64_Increment_def StorageBackedUint64_Decrement_def StorageBackedBips_Get_def
  StorageBackedBips_Set_def StorageBackedUBips_Get_def StorageBackedUBips_Set_def
  StorageBackedBigUint_Get_def StorageBackedBigUint_SetChecked_def
  StorageBackedBigUint_SetSaturatingWithWarning_def StorageBackedBigInt_Get_def
  StorageBackedBigInt_SetChecked_def StorageBackedBigInt_SetSaturatingWithWarning_def
  StorageBackedBigInt_Set_preVersion7_def StorageBackedBigInt_SetByUint_def
  StorageBackedAddress_Get_def StorageBackedAddress_Set_def StorageBackedAddressOrNil_Get_def
  StorageBackedAddressOrNil_Set_def Let_def

lemma ro_safe_storage [ro_intros]:
  "ro_safe (Get K s k)" "ro_safe (GetFree K s k)" "ro_safe (GetUint64 K s k)" "ro_safe (GetByUint64 K s i)"
  "ro_safe (GetUint64ByUint64 K s i)" "ro_safe (GetUint32 K s k)" "ro_safe (Set K s k v)"
  "ro_safe (SetUint64 K s k n)" "ro_safe (SetByUint64 K s i v)" "ro_safe (SetUint64ByUint64 K s i n)"
  "ro_safe (SetUint32 K s k m)" "ro_safe (SetByUint32 K s m v)" "ro_safe (Clear K s k)"
  "ro_safe (ClearByUint64 K s i)" "ro_safe (Swap K s k v)" "ro_safe (Keccak K d)" "ro_safe (KeccakHash K d)"
  by (simp_all add: storage_op_defs ro_intros)

lemma ro_safe_slot [ro_intros]:
  "ro_safe (StorageSlot_Get a)" "ro_safe (StorageSlot_Set a v)"
  by (simp_all add: slot_op_defs ro_intros)

lemma ro_safe_values [ro_intros]:
  "ro_safe (StorageBackedInt64_Get a)" "ro_safe (StorageBackedInt64_Set a n)"
  "ro_safe (StorageBackedUint16_Get a)" "ro_safe (StorageBackedUint16_Set a h)"
  "ro_safe (StorageBackedUint24_Get a)" "ro_safe (StorageBackedUint24_Set a m)"
  "ro_safe (StorageBackedUint32_Get a)" "ro_safe (StorageBackedUint32_Set a m)"
  "ro_safe (StorageBackedUint64_Get a)" "ro_safe (StorageBackedUint64_Set a n)"
  "ro_safe (StorageBackedUint64_Clear a)" "ro_safe (StorageBackedUint64_Increment a)"
  "ro_safe (StorageBackedUint64_Decrement a)" "ro_safe (StorageBackedBips_Get a)"
  "ro_safe (StorageBackedBips_Set a n)" "ro_safe (StorageBackedUBips_Get a)"
  "ro_safe (StorageBackedUBips_Set a n)" "ro_safe (StorageBackedBigUint_Get a)"
  "ro_safe (StorageBackedBigUint_SetChecked a x)"
  "ro_safe (StorageBackedBigUint_SetSaturatingWithWarning a x)" "ro_safe (StorageBackedBigInt_Get a)"
  "ro_safe (StorageBackedBigInt_SetChecked a x)"
  "ro_safe (StorageBackedBigInt_SetSaturatingWithWarning a x)"
  "ro_safe (StorageBackedBigInt_Set_preVersion7 a x)" "ro_safe (StorageBackedBigInt_SetByUint a n)"
  "ro_safe (StorageBackedAddress_Get a)" "ro_safe (StorageBackedAddress_Set a ad)"
  "ro_safe (StorageBackedAddressOrNil_Get a)" "ro_safe (StorageBackedAddressOrNil_Set a oad)"
  by (simp_all add: slot_op_defs ro_intros split: option.split)

lemma ro_safe_loops [ro_intros]:
  "ro_safe (ClearBytes_loop K s n i)" "ro_safe (SetBytes_loop K s b i)" "ro_safe (GetBytes_loop K s n i r)"
proof -
  show "ro_safe (ClearBytes_loop K s n i)"
    by (induction K s n i rule: ClearBytes_loop.induct) (subst ClearBytes_loop.simps, simp add: ro_intros)
  show "ro_safe (SetBytes_loop K s b i)"
    by (induction K s b i rule: SetBytes_loop.induct) (subst SetBytes_loop.simps, simp add: ro_intros)
  show "ro_safe (GetBytes_loop K s n i r)"
    by (induction K s n i r rule: GetBytes_loop.induct) (subst GetBytes_loop.simps, simp add: ro_intros)
qed

lemma ro_safe_bytes [ro_intros]:
  "ro_safe (ClearBytes K s)" "ro_safe (SetBytes K s b)" "ro_safe (GetBytes K s)" "ro_safe (GetBytesSize K s)"
  by (simp_all add: ClearBytes_def SetBytes_def GetBytes_def GetBytesSize_def ro_intros)

lemma meter_sim_storage [sim_intros]:
  "meter_sim (Get K s k)" "meter_sim (GetUint64 K s k)" "meter_sim (GetByUint64 K s i)"
  "meter_sim (GetUint64ByUint64 K s i)" "meter_sim (GetUint32 K s k)" "meter_sim (Set K s k v)"
  "meter_sim (SetUint64 K s k n)" "meter_sim (SetByUint64 K s i v)" "meter_sim (SetUint64ByUint64 K s i n)"
  "meter_sim (Clear K s k)" "meter_sim (ClearByUint64 K s i)" "meter_sim (Swap K s k v)"
  "meter_sim (Keccak K d)" "meter_sim (KeccakHash K d)"
  by (simp_all add: storage_op_defs sim_intros)

lemma meter_sim_values [sim_intros]:
  "meter_sim (StorageSlot_Get a)" "meter_sim (StorageSlot_Set a v)"
  "meter_sim (StorageBackedInt64_Get a)" "meter_sim (StorageBackedInt64_Set a n)"
  "meter_sim (StorageBackedUint64_Get a)" "meter_sim (StorageBackedUint64_Set a n)"
  "meter_sim (StorageBackedUint64_Clear a)" "meter_sim (StorageBackedUint64_Increment a)"
  "meter_sim (StorageBackedUint64_Decrement a)" "meter_sim (StorageBackedBigUint_Get a)"
  "meter_sim (StorageBackedBigUint_SetChecked a x)"
  "meter_sim (StorageBackedBigUint_SetSaturatingWithWarning a x)" "meter_sim (StorageBackedBigInt_Get a)"
  "meter_sim (StorageBackedBigInt_SetSaturatingWithWarning a x)"
  "meter_sim (StorageBackedAddress_Get a)" "meter_sim (StorageBackedAddress_Set a ad)"
  by (simp_all add: slot_op_defs sim_intros)

lemma frame_storage_read [frame_intros]:
  "frame F (Get K s k)" "frame F (GetUint64 K s k)" "frame F (GetByUint64 K s i)"
  "frame F (GetUint64ByUint64 K s i)" "frame F (KeccakHash K d)" "frame F (StorageSlot_Get a)"
  "frame F (StorageBackedUint64_Get a)" "frame F (StorageBackedInt64_Get a)"
  "frame F (StorageBackedBigUint_Get a)" "frame F (StorageBackedBigInt_Get a)"
  "frame F (StorageBackedAddress_Get a)"
  by (simp_all add: storage_op_defs slot_op_defs frame_intros)

lemma frame_slot_write [frame_intros]:
  "a \<in> F \<Longrightarrow> frame F (StorageSlot_Set a v)" "a \<in> F \<Longrightarrow> frame F (StorageBackedUint64_Set a n)"
  "a \<in> F \<Longrightarrow> frame F (StorageBackedInt64_Set a n)" "a \<in> F \<Longrightarrow> frame F (StorageBackedUint64_Increment a)"
  "a \<in> F \<Longrightarrow> frame F (StorageBackedUint64_Decrement a)" "a \<in> F \<Longrightarrow> frame F (StorageBackedUint64_Clear a)"
  "a \<in> F \<Longrightarrow> frame F (StorageBackedBigUint_SetChecked a x)"
  "a \<in> F \<Longrightarrow> frame F (StorageBackedBigUint_SetSaturatingWithWarning a x)"
  "a \<in> F \<Longrightarrow> frame F (StorageBackedBigInt_SetSaturatingWithWarning a x)"
  "a \<in> F \<Longrightarrow> frame F (StorageBackedAddress_Set a ad)"
  by (simp_all add: slot_op_defs frame_intros)

lemma frame_storage_write [frame_intros]:
  "mapAddress K s k \<in> F \<Longrightarrow> frame F (Set K s k v)" "mapAddress K s k \<in> F \<Longrightarrow> frame F (SetUint64 K s k n)"
  "NewSlot K s i \<in> F \<Longrightarrow> frame F (SetByUint64 K s i v)" "mapAddress K s k \<in> F \<Longrightarrow> frame F (Clear K s k)"
  "NewSlot K s i \<in> F \<Longrightarrow> frame F (SetUint64ByUint64 K s i n)"
  "NewSlot K s i \<in> F \<Longrightarrow> frame F (ClearByUint64 K s i)" "mapAddress K s k \<in> F \<Longrightarrow> frame F (Swap K s k v)"
  by (simp_all add: storage_op_defs NewSlot_def frame_intros)

lemma keeps_balance_storage [bal_intros]:
  "keeps_balance (Get K s k)" "keeps_balance (GetUint64 K s k)" "keeps_balance (GetByUint64 K s i)"
  "keeps_balance (GetUint64ByUint64 K s i)" "keeps_balance (Set K s k v)" "keeps_balance (SetUint64 K s k n)"
  "keeps_balance (SetByUint64 K s i v)" "keeps_balance (SetUint64ByUint64 K s i n)" "keeps_balance (Clear K s k)"
  "keeps_balance (ClearByUint64 K s i)" "keeps_balance (Swap K s k v)" "keeps_balance (KeccakHash K d)"
  by (simp_all add: storage_op_defs bal_intros)

lemma keeps_balance_values [bal_intros]:
  "keeps_balance (StorageSlot_Get a)" "keeps_balance (StorageSlot_Set a v)"
  "keeps_balance (StorageBackedUint64_Get a)" "keeps_balance (StorageBackedUint64_Set a n)"
  "keeps_balance (StorageBackedUint64_Increment a)" "keeps_balance (StorageBackedUint64_Decrement a)"
  "keeps_balance (StorageBackedBigUint_SetChecked a x)" "keeps_balance (StorageBackedAddress_Set a ad)"
  "keeps_balance (StorageBackedAddressOrNil_Set a oad)"
  by (simp_all add: slot_op_defs bal_intros split: option.split)

lemma keeps_balance_loops [bal_intros]:
  "keeps_balance (ClearBytes_loop K s n i)" "keeps_balance (SetBytes_loop K s b i)"
  "keeps_balance (GetBytes_loop K s n i r)"
proof -
  show "keeps_balance (ClearBytes_loop K s n i)"
    by (induction K s n i rule: ClearBytes_loop.induct) (subst ClearBytes_loop.simps, simp add: bal_intros)
  show "keeps_balance (SetBytes_loop K s b i)"
    by (induction K s b i rule: SetBytes_loop.induct) (subst SetBytes_loop.simps, simp add: bal_intros)
  show "keeps_balance (GetBytes_loop K s n i r)"
    by (induction K s n i r rule: GetBytes_loop.induct) (subst GetBytes_loop.simps, simp add: bal_intros)
qed

lemma keeps_balance_bytes [bal_intros]:
  "keeps_balance (ClearBytes K s)" "keeps_balance (SetBytes K s b)" "keeps_balance (GetBytes K s)"
  by (simp_all add: ClearBytes_def SetBytes_def GetBytes_def bal_intros)

section \<open>The counter interface\<close>

text \<open>
  \<^verbatim>\<open>WrappedUint64\<close>: the contract its users rely on, and the two implementations. \<open>inv\<close> is the
  precondition under which the operations do not fail, \<open>val\<close> the counter's value.
\<close>

datatype counter_op = CGet | CSet u64 | CIncrement | CDecrement

definition exec_op ::
  "('s, u64) call \<Rightarrow> (u64 \<Rightarrow> ('s, unit) call) \<Rightarrow> ('s, u64) call \<Rightarrow> ('s, u64) call \<Rightarrow> counter_op \<Rightarrow> ('s, u64) call" where
  "exec_op g st i d op =
     (case op of CGet \<Rightarrow> g | CSet v \<Rightarrow> thenM (st v) (returnM v) | CIncrement \<Rightarrow> i | CDecrement \<Rightarrow> d)"

primrec exec_ops ::
  "('s, u64) call \<Rightarrow> (u64 \<Rightarrow> ('s, unit) call) \<Rightarrow> ('s, u64) call \<Rightarrow> ('s, u64) call \<Rightarrow> counter_op list \<Rightarrow>
     ('s, u64 list) call" where
  "exec_ops g st i d [] = returnM []"
| "exec_ops g st i d (op # ops) =
     bindM (exec_op g st i d op) (\<lambda>r. bindM (exec_ops g st i d ops) (\<lambda>rs. returnM (r # rs)))"

text \<open>The abstract counter: the next value, or nothing where the code panics.\<close>

definition next_value :: "counter_op \<Rightarrow> u64 \<Rightarrow> u64 option" where
  "next_value op v =
     (case op of CGet \<Rightarrow> Some v | CSet n \<Rightarrow> Some n
      | CIncrement \<Rightarrow> if v = - 1 then None else Some (v + 1)
      | CDecrement \<Rightarrow> if v = 0 then None else Some (v - 1))"

primrec results :: "counter_op list \<Rightarrow> u64 \<Rightarrow> u64 list option" where
  "results [] v = Some []"
| "results (op # ops) v =
     (case next_value op v of None \<Rightarrow> None | Some v' \<Rightarrow> map_option (Cons v') (results ops v'))"

locale wrapped_uint64 =
  fixes get :: "('s, u64) call" and put :: "u64 \<Rightarrow> ('s, unit) call"
    and increment :: "('s, u64) call" and decrement :: "('s, u64) call"
    and inv :: "'s \<Rightarrow> bool" and val :: "'s \<Rightarrow> u64"
  assumes get_law: "inv s \<Longrightarrow> \<exists>s'. get s = (Ok (val s), s') \<and> inv s' \<and> val s' = val s"
    and put_law: "inv s \<Longrightarrow> \<exists>s'. put v s = (Ok (), s') \<and> inv s' \<and> val s' = v"
    and increment_law:
      "inv s \<Longrightarrow> val s \<noteq> - 1 \<Longrightarrow> \<exists>s'. increment s = (Ok (val s + 1), s') \<and> inv s' \<and> val s' = val s + 1"
    and increment_overflow: "inv s \<Longrightarrow> val s = - 1 \<Longrightarrow> fst (increment s) = Panic"
    and decrement_law:
      "inv s \<Longrightarrow> val s \<noteq> 0 \<Longrightarrow> \<exists>s'. decrement s = (Ok (val s - 1), s') \<and> inv s' \<and> val s' = val s - 1"
    and decrement_underflow: "inv s \<Longrightarrow> val s = 0 \<Longrightarrow> fst (decrement s) = Panic"
begin

lemma exec_op_Some:
  assumes "inv s" "next_value op (val s) = Some v"
  shows "\<exists>s'. exec_op get put increment decrement op s = (Ok v, s') \<and> inv s' \<and> val s' = v"
proof (cases op)
  case (CSet n)
  with assms put_law [OF assms(1), of n] show ?thesis
    by (auto simp: exec_op_def next_value_def bindM_Ok)
qed (use assms get_law increment_law decrement_law in
    \<open>auto simp: exec_op_def next_value_def split: if_splits\<close>)

lemma exec_op_None:
  assumes "inv s" "next_value op (val s) = None"
  shows "fst (exec_op get put increment decrement op s) = Panic"
  using assms increment_overflow decrement_underflow
  by (cases op) (auto simp: exec_op_def next_value_def split: if_splits)

lemma exec_ops_results:
  "inv s \<Longrightarrow> fst (exec_ops get put increment decrement ops s) =
     (case results ops (val s) of None \<Rightarrow> Panic | Some rs \<Rightarrow> Ok rs)"
proof (induction ops arbitrary: s)
  case Nil
  then show ?case by simp
next
  case (Cons op ops)
  show ?case
  proof (cases "next_value op (val s)")
    case None
    with exec_op_None [OF Cons.prems None] show ?thesis
      by (cases "exec_op get put increment decrement op s") (simp add: bindM_Panic)
  next
    case (Some v)
    then obtain s' where s': "exec_op get put increment decrement op s = (Ok v, s')" "inv s'" "val s' = v"
      using exec_op_Some [OF Cons.prems] by blast
    obtain r t where r: "exec_ops get put increment decrement ops s' = (r, t)" by fastforce
    have "r = (case results ops v of None \<Rightarrow> Panic | Some rs \<Rightarrow> Ok rs)"
      using Cons.IH [OF s'(2)] s'(3) r by simp
    with Some s'(1) r show ?thesis
      by (cases "results ops v") (simp_all add: bindM_def)
  qed
qed

end

interpretation stored: wrapped_uint64 "StorageBackedUint64_Get ss" "StorageBackedUint64_Set ss"
  "StorageBackedUint64_Increment ss" "StorageBackedUint64_Decrement ss"
  "\<lambda>w. sys w \<and> u64_slot w ss" "\<lambda>w. u64_at w ss" for ss
proof unfold_locales
  show "fst (StorageBackedUint64_Increment ss w) = Panic" if "sys w \<and> u64_slot w ss" "u64_at w ss = - 1" for w
    using that by (simp add: StorageBackedUint64_Increment_def run_simps)
  show "fst (StorageBackedUint64_Decrement ss w) = Panic" if "sys w \<and> u64_slot w ss" "u64_at w ss = 0" for w
    using that by (simp add: StorageBackedUint64_Decrement_def run_simps)
qed (simp_all add: run_simps)

interpretation memory: wrapped_uint64 MemoryBackedUint64_Get MemoryBackedUint64_Set
  MemoryBackedUint64_Increment MemoryBackedUint64_Decrement "\<lambda>_. True" "\<lambda>contents. contents"
  by unfold_locales
    (auto simp: MemoryBackedUint64_Get_def MemoryBackedUint64_Set_def MemoryBackedUint64_Increment_def
      MemoryBackedUint64_Decrement_def bindM_def word_plus_1_less)

text \<open>
  A storage-backed and a memory-backed counter that start with the same value cannot be told apart:
  any sequence of reads, writes, increments and decrements returns the same values on both, and
  panics on both exactly when one of them would overflow or underflow.
\<close>

theorem counters_equivalent:
  assumes "sys w" and "u64_slot w ss"
  shows "fst (exec_ops (StorageBackedUint64_Get ss) (StorageBackedUint64_Set ss)
            (StorageBackedUint64_Increment ss) (StorageBackedUint64_Decrement ss) ops w) =
         fst (exec_ops MemoryBackedUint64_Get MemoryBackedUint64_Set
            MemoryBackedUint64_Increment MemoryBackedUint64_Decrement ops (u64_at w ss))"
  using assms by (simp add: stored.exec_ops_results memory.exec_ops_results)

definition blank :: world where
  "blank = \<lparr>sdb = \<lambda>_. 0, w_burner = BSystem (NewSystemBurner False), w_balance = \<lambda>_. 0,
     w_codeHash = \<lambda>_. 0, w_nonce = \<lambda>_. 0\<rparr>"

text \<open>A storage space whose subspaces the concrete hash tells apart.\<close>

definition deepStorage :: Storage where
  "deepStorage = \<lparr>storageKey = map of_nat [10 ..< 42], hashCache = False\<rparr>"

lemma sys_blank [simp]: "sys blank"
  by (simp add: sys_def blank_def NewSystemBurner_def)

lemma sdb_blank [simp]: "sdb blank a = 0"
  by (simp add: blank_def)

section \<open>Big integers and addresses\<close>

lemma big_BitLen_le: "big_BitLen x \<le> n \<longleftrightarrow> \<bar>x\<bar> < 2 ^ n"
proof -
  have "nat \<bar>x\<bar> < 2 ^ n \<longleftrightarrow> int (nat \<bar>x\<bar>) < int (2 ^ n)" by (simp only: of_nat_less_iff)
  then show ?thesis by (simp add: big_BitLen_def bit_len_le_iff)
qed

lemma big_BitLen_gt: "n < big_BitLen x \<longleftrightarrow> 2 ^ n \<le> \<bar>x\<bar>"
  using big_BitLen_le [of x n] by linarith

lemma uint_BigToHash: "0 \<le> x \<Longrightarrow> x < 2 ^ 256 \<Longrightarrow> uint (BigToHash x) = x"
  by (simp add: BigToHash_abs unsigned_of_int take_bit_int_eq_self)

definition clamp :: "int \<Rightarrow> int \<Rightarrow> int \<Rightarrow> int" where
  "clamp lo hi x = max lo (min hi x)"

lemma BigUint_SetSaturating_run [run_simps]:
  "sys w \<Longrightarrow> StorageBackedBigUint_SetSaturatingWithWarning a x w =
     (let v = BigToHash (clamp 0 (2 ^ 256 - 1) x) in (Ok (), upd a v (charge (writeCost v) w)))"
proof -
  have "(if x < 0 then 0 else if big_BitLen x > 256 then twoToThe256 - 1 else x) = clamp 0 (2 ^ 256 - 1) x"
    unfolding big_BitLen_gt clamp_def twoToThe256_def by (simp add: min_def max_def)
  then show "sys w \<Longrightarrow> ?thesis"
    by (simp add: StorageBackedBigUint_SetSaturatingWithWarning_def bytes_hash_big run_simps Let_def)
qed

lemma uint_clamp: "uint (BigToHash (clamp 0 (2 ^ 256 - 1) x)) = clamp 0 (2 ^ 256 - 1) x"
  by (rule uint_BigToHash) (simp_all add: clamp_def)

lemma BigUint_SetChecked_run [run_simps]:
  "sys w \<Longrightarrow> 0 \<le> x \<Longrightarrow> x < 2 ^ 256 \<Longrightarrow> StorageBackedBigUint_SetChecked a x w =
     (Ok (), upd a (BigToHash x) (charge (writeCost (BigToHash x)) w))"
  using big_BitLen_le [of x 256]
  by (simp add: StorageBackedBigUint_SetChecked_def bytes_hash_big run_simps)

text \<open>Two's complement in 256 bits: what a slot holds for a saturated signed value.\<close>

definition tc256 :: "int \<Rightarrow> hash" where
  "tc256 x = word_of_int (clamp (- (2 ^ 255)) (2 ^ 255 - 1) x)"

lemma wrap_256: "(word_of_int (x + 2 ^ 256) :: hash) = word_of_int x"
  by (simp add: word_of_int_eq_iff take_bit_eq_mod)

lemma BigInt_SetSaturating_run [run_simps]:
  "sys w \<Longrightarrow> StorageBackedBigInt_SetSaturatingWithWarning a x w =
     (Ok (), upd a (tc256 x) (charge (writeCost (tc256 x)) w))"
proof -
  let ?v = "if x < 0 then let val' = x + twoToThe256 in
      if big_BitLen val' < 256 \<or> val' \<le> 0 then twoToThe255 else val'
    else if big_BitLen x \<ge> 256 then twoToThe255 - 1 else x"
  have lt: "big_BitLen y < 256 \<longleftrightarrow> \<bar>y\<bar> < 2 ^ 255" for y
    using big_BitLen_le [of y 255] by linarith
  have "?v = clamp (- (2 ^ 255)) (2 ^ 255 - 1) x + (if x < 0 then 2 ^ 256 else 0)"
    unfolding not_less [symmetric] lt Let_def twoToThe256_def twoToThe255_def clamp_def
    by (simp add: min_def max_def abs_if)
  then have v: "BigToHash ?v = word_of_int \<bar>clamp (- (2 ^ 255)) (2 ^ 255 - 1) x + (if x < 0 then 2 ^ 256 else 0)\<bar>"
    by (simp add: BigToHash_abs)
  also have "\<bar>clamp (- (2 ^ 255)) (2 ^ 255 - 1) x + (if x < 0 then 2 ^ 256 else 0)\<bar> =
      clamp (- (2 ^ 255)) (2 ^ 255 - 1) x + (if x < 0 then 2 ^ 256 else 0)"
    by (simp add: clamp_def)
  also have "word_of_int (clamp (- (2 ^ 255)) (2 ^ 255 - 1) x + (if x < 0 then 2 ^ 256 else 0)) = tc256 x"
    by (simp add: tc256_def wrap_256)
  finally show "sys w \<Longrightarrow> ?thesis"
    by (simp add: StorageBackedBigInt_SetSaturatingWithWarning_def bytes_hash_big run_simps)
qed

definition big_at :: "world \<Rightarrow> hash \<Rightarrow> int" where
  "big_at w a = sint (sdb w a)"

lemma bit_255: "bit (uint (h :: hash)) 255 \<longleftrightarrow> 2 ^ 255 \<le> uint h"
proof -
  have b: "uint h < 2 * 2 ^ 255" "0 \<le> uint h" using uint_lt2p [of h] by simp_all
  have "uint h div 2 ^ 255 = (if 2 ^ 255 \<le> uint h then 1 else 0)"
  proof (cases "2 ^ 255 \<le> uint h")
    case True
    then have "uint h div 2 ^ 255 = 1"
      by (intro int_div_pos_eq [where r = "uint h - 2 ^ 255"]) (use b in simp_all)
    with True show ?thesis by simp
  next
    case False
    with b show ?thesis by (simp add: div_pos_pos_trivial)
  qed
  then show ?thesis by (simp add: bit_iff_odd)
qed

lemma sint_hash: "sint (h :: hash) = (if 2 ^ 255 \<le> uint h then uint h - 2 ^ 256 else uint h)"
proof -
  have "take_bit 256 (uint h) = uint h" using uint_lt2p [of h] by (simp add: take_bit_int_eq_self)
  then show ?thesis
    using bit_255 [of h] by (simp add: sint_uint signed_take_bit_eq_take_bit_minus)
qed

lemma BigInt_Get_run [run_simps]:
  "sys w \<Longrightarrow> StorageBackedBigInt_Get a w = (Ok (big_at w a), charge StorageReadCost w)"
  by (simp add: StorageBackedBigInt_Get_def bit_255 twoToThe256_def big_at_def sint_hash run_simps)

lemma sint_tc256: "sint (tc256 x) = clamp (- (2 ^ 255)) (2 ^ 255 - 1) x"
proof -
  have "sint (word_of_int y :: hash) = y" if "- (2 ^ 255) \<le> y" "y \<le> 2 ^ 255 - 1" for y
    using that by (simp add: signed_of_int signed_take_bit_int_eq_self)
  then show ?thesis unfolding tc256_def by (rule) (simp_all add: clamp_def)
qed

text \<open>
  What is stored in a typed slot is what is read back. Signed and unsigned big integers saturate at
  the bounds of 256 bits, as their names promise; an address survives in both address types, and the
  marker for a missing address is not the image of any address.
\<close>

theorem typed_values_roundtrip:
  assumes "sys w"
  shows "fst (thenM (StorageBackedBigInt_SetSaturatingWithWarning ss x) (StorageBackedBigInt_Get ss) w)
      = Ok (max (- (2 ^ 255)) (min (2 ^ 255 - 1) x)) \<and>
    fst (thenM (StorageBackedBigUint_SetSaturatingWithWarning ss x) (StorageBackedBigUint_Get ss) w)
      = Ok (max 0 (min (2 ^ 256 - 1) x)) \<and>
    fst (thenM (StorageBackedInt64_Set ss i) (StorageBackedInt64_Get ss) w) = Ok i \<and>
    fst (thenM (StorageBackedAddress_Set ss a) (StorageBackedAddress_Get ss) w) = Ok a \<and>
    fst (thenM (StorageBackedAddressOrNil_Set ss oa) (StorageBackedAddressOrNil_Get ss) w) = Ok oa"
proof -
  have "AddressToHash b \<noteq> NilAddressRepresentation" for b
  proof -
    have "unat (AddressToHash b) < 2 ^ 160"
      using unat_less_2p [of b] by (simp add: AddressToHash_ucast unat_ucast_bound)
    moreover have "unat NilAddressRepresentation = 2 ^ 255"
      by (simp add: NilAddressRepresentation_def BigToHash_abs)
    ultimately show ?thesis by auto
  qed
  then have "fst (thenM (StorageBackedAddressOrNil_Set ss oa) (StorageBackedAddressOrNil_Get ss) w) = Ok oa"
    using assms
    by (cases oa) (simp_all add: StorageBackedAddressOrNil_Set_def StorageBackedAddressOrNil_Get_def
        run_simps flip: AddressToHash_def)
  then show ?thesis
    using assms
    by (simp add: run_simps big_at_def sint_tc256 uint_clamp [simplified] Let_def)
      (simp add: clamp_def)
qed

section \<open>Byte strings\<close>

definition chunk :: "bytes \<Rightarrow> nat \<Rightarrow> bytes" where
  "chunk b i = take 32 (drop (32 * i) b)"

text \<open>The slots from \<open>offset\<close> on hold the 32-byte words of \<open>b\<close>, the last of them short.\<close>

definition holds_bytes :: "(bytes \<Rightarrow> bytes) \<Rightarrow> Storage \<Rightarrow> world \<Rightarrow> bytes \<Rightarrow> u64 \<Rightarrow> bool" where
  "holds_bytes K s w b offset \<longleftrightarrow>
     (\<forall>i \<le> length b div 32. sdb w (NewSlot K s (offset + of_nat i)) = bytes_hash (chunk b i))"

lemma chunk_Suc: "chunk b (Suc i) = chunk (drop 32 b) i"
  by (simp add: chunk_def add.commute)

lemma holds_bytes_step:
  assumes "length b \<ge> 32"
  shows "holds_bytes K s w b offset \<longleftrightarrow>
    sdb w (NewSlot K s offset) = bytes_hash (take 32 b) \<and> holds_bytes K s w (drop 32 b) (offset + 1)"
proof -
  have n: "length b div 32 = Suc (length (drop 32 b) div 32)"
    using assms by (simp add: le_div_geq)
  have "(\<forall>i \<le> Suc m. P i) \<longleftrightarrow> P 0 \<and> (\<forall>i \<le> m. P (Suc i))" for P and m :: nat
    using All_less_Suc2 [of "Suc m" P] by (simp add: less_Suc_eq_le)
  note split = this
  show ?thesis
    unfolding holds_bytes_def n split
    by (simp add: chunk_Suc add.assoc [symmetric] add.commute [of _ 1]) (simp add: chunk_def add_ac)
qed

lemma hash_bytes_pad:
  assumes "length b \<le> 32"
  shows "hash_bytes (bytes_hash b) = replicate (32 - length b) 0 @ b"
proof -
  have "be_nat (replicate n 0) = 0" for n
    by (induction n) (simp_all add: replicate_append_same [symmetric])
  then have "bytes_hash (replicate (32 - length b) 0 @ b) = bytes_hash b"
    by (simp add: bytes_hash_def be_nat_append)
  with assms show ?thesis
    using hash_bytes_inverse [of "replicate (32 - length b) 0 @ b"] by simp
qed

lemma GetBytes_loop_run:
  assumes "sys w" "holds_bytes K s w b offset"
  shows "\<exists>w'. GetBytes_loop K s (length b) offset ret w = (Ok (ret @ b), w') \<and> sys w' \<and> sdb w' = sdb w"
  using assms
proof (induction "length b" arbitrary: b offset ret w rule: less_induct)
  case less
  show ?case
  proof (cases "length b \<ge> 32")
    case True
    with less.prems have h: "sdb w (NewSlot K s offset) = bytes_hash (take 32 b)"
      and r: "holds_bytes K s (charge StorageReadCost w) (drop 32 b) (offset + 1)"
      by (simp_all add: holds_bytes_step) (simp add: holds_bytes_def)
    have "length (drop 32 b) < length b" using True by simp
    from less.hyps [OF this _ r, of "ret @ take 32 b"] less.prems(1)
    show ?thesis
      using True h by (subst GetBytes_loop.simps) (simp add: run_simps hash_bytes_inverse)
  next
    case False
    then have "hash_bytes (bytes_hash b) = replicate (32 - length b) 0 @ b"
      using hash_bytes_pad [of b] by simp
    with False less.prems show ?thesis
      by (subst GetBytes_loop.simps) (simp add: run_simps holds_bytes_def chunk_def)
  qed
qed

lemma SetBytes_loop_run:
  assumes cf: "collision_free K S" "uint_keys s \<subseteq> S" and "sys w" "length b div 32 < 2 ^ 63"
  shows "\<exists>w'. SetBytes_loop K s b offset w = (Ok (), w') \<and> sys w' \<and> holds_bytes K s w' b offset \<and>
    (\<forall>j. (\<forall>i \<le> length b div 32. j \<noteq> offset + of_nat i) \<longrightarrow> sdb w' (NewSlot K s j) = sdb w (NewSlot K s j))"
  using assms(3,4)
proof (induction "length b" arbitrary: b offset w rule: less_induct)
  case less
  note slot [simp] = NewSlot_inject [OF cf]
  show ?case
  proof (cases "length b \<ge> 32")
    case True
    let ?w = "upd (NewSlot K s offset) (bytes_hash (take 32 b)) (charge (writeCost (bytes_hash (take 32 b))) w)"
    have n: "length b div 32 = Suc (length (drop 32 b) div 32)" using True by (simp add: le_div_geq)
    have "length (drop 32 b) < length b" using True by simp
    from less.hyps [OF this, of ?w "offset + 1"] less.prems n
    obtain w' where w': "SetBytes_loop K s (drop 32 b) (offset + 1) ?w = (Ok (), w')" "sys w'"
      "holds_bytes K s w' (drop 32 b) (offset + 1)"
      and frame: "\<And>j. (\<forall>i \<le> length (drop 32 b) div 32. j \<noteq> offset + 1 + of_nat i) \<Longrightarrow>
        sdb w' (NewSlot K s j) = sdb ?w (NewSlot K s j)"
      by auto
    have "offset \<noteq> offset + 1 + of_nat i" if "i \<le> length (drop 32 b) div 32" for i
    proof -
      have "Suc i < 2 ^ 64" using that less.prems(2) n by simp
      then have "(of_nat (Suc i) :: u64) \<noteq> 0" by (simp add: word_eq_unat unat_of_nat del: of_nat_Suc)
      then show ?thesis by (simp add: add.assoc)
    qed
    then have "sdb w' (NewSlot K s offset) = bytes_hash (take 32 b)" using frame [of offset] by simp
    moreover have "sdb w' (NewSlot K s j) = sdb w (NewSlot K s j)"
      if "\<forall>i \<le> length b div 32. j \<noteq> offset + of_nat i" for j
    proof -
      have "j \<noteq> offset" using that by fastforce
      moreover have "j \<noteq> offset + 1 + of_nat i" if "i \<le> length (drop 32 b) div 32" for i
        using \<open>\<forall>i \<le> length b div 32. j \<noteq> offset + of_nat i\<close> [rule_format, of "Suc i"] that n
        by (simp add: add.assoc)
      ultimately show ?thesis using frame [of j] by simp
    qed
    ultimately show ?thesis
      using True less.prems(1) w' by (subst SetBytes_loop.simps) (simp add: run_simps holds_bytes_step)
  next
    case False
    with less.prems(1) show ?thesis
      by (subst SetBytes_loop.simps) (simp add: run_simps holds_bytes_def chunk_def)
  qed
qed

lemma ClearBytes_loop_run:
  assumes "sys w"
  shows "\<exists>w'. ClearBytes_loop K s n offset w = (Ok (), w') \<and> sys w' \<and>
    sdb w' = (\<lambda>a. if a \<in> (\<lambda>i. NewSlot K s (offset + of_nat i)) ` {..<(n + 31) div 32} then 0 else sdb w a)"
  using assms
proof (induction n arbitrary: offset w rule: less_induct)
  case (less n)
  show ?case
  proof (cases "n = 0")
    case True
    with less.prems show ?thesis by (subst ClearBytes_loop.simps) simp
  next
    case False
    let ?m = "if n < 32 then 0 else n - 32" and ?w = "upd (NewSlot K s offset) 0 (charge (writeCost 0) w)"
    have n: "(n + 31) div 32 = Suc ((?m + 31) div 32)" using False by auto
    have "?m < n" and "sys ?w" using False less.prems by simp_all
    from less.IH [OF this, of "offset + 1"]
    obtain w' where "ClearBytes_loop K s ?m (offset + 1) ?w = (Ok (), w')" "sys w'"
      and sdb: "sdb w' = (\<lambda>a. if a \<in> (\<lambda>i. NewSlot K s (offset + 1 + of_nat i)) ` {..<(?m + 31) div 32}
        then 0 else sdb ?w a)"
      by blast
    moreover have "(\<lambda>i. NewSlot K s (offset + of_nat i)) ` {..<(n + 31) div 32} =
      insert (NewSlot K s offset) ((\<lambda>i. NewSlot K s (offset + 1 + of_nat i)) ` {..<(?m + 31) div 32})"
      unfolding n lessThan_Suc_eq_insert_0 by (simp add: image_image add.assoc)
    ultimately show ?thesis
      using False less.prems by (subst ClearBytes_loop.simps) (auto simp: run_simps)
  qed
qed

lemma frame_bytes_loops [frame_intros]:
  "range (NewSlot K s) \<subseteq> F \<Longrightarrow> frame F (ClearBytes_loop K s n i)"
  "range (NewSlot K s) \<subseteq> F \<Longrightarrow> frame F (SetBytes_loop K s b i)"
proof -
  show "range (NewSlot K s) \<subseteq> F \<Longrightarrow> frame F (ClearBytes_loop K s n i)"
    by (induction K s n i rule: ClearBytes_loop.induct)
      (subst ClearBytes_loop.simps, simp add: frame_intros range_subsetD)
  show "range (NewSlot K s) \<subseteq> F \<Longrightarrow> frame F (SetBytes_loop K s b i)"
    by (induction K s b i rule: SetBytes_loop.induct)
      (subst SetBytes_loop.simps, simp add: frame_intros range_subsetD)
qed

lemma frame_bytes [frame_intros]:
  "range (NewSlot K s) \<subseteq> F \<Longrightarrow> frame F (ClearBytes K s)"
  "range (NewSlot K s) \<subseteq> F \<Longrightarrow> frame F (SetBytes K s b)"
  by (simp_all add: ClearBytes_def SetBytes_def frame_intros range_subsetD)

lemma ClearBytes_run:
  assumes "sys w"
  shows "\<exists>w'. ClearBytes K s w = (Ok (), w') \<and> sys w' \<and>
    sdb w' = (\<lambda>a. if a = NewSlot K s 0 \<or>
        a \<in> (\<lambda>i. NewSlot K s (1 + of_nat i)) ` {..<(unat (u64_at w (NewSlot K s 0)) + 31) div 32}
      then 0 else sdb w a)"
proof -
  let ?w = "charge StorageReadCost w" and ?n = "unat (u64_at w (NewSlot K s 0))"
  have "sys ?w" using assms by simp
  from ClearBytes_loop_run [OF this, of K s ?n 1] obtain w' where
    "ClearBytes_loop K s ?n 1 ?w = (Ok (), w')" "sys w'"
    "sdb w' = (\<lambda>a. if a \<in> (\<lambda>i. NewSlot K s (1 + of_nat i)) ` {..<(?n + 31) div 32} then 0 else sdb ?w a)"
    by blast
  with assms show ?thesis by (auto simp: ClearBytes_def run_simps u64_at_def)
qed

lemma SetBytes_run:
  assumes cf: "collision_free K S" "uint_keys s \<subseteq> S" and w: "sys w" and len: "length b < 2 ^ 64"
  shows "\<exists>w'. SetBytes K s b w = (Ok (), w') \<and> sys w' \<and> holds_bytes K s w' b 1 \<and>
    sdb w' (NewSlot K s 0) = UintToHash (of_nat (length b))"
proof -
  from ClearBytes_run [OF w] obtain w1 where w1: "ClearBytes K s w = (Ok (), w1)" "sys w1" by blast
  let ?n = "UintToHash (of_nat (length b))"
  let ?w = "upd (NewSlot K s 0) ?n (charge (writeCost ?n) w1)"
  have d: "length b div 32 < 2 ^ 63" using len by simp
  have "sys ?w" using w1 by simp
  from SetBytes_loop_run [OF cf this d, of 1] obtain w' where
    w': "SetBytes_loop K s b 1 ?w = (Ok (), w')" "sys w'" "holds_bytes K s w' b 1"
    and frame: "\<And>j. (\<forall>i \<le> length b div 32. j \<noteq> 1 + of_nat i) \<Longrightarrow>
        sdb w' (NewSlot K s j) = sdb ?w (NewSlot K s j)"
    by blast
  have "(0 :: u64) \<noteq> 1 + of_nat i" if "i \<le> length b div 32" for i
  proof -
    have "Suc i < 2 ^ 64" using that d by simp
    then have "unat (of_nat (Suc i) :: u64) = Suc i" by (simp add: unat_of_nat del: of_nat_Suc)
    then show ?thesis by (metis nat.distinct(1) of_nat_Suc unsigned_0)
  qed
  then have "sdb w' (NewSlot K s 0) = ?n" using frame [of 0] by simp
  with w1 w' show ?thesis by (auto simp: SetBytes_def run_simps)
qed

lemma GetBytes_run:
  assumes "sys w" "holds_bytes K s w b 1" "sdb w (NewSlot K s 0) = UintToHash (of_nat (length b))"
    and "length b < 2 ^ 64"
  shows "\<exists>w'. GetBytes K s w = (Ok b, w') \<and> sys w' \<and> sdb w' = sdb w"
proof -
  have n: "unat (of_nat (length b) :: u64) = length b" using assms(4) by (simp add: unat_of_nat)
  have "sys (charge StorageReadCost w)" "holds_bytes K s (charge StorageReadCost w) b 1"
    using assms(1,2) by (simp_all add: holds_bytes_def)
  from GetBytes_loop_run [OF this, of "[]"] show ?thesis
    using assms(1,3) by (simp add: GetBytes_def run_simps n)
qed

lemma ClearBytes_clears:
  assumes w: "sys w" and h: "holds_bytes K s w b 1" and z: "sdb w (NewSlot K s 0) = UintToHash (of_nat (length b))"
    and len: "length b < 2 ^ 64"
  shows "\<exists>w'. ClearBytes K s w = (Ok (), w') \<and> sys w' \<and>
    (\<forall>i \<le> Suc (length b div 32). sdb w' (NewSlot K s (of_nat i)) = 0)"
proof -
  have n: "unat (u64_at w (NewSlot K s 0)) = length b" using z len by (simp add: u64_at_def unat_of_nat)
  from ClearBytes_run [OF w, of K s] obtain w' where w': "ClearBytes K s w = (Ok (), w')" "sys w'"
    and sdb: "sdb w' = (\<lambda>a. if a = NewSlot K s 0 \<or>
        a \<in> (\<lambda>i. NewSlot K s (1 + of_nat i)) ` {..<(length b + 31) div 32} then 0 else sdb w a)"
    unfolding n by blast
  have "sdb w' (NewSlot K s (1 + of_nat j)) = 0" if "j \<le> length b div 32" for j
  proof (cases "j < (length b + 31) div 32")
    case True
    then show ?thesis by (auto simp: sdb)
  next
    case False
    with that have "32 * j = length b" by linarith
    then have "chunk b j = []" by (simp add: chunk_def)
    with h that show ?thesis by (auto simp: sdb holds_bytes_def bytes_hash_def)
  qed
  then have "sdb w' (NewSlot K s (of_nat i)) = 0" if "i \<le> Suc (length b div 32)" for i
    using that by (cases i) (auto simp: sdb)
  with w' show ?thesis by blast
qed

text \<open>
  C29: a byte string of any length that \<^verbatim>\<open>SetBytes\<close> stores, over whatever the space held before, is what
  \<^verbatim>\<open>GetBytes\<close> returns; \<^verbatim>\<open>ClearBytes\<close> then zeroes its length and every word of it; and nothing
  outside of the space's own slots changes.
\<close>

theorem bytes_roundtrip:
  assumes "collision_free K (uint_keys s)" and "sys w" and "length b < 2 ^ 64"
  shows "\<exists>w1 w2 w3. SetBytes K s b w = (Ok (), w1) \<and> GetBytes K s w1 = (Ok b, w2) \<and>
    fst (GetBytesSize K s w1) = Ok (of_nat (length b)) \<and>
    ClearBytes K s w2 = (Ok (), w3) \<and>
    (\<forall>i \<le> Suc (length b div 32). sdb w3 (NewSlot K s (of_nat i)) = 0) \<and>
    (\<forall>a. a \<notin> range (NewSlot K s) \<longrightarrow> sdb w1 a = sdb w a \<and> sdb w3 a = sdb w a)"
proof -
  obtain w1 where w1: "SetBytes K s b w = (Ok (), w1)" "sys w1" "holds_bytes K s w1 b 1"
    "sdb w1 (NewSlot K s 0) = UintToHash (of_nat (length b))"
    using SetBytes_run [OF assms(1) subset_refl assms(2,3)] by blast
  obtain w2 where w2: "GetBytes K s w1 = (Ok b, w2)" "sys w2" "sdb w2 = sdb w1"
    using GetBytes_run [OF w1(2-4) assms(3)] by blast
  have "holds_bytes K s w2 b 1" "sdb w2 (NewSlot K s 0) = UintToHash (of_nat (length b))"
    using w1 w2 by (simp_all add: holds_bytes_def)
  from ClearBytes_clears [OF w2(2) this assms(3)] obtain w3 where
    w3: "ClearBytes K s w2 = (Ok (), w3)" "\<forall>i \<le> Suc (length b div 32). sdb w3 (NewSlot K s (of_nat i)) = 0"
    by blast
  have "sdb w1 a = sdb w a \<and> sdb w3 a = sdb w a" if "a \<notin> range (NewSlot K s)" for a
    using frameD [OF frame_bytes(2) w1(1) that] frameD [OF frame_bytes(1) w3(1) that] w2(3) by simp
  moreover have "fst (GetBytesSize K s w1) = Ok (of_nat (length b))"
    using w1 by (simp add: GetBytesSize_def run_simps)
  ultimately show ?thesis using w1(1) w2(1) w3 by blast
qed

lemma toyK_spaces:
  assumes "distinct (map (take 12) ks)" and "\<And>sk. sk \<in> set ks \<Longrightarrow> length sk = 32"
    and S: "\<And>sk k. (sk, k) \<in> S \<Longrightarrow> sk \<in> set ks \<and> unat k < 2 ^ 160"
  shows "collision_free toyK S"
proof (rule toyK_collision_free)
  have "inj_on (take 12) (set ks)" using assms(1) by (simp add: distinct_map)
  then show "inj_on (take 12) (fst ` S)" by (rule inj_on_subset) (use S in force)
qed (use assms in blast)

lemma toyK_uint_keys: "length (storageKey s) = 32 \<Longrightarrow> collision_free toyK (uint_keys s)"
proof (rule toyK_collision_free)
  show "length sk = 32 \<and> unat k < 2 ^ 160" if "length (storageKey s) = 32" "(sk, k) \<in> uint_keys s" for sk k
    using that by (auto simp: uint_keys_def) (rule less_trans [OF unat_u64_bound], simp)
qed (auto simp: uint_keys_def inj_on_def)

theorem bytes_roundtrip_witness:
  "\<exists>w1 w2. SetBytes toyK \<lparr>storageKey = replicate 32 1, hashCache = False\<rparr> (replicate 40 7) blank = (Ok (), w1) \<and>
     GetBytes toyK \<lparr>storageKey = replicate 32 1, hashCache = False\<rparr> w1 = (Ok (replicate 40 7), w2)"
proof -
  let ?s = "\<lparr>storageKey = replicate 32 (1 :: u8), hashCache = False\<rparr>"
  have "collision_free toyK (uint_keys ?s)" by (rule toyK_uint_keys) simp
  moreover have "length (replicate 40 (7 :: u8)) < 2 ^ 64" by simp
  ultimately show ?thesis using bytes_roundtrip [of toyK ?s blank "replicate 40 7"] sys_blank by blast
qed

text \<open>
  A read-only burner protects the state: whatever the operation, a single word, a typed value or a
  whole byte string, no slot and no balance changes, and the write itself reports the protection.
\<close>

theorem read_only_protects:
  assumes "read_only (w_burner w)"
  shows "Set K s k v w = (Err ErrWriteProtection, w) \<and>
    sdb (snd (SetBytes K s b w)) = sdb w \<and> sdb (snd (ClearBytes K s w)) = sdb w \<and>
    sdb (snd (Swap K s k v w)) = sdb w \<and> sdb (snd (StorageBackedUint64_Increment ss w)) = sdb w \<and>
    sdb (snd (StorageBackedBigInt_SetChecked ss x w)) = sdb w"
proof -
  have "Set K s k v w = (Err ErrWriteProtection, w)"
    using assms by (simp add: Set_def ReadOnly_def bindM_def)
  then show ?thesis
    using assms by (simp add: ro_safe_sdb ro_intros)
qed

end
