(* ===== verification/Queue.thy ===== *)
theory Queue
  imports StorageFacts
begin

text \<open>
  \<^verbatim>\<open>arbos/storage/queue.go\<close>: a first-in first-out queue of words in a storage space, with the two
  offsets in slots 0 and 1 and the entries from slot 2 on. The locale \<open>fifo_queue\<close> states what a queue
  promises its clients (the retryable timeout queue is one) and is interpreted on the operations below.
\<close>

section \<open>Definitions\<close>

record Queue =
  q_storage :: Storage
  nextPutOffset :: StorageSlot
  nextGetOffset :: StorageSlot

definition InitializeQueue :: "(bytes \<Rightarrow> bytes) \<Rightarrow> Storage \<Rightarrow> unit arb" where
  "InitializeQueue K sto = thenM (SetUint64ByUint64 K sto 0 2) (SetUint64ByUint64 K sto 1 2)"

definition OpenQueue :: "(bytes \<Rightarrow> bytes) \<Rightarrow> Storage \<Rightarrow> Queue" where
  "OpenQueue K sto =
     \<lparr>q_storage = WithoutCache sto,
      nextPutOffset = OpenStorageBackedUint64 K sto 0,
      nextGetOffset = OpenStorageBackedUint64 K sto 1\<rparr>"

definition Queue_IsEmpty :: "Queue \<Rightarrow> bool arb" where
  "Queue_IsEmpty q =
     bindM (StorageBackedUint64_Get (nextPutOffset q)) (\<lambda>put.
     bindM (StorageBackedUint64_Get (nextGetOffset q)) (\<lambda>get. returnM (put = get)))"

definition Queue_Size :: "Queue \<Rightarrow> u64 arb" where
  "Queue_Size q =
     bindM (StorageBackedUint64_Get (nextPutOffset q)) (\<lambda>put.
     bindM (StorageBackedUint64_Get (nextGetOffset q)) (\<lambda>get. returnM (put - get)))"

definition Queue_Peek :: "(bytes \<Rightarrow> bytes) \<Rightarrow> Queue \<Rightarrow> hash option arb" where
  "Queue_Peek K q =
     bindM (Queue_IsEmpty q) (\<lambda>empty. if empty then returnM None else
     bindM (StorageBackedUint64_Get (nextGetOffset q)) (\<lambda>nxt.
     bindM (GetByUint64 K (q_storage q) nxt) (\<lambda>res. returnM (Some res))))"

definition Queue_Get :: "(bytes \<Rightarrow> bytes) \<Rightarrow> Queue \<Rightarrow> hash option arb" where
  "Queue_Get K q =
     bindM (Queue_IsEmpty q) (\<lambda>empty. if empty then returnM None else
     bindM (StorageBackedUint64_Increment (nextGetOffset q)) (\<lambda>newOffset.
     bindM (Swap K (q_storage q) (UintToHash (newOffset - 1)) 0) (\<lambda>res. returnM (Some res))))"

definition Queue_Put :: "(bytes \<Rightarrow> bytes) \<Rightarrow> Queue \<Rightarrow> hash \<Rightarrow> unit arb" where
  "Queue_Put K q val =
     bindM (StorageBackedUint64_Increment (nextPutOffset q)) (\<lambda>newOffset.
       SetByUint64 K (q_storage q) (newOffset - 1) val)"

definition Queue_Shift :: "Queue \<Rightarrow> bool arb" where
  "Queue_Shift q =
     bindM (StorageBackedUint64_Get (nextPutOffset q)) (\<lambda>put.
     bindM (StorageBackedUint64_Get (nextGetOffset q)) (\<lambda>get.
       if put \<noteq> get then returnM False
       else thenM (StorageBackedUint64_Set (nextGetOffset q) 2)
              (thenM (StorageBackedUint64_Set (nextPutOffset q) 2) (returnM True))))"

text \<open>The loop of \<^verbatim>\<open>ForEach\<close>, by the number of entries left to visit.\<close>

primrec Queue_ForEach_loop ::
  "(bytes \<Rightarrow> bytes) \<Rightarrow> Queue \<Rightarrow> (u64 \<Rightarrow> hash \<Rightarrow> bool arb) \<Rightarrow> u64 \<Rightarrow> nat \<Rightarrow> u64 \<Rightarrow> unit arb" where
  "Queue_ForEach_loop K q closure offset 0 index = returnM ()"
| "Queue_ForEach_loop K q closure offset (Suc left) index =
     bindM (GetByUint64 K (q_storage q) (offset + index)) (\<lambda>entry.
     bindM (closure index entry) (\<lambda>stop.
       if stop then returnM () else Queue_ForEach_loop K q closure offset left (index + 1)))"

definition Queue_ForEach :: "(bytes \<Rightarrow> bytes) \<Rightarrow> Queue \<Rightarrow> (u64 \<Rightarrow> hash \<Rightarrow> bool arb) \<Rightarrow> unit arb" where
  "Queue_ForEach K q closure =
     bindM (Queue_Size q) (\<lambda>size.
     bindM (StorageBackedUint64_Get (nextGetOffset q)) (\<lambda>offset.
       Queue_ForEach_loop K q closure offset (unat size) 0))"

section \<open>What a queue promises\<close>

text \<open>
  Sequences of operations on a queue: the values the reads return, run on an implementation
  (\<open>run_queue\<close>) and on a list (\<open>list_queue\<close>, which also gives the list that is left).
\<close>

datatype 'v queue_op = QPut 'v | QGet

primrec run_queue ::
  "('v \<Rightarrow> ('s, unit) call) \<Rightarrow> ('s, 'v option) call \<Rightarrow> 'v queue_op list \<Rightarrow> ('s, 'v option list) call" where
  "run_queue put get [] = returnM []"
| "run_queue put get (op # ops) =
     (case op of
        QPut v \<Rightarrow> thenM (put v) (run_queue put get ops)
      | QGet \<Rightarrow> bindM get (\<lambda>r. bindM (run_queue put get ops) (\<lambda>rs. returnM (r # rs))))"

primrec list_queue :: "'v queue_op list \<Rightarrow> 'v list \<Rightarrow> 'v option list \<times> 'v list" where
  "list_queue [] xs = ([], xs)"
| "list_queue (op # ops) xs =
     (case op of
        QPut v \<Rightarrow> list_queue ops (xs @ [v])
      | QGet \<Rightarrow> (case list_queue ops (tl xs) of
          (rs, ys) \<Rightarrow> ((case xs of [] \<Rightarrow> None | v # _ \<Rightarrow> Some v) # rs, ys)))"

primrec puts :: "'v queue_op list \<Rightarrow> nat" where
  "puts [] = 0"
| "puts (op # ops) = (case op of QPut _ \<Rightarrow> Suc (puts ops) | QGet \<Rightarrow> puts ops)"

text \<open>\<open>contents\<close> is the abstract queue, \<open>capacity\<close> how many entries still fit.\<close>

locale fifo_queue =
  fixes put :: "'v \<Rightarrow> ('s, unit) call" and get :: "('s, 'v option) call"
    and peek :: "('s, 'v option) call" and size :: "('s, u64) call"
    and inv :: "'s \<Rightarrow> bool" and contents :: "'s \<Rightarrow> 'v list" and capacity :: "'s \<Rightarrow> nat"
  assumes put_law: "inv s \<Longrightarrow> 0 < capacity s \<Longrightarrow>
      \<exists>s'. put v s = (Ok (), s') \<and> inv s' \<and> contents s' = contents s @ [v] \<and> capacity s' = capacity s - 1"
    and get_law: "inv s \<Longrightarrow>
      \<exists>s'. get s = (Ok (case contents s of [] \<Rightarrow> None | v # _ \<Rightarrow> Some v), s') \<and> inv s' \<and>
        contents s' = tl (contents s) \<and> capacity s' = capacity s"
    and peek_law: "inv s \<Longrightarrow>
      \<exists>s'. peek s = (Ok (case contents s of [] \<Rightarrow> None | v # _ \<Rightarrow> Some v), s') \<and> inv s' \<and>
        contents s' = contents s \<and> capacity s' = capacity s"
    and size_law: "inv s \<Longrightarrow>
      \<exists>s'. size s = (Ok (of_nat (length (contents s))), s') \<and> inv s' \<and>
        contents s' = contents s \<and> capacity s' = capacity s"
begin

lemma run_queue_refines:
  assumes "inv s" "puts ops \<le> capacity s"
  shows "\<exists>s'. run_queue put get ops s = (Ok (fst (list_queue ops (contents s))), s') \<and> inv s' \<and>
    contents s' = snd (list_queue ops (contents s)) \<and> capacity s' = capacity s - puts ops"
  using assms
proof (induction ops arbitrary: s)
  case Nil
  then show ?case by simp
next
  case (Cons op ops)
  show ?case
  proof (cases op)
    case (QPut v)
    with Cons.prems(2) have "0 < capacity s" by simp
    with put_law [OF Cons.prems(1)] obtain t where t: "put v s = (Ok (), t)" "inv t"
      "contents t = contents s @ [v]" "capacity t = capacity s - 1"
      by blast
    moreover have "puts ops \<le> capacity t" using Cons.prems(2) t(4) QPut by simp
    ultimately show ?thesis using Cons.IH [of t] QPut by (auto simp: bindM_Ok)
  next
    case QGet
    from get_law [OF Cons.prems(1)] obtain t where
      t: "get s = (Ok (case contents s of [] \<Rightarrow> None | v # _ \<Rightarrow> Some v), t)" "inv t"
      "contents t = tl (contents s)" "capacity t = capacity s"
      by blast
    moreover have "puts ops \<le> capacity t" using Cons.prems(2) t(4) QGet by simp
    ultimately show ?thesis using Cons.IH [of t] QGet
      by (auto simp: bindM_Ok split: prod.splits)
  qed
qed

end

section \<open>The storage-backed queue\<close>

definition queue_put :: "(bytes \<Rightarrow> bytes) \<Rightarrow> Storage \<Rightarrow> world \<Rightarrow> u64" where
  "queue_put K sto w = u64_at w (NewSlot K sto 0)"

definition queue_get :: "(bytes \<Rightarrow> bytes) \<Rightarrow> Storage \<Rightarrow> world \<Rightarrow> u64" where
  "queue_get K sto w = u64_at w (NewSlot K sto 1)"

definition queue_contents :: "(bytes \<Rightarrow> bytes) \<Rightarrow> Storage \<Rightarrow> world \<Rightarrow> hash list" where
  "queue_contents K sto w =
     map (\<lambda>i. sdb w (NewSlot K sto (of_nat i))) [unat (queue_get K sto w) ..< unat (queue_put K sto w)]"

definition queue_capacity :: "(bytes \<Rightarrow> bytes) \<Rightarrow> Storage \<Rightarrow> world \<Rightarrow> nat" where
  "queue_capacity K sto w = 2 ^ 64 - 1 - unat (queue_put K sto w)"

definition queue_inv :: "(bytes \<Rightarrow> bytes) \<Rightarrow> Storage \<Rightarrow> world \<Rightarrow> bool" where
  "queue_inv K sto w \<longleftrightarrow>
     collision_free K (uint_keys sto) \<and> sys w \<and>
     u64_slot w (NewSlot K sto 0) \<and> u64_slot w (NewSlot K sto 1) \<and>
     2 \<le> unat (queue_get K sto w) \<and> unat (queue_get K sto w) \<le> unat (queue_put K sto w)"

lemma WithoutCache_slot [simp]: "NewSlot K (WithoutCache s) i = NewSlot K s i"
  "mapAddress K (WithoutCache s) k = mapAddress K s k"
  by (simp_all add: NewSlot_def mapAddress_def WithoutCache_def)

lemma OpenQueue_sel [simp]:
  "q_storage (OpenQueue K sto) = WithoutCache sto" "nextPutOffset (OpenQueue K sto) = NewSlot K sto 0"
  "nextGetOffset (OpenQueue K sto) = NewSlot K sto 1"
  by (simp_all add: OpenQueue_def)

lemmas queue_sel_defs = queue_put_def queue_get_def

lemma queue_slot_eq:
  "collision_free K (uint_keys sto) \<Longrightarrow> NewSlot K sto i = NewSlot K sto j \<longleftrightarrow> i = j"
  by (rule NewSlot_inject) auto

lemma of_nat_small_eq:
  "2 \<le> i \<Longrightarrow> i < 2 ^ 64 \<Longrightarrow> (of_nat i :: u64) \<noteq> 0 \<and> (of_nat i :: u64) \<noteq> 1"
  by (auto simp: word_eq_unat unat_of_nat)

lemma of_nat_eq_small: "i < 2 ^ 64 \<Longrightarrow> (of_nat i = (v :: u64)) \<longleftrightarrow> i = unat v"
  by (auto simp: word_eq_unat unat_of_nat)

lemma contents_nonempty:
  "unat (queue_get K sto w) < unat (queue_put K sto w) \<Longrightarrow>
     queue_contents K sto w = sdb w (NewSlot K sto (queue_get K sto w)) #
       map (\<lambda>i. sdb w (NewSlot K sto (of_nat i))) [Suc (unat (queue_get K sto w)) ..< unat (queue_put K sto w)]"
  by (simp add: queue_contents_def upt_conv_Cons)

lemma contents_empty: "queue_inv K sto w \<Longrightarrow> queue_contents K sto w = [] \<longleftrightarrow> queue_put K sto w = queue_get K sto w"
  by (auto simp: queue_contents_def queue_inv_def word_eq_unat)

lemma Queue_IsEmpty_run [run_simps]:
  "queue_inv K sto w \<Longrightarrow> Queue_IsEmpty (OpenQueue K sto) w =
     (Ok (queue_put K sto w = queue_get K sto w), charge StorageReadCost (charge StorageReadCost w))"
  by (simp add: Queue_IsEmpty_def queue_inv_def queue_sel_defs run_simps)

lemma queue_charge [simp]:
  "queue_inv K sto (charge n w) = queue_inv K sto w" "queue_contents K sto (charge n w) = queue_contents K sto w"
  "queue_capacity K sto (charge n w) = queue_capacity K sto w"
  "queue_put K sto (charge n w) = queue_put K sto w" "queue_get K sto (charge n w) = queue_get K sto w"
  by (simp_all add: queue_inv_def queue_contents_def queue_capacity_def queue_sel_defs)

lemma queue_put_law:
  assumes inv: "queue_inv K sto w" and cap: "0 < queue_capacity K sto w"
  shows "\<exists>w'. Queue_Put K (OpenQueue K sto) v w = (Ok (), w') \<and> queue_inv K sto w' \<and>
    queue_contents K sto w' = queue_contents K sto w @ [v] \<and>
    queue_capacity K sto w' = queue_capacity K sto w - 1"
proof -
  let ?p = "queue_put K sto w" and ?g = "queue_get K sto w"
  note slot = queue_slot_eq [of K sto]
  have cf: "collision_free K (uint_keys sto)" and w: "sys w" "u64_slot w (NewSlot K sto 0)"
    "u64_slot w (NewSlot K sto 1)" and le: "2 \<le> unat ?g" "unat ?g \<le> unat ?p"
    using inv by (auto simp: queue_inv_def)
  have p: "unat ?p + 1 < 2 ^ 64" using cap by (simp add: queue_capacity_def)
  then have p1: "unat (?p + 1) = Suc (unat ?p)" by (simp add: unat_plus_mod)
  from p have "?p \<noteq> - 1" by (auto simp: unsigned_minus_1_eq_mask mask_eq_exp_minus_1)
  then have max: "u64_at w (NewSlot K sto 0) \<noteq> - 1" by (simp add: queue_put_def)
  have p01: "?p \<noteq> 0" "?p \<noteq> 1" using le by (auto simp: word_eq_unat)
  let ?w = "upd (NewSlot K sto ?p) v (charge (writeCost v) (upd (NewSlot K sto 0) (UintToHash (?p + 1))
      (charge (writeCost (UintToHash (?p + 1))) (charge StorageReadCost w))))"
  have run: "Queue_Put K (OpenQueue K sto) v w = (Ok (), ?w)"
    using w max by (simp add: Queue_Put_def run_simps queue_put_def)
  have sel: "queue_put K sto ?w = ?p + 1" "queue_get K sto ?w = ?g"
    using p01 cf by (simp_all add: queue_sel_defs slot)
  have old: "sdb ?w (NewSlot K sto (of_nat i)) = sdb w (NewSlot K sto (of_nat i))"
    if "unat ?g \<le> i" "i < unat ?p" for i
  proof -
    have "i < 2 ^ 64" using that(2) le_unat_u64 [of i ?p] by simp
    with that le of_nat_small_eq [of i] cf show ?thesis by (simp add: slot of_nat_eq_small)
  qed
  have "queue_contents K sto ?w = queue_contents K sto w @ [v]"
    using le old by (simp add: queue_contents_def sel p1 del: upd_sel charge_sel) simp
  moreover have "queue_inv K sto ?w"
    using cf w le p p1 p01 sel by (simp add: queue_inv_def slot)
  moreover have "queue_capacity K sto ?w = queue_capacity K sto w - 1"
    by (simp add: queue_capacity_def sel p1)
  ultimately show ?thesis using run by blast
qed

lemma queue_get_law:
  assumes inv: "queue_inv K sto w"
  shows "\<exists>w'. Queue_Get K (OpenQueue K sto) w =
      (Ok (case queue_contents K sto w of [] \<Rightarrow> None | v # _ \<Rightarrow> Some v), w') \<and> queue_inv K sto w' \<and>
    queue_contents K sto w' = tl (queue_contents K sto w) \<and> queue_capacity K sto w' = queue_capacity K sto w"
proof (cases "queue_put K sto w = queue_get K sto w")
  case True
  then show ?thesis using inv
    by (simp add: Queue_Get_def run_simps contents_empty [OF inv, THEN iffD2])
next
  case False
  let ?p = "queue_put K sto w" and ?g = "queue_get K sto w"
  note slot = queue_slot_eq [of K sto]
  have cf: "collision_free K (uint_keys sto)" and w: "sys w" "u64_slot w (NewSlot K sto 0)"
    "u64_slot w (NewSlot K sto 1)" and le: "2 \<le> unat ?g" "unat ?g \<le> unat ?p"
    using inv by (auto simp: queue_inv_def)
  have lt: "unat ?g < unat ?p" using False le by (simp add: word_eq_unat)
  have g: "unat ?g + 1 < 2 ^ 64" using lt le_unat_u64 [of "unat ?g + 1" ?p] by simp
  from g have g1: "unat (?g + 1) = Suc (unat ?g)" and "?g \<noteq> - 1"
    by (auto simp: unat_plus_mod unsigned_minus_1_eq_mask mask_eq_exp_minus_1)
  then have max: "u64_at w (NewSlot K sto 1) \<noteq> - 1" by (simp add: queue_get_def)
  have g01: "?g \<noteq> 0" "?g \<noteq> 1" using le by (auto simp: word_eq_unat)
  let ?w1 = "upd (NewSlot K sto 1) (UintToHash (?g + 1)) (charge (writeCost (UintToHash (?g + 1)))
      (charge StorageReadCost (charge StorageReadCost (charge StorageReadCost w))))"
  let ?w = "upd (NewSlot K sto ?g) 0 (charge (writeCost 0) (charge StorageReadCost ?w1))"
  have "sdb ?w1 (NewSlot K sto ?g) = sdb w (NewSlot K sto ?g)" using g01 cf by (simp add: slot)
  then have run: "Queue_Get K (OpenQueue K sto) w = (Ok (Some (sdb w (NewSlot K sto ?g))), ?w)"
    using w max inv False
    by (simp add: Queue_Get_def Swap_def run_simps queue_get_def flip: NewSlot_def)
  have sel: "queue_put K sto ?w = ?p" "queue_get K sto ?w = ?g + 1"
    using g01 cf by (simp_all add: queue_sel_defs slot)
  have old: "sdb ?w (NewSlot K sto (of_nat i)) = sdb w (NewSlot K sto (of_nat i))"
    if "Suc (unat ?g) \<le> i" "i < unat ?p" for i
  proof -
    have "i < 2 ^ 64" using that(2) le_unat_u64 [of i ?p] by simp
    with that le of_nat_small_eq [of i] cf show ?thesis by (simp add: slot of_nat_eq_small)
  qed
  have "queue_contents K sto ?w = tl (queue_contents K sto w)"
    unfolding contents_nonempty [OF lt] list.sel unfolding queue_contents_def sel g1
    using old by (intro map_cong) auto
  moreover have "queue_inv K sto ?w"
    using cf w le lt g g1 g01 sel by (simp add: queue_inv_def slot)
  moreover have "queue_capacity K sto ?w = queue_capacity K sto w"
    by (simp add: queue_capacity_def sel)
  ultimately show ?thesis using run contents_nonempty [OF lt] by auto
qed

lemma queue_peek_law:
  assumes inv: "queue_inv K sto w"
  shows "\<exists>w'. Queue_Peek K (OpenQueue K sto) w =
      (Ok (case queue_contents K sto w of [] \<Rightarrow> None | v # _ \<Rightarrow> Some v), w') \<and> queue_inv K sto w' \<and>
    queue_contents K sto w' = queue_contents K sto w \<and> queue_capacity K sto w' = queue_capacity K sto w"
proof (cases "queue_put K sto w = queue_get K sto w")
  case True
  then show ?thesis using inv
    by (simp add: Queue_Peek_def run_simps contents_empty [OF inv, THEN iffD2])
next
  case False
  with inv have "unat (queue_get K sto w) < unat (queue_put K sto w)"
    by (auto simp: queue_inv_def word_eq_unat)
  note ne = contents_nonempty [OF this]
  have "sys w" "u64_slot w (NewSlot K sto 1)" using inv by (simp_all add: queue_inv_def)
  then have "Queue_Peek K (OpenQueue K sto) w = (Ok (Some (sdb w (NewSlot K sto (queue_get K sto w)))),
      charge StorageReadCost (charge StorageReadCost (charge StorageReadCost (charge StorageReadCost w))))"
    using inv False by (simp add: Queue_Peek_def run_simps queue_get_def)
  then show ?thesis using inv by (simp add: ne)
qed

lemma queue_size_law:
  assumes inv: "queue_inv K sto w"
  shows "\<exists>w'. Queue_Size (OpenQueue K sto) w = (Ok (of_nat (length (queue_contents K sto w))), w') \<and>
    queue_inv K sto w' \<and> queue_contents K sto w' = queue_contents K sto w \<and>
    queue_capacity K sto w' = queue_capacity K sto w"
proof -
  have "queue_get K sto w \<le> queue_put K sto w" using inv by (simp add: queue_inv_def word_le_nat_alt)
  then have "queue_put K sto w - queue_get K sto w = of_nat (length (queue_contents K sto w))"
    using le_unat_u64 [of "unat (queue_put K sto w) - unat (queue_get K sto w)" "queue_put K sto w"]
    by (simp add: queue_contents_def word_eq_unat unat_of_nat unat_minus_le)
  then have "Queue_Size (OpenQueue K sto) w = (Ok (of_nat (length (queue_contents K sto w))),
      charge StorageReadCost (charge StorageReadCost w))"
    using inv by (simp add: Queue_Size_def queue_inv_def queue_sel_defs run_simps)
  then show ?thesis using inv by simp
qed

interpretation stq: fifo_queue "Queue_Put K (OpenQueue K sto)" "Queue_Get K (OpenQueue K sto)"
  "Queue_Peek K (OpenQueue K sto)" "Queue_Size (OpenQueue K sto)"
  "queue_inv K sto" "queue_contents K sto" "queue_capacity K sto" for K sto
  by unfold_locales (rule queue_put_law queue_get_law queue_peek_law queue_size_law; assumption)+

text \<open>The operations write the queue's own slots only, and move no balance.\<close>

lemma frame_queue:
  "frame (range (NewSlot K sto)) (InitializeQueue K sto)" "frame (range (NewSlot K sto)) (Queue_Put K (OpenQueue K sto) v)" "frame (range (NewSlot K sto)) (Queue_Get K (OpenQueue K sto))"
  "frame (range (NewSlot K sto)) (Queue_Peek K (OpenQueue K sto))"
proof -
  note defs = Queue_Put_def Queue_Get_def Queue_Peek_def Queue_IsEmpty_def
  have m: "mapAddress K (WithoutCache sto) (UintToHash i) \<in> range (NewSlot K sto)" for i
    by (simp flip: NewSlot_def)
  show "frame (range (NewSlot K sto)) (InitializeQueue K sto)" by (simp add: InitializeQueue_def frame_intros)
  show "frame (range (NewSlot K sto)) (Queue_Put K (OpenQueue K sto) v)"
    "frame (range (NewSlot K sto)) (Queue_Get K (OpenQueue K sto))"
    "frame (range (NewSlot K sto)) (Queue_Peek K (OpenQueue K sto))"
    using m by (simp_all add: defs frame_intros)
qed

lemma keeps_balance_queue [bal_intros]:
  "keeps_balance (InitializeQueue K sto)" "keeps_balance (Queue_Put K q v)" "keeps_balance (Queue_Get K q)" "keeps_balance (Queue_Peek K q)"
  by (simp_all add: InitializeQueue_def Queue_Put_def Queue_Get_def Queue_Peek_def Queue_IsEmpty_def bal_intros)

lemma InitializeQueue_run:
  assumes "collision_free K (uint_keys sto)" "sys w"
  shows "\<exists>w'. InitializeQueue K sto w = (Ok (), w') \<and> queue_inv K sto w' \<and> queue_contents K sto w' = [] \<and>
    queue_capacity K sto w' = 2 ^ 64 - 3"
  using assms
  by (simp add: InitializeQueue_def run_simps queue_inv_def queue_contents_def queue_capacity_def
      queue_sel_defs queue_slot_eq)

text \<open>
  C11: the storage queue refines a list: on any interleaving of puts and gets that fits the 64-bit
  offsets, the gets return exactly what a list would return, first in first out and nothing on an empty
  queue, the entries left are those of the list, and sizes and peeks agree with it.
\<close>

theorem queue_refines_list:
  assumes "queue_inv K sto w" and "puts ops \<le> queue_capacity K sto w"
  shows "\<exists>w'. run_queue (Queue_Put K (OpenQueue K sto)) (Queue_Get K (OpenQueue K sto)) ops w =
      (Ok (fst (list_queue ops (queue_contents K sto w))), w') \<and>
    queue_inv K sto w' \<and> queue_contents K sto w' = snd (list_queue ops (queue_contents K sto w)) \<and>
    fst (Queue_Size (OpenQueue K sto) w') = Ok (of_nat (length (queue_contents K sto w'))) \<and>
    fst (Queue_Peek K (OpenQueue K sto) w') =
      Ok (case queue_contents K sto w' of [] \<Rightarrow> None | v # _ \<Rightarrow> Some v)"
proof -
  from stq.run_queue_refines [OF assms] obtain w' where
    w': "run_queue (Queue_Put K (OpenQueue K sto)) (Queue_Get K (OpenQueue K sto)) ops w =
      (Ok (fst (list_queue ops (queue_contents K sto w))), w')"
    "queue_inv K sto w'" "queue_contents K sto w' = snd (list_queue ops (queue_contents K sto w))"
    by blast
  with stq.size_law [OF w'(2)] stq.peek_law [OF w'(2)] show ?thesis by auto
qed

theorem queue_refines_list_witness:
  "\<exists>w0 w1. InitializeQueue toyK \<lparr>storageKey = replicate 32 1, hashCache = False\<rparr> blank = (Ok (), w0) \<and>
     run_queue (Queue_Put toyK (OpenQueue toyK \<lparr>storageKey = replicate 32 1, hashCache = False\<rparr>))
       (Queue_Get toyK (OpenQueue toyK \<lparr>storageKey = replicate 32 1, hashCache = False\<rparr>))
       [QPut 5, QPut 6, QGet, QGet, QGet] w0 = (Ok [Some 5, Some 6, None], w1)"
proof -
  let ?s = "\<lparr>storageKey = replicate 32 (1 :: u8), hashCache = False\<rparr>"
  have "collision_free toyK (uint_keys ?s)" by (rule toyK_uint_keys) simp
  from InitializeQueue_run [OF this sys_blank] obtain w0 where
    w0: "InitializeQueue toyK ?s blank = (Ok (), w0)" "queue_inv toyK ?s w0" "queue_contents toyK ?s w0 = []"
    "queue_capacity toyK ?s w0 = 2 ^ 64 - 3"
    by blast
  have "puts [QPut 5, QPut 6, QGet, QGet, QGet] \<le> queue_capacity toyK ?s w0" using w0(4) by simp
  from queue_refines_list [OF w0(2) this] w0 show ?thesis by (auto simp del: run_queue.simps)
qed

end
