(* ===== verification/AddressIndex.thy ===== *)
theory AddressIndex
  imports Queue "HOL-Library.Multiset"
begin

text \<open>
  The layout that the address set and the address table share: a list of addresses in slots 1 to \<open>n\<close> of
  a space, its length \<open>n\<close> in slot 0, and a subspace that maps each address to one plus its position, zero
  standing for an absent address. \<open>indexed\<close> relates a world to the list it holds, for addresses from a
  set \<open>U\<close> on which the hash has no collision; the lemmas say how the writes of the two components
  change the list.
\<close>

definition sub_slot :: "(bytes \<Rightarrow> bytes) \<Rightarrow> Storage \<Rightarrow> bytes \<Rightarrow> address \<Rightarrow> hash" where
  "sub_slot K sto i a = mapAddress K (OpenSubStorage K sto i) (AddressToHash a)"

definition index_free :: "(bytes \<Rightarrow> bytes) \<Rightarrow> Storage \<Rightarrow> bytes \<Rightarrow> address set \<Rightarrow> bool" where
  "index_free K sto i U \<longleftrightarrow>
     collision_free K (uint_keys sto \<union> {storageKey (OpenSubStorage K sto i)} \<times> AddressToHash ` U) \<and>
     storageKey sto \<noteq> storageKey (OpenSubStorage K sto i)"

definition indexed ::
  "(bytes \<Rightarrow> bytes) \<Rightarrow> Storage \<Rightarrow> bytes \<Rightarrow> address set \<Rightarrow> world \<Rightarrow> address list \<Rightarrow> bool" where
  "indexed K sto i U w xs \<longleftrightarrow>
     index_free K sto i U \<and> sys w \<and> distinct xs \<and> set xs \<subseteq> U \<and> length xs < 2 ^ 64 \<and>
     sdb w (NewSlot K sto 0) = UintToHash (of_nat (length xs)) \<and>
     (\<forall>j < length xs. sdb w (NewSlot K sto (of_nat (Suc j))) = AddressToHash (xs ! j)) \<and>
     (\<forall>j < length xs. sdb w (sub_slot K sto i (xs ! j)) = UintToHash (of_nat (Suc j))) \<and>
     (\<forall>a \<in> U - set xs. sdb w (sub_slot K sto i a) = 0)"

definition index_list :: "(bytes \<Rightarrow> bytes) \<Rightarrow> Storage \<Rightarrow> world \<Rightarrow> address list" where
  "index_list K sto w =
     map (\<lambda>j. ucast (sdb w (NewSlot K sto (of_nat (Suc j))))) [0 ..< unat (u64_at w (NewSlot K sto 0))]"

lemma index_free_slots:
  assumes "index_free K sto i U"
  shows "NewSlot K sto m = NewSlot K sto n \<longleftrightarrow> m = n"
    and "a \<in> U \<Longrightarrow> b \<in> U \<Longrightarrow> sub_slot K sto i a = sub_slot K sto i b \<longleftrightarrow> a = b"
    and "a \<in> U \<Longrightarrow> NewSlot K sto m \<noteq> sub_slot K sto i a"
    and "a \<in> U \<Longrightarrow> sub_slot K sto i a \<noteq> NewSlot K sto m"
proof -
  note cf = assms [unfolded index_free_def, THEN conjunct1] and ne = assms [unfolded index_free_def, THEN conjunct2]
  show "NewSlot K sto m = NewSlot K sto n \<longleftrightarrow> m = n"
    by (rule NewSlot_inject [OF cf]) auto
  show "a \<in> U \<Longrightarrow> b \<in> U \<Longrightarrow> sub_slot K sto i a = sub_slot K sto i b \<longleftrightarrow> a = b"
    unfolding sub_slot_def by (subst mapAddress_inject_same [OF cf]) auto
  show 1: "a \<in> U \<Longrightarrow> NewSlot K sto m \<noteq> sub_slot K sto i a"
    unfolding sub_slot_def using ne by (intro NewSlot_disjoint [OF cf]) auto
  show "a \<in> U \<Longrightarrow> sub_slot K sto i a \<noteq> NewSlot K sto m" using 1 by metis
qed

lemma indexedD:
  assumes "indexed K sto i U w xs"
  shows "index_free K sto i U" "sys w" "distinct xs" "set xs \<subseteq> U" "length xs < 2 ^ 64"
    "u64_slot w (NewSlot K sto 0)" "u64_at w (NewSlot K sto 0) = of_nat (length xs)"
    "\<And>j. j < length xs \<Longrightarrow> sdb w (NewSlot K sto (of_nat (Suc j))) = AddressToHash (xs ! j)"
    "\<And>j. j < length xs \<Longrightarrow> sdb w (sub_slot K sto i (xs ! j)) = UintToHash (of_nat (Suc j))"
    "\<And>a. a \<in> U \<Longrightarrow> a \<notin> set xs \<Longrightarrow> sdb w (sub_slot K sto i a) = 0"
  using assms by (auto simp: indexed_def u64_slot_def u64_at_def)

lemma index_list_indexed: "indexed K sto i U w xs \<Longrightarrow> index_list K sto w = xs"
  using indexedD [of K sto i U w xs]
  by (intro nth_equalityI) (auto simp: index_list_def unat_of_nat_u64 simp del: of_nat_Suc)

lemma indexed_charge [simp]: "indexed K sto i U (charge n w) xs = indexed K sto i U w xs"
  by (simp add: indexed_def)

lemma indexed_member:
  assumes "indexed K sto i U w xs" "a \<in> U"
  shows "sdb w (sub_slot K sto i a) \<noteq> 0 \<longleftrightarrow> a \<in> set xs"
proof (cases "a \<in> set xs")
  case True
  then obtain j where j: "j < length xs" "xs ! j = a" by (auto simp: in_set_conv_nth)
  then have "(of_nat (Suc j) :: u64) \<noteq> 0"
    using indexedD(5) [OF assms(1)] by (intro of_nat_Suc_neq_0) simp
  then have "UintToHash (of_nat (Suc j)) \<noteq> 0"
    by (metis UintToHash_0 UintToHash_inject)
  with indexedD(9) [OF assms(1) j(1)] j(2) True show ?thesis by simp
next
  case False
  with indexedD(10) [OF assms(1,2)] show ?thesis by simp
qed

lemma indexed_append:
  assumes ix: "indexed K sto i U w xs" and a: "a \<in> U" "a \<notin> set xs" and len: "Suc (length xs) < 2 ^ 64"
    and w': "sys w'"
    and sdb: "\<And>b. sdb w' b =
      (if b = NewSlot K sto 0 then UintToHash (of_nat (Suc (length xs)))
       else if b = NewSlot K sto (of_nat (Suc (length xs))) then AddressToHash a
       else if b = sub_slot K sto i a then UintToHash (of_nat (Suc (length xs)))
       else sdb w b)"
  shows "indexed K sto i U w' (xs @ [a])"
proof -
  note D = indexedD [OF ix] and slots = index_free_slots [OF indexedD(1) [OF ix]]
  have xsU: "x \<in> U" if "x \<in> set xs" for x using D(4) that by blast
  have n0: "(of_nat (Suc j) :: u64) \<noteq> 0" if "j \<le> length xs" for j
    using that len by (intro of_nat_Suc_neq_0) simp
  have nn: "(of_nat (Suc j) :: u64) = of_nat (Suc (length xs)) \<longleftrightarrow> j = length xs" if "j \<le> length xs" for j
    using that len by (subst of_nat_u64_eq) auto
  have "sdb w' (NewSlot K sto (of_nat (Suc j))) = AddressToHash ((xs @ [a]) ! j)" if "j < Suc (length xs)" for j
    using that n0 [of j] nn [of j] D(8) [of j] slots a
    by (auto simp: sdb nth_append less_Suc_eq simp del: of_nat_Suc)
  moreover have "sdb w' (sub_slot K sto i ((xs @ [a]) ! j)) = UintToHash (of_nat (Suc j))" if "j < Suc (length xs)" for j
    using that D(9) [of j] slots a xsU
    by (auto simp: sdb nth_append less_Suc_eq simp del: of_nat_Suc)
  moreover have "sdb w' (sub_slot K sto i b) = 0" if "b \<in> U - set (xs @ [a])" for b
    using that D(10) [of b] slots a by (auto simp: sdb simp del: of_nat_Suc)
  ultimately show ?thesis
    using D(1-5) a len w' by (simp add: indexed_def sdb del: of_nat_Suc)
qed

text \<open>Removing position \<open>j\<close> by moving the last element there.\<close>

definition swap_remove :: "'a list \<Rightarrow> nat \<Rightarrow> 'a list" where
  "swap_remove xs j = butlast (xs[j := last xs])"

lemma length_swap_remove [simp]: "length (swap_remove xs j) = length xs - 1"
  by (simp add: swap_remove_def)

lemma nth_swap_remove:
  "k < length xs - 1 \<Longrightarrow> swap_remove xs j ! k = (if k = j then last xs else xs ! k)"
  by (simp add: swap_remove_def nth_butlast)

lemma mset_swap_remove:
  assumes "j < length xs"
  shows "mset (swap_remove xs j) = mset (remove1 (xs ! j) xs)"
proof -
  let ?zs = "xs[j := last xs]"
  have "xs \<noteq> []" "?zs \<noteq> []" using assms by auto
  then have "last ?zs = last xs" using assms by (auto simp: last_conv_nth nth_list_update)
  moreover have "mset ?zs = add_mset (last ?zs) (mset (butlast ?zs))"
    using \<open>?zs \<noteq> []\<close> by (metis append_butlast_last_id mset.simps(1,2) mset_append union_mset_add_mset_right add_0_right)
  moreover have "mset ?zs = add_mset (last xs) (mset xs - {#xs ! j#})"
    using assms by (rule mset_update)
  ultimately show ?thesis using assms by (simp add: swap_remove_def)
qed

lemma swap_remove_set:
  assumes "distinct xs" "j < length xs"
  shows "distinct (swap_remove xs j)" "set (swap_remove xs j) = set xs - {xs ! j}"
proof -
  note m = mset_swap_remove [OF assms(2)]
  show "distinct (swap_remove xs j)"
    using mset_eq_imp_distinct_iff [OF m] assms(1) by (simp add: distinct_remove1)
  show "set (swap_remove xs j) = set xs - {xs ! j}"
    using mset_eq_setD [OF m] assms(1) by (simp add: set_remove1_eq)
qed

lemma indexed_swap_remove:
  assumes ix: "indexed K sto i U w xs" and j: "j < length xs" and w': "sys w'"
    and sdb: "\<And>b. sdb w' b =
      (if b = NewSlot K sto 0 then UintToHash (of_nat (length xs - 1))
       else if b = NewSlot K sto (of_nat (length xs)) then 0
       else if Suc j < length xs \<and> b = NewSlot K sto (of_nat (Suc j)) then AddressToHash (last xs)
       else if Suc j < length xs \<and> b = sub_slot K sto i (last xs) then UintToHash (of_nat (Suc j))
       else if b = sub_slot K sto i (xs ! j) then 0
       else sdb w b)"
  shows "indexed K sto i U w' (swap_remove xs j)"
proof -
  note D = indexedD [OF ix] and slots = index_free_slots [OF indexedD(1) [OF ix]]
  have xsU: "x \<in> U" if "x \<in> set xs" for x using D(4) that by blast
  have ne: "xs \<noteq> []" using j by auto
  then have jU: "xs ! j \<in> U" "last xs \<in> U" using j by (auto intro!: xsU)
  have last: "last xs = xs ! (length xs - 1)" using ne by (simp add: last_conv_nth)
  have n0: "(of_nat (Suc k) :: u64) \<noteq> 0" if "k < length xs" for k
    using that D(5) by (intro of_nat_Suc_neq_0) simp
  have nn: "(of_nat (Suc k) :: u64) = of_nat (Suc l) \<longleftrightarrow> k = l" if "k < length xs" "l < length xs" for k l
    using that D(5) by (subst of_nat_u64_eq) auto
  have nl: "(of_nat (Suc k) :: u64) = of_nat (length xs) \<longleftrightarrow> Suc k = length xs" if "k < length xs" for k
    using that D(5) by (subst of_nat_u64_eq) auto
  have nth_eq: "xs ! k = xs ! l \<longleftrightarrow> k = l" if "k < length xs" "l < length xs" for k l
    using that D(3) by (simp add: nth_eq_iff_index_eq)
  have "sdb w' (NewSlot K sto (of_nat (Suc k))) = AddressToHash (swap_remove xs j ! k)"
    if k: "k < length xs - 1" for k
    using k j n0 [of k] nn [of k j] nl [of k] D(8) [of k] slots(1) slots(3) [OF jU(1)] slots(3) [OF jU(2)]
    by (auto simp: sdb nth_swap_remove simp del: of_nat_Suc)
  moreover have "sdb w' (sub_slot K sto i (swap_remove xs j ! k)) = UintToHash (of_nat (Suc k))"
    if k: "k < length xs - 1" for k
  proof -
    have "xs ! k \<in> U" using k by (auto intro!: xsU)
    then show ?thesis
      using k j D(9) [of k] slots(2) slots(4) jU nth_eq [of k j] nth_eq [of k "length xs - 1"]
      by (auto simp: sdb nth_swap_remove last simp del: of_nat_Suc)
  qed
  moreover have "sdb w' (sub_slot K sto i b) = 0" if b: "b \<in> U" "b \<notin> set xs - {xs ! j}" for b
  proof (cases "b = xs ! j")
    case True
    have "Suc j < length xs \<Longrightarrow> xs ! j \<noteq> last xs" using j nth_eq [of j "length xs - 1"] last by auto
    with True show ?thesis using slots(2) slots(4) jU by (auto simp: sdb simp del: of_nat_Suc)
  next
    case False
    then have "b \<notin> set xs" using b by blast
    moreover from this have "b \<noteq> last xs" using last_in_set [OF ne] by metis
    ultimately show ?thesis using False b D(10) [of b] slots(2) slots(4) jU by (auto simp: sdb simp del: of_nat_Suc)
  qed
  ultimately show ?thesis
    using D(1-5) j w' swap_remove_set [OF D(3) j]
    by (auto simp: indexed_def sdb simp del: of_nat_Suc)
qed

end
