(* ===== verification/AddressSet.thy ===== *)
theory AddressSet
  imports AddressIndex
begin

text \<open>
  \<^verbatim>\<open>arbos/addressSet/addressSet.go\<close>: a set of addresses kept as a list in slots 1 to \<open>size\<close> of a
  space, together with a subspace that maps each member to its slot. The locale \<open>stored_set\<close> is the
  contract of a set; the operations below are shown to meet it from ArbOS version 11 on, and the
  inconsistency that earlier versions could create is exhibited. The loops count the members, so they
  stand for the source's loops up to a size below \<open>2 ^ 64 - 1\<close>.
\<close>

section \<open>Definitions\<close>

record AddressSet =
  as_backingStorage :: Storage
  as_size :: StorageSlot
  as_byAddress :: Storage

definition AddressSet_Initialize :: "(bytes \<Rightarrow> bytes) \<Rightarrow> Storage \<Rightarrow> unit arb" where
  "AddressSet_Initialize K sto = SetUint64ByUint64 K sto 0 0"

definition OpenAddressSet :: "(bytes \<Rightarrow> bytes) \<Rightarrow> Storage \<Rightarrow> AddressSet" where
  "OpenAddressSet K sto =
     \<lparr>as_backingStorage = WithoutCache sto,
      as_size = OpenStorageBackedUint64 K sto 0,
      as_byAddress = OpenSubStorage K sto [0]\<rparr>"

definition AddressSet_Size :: "AddressSet \<Rightarrow> u64 arb" where
  "AddressSet_Size as = StorageBackedUint64_Get (as_size as)"

definition AddressSet_IsMember :: "(bytes \<Rightarrow> bytes) \<Rightarrow> AddressSet \<Rightarrow> address \<Rightarrow> bool arb" where
  "AddressSet_IsMember K as addr =
     bindM (Get K (as_byAddress as) (AddressToHash addr)) (\<lambda>v. returnM (v \<noteq> 0))"

definition AddressSet_GetAnyMember :: "(bytes \<Rightarrow> bytes) \<Rightarrow> AddressSet \<Rightarrow> address option arb" where
  "AddressSet_GetAnyMember K as =
     bindM (StorageBackedUint64_Get (as_size as)) (\<lambda>size.
       if size = 0 then returnM None
       else StorageBackedAddressOrNil_Get (OpenStorageBackedAddressOrNil K (as_backingStorage as) 1))"

text \<open>\<open>AddressSet_Clear_loop\<close>: the iterations left, and the index \<^verbatim>\<open>i\<close>.\<close>

primrec AddressSet_Clear_loop :: "(bytes \<Rightarrow> bytes) \<Rightarrow> AddressSet \<Rightarrow> nat \<Rightarrow> u64 \<Rightarrow> unit arb" where
  "AddressSet_Clear_loop K as 0 i = returnM ()"
| "AddressSet_Clear_loop K as (Suc left) i =
     bindM (orM 0 (GetByUint64 K (as_backingStorage as) i)) (\<lambda>contents.
     thenM (ignoreM (ClearByUint64 K (as_backingStorage as) i))
       (thenM (Clear K (as_byAddress as) contents) (AddressSet_Clear_loop K as left (i + 1))))"

definition AddressSet_Clear :: "(bytes \<Rightarrow> bytes) \<Rightarrow> AddressSet \<Rightarrow> unit arb" where
  "AddressSet_Clear K as =
     bindM (StorageBackedUint64_Get (as_size as)) (\<lambda>size.
       if size = 0 then returnM ()
       else thenM (AddressSet_Clear_loop K as (unat size) 1) (StorageBackedUint64_Clear (as_size as)))"

primrec AddressSet_AllMembers_loop :: "(bytes \<Rightarrow> bytes) \<Rightarrow> AddressSet \<Rightarrow> nat \<Rightarrow> u64 \<Rightarrow> address list arb" where
  "AddressSet_AllMembers_loop K as 0 i = returnM []"
| "AddressSet_AllMembers_loop K as (Suc left) i =
     bindM (StorageBackedAddress_Get (OpenStorageBackedAddress K (as_backingStorage as) (i + 1))) (\<lambda>a.
     bindM (AddressSet_AllMembers_loop K as left (i + 1)) (\<lambda>ret. returnM (a # ret)))"

definition AddressSet_AllMembers :: "(bytes \<Rightarrow> bytes) \<Rightarrow> AddressSet \<Rightarrow> u64 \<Rightarrow> address list arb" where
  "AddressSet_AllMembers K as maxNumToReturn =
     bindM (StorageBackedUint64_Get (as_size as)) (\<lambda>size.
       AddressSet_AllMembers_loop K as (unat (if size > maxNumToReturn then maxNumToReturn else size)) 0)"

primrec AddressSet_ClearList_loop :: "(bytes \<Rightarrow> bytes) \<Rightarrow> AddressSet \<Rightarrow> nat \<Rightarrow> u64 \<Rightarrow> unit arb" where
  "AddressSet_ClearList_loop K as 0 i = returnM ()"
| "AddressSet_ClearList_loop K as (Suc left) i =
     thenM (ClearByUint64 K (as_backingStorage as) i) (AddressSet_ClearList_loop K as left (i + 1))"

definition AddressSet_ClearList :: "(bytes \<Rightarrow> bytes) \<Rightarrow> AddressSet \<Rightarrow> unit arb" where
  "AddressSet_ClearList K as =
     bindM (StorageBackedUint64_Get (as_size as)) (\<lambda>size.
       if size = 0 then returnM ()
       else thenM (AddressSet_ClearList_loop K as (unat size) 1) (StorageBackedUint64_Clear (as_size as)))"

definition AddressSet_Add :: "(bytes \<Rightarrow> bytes) \<Rightarrow> AddressSet \<Rightarrow> address \<Rightarrow> unit arb" where
  "AddressSet_Add K as addr =
     bindM (AddressSet_IsMember K as addr) (\<lambda>present. if present then returnM () else
     bindM (StorageBackedUint64_Get (as_size as)) (\<lambda>size.
     thenM (Set K (as_byAddress as) (bytes_hash (address_bytes addr)) (UintToHash (1 + size)))
       (thenM (StorageBackedAddress_Set (OpenStorageBackedAddress K (as_backingStorage as) (1 + size)) addr)
         (bindM (StorageBackedUint64_Increment (as_size as)) (\<lambda>_. returnM ())))))"

definition AddressSet_RectifyMapping :: "(bytes \<Rightarrow> bytes) \<Rightarrow> AddressSet \<Rightarrow> address \<Rightarrow> unit arb" where
  "AddressSet_RectifyMapping K as addr =
     bindM (mapErrM (ErrMsg ''RectifyMapping: Address is not an owner'') (AddressSet_IsMember K as addr)) (\<lambda>isOwner.
     if \<not> isOwner then failM (ErrMsg ''RectifyMapping: Address is not an owner'') else
     let addrAsHash = bytes_hash (address_bytes addr) in
     bindM (GetUint64 K (as_byAddress as) addrAsHash) (\<lambda>slot.
     bindM (GetByUint64 K (as_backingStorage as) slot) (\<lambda>atSlot.
     bindM (StorageBackedUint64_Get (as_size as)) (\<lambda>size.
       if atSlot = addrAsHash \<and> slot \<le> size
       then failM (ErrMsg ''RectifyMapping: Owner address is correctly mapped'')
       else thenM (Clear K (as_byAddress as) addrAsHash) (AddressSet_Add K as addr)))))"

definition AddressSet_Remove :: "(bytes \<Rightarrow> bytes) \<Rightarrow> AddressSet \<Rightarrow> address \<Rightarrow> u64 \<Rightarrow> unit arb" where
  "AddressSet_Remove K as addr arbosVersion =
     (let addrAsHash = bytes_hash (address_bytes addr) in
     bindM (GetUint64 K (as_byAddress as) addrAsHash) (\<lambda>slot. if slot = 0 then returnM () else
     thenM (Clear K (as_byAddress as) addrAsHash)
     (bindM (StorageBackedUint64_Get (as_size as)) (\<lambda>size.
     thenM
       (if slot < size then
          bindM (GetByUint64 K (as_backingStorage as) size) (\<lambda>atSize.
          thenM (SetByUint64 K (as_backingStorage as) slot atSize)
            (if arbosVersion \<ge> 11 then Set K (as_byAddress as) atSize (UintToHash slot) else returnM ()))
        else returnM ())
     (thenM (ClearByUint64 K (as_backingStorage as) size)
       (bindM (StorageBackedUint64_Decrement (as_size as)) (\<lambda>_. returnM ())))))))"

section \<open>What a set promises\<close>

datatype 'a set_op = SAdd 'a | SRemove 'a | SMember 'a

primrec run_set ::
  "('a \<Rightarrow> ('s, unit) call) \<Rightarrow> ('a \<Rightarrow> ('s, unit) call) \<Rightarrow> ('a \<Rightarrow> ('s, bool) call) \<Rightarrow> 'a set_op list \<Rightarrow>
     ('s, bool list) call" where
  "run_set add remove member [] = returnM []"
| "run_set add remove member (op # ops) =
     (case op of
        SAdd a \<Rightarrow> thenM (add a) (run_set add remove member ops)
      | SRemove a \<Rightarrow> thenM (remove a) (run_set add remove member ops)
      | SMember a \<Rightarrow> bindM (member a) (\<lambda>r. bindM (run_set add remove member ops) (\<lambda>rs. returnM (r # rs))))"

primrec abs_set :: "'a set_op list \<Rightarrow> 'a set \<Rightarrow> bool list \<times> 'a set" where
  "abs_set [] A = ([], A)"
| "abs_set (op # ops) A =
     (case op of
        SAdd a \<Rightarrow> abs_set ops (insert a A)
      | SRemove a \<Rightarrow> abs_set ops (A - {a})
      | SMember a \<Rightarrow> (case abs_set ops A of (rs, B) \<Rightarrow> ((a \<in> A) # rs, B)))"

definition op_elem :: "'a set_op \<Rightarrow> 'a" where
  "op_elem op = (case op of SAdd a \<Rightarrow> a | SRemove a \<Rightarrow> a | SMember a \<Rightarrow> a)"

locale stored_set =
  fixes add :: "'a \<Rightarrow> ('s, unit) call" and remove :: "'a \<Rightarrow> ('s, unit) call"
    and member :: "'a \<Rightarrow> ('s, bool) call"
    and inv :: "'s \<Rightarrow> bool" and elems :: "'s \<Rightarrow> 'a set" and U :: "'a set" and capacity :: nat
  assumes add_law: "inv s \<Longrightarrow> a \<in> U \<Longrightarrow> card (elems s) < capacity \<Longrightarrow>
      \<exists>s'. add a s = (Ok (), s') \<and> inv s' \<and> elems s' = insert a (elems s)"
    and remove_law: "inv s \<Longrightarrow> a \<in> U \<Longrightarrow>
      \<exists>s'. remove a s = (Ok (), s') \<and> inv s' \<and> elems s' = elems s - {a}"
    and member_law: "inv s \<Longrightarrow> a \<in> U \<Longrightarrow>
      \<exists>s'. member a s = (Ok (a \<in> elems s), s') \<and> inv s' \<and> elems s' = elems s"
    and finite_elems: "inv s \<Longrightarrow> finite (elems s)"
begin

lemma run_set_refines:
  assumes "inv s" "card (elems s) + length ops \<le> capacity" "op_elem ` set ops \<subseteq> U"
  shows "\<exists>s'. run_set add remove member ops s = (Ok (fst (abs_set ops (elems s))), s') \<and> inv s' \<and>
    elems s' = snd (abs_set ops (elems s))"
  using assms
proof (induction ops arbitrary: s)
  case Nil
  then show ?case by simp
next
  case (Cons op ops)
  note fin = finite_elems [OF Cons.prems(1)]
  have U: "op_elem op \<in> U" "op_elem ` set ops \<subseteq> U" and room: "card (elems s) < capacity"
    using Cons.prems by auto
  show ?case
  proof (cases op)
    case (SAdd a)
    then have "a \<in> U" using U(1) by (simp add: op_elem_def)
    from add_law [OF Cons.prems(1) this room] obtain t where
      t: "add a s = (Ok (), t)" "inv t" "elems t = insert a (elems s)"
      by blast
    moreover have "card (elems t) + length ops \<le> capacity"
      using Cons.prems(2) card_insert_le_m1 [of "Suc (card (elems s))" "elems s" a] fin
      by (simp add: t(3) card_insert_if)
    ultimately show ?thesis using Cons.IH [of t] U(2) SAdd by (auto simp: bindM_Ok)
  next
    case (SRemove a)
    then have "a \<in> U" using U(1) by (simp add: op_elem_def)
    from remove_law [OF Cons.prems(1) this] obtain t where
      t: "remove a s = (Ok (), t)" "inv t" "elems t = elems s - {a}"
      by blast
    moreover have "card (elems t) + length ops \<le> capacity"
      using Cons.prems(2) card_Diff1_le [of "elems s" a] by (simp add: t(3))
    ultimately show ?thesis using Cons.IH [of t] U(2) SRemove by (auto simp: bindM_Ok)
  next
    case (SMember a)
    then have "a \<in> U" using U(1) by (simp add: op_elem_def)
    from member_law [OF Cons.prems(1) this] obtain t where
      t: "member a s = (Ok (a \<in> elems s), t)" "inv t" "elems t = elems s"
      by blast
    moreover have "card (elems t) + length ops \<le> capacity" using Cons.prems(2) t(3) by simp
    ultimately show ?thesis using Cons.IH [of t] U(2) SMember
      by (auto simp: bindM_def split: prod.splits)
  qed
qed

end

section \<open>The operations on the shared layout\<close>

lemma OpenAddressSet_sel [simp]:
  "as_backingStorage (OpenAddressSet K sto) = WithoutCache sto" "as_size (OpenAddressSet K sto) = NewSlot K sto 0"
  "as_byAddress (OpenAddressSet K sto) = OpenSubStorage K sto [0]"
  by (simp_all add: OpenAddressSet_def)

abbreviation aset :: "(bytes \<Rightarrow> bytes) \<Rightarrow> address set \<Rightarrow> Storage \<Rightarrow> world \<Rightarrow> address list \<Rightarrow> bool" where
  "aset K U sto w xs \<equiv> indexed K sto [0] U w xs"

lemma Get_sub_run [run_simps]:
  "sys w \<Longrightarrow> Get K (OpenSubStorage K sto i) (AddressToHash a) w =
     (Ok (sdb w (sub_slot K sto i a)), charge StorageReadCost w)"
  by (simp add: run_simps sub_slot_def)

lemma AddressSet_IsMember_run [run_simps]:
  "sys w \<Longrightarrow> AddressSet_IsMember K (OpenAddressSet K sto) a w =
     (Ok (sdb w (sub_slot K sto [0] a) \<noteq> 0), charge StorageReadCost w)"
  by (simp add: AddressSet_IsMember_def run_simps sub_slot_def)

lemma AddressSet_IsMember_aset:
  "aset K U sto w xs \<Longrightarrow> a \<in> U \<Longrightarrow>
     AddressSet_IsMember K (OpenAddressSet K sto) a w = (Ok (a \<in> set xs), charge StorageReadCost w)"
  using indexed_member [of K sto "[0]" U w xs a] by (simp add: AddressSet_IsMember_run indexedD(2))

lemma AddressSet_Add_new:
  assumes ix: "aset K U sto w xs" and a: "a \<in> U" and False: "a \<notin> set xs" and len: "Suc (length xs) < 2 ^ 64"
  shows "\<exists>w'. AddressSet_Add K (OpenAddressSet K sto) a w = (Ok (), w') \<and> aset K U sto w' (xs @ [a]) \<and>
    w_balance w' = w_balance w \<and>
    (\<forall>b. b \<notin> range (NewSlot K sto) \<and> b \<noteq> sub_slot K sto [0] a \<longrightarrow> sdb w' b = sdb w b)"
proof -
  note D = indexedD [OF ix] and slots = index_free_slots [OF indexedD(1) [OF ix]]
  have n: "(1 :: u64) + of_nat (length xs) = of_nat (Suc (length xs))" by simp
  have n0: "(of_nat (Suc (length xs)) :: u64) \<noteq> 0" using len by (rule of_nat_Suc_neq_0)
  have max: "(of_nat (length xs) :: u64) \<noteq> - 1"
    using n0 by (metis add.commute add.right_inverse n)
  let ?v = "UintToHash (of_nat (Suc (length xs)))"
  let ?w1 = "upd (sub_slot K sto [0] a) ?v (charge (writeCost ?v) (charge StorageReadCost (charge StorageReadCost w)))"
  let ?w2 = "upd (NewSlot K sto (of_nat (Suc (length xs)))) (AddressToHash a) (charge (writeCost (AddressToHash a)) ?w1)"
  let ?w3 = "upd (NewSlot K sto 0) ?v (charge (writeCost ?v) (charge StorageReadCost ?w2))"
  have 2: "u64_slot ?w2 (NewSlot K sto 0)" "u64_at ?w2 (NewSlot K sto 0) = of_nat (length xs)"
    using D n0 a slots by (simp_all del: of_nat_Suc)
  have "AddressSet_Add K (OpenAddressSet K sto) a w = (Ok (), ?w3)"
    using D(2,6,7) False max 2
    by (simp add: AddressSet_Add_def AddressSet_IsMember_aset [OF ix a] run_simps n sub_slot_def
        AddressToHash_def [symmetric] add.commute [of _ 1] del: of_nat_Suc)
  moreover have "aset K U sto ?w3 (xs @ [a])"
    by (rule indexed_append [OF ix a False len]) (use D(2) in \<open>simp_all del: of_nat_Suc\<close>)
  moreover have "w_balance ?w3 = w_balance w" by (simp del: of_nat_Suc)
  moreover have "sdb ?w3 b = sdb w b" if "b \<notin> range (NewSlot K sto)" "b \<noteq> sub_slot K sto [0] a" for b
    using that by (auto simp del: of_nat_Suc)
  ultimately show ?thesis by blast
qed

lemma AddressSet_Add_aset:
  assumes ix: "aset K U sto w xs" and a: "a \<in> U" and len: "Suc (length xs) < 2 ^ 64"
  shows "\<exists>w'. AddressSet_Add K (OpenAddressSet K sto) a w = (Ok (), w') \<and>
    aset K U sto w' (if a \<in> set xs then xs else xs @ [a])"
proof (cases "a \<in> set xs")
  case True
  then show ?thesis using ix by (simp add: AddressSet_Add_def AddressSet_IsMember_aset [OF ix a] run_simps)
next
  case False
  with AddressSet_Add_new [OF ix a False len] show ?thesis by auto
qed

lemma AddressSet_Remove_absent:
  assumes ix: "aset K U sto w xs" and a: "a \<in> U" "a \<notin> set xs"
  shows "AddressSet_Remove K (OpenAddressSet K sto) a v w = (Ok (), charge StorageReadCost w)"
  using indexedD(2,10) [OF ix] a
  by (simp add: AddressSet_Remove_def Let_def run_simps sub_slot_def AddressToHash_def [symmetric])

lemma AddressSet_Remove_aset:
  assumes ix: "aset K U sto w xs" and j: "j < length xs" and v: "11 \<le> v"
  shows "\<exists>w'. AddressSet_Remove K (OpenAddressSet K sto) (xs ! j) v w = (Ok (), w') \<and>
    aset K U sto w' (swap_remove xs j)"
proof -
  note D = indexedD [OF ix] and slots = index_free_slots [OF indexedD(1) [OF ix]]
  let ?n = "of_nat (length xs) :: u64" and ?a = "xs ! j" and ?j = "of_nat (Suc j) :: u64"
  have ne: "xs \<noteq> []" using j by auto
  have U: "?a \<in> U" "last xs \<in> U" using D(4) j ne by (auto simp: subset_iff)
  have j0: "?j \<noteq> 0" using j D(5) by (intro of_nat_Suc_neq_0) simp
  have "Suc (length xs - 1) = length xs" using ne by (cases xs) simp_all
  then have n0: "?n \<noteq> 0" using of_nat_Suc_neq_0 [of "length xs - 1"] D(5) by (simp del: of_nat_Suc)
  have lt: "?j < ?n \<longleftrightarrow> Suc j < length xs"
    using j D(5) by (simp add: word_less_nat_alt unat_of_nat_u64 del: of_nat_Suc)
  have n1: "?n - 1 = of_nat (length xs - 1)" using ne by (cases xs) simp_all
  have jn: "?j = ?n \<longleftrightarrow> Suc j = length xs" using j D(5) by (subst of_nat_u64_eq) auto
  have last: "sdb w (NewSlot K sto ?n) = AddressToHash (last xs)"
    using D(8) [of "length xs - 1"] ne by (simp add: last_conv_nth del: of_nat_Suc)
  let ?c = "\<lambda>w. charge StorageReadCost w"
  let ?w1 = "upd (sub_slot K sto [0] ?a) 0 (charge (writeCost 0) (?c w))"
  show ?thesis
  proof (cases "Suc j < length xs")
    case True
    let ?l = "AddressToHash (last xs)"
    let ?w2 = "upd (NewSlot K sto ?j) ?l (charge (writeCost ?l) (?c (?c ?w1)))"
    let ?w3 = "upd (sub_slot K sto [0] (last xs)) (UintToHash ?j) (charge (writeCost (UintToHash ?j)) ?w2)"
    let ?w4 = "upd (NewSlot K sto ?n) 0 (charge (writeCost 0) ?w3)"
    let ?w5 = "upd (NewSlot K sto 0) (UintToHash (?n - 1)) (charge (writeCost (UintToHash (?n - 1))) (?c ?w4))"
    have 4: "u64_slot ?w4 (NewSlot K sto 0)" "u64_at ?w4 (NewSlot K sto 0) = ?n"
      using D U j0 n0 slots by (simp_all del: of_nat_Suc)
    have "AddressSet_Remove K (OpenAddressSet K sto) ?a v w = (Ok (), ?w5)"
      using D(2,6,7,9) j j0 n0 lt True v 4 last U slots
      by (simp add: AddressSet_Remove_def Let_def run_simps sub_slot_def [symmetric]
          AddressToHash_def [symmetric] del: of_nat_Suc)
    moreover have "aset K U sto ?w5 (swap_remove xs j)"
      by (rule indexed_swap_remove [OF ix j]) (use D(2) True jn n1 slots U in \<open>simp_all del: of_nat_Suc\<close>)
    ultimately show ?thesis by blast
  next
    case False
    let ?w4 = "upd (NewSlot K sto ?n) 0 (charge (writeCost 0) (?c ?w1))"
    let ?w5 = "upd (NewSlot K sto 0) (UintToHash (?n - 1)) (charge (writeCost (UintToHash (?n - 1))) (?c ?w4))"
    have 4: "u64_slot ?w4 (NewSlot K sto 0)" "u64_at ?w4 (NewSlot K sto 0) = ?n"
      using D U j0 n0 slots by (simp_all del: of_nat_Suc)
    have "AddressSet_Remove K (OpenAddressSet K sto) ?a v w = (Ok (), ?w5)"
      using D(2,6,7,9) j j0 n0 lt False v 4 U slots
      by (simp add: AddressSet_Remove_def Let_def run_simps sub_slot_def [symmetric]
          AddressToHash_def [symmetric] del: of_nat_Suc)
    moreover have "aset K U sto ?w5 (swap_remove xs j)"
      by (rule indexed_swap_remove [OF ix j]) (use D(2) False n1 in \<open>simp_all del: of_nat_Suc\<close>)
    ultimately show ?thesis by blast
  qed
qed

lemma AddressSet_AllMembers_loop_run:
  "sys w \<Longrightarrow> \<exists>w'. AddressSet_AllMembers_loop K (OpenAddressSet K sto) n i w =
     (Ok (map (\<lambda>k. ucast (sdb w (NewSlot K sto (i + of_nat (Suc k))))) [0 ..< n]), w') \<and> sys w' \<and> sdb w' = sdb w"
proof (induction n arbitrary: i w)
  case 0
  then show ?case by simp
next
  case (Suc n)
  let ?w = "charge StorageReadCost w"
  have "sys ?w" using Suc.prems by simp
  from Suc.IH [OF this, of "i + 1"] obtain w' where
    "AddressSet_AllMembers_loop K (OpenAddressSet K sto) n (i + 1) ?w =
      (Ok (map (\<lambda>k. ucast (sdb w (NewSlot K sto (i + 1 + of_nat (Suc k))))) [0 ..< n]), w')"
    "sys w'" "sdb w' = sdb w"
    by auto
  moreover have "[0 ..< Suc n] = 0 # map Suc [0 ..< n]" by (simp add: upt_conv_Cons map_Suc_upt del: upt_Suc)
  ultimately show ?case using Suc.prems
    by (simp add: run_simps add_ac comp_def del: upt_Suc)
qed

lemma AddressSet_AllMembers_aset:
  assumes ix: "aset K U sto w xs"
  shows "\<exists>w'. AddressSet_AllMembers K (OpenAddressSet K sto) m w = (Ok (take (unat m) xs), w') \<and>
    aset K U sto w' xs \<and> sdb w' = sdb w"
proof -
  note D = indexedD [OF ix]
  let ?n = "unat (if m < of_nat (length xs) then m else of_nat (length xs))"
  have n: "?n = min (unat m) (length xs)"
    using D(5) by (auto simp: word_less_nat_alt unat_of_nat_u64)
  have "sys (charge StorageReadCost w)" using D(2) by simp
  from AddressSet_AllMembers_loop_run [OF this, of K sto ?n 0] obtain w' where
    w': "AddressSet_AllMembers_loop K (OpenAddressSet K sto) ?n 0 (charge StorageReadCost w) =
      (Ok (map (\<lambda>k. ucast (sdb w (NewSlot K sto (of_nat (Suc k))))) [0 ..< ?n]), w')" "sys w'" "sdb w' = sdb w"
    by auto
  have "map (\<lambda>k. ucast (sdb w (NewSlot K sto (of_nat (Suc k))))) [0 ..< ?n] = take (unat m) xs"
    by (rule nth_equalityI) (use D(8) in \<open>auto simp: n simp del: of_nat_Suc\<close>)
  moreover have "aset K U sto w' xs" using ix w' by (simp add: indexed_def)
  ultimately show ?thesis using w' D(2,6,7) by (simp add: AddressSet_AllMembers_def run_simps del: of_nat_Suc)
qed

lemma AddressSet_Clear_loop_run:
  assumes fr: "index_free K sto [0] U"
  shows "sys w \<Longrightarrow> set ys \<subseteq> U \<Longrightarrow> length ys < 2 ^ 64 \<Longrightarrow>
    (\<And>k. k < length ys \<Longrightarrow> sdb w (NewSlot K sto (i + of_nat k)) = AddressToHash (ys ! k)) \<Longrightarrow>
    \<exists>w'. AddressSet_Clear_loop K (OpenAddressSet K sto) (length ys) i w = (Ok (), w') \<and> sys w' \<and>
      (\<forall>b. sdb w' b = (if b \<in> (\<lambda>k. NewSlot K sto (i + of_nat k)) ` {..<length ys} \<union> sub_slot K sto [0] ` set ys
        then 0 else sdb w b))"
proof (induction ys arbitrary: i w)
  case Nil
  then show ?case by simp
next
  case (Cons y ys)
  note slots = index_free_slots [OF fr]
  have y: "y \<in> U" "set ys \<subseteq> U" and y0: "sdb w (NewSlot K sto i) = AddressToHash y"
    using Cons.prems(2) Cons.prems(4) [of 0] by simp_all
  let ?w1 = "upd (NewSlot K sto i) 0 (charge (writeCost 0) (charge StorageReadCost w))"
  let ?w = "upd (sub_slot K sto [0] y) 0 (charge (writeCost 0) ?w1)"
  have w: "sys ?w" and len: "length ys < 2 ^ 64" using Cons.prems by simp_all
  have "sdb ?w (NewSlot K sto (i + 1 + of_nat k)) = AddressToHash (ys ! k)" if "k < length ys" for k
  proof -
    have "(of_nat (Suc k) :: u64) \<noteq> 0" using that Cons.prems(3) by (intro of_nat_Suc_neq_0) simp
    then have "i + 1 + of_nat k \<noteq> i" by (simp add: add.assoc)
    then show ?thesis using Cons.prems(4) [of "Suc k"] that slots y by (simp add: add.assoc)
  qed
  from Cons.IH [OF w y(2) len this] obtain w' where
    w': "AddressSet_Clear_loop K (OpenAddressSet K sto) (length ys) (i + 1) ?w = (Ok (), w')" "sys w'"
    and sdb: "\<And>b. sdb w' b = (if b \<in> (\<lambda>k. NewSlot K sto (i + 1 + of_nat k)) ` {..<length ys} \<union>
      sub_slot K sto [0] ` set ys then 0 else sdb ?w b)"
    by blast
  have run: "AddressSet_Clear_loop K (OpenAddressSet K sto) (length (y # ys)) i w = (Ok (), w')"
    using Cons.prems(1) y0 w'(1) by (simp add: run_simps sub_slot_def)
  have "(\<lambda>k. NewSlot K sto (i + of_nat k)) ` {..<Suc (length ys)} =
      insert (NewSlot K sto i) ((\<lambda>k. NewSlot K sto (i + 1 + of_nat k)) ` {..<length ys})"
    unfolding lessThan_Suc_eq_insert_0 by (simp add: image_image add.assoc)
  then have "sdb w' b = (if b \<in> (\<lambda>k. NewSlot K sto (i + of_nat k)) ` {..<length (y # ys)} \<union>
      sub_slot K sto [0] ` set (y # ys) then 0 else sdb w b)" for b
    by (simp add: sdb)
  with run w'(2) show ?case by blast
qed

lemma AddressSet_Clear_aset:
  assumes ix: "aset K U sto w xs"
  shows "\<exists>w'. AddressSet_Clear K (OpenAddressSet K sto) w = (Ok (), w') \<and> aset K U sto w' []"
proof (cases "xs = []")
  case True
  then show ?thesis using ix indexedD(2,6,7) [OF ix] by (simp add: AddressSet_Clear_def run_simps)
next
  case False
  note D = indexedD [OF ix] and slots = index_free_slots [OF indexedD(1) [OF ix]]
  have n: "unat (of_nat (length xs) :: u64) = length xs" using D(5) by (rule unat_of_nat_u64)
  have n0: "(of_nat (length xs) :: u64) \<noteq> 0" using False n by (metis length_0_conv unsigned_0)
  have c: "sys (charge StorageReadCost w)" using D(2) by simp
  have "sdb (charge StorageReadCost w) (NewSlot K sto (1 + of_nat k)) = AddressToHash (xs ! k)"
    if "k < length xs" for k
    using D(8) [OF that] by simp
  from AddressSet_Clear_loop_run [OF D(1) c D(4,5) this] obtain w' where
    w': "AddressSet_Clear_loop K (OpenAddressSet K sto) (length xs) 1 (charge StorageReadCost w) = (Ok (), w')" "sys w'"
    and sdb: "\<And>b. sdb w' b = (if b \<in> (\<lambda>k. NewSlot K sto (1 + of_nat k)) ` {..<length xs} \<union>
      sub_slot K sto [0] ` set xs then 0 else sdb (charge StorageReadCost w) b)"
    by blast
  let ?w = "upd (NewSlot K sto 0) 0 (charge (writeCost 0) w')"
  have "AddressSet_Clear K (OpenAddressSet K sto) w = (Ok (), ?w)"
    using D(2,6,7) n n0 w' by (simp add: AddressSet_Clear_def StorageBackedUint64_Clear_def run_simps)
  moreover have "sdb ?w (sub_slot K sto [0] a) = 0" if "a \<in> U" for a
    using that slots D(10) [OF that] by (cases "a \<in> set xs") (auto simp: sdb)
  then have "aset K U sto ?w []" using D(1) w'(2) by (simp add: indexed_def)
  ultimately show ?thesis by blast
qed

section \<open>The contract, from version 11 on\<close>

definition aset_inv :: "(bytes \<Rightarrow> bytes) \<Rightarrow> address set \<Rightarrow> Storage \<Rightarrow> u64 \<Rightarrow> world \<Rightarrow> bool" where
  "aset_inv K U sto v w \<longleftrightarrow> 11 \<le> v \<and> aset K U sto w (index_list K sto w)"

definition aset_members :: "(bytes \<Rightarrow> bytes) \<Rightarrow> Storage \<Rightarrow> world \<Rightarrow> address set" where
  "aset_members K sto w = set (index_list K sto w)"

lemma aset_invI: "11 \<le> v \<Longrightarrow> aset K U sto w xs \<Longrightarrow> aset_inv K U sto v w \<and> aset_members K sto w = set xs"
  by (simp add: aset_inv_def aset_members_def index_list_indexed)

lemma card_aset: "aset_inv K U sto v w \<Longrightarrow> card (aset_members K sto w) = length (index_list K sto w)"
  by (auto simp: aset_inv_def aset_members_def intro!: distinct_card indexedD(3))

interpretation aset: stored_set "AddressSet_Add K (OpenAddressSet K sto)"
  "\<lambda>a. AddressSet_Remove K (OpenAddressSet K sto) a v" "AddressSet_IsMember K (OpenAddressSet K sto)"
  "aset_inv K U sto v" "aset_members K sto" U "2 ^ 64 - 1" for K U sto v
proof unfold_locales
  fix w a assume inv: "aset_inv K U sto v w" and a: "a \<in> U"
  let ?xs = "index_list K sto w"
  have ix: "aset K U sto w ?xs" and v: "11 \<le> v" using inv by (simp_all add: aset_inv_def)
  show "\<exists>w'. AddressSet_Add K (OpenAddressSet K sto) a w = (Ok (), w') \<and> aset_inv K U sto v w' \<and>
      aset_members K sto w' = insert a (aset_members K sto w)"
    if "card (aset_members K sto w) < 2 ^ 64 - 1"
  proof -
    have "Suc (length ?xs) < 2 ^ 64" using that card_aset [OF inv] by simp
    from AddressSet_Add_aset [OF ix a this] show ?thesis
      using aset_invI [OF v] by (fastforce simp: aset_members_def split: if_splits)
  qed
  show "\<exists>w'. AddressSet_IsMember K (OpenAddressSet K sto) a w = (Ok (a \<in> aset_members K sto w), w') \<and>
      aset_inv K U sto v w' \<and> aset_members K sto w' = aset_members K sto w"
    using AddressSet_IsMember_aset [OF ix a] aset_invI [OF v, where K = K and U = U and sto = sto and w = "charge StorageReadCost w" and xs = ?xs] ix
    by (simp add: aset_members_def)
  show "\<exists>w'. AddressSet_Remove K (OpenAddressSet K sto) a v w = (Ok (), w') \<and> aset_inv K U sto v w' \<and>
      aset_members K sto w' = aset_members K sto w - {a}"
  proof (cases "a \<in> set ?xs")
    case True
    then obtain j where j: "j < length ?xs" "a = ?xs ! j" by (auto simp: in_set_conv_nth)
    from AddressSet_Remove_aset [OF ix j(1) v] obtain w' where
      "AddressSet_Remove K (OpenAddressSet K sto) a v w = (Ok (), w')" "aset K U sto w' (swap_remove ?xs j)"
      using j(2) by blast
    then show ?thesis
      using aset_invI [OF v] swap_remove_set [OF indexedD(3) [OF ix] j(1)] j(2) by (auto simp: aset_members_def)
  next
    case False
    then show ?thesis
      using AddressSet_Remove_absent [OF ix a False] aset_invI [OF v, where K = K and U = U and sto = sto and w = "charge StorageReadCost w" and xs = ?xs] ix
      by (simp add: aset_members_def)
  qed
qed (simp add: aset_members_def)

text \<open>
  C12: from ArbOS version 11 on the stored address set is a set: any sequence of additions, removals and
  membership tests answers as a mathematical set would, the recorded size is the cardinality, and
  listing the members returns each of them exactly once.
\<close>

theorem address_set_refines_set:
  assumes inv: "aset_inv K U sto v w" and ops: "op_elem ` set ops \<subseteq> U"
    and room: "card (aset_members K sto w) + length ops \<le> 2 ^ 64 - 1"
  shows "\<exists>w' ms. run_set (AddressSet_Add K (OpenAddressSet K sto))
        (\<lambda>a. AddressSet_Remove K (OpenAddressSet K sto) a v) (AddressSet_IsMember K (OpenAddressSet K sto)) ops w =
      (Ok (fst (abs_set ops (aset_members K sto w))), w') \<and>
    fst (AddressSet_AllMembers K (OpenAddressSet K sto) (- 1) w') = Ok ms \<and>
    distinct ms \<and> set ms = snd (abs_set ops (aset_members K sto w)) \<and>
    fst (AddressSet_Size (OpenAddressSet K sto) w') = Ok (of_nat (card (set ms)))"
proof -
  from aset.run_set_refines [OF inv room ops] obtain w' where
    run: "run_set (AddressSet_Add K (OpenAddressSet K sto)) (\<lambda>a. AddressSet_Remove K (OpenAddressSet K sto) a v)
        (AddressSet_IsMember K (OpenAddressSet K sto)) ops w = (Ok (fst (abs_set ops (aset_members K sto w))), w')"
    and w': "aset_inv K U sto v w'" "aset_members K sto w' = snd (abs_set ops (aset_members K sto w))"
    by blast
  let ?ms = "index_list K sto w'"
  have ix: "aset K U sto w' ?ms" using w'(1) by (simp add: aset_inv_def)
  have "length ?ms \<le> unat (- 1 :: u64)"
    using indexedD(5) [OF ix] by (simp add: unsigned_minus_1_eq_mask mask_eq_exp_minus_1)
  then have "fst (AddressSet_AllMembers K (OpenAddressSet K sto) (- 1) w') = Ok ?ms"
    using AddressSet_AllMembers_aset [OF ix, of "- 1"] by auto
  moreover have "fst (AddressSet_Size (OpenAddressSet K sto) w') = Ok (of_nat (card (set ?ms)))"
    using indexedD(2,3,6,7) [OF ix] by (simp add: AddressSet_Size_def run_simps distinct_card)
  ultimately show ?thesis
    using run w'(2) indexedD(3) [OF ix] unfolding aset_members_def by blast
qed

lemma toyK_index_free:
  assumes "length (storageKey s) = 32" "take 12 (storageKey s) \<noteq> take 12 (toyK (storageKey s @ i))"
    "length (toyK (storageKey s @ i)) = 32"
  shows "index_free toyK s i U"
  unfolding index_free_def
proof
  show "collision_free toyK (uint_keys s \<union> {storageKey (OpenSubStorage toyK s i)} \<times> AddressToHash ` U)"
  proof (rule toyK_collision_free)
    fix sk k assume "(sk, k) \<in> uint_keys s \<union> {storageKey (OpenSubStorage toyK s i)} \<times> AddressToHash ` U"
    moreover have "unat (UintToHash n) < 2 ^ 160" for n
      by (simp, rule less_trans [OF unat_u64_bound], simp)
    moreover have "unat (AddressToHash a) < 2 ^ 160" for a
      using unat_less_2p [of a] by (simp add: AddressToHash_ucast unat_ucast_bound)
    ultimately show "length sk = 32 \<and> unat k < 2 ^ 160"
      using assms(1,3) by (auto simp: uint_keys_def OpenSubStorage_def)
  next
    show "inj_on (take 12) (fst ` (uint_keys s \<union> {storageKey (OpenSubStorage toyK s i)} \<times> AddressToHash ` U))"
      using assms(2) by (auto simp: uint_keys_def OpenSubStorage_def inj_on_def)
  qed
  show "storageKey s \<noteq> storageKey (OpenSubStorage toyK s i)"
    using assms(2) by (auto simp: OpenSubStorage_def)
qed

definition toyStorage :: Storage where
  "toyStorage = \<lparr>storageKey = replicate 32 1, hashCache = False\<rparr>"

lemma blank_aset: "aset toyK U toyStorage blank []"
proof -
  have "index_free toyK toyStorage [0] U"
  proof (rule toyK_index_free)
    have "hd (take 12 (storageKey toyStorage)) \<noteq> hd (take 12 (toyK (storageKey toyStorage @ [0])))"
      by (simp add: toyStorage_def toyK_def)
    then show "take 12 (storageKey toyStorage) \<noteq> take 12 (toyK (storageKey toyStorage @ [0]))" by metis
  qed (simp_all add: toyStorage_def toyK_def)
  then show ?thesis by (simp add: indexed_def)
qed

theorem address_set_refines_set_witness:
  "\<exists>w'. run_set (AddressSet_Add toyK (OpenAddressSet toyK toyStorage))
      (\<lambda>a. AddressSet_Remove toyK (OpenAddressSet toyK toyStorage) a 20)
      (AddressSet_IsMember toyK (OpenAddressSet toyK toyStorage))
      [SAdd 7, SAdd 8, SRemove 7, SMember 7, SMember 8] blank = (Ok [False, True], w')"
proof -
  have inv: "aset_inv toyK {7, 8} toyStorage 20 blank" and e: "aset_members toyK toyStorage blank = {}"
    using aset_invI [OF _ blank_aset, where v = 20 and U = "{7, 8}"] by simp_all
  show ?thesis
    using address_set_refines_set [OF inv, of "[SAdd 7, SAdd 8, SRemove 7, SMember 7, SMember 8]"]
    by (auto simp: op_elem_def e simp del: run_set.simps)
qed

section \<open>Before version 11\<close>

text \<open>
  One removal before version 11, on any state where the removed address is mapped to position \<open>Suc j\<close>: when the
  position is inside of the list the last entry moves there, but no other position in the mapping changes.
\<close>

lemma AddressSet_Remove_old:
  assumes fr: "index_free K sto [0] U" and w: "sys w" "u64_slot w (NewSlot K sto 0)"
    and n: "u64_at w (NewSlot K sto 0) = of_nat n" "0 < n" "n < 2 ^ 64"
    and a: "a \<in> U" "sdb w (sub_slot K sto [0] a) = UintToHash (of_nat (Suc j))" "Suc j < 2 ^ 64" and v: "v < 11"
  shows "\<exists>w'. AddressSet_Remove K (OpenAddressSet K sto) a v w = (Ok (), w') \<and> sys w' \<and>
    sdb w' = (if Suc j < n then (sdb w)(NewSlot K sto (of_nat (Suc j)) := sdb w (NewSlot K sto (of_nat n))) else sdb w)
      (sub_slot K sto [0] a := 0, NewSlot K sto (of_nat n) := 0, NewSlot K sto 0 := UintToHash (of_nat (n - 1)))"
proof -
  note slots = index_free_slots [OF fr]
  have v11: "\<not> 11 \<le> v" using v by simp
  have lt: "(of_nat (Suc j) :: u64) < of_nat n \<longleftrightarrow> Suc j < n"
    using a(3) n(3) by (simp add: word_less_nat_alt unat_of_nat_u64 del: of_nat_Suc)
  have j0: "(of_nat (Suc j) :: u64) \<noteq> 0" using a(3) by (rule of_nat_Suc_neq_0)
  obtain m where m: "n = Suc m" using n(2) by (cases n) simp_all
  have n0: "(of_nat n :: u64) \<noteq> 0" using n(3) unfolding m by (rule of_nat_Suc_neq_0)
  have n1: "(of_nat n - 1 :: u64) = of_nat (n - 1)" by (simp add: m)
  show ?thesis
    using w n(1) a(1,2) slots v11 lt j0 n0 n1
    by (cases "Suc j < n")
      (simp_all add: AddressSet_Remove_def Let_def run_simps sub_slot_def [symmetric] AddressToHash_def [symmetric]
        fun_eq_iff del: of_nat_Suc)
qed

lemma AddressSet_AllMembers_run:
  assumes "sys w" "sdb w (NewSlot K sto 0) = UintToHash (of_nat (length xs))" "length xs < 2 ^ 64"
    and "\<And>j. j < length xs \<Longrightarrow> sdb w (NewSlot K sto (of_nat (Suc j))) = AddressToHash (xs ! j)"
  shows "fst (AddressSet_AllMembers K (OpenAddressSet K sto) (- 1) w) = Ok xs"
    and "fst (AddressSet_Size (OpenAddressSet K sto) w) = Ok (of_nat (length xs))"
proof -
  have u: "u64_slot w (NewSlot K sto 0)" "u64_at w (NewSlot K sto 0) = of_nat (length xs)"
    using assms(2,3) by (simp_all add: u64_slot_def u64_at_def)
  have "sys (charge StorageReadCost w)" using assms(1) by simp
  from AddressSet_AllMembers_loop_run [OF this, of K sto "length xs" 0] obtain w' where
    "AddressSet_AllMembers_loop K (OpenAddressSet K sto) (length xs) 0 (charge StorageReadCost w) =
      (Ok (map (\<lambda>k. ucast (sdb w (NewSlot K sto (of_nat (Suc k))))) [0 ..< length xs]), w')"
    by auto
  moreover have "map (\<lambda>k. ucast (sdb w (NewSlot K sto (of_nat (Suc k))))) [0 ..< length xs] = xs"
    by (rule nth_equalityI) (use assms(4) in \<open>auto simp del: of_nat_Suc\<close>)
  moreover have "\<not> (- 1 :: u64) < of_nat (length xs)" by (simp add: not_less)
  ultimately show "fst (AddressSet_AllMembers K (OpenAddressSet K sto) (- 1) w) = Ok xs"
    using assms(1,3) u by (simp add: AddressSet_AllMembers_def run_simps unat_of_nat_u64 del: of_nat_Suc)
  show "fst (AddressSet_Size (OpenAddressSet K sto) w) = Ok (of_nat (length xs))"
    using assms(1) u by (simp add: AddressSet_Size_def run_simps)
qed

lemma remove_old_list:
  assumes ix: "aset K U sto w xs" and j: "Suc j < length xs" and v: "v < 11"
  shows "\<exists>w'. AddressSet_Remove K (OpenAddressSet K sto) (xs ! j) v w = (Ok (), w') \<and> sys w' \<and>
    sdb w' (NewSlot K sto 0) = UintToHash (of_nat (length xs - 1)) \<and>
    (\<forall>k < length xs - 1. sdb w' (NewSlot K sto (of_nat (Suc k))) = AddressToHash (swap_remove xs j ! k)) \<and>
    (\<forall>k < length xs. k \<noteq> j \<longrightarrow> sdb w' (sub_slot K sto [0] (xs ! k)) = UintToHash (of_nat (Suc k)))"
proof -
  note D = indexedD [OF ix] and slots = index_free_slots [OF indexedD(1) [OF ix]]
  have U: "xs ! k \<in> U" if "k < length xs" for k using D(4) that by (auto simp: subset_iff)
  have pos: "0 < length xs" "Suc j < 2 ^ 64" using j D(5) by auto
  have js: "xs ! j \<in> U" "sdb w (sub_slot K sto [0] (xs ! j)) = UintToHash (of_nat (Suc j))"
    using U [of j] D(9) [of j] j by (simp_all del: of_nat_Suc)
  from AddressSet_Remove_old [OF D(1,2,6,7) pos(1) D(5) js pos(2) v] j obtain w' where
    w': "AddressSet_Remove K (OpenAddressSet K sto) (xs ! j) v w = (Ok (), w')" "sys w'"
    "sdb w' = (sdb w)(NewSlot K sto (of_nat (Suc j)) := sdb w (NewSlot K sto (of_nat (length xs))),
      sub_slot K sto [0] (xs ! j) := 0, NewSlot K sto (of_nat (length xs)) := 0,
      NewSlot K sto 0 := UintToHash (of_nat (length xs - 1)))"
    by auto
  have last: "sdb w (NewSlot K sto (of_nat (length xs))) = AddressToHash (last xs)"
    using D(8) [of "length xs - 1"] pos by (simp add: last_conv_nth del: of_nat_Suc)
  have eq: "(of_nat a :: u64) = of_nat b \<longleftrightarrow> a = b" if "a \<le> length xs" "b \<le> length xs" for a b
    using of_nat_u64_eq [of a b] that D(5) by simp
  have "sdb w' (NewSlot K sto (of_nat (Suc k))) = AddressToHash (swap_remove xs j ! k)" if "Suc k < length xs" for k
    using that D(8) [of k] last js(1) eq [of "Suc k" "Suc j"] eq [of "Suc k" "length xs"] eq [of "Suc k" 0] j
    by (simp add: w'(3) slots nth_swap_remove del: of_nat_Suc)
  moreover have "sdb w' (sub_slot K sto [0] (xs ! k)) = UintToHash (of_nat (Suc k))" if "k < length xs" "k \<noteq> j" for k
    using that D(9) [of k] U [of k] js(1) j D(3)
    by (simp add: w'(3) slots nth_eq_iff_index_eq del: of_nat_Suc)
  ultimately show ?thesis using w' by (intro exI [of _ w']) (simp del: of_nat_Suc)
qed

text \<open>Removing a member whose position lies past the end of the list drops the last entry, whoever that is.\<close>

lemma remove_stale:
  assumes fr: "index_free K sto [0] U" and w: "sys w" "sdb w (NewSlot K sto 0) = UintToHash (of_nat (length ys))"
    and ys: "ys \<noteq> []" "length ys < 2 ^ 64"
      "\<And>k. k < length ys \<Longrightarrow> sdb w (NewSlot K sto (of_nat (Suc k))) = AddressToHash (ys ! k)"
    and a: "a \<in> U" "sdb w (sub_slot K sto [0] a) = UintToHash (of_nat (Suc m))" "length ys \<le> m" "Suc m < 2 ^ 64"
    and v: "v < 11"
  shows "\<exists>w'. AddressSet_Remove K (OpenAddressSet K sto) a v w = (Ok (), w') \<and> sys w' \<and>
    fst (AddressSet_AllMembers K (OpenAddressSet K sto) (- 1) w') = Ok (butlast ys) \<and>
    (\<forall>b \<in> U. sdb w' (sub_slot K sto [0] b) = (if b = a then 0 else sdb w (sub_slot K sto [0] b)))"
proof -
  note slots = index_free_slots [OF fr]
  have u: "u64_slot w (NewSlot K sto 0)" "u64_at w (NewSlot K sto 0) = of_nat (length ys)"
    using w(2) by (simp_all add: u64_slot_def u64_at_def)
  have "0 < length ys" using ys(1) by simp
  from AddressSet_Remove_old [OF fr w(1) u this ys(2) a(1,2,4) v] a(3) obtain w' where
    w': "AddressSet_Remove K (OpenAddressSet K sto) a v w = (Ok (), w')" "sys w'"
    "sdb w' = (sdb w)(sub_slot K sto [0] a := 0, NewSlot K sto (of_nat (length ys)) := 0,
      NewSlot K sto 0 := UintToHash (of_nat (length ys - 1)))"
    by auto
  have "sdb w' (NewSlot K sto (of_nat (Suc k))) = AddressToHash (butlast ys ! k)" if "k < length (butlast ys)" for k
  proof -
    have k: "Suc k < length ys" using that by simp
    have "(of_nat (Suc k) :: u64) \<noteq> of_nat (length ys)" "(of_nat (Suc k) :: u64) \<noteq> 0"
      using of_nat_u64_eq [of "Suc k" "length ys"] of_nat_Suc_neq_0 [of k] k ys(2) by simp_all
    with k ys(3) [of k] a(1) show ?thesis by (simp add: w'(3) slots nth_butlast del: of_nat_Suc)
  qed
  from AddressSet_AllMembers_run(1) [of w' K sto "butlast ys", OF w'(2) _ _ this] ys(2) w'(3)
  have "fst (AddressSet_AllMembers K (OpenAddressSet K sto) (- 1) w') = Ok (butlast ys)" by simp
  moreover have "sdb w' (sub_slot K sto [0] b) = (if b = a then 0 else sdb w (sub_slot K sto [0] b))" if "b \<in> U" for b
    using that a(1) by (simp add: w'(3) slots)
  ultimately show ?thesis using w' by blast
qed

lemma remove_moved:
  assumes ix: "aset K U sto w xs" and j: "Suc (Suc j) < length xs" and v: "v < 11" and w1: "sys w1"
    "sdb w1 (NewSlot K sto 0) = UintToHash (of_nat (length xs - 1))"
    "\<forall>k < length xs - 1. sdb w1 (NewSlot K sto (of_nat (Suc k))) = AddressToHash (swap_remove xs j ! k)"
    "\<forall>k < length xs. k \<noteq> j \<longrightarrow> sdb w1 (sub_slot K sto [0] (xs ! k)) = UintToHash (of_nat (Suc k))"
  shows "\<exists>w2 ys. AddressSet_Remove K (OpenAddressSet K sto) (last xs) v w1 = (Ok (), w2) \<and>
    fst (AddressSet_AllMembers K (OpenAddressSet K sto) (- 1) w2) = Ok ys \<and>
    last xs \<in> set ys \<and> fst (AddressSet_IsMember K (OpenAddressSet K sto) (last xs) w2) = Ok False \<and>
    xs ! (length xs - 2) \<notin> set ys \<and>
    fst (AddressSet_IsMember K (OpenAddressSet K sto) (xs ! (length xs - 2)) w2) = Ok True"
proof -
  let ?S = "OpenAddressSet K sto" and ?n = "length xs" and ?ys = "swap_remove xs j"
  note D = indexedD [OF ix] and map = w1(4) [rule_format]
  have l: "last xs = xs ! (?n - 1)" "Suc (?n - 1) = ?n" "?n - 1 \<noteq> j" using j by (cases xs; simp add: last_conv_nth)+
  have stale: "sdb w1 (sub_slot K sto [0] (last xs)) = UintToHash (of_nat (Suc (?n - 1)))"
    using map [of "?n - 1"] l j by simp
  let ?y = "xs ! (?n - 2)"
  have n2: "?n - 2 < ?n" "?n - 2 \<noteq> j" "?n - 2 \<noteq> ?n - 1" "?n - 2 < ?n - 1" using j by auto
  have U: "last xs \<in> U" "?y \<in> U" using D(4) j n2 by (auto simp: l(1) subset_iff)
  have "?ys \<noteq> []" using j by (auto simp flip: length_greater_0_conv)
  moreover have "distinct ?ys" "set ?ys = set xs - {xs ! j}" using swap_remove_set [OF D(3), of j] j by simp_all
  moreover have "last ?ys = ?y"
    using \<open>?ys \<noteq> []\<close> n2 nth_swap_remove [of "?n - 2" xs j] by (simp add: last_conv_nth numeral_2_eq_2)
  ultimately have ys: "?ys \<noteq> []" "set xs - {xs ! j} = insert ?y (set (butlast ?ys))" "?y \<notin> set (butlast ?ys)"
    using append_butlast_last_id [of ?ys] distinct_append [of "butlast ?ys" "[?y]"] set_append [of "butlast ?ys" "[?y]"]
    by simp_all
  have ne: "?y \<noteq> last xs" "last xs \<noteq> xs ! j" "last xs \<in> set xs"
    using n2 j D(3) l(3) by (simp_all add: l(1) nth_eq_iff_index_eq)
  have size: "sdb w1 (NewSlot K sto 0) = UintToHash (of_nat (length ?ys))" using w1(2) by simp
  have list': "sdb w1 (NewSlot K sto (of_nat (Suc k))) = AddressToHash (?ys ! k)" if "k < length ?ys" for k
    using w1(3) that by (simp del: of_nat_Suc)
  have len: "length ?ys < 2 ^ 64" using D(5) by simp
  have m: "length ?ys \<le> ?n - 1" "Suc (?n - 1) < 2 ^ 64" using D(5) l(2) by simp_all
  from remove_stale [OF D(1) w1(1) size ys(1) len list' U(1) stale m v] obtain w2 where
    w2: "AddressSet_Remove K ?S (last xs) v w1 = (Ok (), w2)" "sys w2"
    "fst (AddressSet_AllMembers K ?S (- 1) w2) = Ok (butlast ?ys)"
    "\<And>b. b \<in> U \<Longrightarrow> sdb w2 (sub_slot K sto [0] b) = (if b = last xs then 0 else sdb w1 (sub_slot K sto [0] b))"
    by blast
  have "(of_nat (Suc (?n - 2)) :: u64) \<noteq> 0" using n2(1) D(5) by (intro of_nat_Suc_neq_0) simp
  then have "UintToHash (of_nat (Suc (?n - 2))) \<noteq> UintToHash 0" unfolding UintToHash_inject .
  then have "sdb w2 (sub_slot K sto [0] ?y) \<noteq> 0"
    unfolding w2(4) [OF U(2)] if_not_P [OF ne(1)] map [OF n2(1,2)] UintToHash_0 .
  then have "fst (AddressSet_IsMember K ?S ?y w2) = Ok True" "fst (AddressSet_IsMember K ?S (last xs) w2) = Ok False"
    using w2(2) w2(4) [OF U(1)] by (simp_all add: run_simps)
  moreover have "last xs \<in> insert ?y (set (butlast ?ys))" using ne(2,3) unfolding ys(2) [symmetric] by simp
  then have "last xs \<in> set (butlast ?ys)" using ne(1) by (elim insertE) simp_all
  ultimately show ?thesis using w2(1,3) ys(3) by blast
qed

lemma RectifyMapping_refuses:
  assumes ix: "aset K U sto w xs" and a: "a \<in> set xs"
  shows "fst (AddressSet_RectifyMapping K (OpenAddressSet K sto) a w) =
    Err (ErrMsg ''RectifyMapping: Owner address is correctly mapped'')"
proof -
  note D = indexedD [OF ix]
  obtain k where k: "k < length xs" "a = xs ! k" using a by (auto simp: in_set_conv_nth)
  have "UintToHash (of_nat (Suc k)) \<noteq> 0" "(of_nat (Suc k) :: u64) \<le> of_nat (length xs)"
    using k D(5) of_nat_Suc_neq_0 [of k]
    by (simp_all add: word_le_nat_alt unat_of_nat_u64 UintToHash_ucast del: of_nat_Suc)
      (metis UintToHash_ucast UintToHash_0 UintToHash_inject)
  then show ?thesis using k D(2,6,7) D(8) [of k] D(9) [of k]
    by (simp add: AddressSet_RectifyMapping_def Let_def run_simps sub_slot_def [symmetric]
        AddressToHash_def [symmetric] del: of_nat_Suc)
qed

text \<open>
  C30: before ArbOS version 11, removing any member but the last moves the last member into its place without
  updating the last member's position in the mapping, which then lies past the end of the list. Unless the removed
  member was next to last, removing the moved member afterwards drops another member from the list: the moved one
  stays listed while it is no member, and the dropped one, which nobody removed, is still a member. On a
  well-formed set \<^verbatim>\<open>RectifyMapping\<close>, the repair for this, refuses to act on any member.
\<close>

theorem remove_before_v11_corrupts:
  assumes ix: "aset K U sto w xs" and j: "Suc j < length xs" and v: "v < 11"
  shows "(\<exists>w1. AddressSet_Remove K (OpenAddressSet K sto) (xs ! j) v w = (Ok (), w1) \<and>
      fst (AddressSet_AllMembers K (OpenAddressSet K sto) (- 1) w1) = Ok (swap_remove xs j) \<and>
      fst (AddressSet_Size (OpenAddressSet K sto) w1) = Ok (of_nat (length xs - 1)) \<and>
      fst (GetUint64 K (as_byAddress (OpenAddressSet K sto)) (AddressToHash (last xs)) w1) = Ok (of_nat (length xs)) \<and>
      (Suc (Suc j) < length xs \<longrightarrow>
        (\<exists>w2 ys. AddressSet_Remove K (OpenAddressSet K sto) (last xs) v w1 = (Ok (), w2) \<and>
          fst (AddressSet_AllMembers K (OpenAddressSet K sto) (- 1) w2) = Ok ys \<and>
          last xs \<in> set ys \<and> fst (AddressSet_IsMember K (OpenAddressSet K sto) (last xs) w2) = Ok False \<and>
          xs ! (length xs - 2) \<notin> set ys \<and>
          fst (AddressSet_IsMember K (OpenAddressSet K sto) (xs ! (length xs - 2)) w2) = Ok True))) \<and>
    (\<forall>a \<in> set xs. fst (AddressSet_RectifyMapping K (OpenAddressSet K sto) a w) =
      Err (ErrMsg ''RectifyMapping: Owner address is correctly mapped''))"
proof -
  let ?S = "OpenAddressSet K sto" and ?n = "length xs" and ?ys = "swap_remove xs j"
  note D = indexedD [OF ix] and slots = index_free_slots [OF indexedD(1) [OF ix]]
  from remove_old_list [OF ix j v] obtain w1 where
    w1: "AddressSet_Remove K ?S (xs ! j) v w = (Ok (), w1)" "sys w1"
    "sdb w1 (NewSlot K sto 0) = UintToHash (of_nat (?n - 1))"
    and list: "\<forall>k < ?n - 1. sdb w1 (NewSlot K sto (of_nat (Suc k))) = AddressToHash (?ys ! k)"
    and map: "\<forall>k < ?n. k \<noteq> j \<longrightarrow> sdb w1 (sub_slot K sto [0] (xs ! k)) = UintToHash (of_nat (Suc k))"
    by blast
  have l: "last xs = xs ! (?n - 1)" "Suc (?n - 1) = ?n" "?n - 1 \<noteq> j" using j by (cases xs; simp add: last_conv_nth)+
  have stale: "sdb w1 (sub_slot K sto [0] (last xs)) = UintToHash (of_nat (Suc (?n - 1)))"
    using map [rule_format, of "?n - 1"] l j by simp
  have len: "length ?ys < 2 ^ 64" using D(5) by simp
  note all1 = AddressSet_AllMembers_run [of w1 K sto ?ys, OF w1(2) _ len, simplified length_swap_remove, OF w1(3) list [rule_format]]
  have get: "fst (GetUint64 K (as_byAddress ?S) (AddressToHash (last xs)) w1) = Ok (of_nat ?n)"
    using w1(2) stale l(2) by (simp add: run_simps sub_slot_def [symmetric])
  show ?thesis
    using remove_moved [OF ix _ v w1(2,3) list map] w1(1) all1 get RectifyMapping_refuses [OF ix] by blast
qed

theorem remove_before_v11_corrupts_witness:
  "\<exists>w w1 w2 ys. aset toyK {7, 8, 9} toyStorage w [7, 8, 9] \<and>
     AddressSet_Remove toyK (OpenAddressSet toyK toyStorage) 7 10 w = (Ok (), w1) \<and>
     fst (AddressSet_AllMembers toyK (OpenAddressSet toyK toyStorage) (- 1) w1) = Ok [9, 8] \<and>
     fst (GetUint64 toyK (as_byAddress (OpenAddressSet toyK toyStorage)) (AddressToHash 9) w1) = Ok 3 \<and>
     AddressSet_Remove toyK (OpenAddressSet toyK toyStorage) 9 10 w1 = (Ok (), w2) \<and>
     fst (AddressSet_AllMembers toyK (OpenAddressSet toyK toyStorage) (- 1) w2) = Ok ys \<and> 9 \<in> set ys \<and>
     fst (AddressSet_IsMember toyK (OpenAddressSet toyK toyStorage) 9 w2) = Ok False \<and>
     8 \<notin> set ys \<and> fst (AddressSet_IsMember toyK (OpenAddressSet toyK toyStorage) 8 w2) = Ok True"
proof -
  note add = AddressSet_Add_aset [where K = toyK and U = "{7, 8, 9}" and sto = toyStorage]
  obtain w1 where 1: "aset toyK {7, 8, 9} toyStorage w1 [7]"
    using add [OF blank_aset, of 7] by auto
  obtain w2 where 2: "aset toyK {7, 8, 9} toyStorage w2 [7, 8]" using add [OF 1, of 8] by auto
  obtain w3 where 3: "aset toyK {7, 8, 9} toyStorage w3 [7, 8, 9]" using add [OF 2, of 9] by auto
  have "Suc 0 < length [7, 8, 9 :: address]" "(10 :: u64) < 11" by simp_all
  from remove_before_v11_corrupts [OF 3 this] 3 show ?thesis
    by (simp add: swap_remove_def) blast
qed

end
