(* ===== verification/AddressTable.thy ===== *)
theory AddressTable
  imports AddressSet
begin

text \<open>
  \<^verbatim>\<open>arbos/addressTable/addressTable.go\<close>: an append-only table that gives each registered address an
  index, used to compress addresses in calldata. The RLP codec of go-ethereum is a parameter \<open>rlp\<close>; what
  the table relies on is \<open>rlp_ok\<close>: decoding the encoding of a 20-byte string or of a 64-bit integer
  returns it and the number of bytes it took, whatever follows, and an encoded integer read as a byte
  string has at most eight bytes.
\<close>

section \<open>Definitions\<close>

record AddressTable =
  atab_backingStorage :: Storage
  atab_byAddress :: Storage
  numItems :: StorageSlot

record rlp =
  rlp_AppendUint64 :: "u64 \<Rightarrow> bytes"
  rlp_EncodeToBytes :: "bytes \<Rightarrow> bytes"
  stream_Bytes :: "nat \<Rightarrow> bytes \<Rightarrow> (bytes \<times> nat) res"
  stream_Uint64 :: "nat \<Rightarrow> bytes \<Rightarrow> (u64 \<times> nat) res"

definition AddressTable_Initialize :: "Storage \<Rightarrow> unit arb" where
  "AddressTable_Initialize sto = returnM ()"

definition AddressTable_Open :: "(bytes \<Rightarrow> bytes) \<Rightarrow> Storage \<Rightarrow> AddressTable" where
  "AddressTable_Open K sto =
     \<lparr>atab_backingStorage = WithoutCache sto,
      atab_byAddress = OpenSubStorage K sto [],
      numItems = OpenStorageBackedUint64 K sto 0\<rparr>"

definition AddressTable_Register :: "(bytes \<Rightarrow> bytes) \<Rightarrow> AddressTable \<Rightarrow> address \<Rightarrow> u64 arb" where
  "AddressTable_Register K atab addr =
     (let addrAsHash = bytes_hash (address_bytes addr) in
     bindM (Get K (atab_byAddress atab) addrAsHash) (\<lambda>rev.
       if rev \<noteq> 0 then returnM (big_Uint64 (uint rev) - 1)
       else bindM (StorageBackedUint64_Increment (numItems atab)) (\<lambda>newNumItems.
         thenM (SetByUint64 K (atab_backingStorage atab) newNumItems addrAsHash)
         (thenM (Set K (atab_byAddress atab) addrAsHash (UintToHash newNumItems))
           (returnM (newNumItems - 1))))))"

definition AddressTable_Lookup :: "(bytes \<Rightarrow> bytes) \<Rightarrow> AddressTable \<Rightarrow> address \<Rightarrow> (u64 \<times> bool) arb" where
  "AddressTable_Lookup K atab addr =
     bindM (GetUint64 K (atab_byAddress atab) (bytes_hash (address_bytes addr))) (\<lambda>r.
       if r = 0 then returnM (0, False) else returnM (r - 1, True))"

definition AddressTable_AddressExists :: "(bytes \<Rightarrow> bytes) \<Rightarrow> AddressTable \<Rightarrow> address \<Rightarrow> bool arb" where
  "AddressTable_AddressExists K atab addr =
     bindM (AddressTable_Lookup K atab addr) (\<lambda>(_, ret). returnM ret)"

definition AddressTable_Size :: "AddressTable \<Rightarrow> u64 arb" where
  "AddressTable_Size atab = StorageBackedUint64_Get (numItems atab)"

definition AddressTable_LookupIndex :: "(bytes \<Rightarrow> bytes) \<Rightarrow> AddressTable \<Rightarrow> u64 \<Rightarrow> (address \<times> bool) arb" where
  "AddressTable_LookupIndex K atab index =
     bindM (StorageBackedUint64_Get (numItems atab)) (\<lambda>items.
       if index \<ge> items then returnM (0, False)
       else bindM (GetByUint64 K (atab_backingStorage atab) (index + 1)) (\<lambda>v.
         returnM (bytes_address (hash_bytes v), True)))"

definition AddressTable_Compress :: "(bytes \<Rightarrow> bytes) \<Rightarrow> rlp \<Rightarrow> AddressTable \<Rightarrow> address \<Rightarrow> bytes arb" where
  "AddressTable_Compress K R atab addr =
     bindM (AddressTable_Lookup K atab addr) (\<lambda>(index, exists).
       if exists then returnM (rlp_AppendUint64 R index)
       else returnM (rlp_EncodeToBytes R (address_bytes addr)))"

definition AddressTable_Decompress :: "(bytes \<Rightarrow> bytes) \<Rightarrow> rlp \<Rightarrow> AddressTable \<Rightarrow> bytes \<Rightarrow> (address \<times> u64) arb" where
  "AddressTable_Decompress K R atab buf =
     bindM (liftR (stream_Bytes R 21 buf)) (\<lambda>(input, numBytesRead).
       if length input = 20 then returnM (bytes_address input, of_nat numBytesRead)
       else bindM (liftR (stream_Uint64 R 9 buf)) (\<lambda>(index, numBytesRead).
         bindM (AddressTable_LookupIndex K atab index) (\<lambda>(addr, exists).
           if \<not> exists then failM (ErrMsg ''invalid index in compressed address'')
           else returnM (addr, of_nat numBytesRead))))"

text \<open>What the codec documents, and RLP itself for strings shorter than 56 bytes.\<close>

definition rlp_ok :: "rlp \<Rightarrow> bool" where
  "rlp_ok R \<longleftrightarrow>
     (\<forall>b rest. length b = 20 \<longrightarrow> stream_Bytes R 21 (rlp_EncodeToBytes R b @ rest) = Ok (b, length (rlp_EncodeToBytes R b))) \<and>
     (\<forall>n rest. stream_Uint64 R 9 (rlp_AppendUint64 R n @ rest) = Ok (n, length (rlp_AppendUint64 R n))) \<and>
     (\<forall>n rest. \<exists>b. stream_Bytes R 21 (rlp_AppendUint64 R n @ rest) = Ok (b, length (rlp_AppendUint64 R n)) \<and> length b \<le> 8)"

definition short_encode :: "bytes \<Rightarrow> bytes" where
  "short_encode b =
     (case b of
        [x] \<Rightarrow> if x < 128 then [x] else [129, x]
      | _ \<Rightarrow> of_nat (128 + length b) # b)"

definition short_decode :: "bytes \<Rightarrow> (bytes \<times> nat) res" where
  "short_decode buf =
     (case buf of
        [] \<Rightarrow> Err (ErrMsg ''EOF'')
      | x # rest \<Rightarrow>
          if x < 128 then Ok ([x], 1)
          else if x < 184 then
            (let n = unat x - 128
             in if length rest < n then Err (ErrMsg ''unexpected EOF'') else Ok (take n rest, Suc n))
          else Err (ErrMsg ''rlp: expected String''))"

definition short_rlp :: rlp where
  "short_rlp =
     \<lparr>rlp_AppendUint64 = (\<lambda>n. short_encode (big_bytes (uint n))),
      rlp_EncodeToBytes = short_encode,
      stream_Bytes = (\<lambda>limit. short_decode),
      stream_Uint64 = (\<lambda>limit buf. bindR (short_decode buf) (\<lambda>(b, n).
        if length b > 8 then Err (ErrMsg ''rlp: uint overflow'') else Ok (of_nat (be_nat b), n)))\<rparr>"

section \<open>Lookups\<close>

lemma AddressTable_Open_sel [simp]:
  "atab_backingStorage (AddressTable_Open K sto) = WithoutCache sto"
  "atab_byAddress (AddressTable_Open K sto) = OpenSubStorage K sto []"
  "numItems (AddressTable_Open K sto) = NewSlot K sto 0"
  by (simp_all add: AddressTable_Open_def)

abbreviation atable :: "(bytes \<Rightarrow> bytes) \<Rightarrow> address set \<Rightarrow> Storage \<Rightarrow> world \<Rightarrow> address list \<Rightarrow> bool" where
  "atable K U sto w xs \<equiv> indexed K sto [] U w xs"

lemma AddressTable_Lookup_present:
  assumes ix: "atable K U sto w xs" and j: "j < length xs"
  shows "AddressTable_Lookup K (AddressTable_Open K sto) (xs ! j) w = (Ok (of_nat j, True), charge StorageReadCost w)"
proof -
  have "(of_nat (Suc j) :: u64) \<noteq> 0" using j indexedD(5) [OF ix] by (intro of_nat_Suc_neq_0) simp
  then show ?thesis
    using indexedD(2,9) [OF ix] j
    by (simp add: AddressTable_Lookup_def run_simps AddressToHash_def [symmetric] sub_slot_def [symmetric])
qed

lemma AddressTable_Lookup_absent:
  "atable K U sto w xs \<Longrightarrow> a \<in> U \<Longrightarrow> a \<notin> set xs \<Longrightarrow>
     AddressTable_Lookup K (AddressTable_Open K sto) a w = (Ok (0, False), charge StorageReadCost w)"
  using indexedD(2,10) [of K sto "[]" U w xs]
  by (simp add: AddressTable_Lookup_def run_simps AddressToHash_def [symmetric] sub_slot_def [symmetric])

lemma AddressTable_LookupIndex_run:
  assumes ix: "atable K U sto w xs"
  shows "\<exists>w'. AddressTable_LookupIndex K (AddressTable_Open K sto) i w =
    (Ok (if unat i < length xs then (xs ! unat i, True) else (0, False)), w') \<and> sys w' \<and> sdb w' = sdb w"
proof -
  note D = indexedD [OF ix]
  have le: "of_nat (length xs) \<le> i \<longleftrightarrow> \<not> unat i < length xs"
    using D(5) by (simp add: word_le_nat_alt unat_of_nat_u64 not_less)
  show ?thesis
  proof (cases "unat i < length xs")
    case True
    have "(of_nat (Suc (unat i)) :: u64) = i + 1" by simp
    with D(8) [OF True] have "sdb w (NewSlot K sto (i + 1)) = AddressToHash (xs ! unat i)" by metis
    with True le D(2,6,7) show ?thesis by (simp add: AddressTable_LookupIndex_def run_simps)
  next
    case False
    with le D(2,6,7) show ?thesis by (simp add: AddressTable_LookupIndex_def run_simps)
  qed
qed

lemma AddressTable_Register_run:
  assumes ix: "atable K U sto w xs" and a: "a \<in> U" "a \<notin> set xs" and len: "Suc (length xs) < 2 ^ 64"
  shows "\<exists>w'. AddressTable_Register K (AddressTable_Open K sto) a w = (Ok (of_nat (length xs)), w') \<and>
    atable K U sto w' (xs @ [a])"
proof -
  note D = indexedD [OF ix] and slots = index_free_slots [OF indexedD(1) [OF ix]]
  let ?n = "of_nat (Suc (length xs)) :: u64"
  have n: "(of_nat (length xs) :: u64) + 1 = ?n" by simp
  have n0: "?n \<noteq> 0" using len by (rule of_nat_Suc_neq_0)
  have max: "(of_nat (length xs) :: u64) \<noteq> - 1"
    using n0 by (metis add.commute add.right_inverse n)
  let ?w1 = "upd (NewSlot K sto 0) (UintToHash ?n) (charge (writeCost (UintToHash ?n)) (charge StorageReadCost (charge StorageReadCost w)))"
  let ?w2 = "upd (NewSlot K sto ?n) (AddressToHash a) (charge (writeCost (AddressToHash a)) ?w1)"
  let ?w3 = "upd (sub_slot K sto [] a) (UintToHash ?n) (charge (writeCost (UintToHash ?n)) ?w2)"
  have "?n - 1 = of_nat (length xs)" by simp
  then have "AddressTable_Register K (AddressTable_Open K sto) a w = (Ok (of_nat (length xs)), ?w3)"
    using D(2,6,7) D(10) [OF a] max
    by (simp add: AddressTable_Register_def Let_def run_simps n AddressToHash_def [symmetric]
        sub_slot_def [symmetric] del: of_nat_Suc)
  moreover have "atable K U sto ?w3 (xs @ [a])"
    by (rule indexed_append [OF ix a len]) (use D(2) n0 slots a in \<open>simp_all del: of_nat_Suc\<close>)
  ultimately show ?thesis by blast
qed

lemma AddressTable_Register_present:
  assumes ix: "atable K U sto w xs" and j: "j < length xs"
  shows "AddressTable_Register K (AddressTable_Open K sto) (xs ! j) w = (Ok (of_nat j), charge StorageReadCost w)"
proof -
  have "(of_nat (Suc j) :: u64) \<noteq> 0" using j indexedD(5) [OF ix] by (intro of_nat_Suc_neq_0) simp
  then have "UintToHash (of_nat (Suc j)) \<noteq> 0" by (metis UintToHash_0 UintToHash_inject)
  moreover have "(of_nat (Suc j) :: u64) - 1 = of_nat j" by simp
  ultimately show ?thesis
    using indexedD(2,9) [OF ix] j
    by (simp add: AddressTable_Register_def Let_def run_simps AddressToHash_def [symmetric]
        sub_slot_def [symmetric] del: of_nat_Suc)
qed

text \<open>Registering, in both cases: the address ends up in a list that extends the old one.\<close>

lemma AddressTable_Register_cases:
  assumes ix: "atable K U sto w xs" and a: "a \<in> U" and len: "Suc (length xs) < 2 ^ 64"
  shows "\<exists>j w' ys. AddressTable_Register K (AddressTable_Open K sto) a w = (Ok (of_nat j), w') \<and>
    atable K U sto w' ys \<and> j < length ys \<and> ys ! j = a \<and> (\<exists>zs. ys = xs @ zs)"
proof (cases "a \<in> set xs")
  case True
  then obtain j where j: "j < length xs" "xs ! j = a" by (auto simp: in_set_conv_nth)
  have "AddressTable_Register K (AddressTable_Open K sto) a w = (Ok (of_nat j), charge StorageReadCost w)"
    using AddressTable_Register_present [OF ix j(1)] j(2) by simp
  moreover have "atable K U sto (charge StorageReadCost w) xs" using ix by simp
  ultimately show ?thesis using j by (metis append_Nil2)
next
  case False
  from AddressTable_Register_run [OF ix a False len] obtain w' where
    "AddressTable_Register K (AddressTable_Open K sto) a w = (Ok (of_nat (length xs)), w')"
    "atable K U sto w' (xs @ [a])"
    by blast
  moreover have "(xs @ [a]) ! length xs = a" "length xs < length (xs @ [a])" by simp_all
  ultimately show ?thesis by blast
qed

lemma AddressTable_Lookup_prefix:
  assumes ix: "atable K U sto w xs" "atable K U sto w' (xs @ zs)" and b: "b \<in> set xs"
  shows "fst (AddressTable_Lookup K (AddressTable_Open K sto) b w') =
    fst (AddressTable_Lookup K (AddressTable_Open K sto) b w)"
proof -
  from b obtain k where k: "k < length xs" "xs ! k = b" by (auto simp: in_set_conv_nth)
  then have "k < length (xs @ zs)" "(xs @ zs) ! k = b" by (simp_all add: nth_append)
  from AddressTable_Lookup_present [OF ix(2) this(1)] AddressTable_Lookup_present [OF ix(1) k(1)] this(2) k(2)
  show ?thesis by simp
qed

text \<open>
  C26: registering an address always succeeds while indices are left, and makes the table a bijection there:
  looking the address up gives the index that was returned, looking the index up gives the address,
  registering it again returns the same index, and no index handed out earlier changes.
\<close>

theorem address_table_index_permanent:
  assumes ix: "atable K U sto w xs" and a: "a \<in> U" and len: "Suc (length xs) < 2 ^ 64"
  shows "\<exists>i w'. AddressTable_Register K (AddressTable_Open K sto) a w = (Ok i, w') \<and>
    fst (AddressTable_Lookup K (AddressTable_Open K sto) a w') = Ok (i, True) \<and>
    fst (AddressTable_LookupIndex K (AddressTable_Open K sto) i w') = Ok (a, True) \<and>
    fst (AddressTable_Register K (AddressTable_Open K sto) a w') = Ok i \<and>
    (\<forall>b \<in> set xs. fst (AddressTable_Lookup K (AddressTable_Open K sto) b w') =
      fst (AddressTable_Lookup K (AddressTable_Open K sto) b w))"
proof -
  from AddressTable_Register_cases [OF ix a len] obtain j w' zs where
    w': "AddressTable_Register K (AddressTable_Open K sto) a w = (Ok (of_nat j), w')"
    "atable K U sto w' (xs @ zs)" "j < length (xs @ zs)" "(xs @ zs) ! j = a"
    by blast
  have "unat (of_nat j :: u64) = j"
    using w'(3) indexedD(5) [OF w'(2)] by (intro unat_of_nat_u64) simp
  then have "fst (AddressTable_LookupIndex K (AddressTable_Open K sto) (of_nat j) w') = Ok (a, True)"
    using AddressTable_LookupIndex_run [OF w'(2), of "of_nat j"] w'(3,4) by auto
  moreover have "fst (AddressTable_Lookup K (AddressTable_Open K sto) a w') = Ok (of_nat j, True)"
    using AddressTable_Lookup_present [OF w'(2,3)] w'(4) by simp
  moreover have "fst (AddressTable_Register K (AddressTable_Open K sto) a w') = Ok (of_nat j)"
    using AddressTable_Register_present [OF w'(2,3)] w'(4) by simp
  ultimately show ?thesis
    using w'(1) AddressTable_Lookup_prefix [OF ix w'(2)] by blast
qed

definition toyStorage2 :: Storage where
  "toyStorage2 = \<lparr>storageKey = 2 # replicate 31 1, hashCache = False\<rparr>"

lemma blank_atable: "atable toyK U toyStorage2 blank []"
proof -
  have "index_free toyK toyStorage2 [] U"
  proof (rule toyK_index_free)
    have "hd (take 12 (storageKey toyStorage2)) \<noteq> hd (take 12 (toyK (storageKey toyStorage2 @ [])))"
      by (simp add: toyStorage2_def toyK_def)
    then show "take 12 (storageKey toyStorage2) \<noteq> take 12 (toyK (storageKey toyStorage2 @ []))" by metis
  qed (simp_all add: toyStorage2_def toyK_def)
  then show ?thesis by (simp add: indexed_def)
qed

theorem address_table_index_permanent_witness:
  "\<exists>i w'. AddressTable_Register toyK (AddressTable_Open toyK toyStorage2) 5 blank = (Ok i, w') \<and>
     fst (AddressTable_LookupIndex toyK (AddressTable_Open toyK toyStorage2) i w') = Ok (5, True)"
  using address_table_index_permanent [OF blank_atable, of 5 "{5}"] by auto

section \<open>Compression\<close>

text \<open>
  C31: with a codec that decodes what it encodes, decompressing a compressed address gives the address
  back and consumes exactly the bytes of its encoding, whether the address is in the table or not and
  whatever follows in the buffer.
\<close>

theorem compress_roundtrip:
  assumes R: "rlp_ok R" and ix: "atable K U sto w xs" and a: "a \<in> U"
  shows "\<exists>buf w'. AddressTable_Compress K R (AddressTable_Open K sto) a w = (Ok buf, w') \<and>
    fst (AddressTable_Decompress K R (AddressTable_Open K sto) (buf @ rest) w') = Ok (a, of_nat (length buf))"
proof (cases "a \<in> set xs")
  case True
  then obtain j where j: "j < length xs" "xs ! j = a" by (auto simp: in_set_conv_nth)
  let ?buf = "rlp_AppendUint64 R (of_nat j)" and ?w = "charge StorageReadCost w"
  have "AddressTable_Compress K R (AddressTable_Open K sto) a w = (Ok ?buf, ?w)"
    using AddressTable_Lookup_present [OF ix j(1)] j(2) by (simp add: AddressTable_Compress_def bindM_Ok)
  moreover obtain b n where b: "stream_Bytes R 21 (?buf @ rest) = Ok (b, n)" "length b \<le> 8"
    using R unfolding rlp_ok_def by blast
  then have "length b \<noteq> 20" by simp
  moreover have "stream_Uint64 R 9 (?buf @ rest) = Ok (of_nat j, length ?buf)" using R by (simp add: rlp_ok_def)
  moreover have "unat (of_nat j :: u64) = j"
    using j indexedD(5) [OF ix] by (intro unat_of_nat_u64) simp
  then obtain w' where "AddressTable_LookupIndex K (AddressTable_Open K sto) (of_nat j) ?w = (Ok (a, True), w')"
    using AddressTable_LookupIndex_run [where K = K and U = U and sto = sto and w = ?w and xs = xs and i = "of_nat j"] ix j
    by auto
  ultimately have "AddressTable_Decompress K R (AddressTable_Open K sto) (?buf @ rest) ?w =
      (Ok (a, of_nat (length ?buf)), w')"
    using b by (simp add: AddressTable_Decompress_def bindM_def liftR_def)
  with \<open>AddressTable_Compress K R (AddressTable_Open K sto) a w = (Ok ?buf, ?w)\<close> show ?thesis
    by (metis fst_conv)
next
  case False
  let ?buf = "rlp_EncodeToBytes R (address_bytes a)" and ?w = "charge StorageReadCost w"
  have "AddressTable_Compress K R (AddressTable_Open K sto) a w = (Ok ?buf, ?w)"
    using AddressTable_Lookup_absent [OF ix a False] by (simp add: AddressTable_Compress_def bindM_Ok)
  moreover have "stream_Bytes R 21 (?buf @ rest) = Ok (address_bytes a, length ?buf)"
    using R by (simp add: rlp_ok_def)
  then have "AddressTable_Decompress K R (AddressTable_Open K sto) (?buf @ rest) ?w =
      (Ok (a, of_nat (length ?buf)), ?w)"
    by (simp add: AddressTable_Decompress_def bindM_def liftR_def bytes_address_def)
  ultimately show ?thesis by (metis fst_conv)
qed

lemma length_big_bytes_u64: "length (big_bytes (uint (n :: u64))) \<le> 8"
proof -
  have "bit_len (unat n) \<le> 64" using unat_less_2p [of n] by (simp add: bit_len_le_iff)
  then show ?thesis by (simp add: big_bytes_def)
qed

lemma short_decode_encode:
  assumes "length b < 56"
  shows "short_decode (short_encode b @ rest) = Ok (b, length (short_encode b))"
proof -
  have n: "unat (of_nat (128 + length b) :: u8) = 128 + length b"
    using assms by (simp add: unat_of_nat del: of_nat_add)
  have "\<not> (of_nat (128 + length b) :: u8) < 128" and "(of_nat (128 + length b) :: u8) < 184"
    using assms by (simp_all add: word_less_nat_alt n del: of_nat_add)
  note long = this n
  show ?thesis
  proof (cases b)
    case Nil
    then show ?thesis by (simp add: short_encode_def short_decode_def)
  next
    case (Cons x xs)
    show ?thesis
    proof (cases xs)
      case Nil
      then show ?thesis using Cons by (simp add: short_encode_def short_decode_def)
    next
      case (Cons y ys)
      have "short_encode b = of_nat (128 + length b) # b"
        using \<open>b = x # xs\<close> Cons by (simp add: short_encode_def)
      then show ?thesis using long by (simp add: short_decode_def del: of_nat_add)
    qed
  qed
qed

lemma short_rlp_ok: "rlp_ok short_rlp"
proof -
  have "short_decode (short_encode (big_bytes (uint n)) @ rest) =
      Ok (big_bytes (uint n), length (short_encode (big_bytes (uint n))))" for n :: u64 and rest
    using length_big_bytes_u64 [of n] by (intro short_decode_encode) simp
  then show ?thesis
    using length_big_bytes_u64
    by (auto simp: rlp_ok_def short_rlp_def short_decode_encode bindR_def not_less)
qed

theorem compress_roundtrip_witness:
  "\<exists>buf w'. AddressTable_Compress toyK short_rlp (AddressTable_Open toyK toyStorage2) 5 blank = (Ok buf, w') \<and>
     fst (AddressTable_Decompress toyK short_rlp (AddressTable_Open toyK toyStorage2) (buf @ [1]) w') =
       Ok (5, of_nat (length buf))"
  by (rule compress_roundtrip [OF short_rlp_ok blank_atable, of 5 UNIV]) simp

end
