(* ===== verification/Blockhash.thy ===== *)
theory Blockhash
  imports Queue
begin

text \<open>
  \<^verbatim>\<open>arbos/blockhash/blockhash.go\<close>: the number of the next L1 block and a ring of the last 256 L1 block
  hashes. The lemmas give the contents of the ring after a block is recorded, for the block itself, for
  the blocks skipped over and for the older ones, and the window \<^verbatim>\<open>BlockHash\<close> answers in.
\<close>

section \<open>Definitions\<close>

record Blockhashes =
  bh_backingStorage :: Storage
  l1BlockNumber :: StorageSlot

definition InitializeBlockhashes :: "Storage \<Rightarrow> unit arb" where
  "InitializeBlockhashes backingStorage = returnM ()"

definition OpenBlockhashes :: "(bytes \<Rightarrow> bytes) \<Rightarrow> Storage \<Rightarrow> Blockhashes" where
  "OpenBlockhashes K backingStorage =
     \<lparr>bh_backingStorage = WithoutCache backingStorage,
      l1BlockNumber = OpenStorageBackedUint64 K backingStorage 0\<rparr>"

definition Blockhashes_L1BlockNumber :: "Blockhashes \<Rightarrow> u64 arb" where
  "Blockhashes_L1BlockNumber bh = StorageBackedUint64_Get (l1BlockNumber bh)"

definition Blockhashes_BlockHash :: "(bytes \<Rightarrow> bytes) \<Rightarrow> Blockhashes \<Rightarrow> u64 \<Rightarrow> hash arb" where
  "Blockhashes_BlockHash K bh number =
     bindM (StorageBackedUint64_Get (l1BlockNumber bh)) (\<lambda>currentNumber.
       if number \<ge> currentNumber \<or> number + 256 < currentNumber
       then failM (ErrMsg ''invalid block number for BlockHash'')
       else GetByUint64 K (bh_backingStorage bh) (1 + number mod 256))"

text \<open>The buffer hashed with the block hash: the number in little-endian order from version 8 on.\<close>

definition nextNumBuf :: "u64 \<Rightarrow> u64 \<Rightarrow> bytes" where
  "nextNumBuf arbosVersion nextNumber =
     (if arbosVersion \<ge> 8 then rev (be_bytes 8 (unat nextNumber)) else replicate 8 0)"

function RecordNewL1Block_loop ::
  "(bytes \<Rightarrow> bytes) \<Rightarrow> Blockhashes \<Rightarrow> hash \<Rightarrow> u64 \<Rightarrow> u64 \<Rightarrow> u64 \<Rightarrow> unit arb" where
  "RecordNewL1Block_loop K bh blockHash arbosVersion number nextNumber =
     (if nextNumber + 1 < number
      then bindM (KeccakHash K [hash_bytes blockHash, nextNumBuf arbosVersion (nextNumber + 1)]) (\<lambda>fill.
        thenM (SetByUint64 K (bh_backingStorage bh) (1 + (nextNumber + 1) mod 256) fill)
          (RecordNewL1Block_loop K bh blockHash arbosVersion number (nextNumber + 1)))
      else returnM ())"
  by pat_completeness auto
termination
proof (relation "measure (\<lambda>(K, bh, h, v, number, nextNumber). unat (number - (nextNumber + 1)))")
  fix K bh blockHash arbosVersion number nextNumber w w' fill
  assume "nextNumber + 1 < (number :: u64)"
  then have "number - (nextNumber + 1) \<noteq> 0" by auto
  moreover have "unat (d - 1) < unat d" if "d \<noteq> 0" for d :: u64
    using that by (simp add: unat_minus_one unat_gt_0)
  ultimately have "unat (number - (nextNumber + 1) - 1) < unat (number - (nextNumber + 1))" by blast
  then have "unat (number - (nextNumber + 1 + 1)) < unat (number - (nextNumber + 1))"
    by (simp only: diff_diff_eq)
  then show "((K :: bytes \<Rightarrow> bytes, bh :: Blockhashes, blockHash :: hash, arbosVersion :: u64, number, nextNumber + 1),
      K, bh, blockHash, arbosVersion, number, nextNumber)
    \<in> measure (\<lambda>(K, bh, h, v, number, nextNumber). unat (number - (nextNumber + 1)))"
    by (simp only: in_measure prod.case)
qed simp

declare RecordNewL1Block_loop.simps [simp del]

definition Blockhashes_RecordNewL1Block ::
  "(bytes \<Rightarrow> bytes) \<Rightarrow> Blockhashes \<Rightarrow> u64 \<Rightarrow> hash \<Rightarrow> u64 \<Rightarrow> unit arb" where
  "Blockhashes_RecordNewL1Block K bh number blockHash arbosVersion =
     bindM (StorageBackedUint64_Get (l1BlockNumber bh)) (\<lambda>nextNumber.
       if number < nextNumber then returnM ()
       else thenM
         (RecordNewL1Block_loop K bh blockHash arbosVersion number
           (if nextNumber + 256 < number then number - 256 else nextNumber))
         (thenM (SetByUint64 K (bh_backingStorage bh) (1 + number mod 256) blockHash)
           (StorageBackedUint64_Set (l1BlockNumber bh) (number + 1))))"

section \<open>The ring\<close>

definition bh_slot :: "(bytes \<Rightarrow> bytes) \<Rightarrow> Storage \<Rightarrow> nat \<Rightarrow> hash" where
  "bh_slot K sto m = NewSlot K sto (of_nat (1 + m mod 256))"

definition bh_fill :: "(bytes \<Rightarrow> bytes) \<Rightarrow> hash \<Rightarrow> u64 \<Rightarrow> nat \<Rightarrow> hash" where
  "bh_fill K blockHash arbosVersion m = bytes_hash (K (hash_bytes blockHash @ nextNumBuf arbosVersion (of_nat m)))"

definition bh_inv :: "(bytes \<Rightarrow> bytes) \<Rightarrow> Storage \<Rightarrow> world \<Rightarrow> nat \<Rightarrow> bool" where
  "bh_inv K sto w nxt \<longleftrightarrow>
     collision_free K (uint_keys sto) \<and> sys w \<and> u64_slot w (NewSlot K sto 0) \<and>
     u64_at w (NewSlot K sto 0) = of_nat nxt \<and> nxt + 256 < 2 ^ 64"

lemma OpenBlockhashes_sel [simp]:
  "bh_backingStorage (OpenBlockhashes K sto) = WithoutCache sto"
  "l1BlockNumber (OpenBlockhashes K sto) = NewSlot K sto 0"
  by (simp_all add: OpenBlockhashes_def)

lemma ring_slot: "m < 2 ^ 64 \<Longrightarrow> NewSlot K sto (1 + of_nat m mod 256) = bh_slot K sto m"
proof -
  assume "m < 2 ^ 64"
  then have "(of_nat m :: u64) mod 256 = of_nat (m mod 256)"
    by (simp add: word_eq_unat unat_mod unat_of_nat)
  then show ?thesis by (simp add: bh_slot_def)
qed

lemma bh_slot_eq:
  assumes "collision_free K (uint_keys sto)"
  shows "bh_slot K sto m = bh_slot K sto n \<longleftrightarrow> m mod 256 = n mod 256"
    and "bh_slot K sto m \<noteq> NewSlot K sto 0"
proof -
  have b: "1 + k mod 256 < (2 ^ 64 :: nat)" for k
    by (rule less_trans [of _ "1 + 256"]) simp_all
  have "(of_nat (1 + m mod 256) :: u64) = of_nat (1 + n mod 256) \<longleftrightarrow> m mod 256 = n mod 256"
    using of_nat_u64_eq [OF b b] by simp
  then show "bh_slot K sto m = bh_slot K sto n \<longleftrightarrow> m mod 256 = n mod 256"
    unfolding bh_slot_def queue_slot_eq [OF assms] .
  show "bh_slot K sto m \<noteq> NewSlot K sto 0"
    unfolding bh_slot_def queue_slot_eq [OF assms] using of_nat_u64_eq [OF b, of 0 m] by simp
qed

lemma mod_256_near:
  assumes "a < b" "b < a + 256"
  shows "a mod 256 \<noteq> b mod (256 :: nat)"
proof
  assume "a mod 256 = b mod 256"
  then have "256 dvd b - a" using assms(1) by (metis less_imp_le mod_eq_dvd_iff_nat)
  then have "256 \<le> b - a" using assms(1) by (intro dvd_imp_le) simp_all
  with assms show False by simp
qed

lemma RecordNewL1Block_loop_run:
  assumes cf: "collision_free K (uint_keys sto)" and n: "Suc number < 2 ^ 64"
  shows "sys w \<Longrightarrow> nxt \<le> number \<Longrightarrow> number \<le> nxt + 256 \<Longrightarrow>
    \<exists>w'. RecordNewL1Block_loop K (OpenBlockhashes K sto) h v (of_nat number) (of_nat nxt) w = (Ok (), w') \<and> sys w' \<and>
      (\<forall>m. nxt < m \<and> m < number \<longrightarrow> sdb w' (bh_slot K sto m) = bh_fill K h v m) \<and>
      (\<forall>b. (\<forall>m. nxt < m \<and> m < number \<longrightarrow> b \<noteq> bh_slot K sto m) \<longrightarrow> sdb w' b = sdb w b)"
proof (induction "number - nxt" arbitrary: nxt w)
  case (0 nxt w)
  have "\<not> (of_nat (Suc nxt) :: u64) < of_nat number"
    using 0 n by (simp add: word_less_nat_alt unat_of_nat_u64 del: of_nat_Suc)
  with 0 show ?case by (subst RecordNewL1Block_loop.simps) (auto simp: add.commute)
next
  case (Suc d nxt w)
  have lt: "(of_nat nxt + 1 :: u64) < of_nat number \<longleftrightarrow> Suc nxt < number"
    using Suc.prems n unfolding of_nat_Suc [of nxt, symmetric, unfolded add.commute [of 1]]
    by (simp add: word_less_nat_alt unat_of_nat_u64 del: of_nat_Suc)
  show ?case
  proof (cases "Suc nxt < number")
    case False
    with lt Suc.prems show ?thesis by (subst RecordNewL1Block_loop.simps) auto
  next
    case True
    let ?f = "bh_fill K h v (Suc nxt)"
    let ?c = "charge (30 + 6 * WordsForBytes (of_nat (sum_list (map length [hash_bytes h, nextNumBuf v (of_nat (Suc nxt))])))) w"
    let ?w = "upd (bh_slot K sto (Suc nxt)) ?f (charge (writeCost ?f) ?c)"
    have s: "sys ?w" using Suc.prems by simp
    have "d = number - Suc nxt" "Suc nxt \<le> number" "number \<le> Suc nxt + 256" using Suc by auto
    from Suc.hyps(1) [OF this(1) s this(2,3)] obtain w' where
      w': "RecordNewL1Block_loop K (OpenBlockhashes K sto) h v (of_nat number) (of_nat (Suc nxt)) ?w = (Ok (), w')" "sys w'"
      and fill: "\<And>m. Suc nxt < m \<Longrightarrow> m < number \<Longrightarrow> sdb w' (bh_slot K sto m) = bh_fill K h v m"
      and rest: "\<And>b. (\<And>m. Suc nxt < m \<Longrightarrow> m < number \<Longrightarrow> b \<noteq> bh_slot K sto m) \<Longrightarrow> sdb w' b = sdb ?w b"
      by blast
    have e: "(of_nat nxt + 1 :: u64) = of_nat (Suc nxt)" by simp
    have "Suc nxt < 2 ^ 64" using True n by simp
    note slot = ring_slot [OF this, of K sto]
    have "RecordNewL1Block_loop K (OpenBlockhashes K sto) h v (of_nat number) (of_nat nxt) w = (Ok (), w')"
      using lt True Suc.prems(1) w'(1) slot
      by (subst RecordNewL1Block_loop.simps)
        (simp add: e run_simps bh_fill_def del: of_nat_Suc)
    moreover have "sdb w' (bh_slot K sto (Suc nxt)) = ?f"
    proof -
      have "bh_slot K sto (Suc nxt) \<noteq> bh_slot K sto m" if "Suc nxt < m" "m < number" for m
        using mod_256_near [of "Suc nxt" m] that Suc.prems(3) by (simp add: bh_slot_eq [OF cf])
      from rest [OF this] show ?thesis by simp
    qed
    then have "sdb w' (bh_slot K sto m) = bh_fill K h v m" if "nxt < m" "m < number" for m
      using fill [of m] that by (cases "m = Suc nxt") auto
    moreover have "sdb w' b = sdb w b" if "\<And>m. nxt < m \<Longrightarrow> m < number \<Longrightarrow> b \<noteq> bh_slot K sto m" for b
      using rest [of b] that [of "Suc nxt"] that True by simp
    ultimately show ?thesis using w'(2) by blast
  qed
qed

lemma RecordNewL1Block_run:
  assumes inv: "bh_inv K sto w nxt" and le: "nxt \<le> number" and n: "number + 257 < 2 ^ 64"
  shows "\<exists>w'. Blockhashes_RecordNewL1Block K (OpenBlockhashes K sto) (of_nat number) h v w = (Ok (), w') \<and>
    bh_inv K sto w' (Suc number) \<and> sdb w' (bh_slot K sto number) = h \<and>
    (\<forall>m. max nxt (number - 256) < m \<and> m < number \<longrightarrow> sdb w' (bh_slot K sto m) = bh_fill K h v m) \<and>
    (\<forall>b. b \<noteq> NewSlot K sto 0 \<and> (\<forall>m. max nxt (number - 256) < m \<and> m \<le> number \<longrightarrow> b \<noteq> bh_slot K sto m) \<and>
       b \<noteq> bh_slot K sto number \<longrightarrow> sdb w' b = sdb w b)"
proof -
  let ?start = "max nxt (number - 256)"
  have cf: "collision_free K (uint_keys sto)" and w: "sys w" "u64_slot w (NewSlot K sto 0)"
    "u64_at w (NewSlot K sto 0) = of_nat nxt"
    using inv by (simp_all add: bh_inv_def)
  have e: "(of_nat nxt + 256 :: u64) = of_nat (nxt + 256)" by simp
  have lt1: "\<not> (of_nat number :: u64) < of_nat nxt"
    using le n by (simp add: word_less_nat_alt unat_of_nat_u64)
  have lt2: "(of_nat nxt + 256 :: u64) < of_nat number \<longleftrightarrow> nxt + 256 < number"
    unfolding e using le n by (simp add: word_less_nat_alt unat_of_nat_u64 del: of_nat_add)
  have start: "(if (of_nat nxt + 256 :: u64) < of_nat number then of_nat number - 256 else of_nat nxt) = (of_nat ?start :: u64)"
  proof (cases "nxt + 256 < number")
    case True
    then have "?start = number - 256" by simp
    with True show ?thesis unfolding lt2 by (simp add: of_nat_diff)
  next
    case False
    then have "?start = nxt" using le by simp
    with False show ?thesis unfolding lt2 by simp
  qed
  have "sys (charge StorageReadCost w)" "?start \<le> number" "number \<le> ?start + 256" "Suc number < 2 ^ 64"
    using w le n by auto
  from RecordNewL1Block_loop_run [OF cf this(4) this(1-3), of h v] obtain w1 where
    w1: "RecordNewL1Block_loop K (OpenBlockhashes K sto) h v (of_nat number) (of_nat ?start) (charge StorageReadCost w)
      = (Ok (), w1)" "sys w1"
    and fill: "\<And>m. ?start < m \<Longrightarrow> m < number \<Longrightarrow> sdb w1 (bh_slot K sto m) = bh_fill K h v m"
    and rest: "\<And>b. (\<And>m. ?start < m \<Longrightarrow> m < number \<Longrightarrow> b \<noteq> bh_slot K sto m) \<Longrightarrow> sdb w1 b = sdb w b"
    by (metis charge_sel(1))
  let ?w2 = "upd (bh_slot K sto number) h (charge (writeCost h) w1)"
  let ?n = "UintToHash (of_nat (Suc number))"
  let ?w3 = "upd (NewSlot K sto 0) ?n (charge (writeCost ?n) ?w2)"
  note slot = ring_slot [of number K sto]
  have run: "Blockhashes_RecordNewL1Block K (OpenBlockhashes K sto) (of_nat number) h v w = (Ok (), ?w3)"
    using w w1 lt1 start slot n
    by (simp add: Blockhashes_RecordNewL1Block_def run_simps add.commute)
  have inv': "bh_inv K sto ?w3 (Suc number)"
    using cf w1(2) n by (simp add: bh_inv_def del: of_nat_Suc)
  have nr: "sdb ?w3 (bh_slot K sto m) = sdb w1 (bh_slot K sto m)" if "?start < m" "m < number" for m
    using mod_256_near [of m number] that by (simp add: bh_slot_eq [OF cf] max_def split: if_splits)
  have "sdb ?w3 (bh_slot K sto m) = bh_fill K h v m" if "?start < m" "m < number" for m
    using nr [OF that] fill [OF that] by simp
  moreover have "sdb ?w3 (bh_slot K sto number) = h" using bh_slot_eq(2) [OF cf] by simp
  moreover have "sdb ?w3 b = sdb w b" if "b \<noteq> NewSlot K sto 0" "b \<noteq> bh_slot K sto number"
    "\<And>m. ?start < m \<Longrightarrow> m \<le> number \<Longrightarrow> b \<noteq> bh_slot K sto m" for b
    using that rest [of b] by simp
  ultimately show ?thesis using run inv' by blast
qed

lemma BlockHash_run:
  assumes inv: "bh_inv K sto w nxt" and m: "m < 2 ^ 64"
  shows "fst (Blockhashes_BlockHash K (OpenBlockhashes K sto) (of_nat m) w) =
    (if m < nxt \<and> nxt \<le> m + 256 then Ok (sdb w (bh_slot K sto m))
     else Err (ErrMsg ''invalid block number for BlockHash''))"
proof -
  have w: "sys w" "u64_slot w (NewSlot K sto 0)" "u64_at w (NewSlot K sto 0) = of_nat nxt" "nxt + 256 < 2 ^ 64"
    using inv by (simp_all add: bh_inv_def)
  have le: "(of_nat nxt :: u64) \<le> of_nat m \<longleftrightarrow> nxt \<le> m"
    using w(4) m by (simp add: word_le_nat_alt unat_of_nat_u64)
  show ?thesis
  proof (cases "nxt \<le> m")
    case True
    with le w show ?thesis by (simp add: Blockhashes_BlockHash_def run_simps)
  next
    case False
    have "(of_nat m + 256 :: u64) = of_nat (m + 256)" by simp
    then have "(of_nat m + 256 :: u64) < of_nat nxt \<longleftrightarrow> m + 256 < nxt"
      using w(4) False by (simp add: word_less_nat_alt unat_of_nat_u64 del: of_nat_add)
    with le False show ?thesis
      using w m by (simp add: Blockhashes_BlockHash_def run_simps ring_slot)
  qed
qed

text \<open>A block within the window that only touches the entries after \<open>nxt\<close> keeps the entry of \<open>nxt\<close>.\<close>

lemma first_skipped_kept:
  assumes cf: "collision_free K (uint_keys sto)" and lt: "nxt < number" "number \<le> nxt + 255"
    and rest: "\<And>b. b \<noteq> NewSlot K sto 0 \<Longrightarrow> (\<And>m. max nxt (number - 256) < m \<Longrightarrow> m \<le> number \<Longrightarrow> b \<noteq> bh_slot K sto m) \<Longrightarrow>
       b \<noteq> bh_slot K sto number \<Longrightarrow> sdb w' b = sdb w b"
  shows "sdb w' (bh_slot K sto nxt) = sdb w (bh_slot K sto nxt)"
proof -
  have "bh_slot K sto nxt \<noteq> bh_slot K sto k" if "nxt < k" "k \<le> number" for k
    using mod_256_near [of nxt k] that lt(2) by (simp add: bh_slot_eq [OF cf])
  then show ?thesis using lt by (intro rest) (auto simp: bh_slot_eq(2) [OF cf])
qed

text \<open>
  C32: recording an L1 block makes it the newest block, and this says what \<^verbatim>\<open>BlockHash\<close> returns then for every
  64-bit block number: the recorded hash for the new block; for each skipped block after the first one the documented
  hash of the new block hash and the block's number; for the first skipped block whatever the ring held in its place,
  since the code does not fill that entry; for older blocks among the last 256 what it returned before; an error
  for everything else. Recording a block that is already known changes nothing.
\<close>

theorem blockhash_window:
  assumes inv: "bh_inv K sto w nxt" and le: "nxt \<le> number" and n: "number + 257 < 2 ^ 64"
  shows "\<exists>w'. Blockhashes_RecordNewL1Block K (OpenBlockhashes K sto) (of_nat number) h v w = (Ok (), w') \<and>
    fst (Blockhashes_L1BlockNumber (OpenBlockhashes K sto) w') = Ok (of_nat (Suc number)) \<and>
    fst (Blockhashes_BlockHash K (OpenBlockhashes K sto) (of_nat number) w') = Ok h \<and>
    (\<forall>m. nxt < m \<and> m < number \<and> number \<le> m + 255 \<longrightarrow>
       fst (Blockhashes_BlockHash K (OpenBlockhashes K sto) (of_nat m) w') = Ok (bh_fill K h v m)) \<and>
    (\<forall>m. m < nxt \<and> number \<le> m + 255 \<longrightarrow>
       fst (Blockhashes_BlockHash K (OpenBlockhashes K sto) (of_nat m) w') =
       fst (Blockhashes_BlockHash K (OpenBlockhashes K sto) (of_nat m) w)) \<and>
    (nxt < number \<and> number \<le> nxt + 255 \<longrightarrow>
       fst (Blockhashes_BlockHash K (OpenBlockhashes K sto) (of_nat nxt) w') = Ok (sdb w (bh_slot K sto nxt))) \<and>
    (\<forall>m. m < 2 ^ 64 \<and> (number < m \<or> m + 255 < number) \<longrightarrow>
       fst (Blockhashes_BlockHash K (OpenBlockhashes K sto) (of_nat m) w') =
       Err (ErrMsg ''invalid block number for BlockHash'')) \<and>
    (\<forall>m < Suc number. sdb (snd (Blockhashes_RecordNewL1Block K (OpenBlockhashes K sto) (of_nat m) h v w')) = sdb w')"
proof -
  have cf: "collision_free K (uint_keys sto)" using inv by (simp add: bh_inv_def)
  from RecordNewL1Block_run [OF inv le n] obtain w' where
    run: "Blockhashes_RecordNewL1Block K (OpenBlockhashes K sto) (of_nat number) h v w = (Ok (), w')"
    and inv': "bh_inv K sto w' (Suc number)" and new: "sdb w' (bh_slot K sto number) = h"
    and fill: "\<And>m. max nxt (number - 256) < m \<Longrightarrow> m < number \<Longrightarrow> sdb w' (bh_slot K sto m) = bh_fill K h v m"
    and rest: "\<And>b. b \<noteq> NewSlot K sto 0 \<Longrightarrow> (\<And>m. max nxt (number - 256) < m \<Longrightarrow> m \<le> number \<Longrightarrow> b \<noteq> bh_slot K sto m) \<Longrightarrow>
       b \<noteq> bh_slot K sto number \<Longrightarrow> sdb w' b = sdb w b"
    by blast
  have w': "sys w'" "u64_slot w' (NewSlot K sto 0)" "u64_at w' (NewSlot K sto 0) = of_nat (Suc number)"
    using inv' by (simp_all add: bh_inv_def del: of_nat_Suc)
  have "fst (Blockhashes_L1BlockNumber (OpenBlockhashes K sto) w') = Ok (of_nat (Suc number))"
    using w' by (simp add: Blockhashes_L1BlockNumber_def run_simps del: of_nat_Suc)
  moreover have "fst (Blockhashes_BlockHash K (OpenBlockhashes K sto) (of_nat number) w') = Ok h"
    using n new by (simp add: BlockHash_run [OF inv'])
  moreover have "fst (Blockhashes_BlockHash K (OpenBlockhashes K sto) (of_nat m) w') = Ok (bh_fill K h v m)"
    if "nxt < m" "m < number" "number \<le> m + 255" for m
    using that n fill [of m] by (simp add: BlockHash_run [OF inv'])
  moreover have "fst (Blockhashes_BlockHash K (OpenBlockhashes K sto) (of_nat m) w') =
      fst (Blockhashes_BlockHash K (OpenBlockhashes K sto) (of_nat m) w)" if "m < nxt" "number \<le> m + 255" for m
  proof -
    have "bh_slot K sto m \<noteq> bh_slot K sto k" if "m < k" "k \<le> number" for k
      using mod_256_near [of m k] that \<open>number \<le> m + 255\<close> by (simp add: bh_slot_eq [OF cf])
    then have "sdb w' (bh_slot K sto m) = sdb w (bh_slot K sto m)"
      using that le by (intro rest) (auto simp: bh_slot_eq(2) [OF cf])
    then show ?thesis using that le n by (simp add: BlockHash_run [OF inv'] BlockHash_run [OF inv])
  qed
  moreover have "fst (Blockhashes_BlockHash K (OpenBlockhashes K sto) (of_nat nxt) w') = Ok (sdb w (bh_slot K sto nxt))"
    if "nxt < number" "number \<le> nxt + 255"
  proof -
    have "sdb w' (bh_slot K sto nxt) = sdb w (bh_slot K sto nxt)" by (rule first_skipped_kept [OF cf that rest])
    then show ?thesis using that n by (simp add: BlockHash_run [OF inv'])
  qed
  moreover have "fst (Blockhashes_BlockHash K (OpenBlockhashes K sto) (of_nat m) w') =
       Err (ErrMsg ''invalid block number for BlockHash'')"
    if "m < 2 ^ 64" "number < m \<or> m + 255 < number" for m
    using that by (auto simp: BlockHash_run [OF inv'])
  moreover have "sdb (snd (Blockhashes_RecordNewL1Block K (OpenBlockhashes K sto) (of_nat m) h v w')) = sdb w'"
    if "m < Suc number" for m
  proof -
    have "(of_nat m :: u64) < of_nat (Suc number)"
      using that n by (simp add: word_less_nat_alt unat_of_nat_u64 del: of_nat_Suc)
    with w' show ?thesis by (simp add: Blockhashes_RecordNewL1Block_def run_simps del: of_nat_Suc)
  qed
  ultimately show ?thesis using run by blast
qed

lemma blank_bh: "bh_inv toyK \<lparr>storageKey = replicate 32 1, hashCache = False\<rparr> blank 0"
  by (simp add: bh_inv_def toyK_uint_keys u64_slot_def u64_at_def)

theorem blockhash_window_witness:
  "\<exists>w'. Blockhashes_RecordNewL1Block toyK (OpenBlockhashes toyK \<lparr>storageKey = replicate 32 1, hashCache = False\<rparr>)
      (of_nat 200) 77 10 blank = (Ok (), w') \<and>
     fst (Blockhashes_BlockHash toyK (OpenBlockhashes toyK \<lparr>storageKey = replicate 32 1, hashCache = False\<rparr>)
      (of_nat 200) w') = Ok 77 \<and>
     fst (Blockhashes_BlockHash toyK (OpenBlockhashes toyK \<lparr>storageKey = replicate 32 1, hashCache = False\<rparr>)
      (of_nat 150) w') = Ok (bh_fill toyK 77 10 150) \<and>
     fst (Blockhashes_BlockHash toyK (OpenBlockhashes toyK \<lparr>storageKey = replicate 32 1, hashCache = False\<rparr>)
      (of_nat 0) w') = Ok 0 \<and>
     fst (Blockhashes_BlockHash toyK (OpenBlockhashes toyK \<lparr>storageKey = replicate 32 1, hashCache = False\<rparr>)
      (of_nat 300) w') = Err (ErrMsg ''invalid block number for BlockHash'')"
proof -
  have "0 \<le> (200 :: nat)" "(200 :: nat) + 257 < 2 ^ 64" by simp_all
  moreover have "(0 :: nat) < 150 \<and> (150 :: nat) < 200 \<and> (200 :: nat) \<le> 150 + 255"
    "(0 :: nat) < 200 \<and> (200 :: nat) \<le> 0 + 255" "(300 :: nat) < 2 ^ 64 \<and> ((200 :: nat) < 300 \<or> (300 :: nat) + 255 < 200)"
    by simp_all
  moreover have "sdb blank (bh_slot toyK \<lparr>storageKey = replicate 32 1, hashCache = False\<rparr> 0) = 0" by simp
  ultimately show ?thesis using blockhash_window [OF blank_bh, of 200 77 10] by metis
qed

text \<open>
  C33: the first of the skipped blocks is not filled in. When the next expected block is \<open>nxt\<close> and a later
  block within the window is recorded, \<^verbatim>\<open>BlockHash(nxt)\<close> succeeds with whatever the ring held at that
  position: the hash of block \<open>nxt - 256\<close> if there was one.
\<close>

theorem first_skipped_block_stale:
  assumes inv: "bh_inv K sto w nxt" and lt: "nxt < number" "number \<le> nxt + 255" and n: "number + 257 < 2 ^ 64"
    and old: "256 \<le> nxt"
  shows "\<exists>w'. Blockhashes_RecordNewL1Block K (OpenBlockhashes K sto) (of_nat number) h v w = (Ok (), w') \<and>
    fst (Blockhashes_BlockHash K (OpenBlockhashes K sto) (of_nat nxt) w') =
    fst (Blockhashes_BlockHash K (OpenBlockhashes K sto) (of_nat (nxt - 256)) w)"
proof -
  have cf: "collision_free K (uint_keys sto)" using inv by (simp add: bh_inv_def)
  have le: "nxt \<le> number" using lt by simp
  from RecordNewL1Block_run [OF inv le n] obtain w' where
    run: "Blockhashes_RecordNewL1Block K (OpenBlockhashes K sto) (of_nat number) h v w = (Ok (), w')"
    and inv': "bh_inv K sto w' (Suc number)"
    and rest: "\<And>b. b \<noteq> NewSlot K sto 0 \<Longrightarrow> (\<And>m. max nxt (number - 256) < m \<Longrightarrow> m \<le> number \<Longrightarrow> b \<noteq> bh_slot K sto m) \<Longrightarrow>
       b \<noteq> bh_slot K sto number \<Longrightarrow> sdb w' b = sdb w b"
    by blast
  have "sdb w' (bh_slot K sto nxt) = sdb w (bh_slot K sto nxt)" by (rule first_skipped_kept [OF cf lt rest])
  moreover have "bh_slot K sto nxt = bh_slot K sto (nxt - 256)"
    using old by (simp add: bh_slot_eq [OF cf] le_mod_geq)
  ultimately have "fst (Blockhashes_BlockHash K (OpenBlockhashes K sto) (of_nat nxt) w') =
      fst (Blockhashes_BlockHash K (OpenBlockhashes K sto) (of_nat (nxt - 256)) w)"
    using old lt n by (simp add: BlockHash_run [OF inv'] BlockHash_run [OF inv] del: of_nat_diff)
  with run show ?thesis by blast
qed

theorem first_skipped_block_stale_witness:
  "\<exists>w0 w w'. Blockhashes_RecordNewL1Block toyK (OpenBlockhashes toyK \<lparr>storageKey = replicate 32 1, hashCache = False\<rparr>)
      (of_nat 745) 55 10 blank = (Ok (), w0) \<and>
    Blockhashes_RecordNewL1Block toyK (OpenBlockhashes toyK \<lparr>storageKey = replicate 32 1, hashCache = False\<rparr>)
      (of_nat 1000) 77 10 w0 = (Ok (), w) \<and>
    Blockhashes_RecordNewL1Block toyK (OpenBlockhashes toyK \<lparr>storageKey = replicate 32 1, hashCache = False\<rparr>)
      (of_nat 1010) 88 10 w = (Ok (), w') \<and>
    fst (Blockhashes_BlockHash toyK (OpenBlockhashes toyK \<lparr>storageKey = replicate 32 1, hashCache = False\<rparr>)
      (of_nat 1001) w') = Ok 55"
proof -
  let ?s = "\<lparr>storageKey = replicate 32 1, hashCache = False\<rparr>"
  have b: "0 \<le> (745 :: nat)" "(745 :: nat) + 257 < 2 ^ 64" "Suc 745 \<le> (1000 :: nat)" "(1000 :: nat) + 257 < 2 ^ 64"
    by simp_all
  from RecordNewL1Block_run [OF blank_bh b(1,2)] obtain w0 where
    w0: "Blockhashes_RecordNewL1Block toyK (OpenBlockhashes toyK ?s) (of_nat 745) 55 10 blank = (Ok (), w0)"
    "bh_inv toyK ?s w0 (Suc 745)" "sdb w0 (bh_slot toyK ?s 745) = 55"
    by blast
  from RecordNewL1Block_run [OF w0(2) b(3,4)] obtain w where
    w: "Blockhashes_RecordNewL1Block toyK (OpenBlockhashes toyK ?s) (of_nat 1000) 77 10 w0 = (Ok (), w)"
    "bh_inv toyK ?s w (Suc 1000)"
    and rest: "\<And>b. b \<noteq> NewSlot toyK ?s 0 \<Longrightarrow> (\<And>m. max (Suc 745) (1000 - 256) < m \<Longrightarrow> m \<le> 1000 \<Longrightarrow> b \<noteq> bh_slot toyK ?s m) \<Longrightarrow>
       b \<noteq> bh_slot toyK ?s 1000 \<Longrightarrow> sdb w b = sdb w0 b"
    by blast
  have cf: "collision_free toyK (uint_keys ?s)" using w(2) by (simp add: bh_inv_def)
  have "bh_slot toyK ?s 745 \<noteq> bh_slot toyK ?s m" if "745 < m" "m \<le> 1000" for m
    using mod_256_near [of 745 m] that by (simp add: bh_slot_eq [OF cf])
  then have "sdb w (bh_slot toyK ?s 745) = 55"
    using rest [of "bh_slot toyK ?s 745"] w0(3) by (auto simp: bh_slot_eq(2) [OF cf])
  then have old: "fst (Blockhashes_BlockHash toyK (OpenBlockhashes toyK ?s) (of_nat (Suc 1000 - 256)) w) = Ok 55"
    using BlockHash_run [OF w(2), of 745] by simp
  have "Suc 1000 < (1010 :: nat)" "(1010 :: nat) \<le> Suc 1000 + 255" "(1010 :: nat) + 257 < 2 ^ 64" "256 \<le> Suc 1000"
    by simp_all
  from first_skipped_block_stale [OF w(2) this] old w0(1) w(1) show ?thesis by fastforce
qed

end
