(* ===== verification/MerkleAccumulator.thy ===== *)
theory MerkleAccumulator
  imports AddressSet Blockhash
begin

text \<open>
  \<^verbatim>\<open>arbos/merkleAccumulator/merkleAccumulator.go\<close>: an append-only Merkle accumulator that keeps one
  partial subtree root per level, in storage or in memory. The source dispatches on whether there is a
  backing storage; here the operations are written over a \<open>backend\<close> of the calls they make, with a
  storage backend (\<open>stored_acc\<close>) and a memory backend (\<open>memory_acc\<close>). A memory accumulator is its
  size and its list of partials; indexing outside of it panics.

  The locale \<open>accumulator_store\<close> states what the algorithm needs from a backend. Inside it \<^verbatim>\<open>Append\<close> is
  shown to be the carry propagation of \<open>partials_of\<close>, and \<^verbatim>\<open>Root\<close> to be the root of the padded binary
  tree over the leaves, given a hash with 32-byte nonzero results (\<open>keccak_ok\<close>).
\<close>

section \<open>Definitions\<close>

record MerkleTreeNodeEvent =
  ev_Level :: u64
  ev_NumLeaves :: u64
  ev_Hash :: hash

record memAcc =
  ma_size :: u64
  ma_partials :: "hash list"

record 's backend =
  sizeGet :: "('s, u64) call"
  sizeIncrement :: "('s, u64) call"
  getPartial :: "u64 \<Rightarrow> ('s, hash) call"
  setPartial :: "u64 \<Rightarrow> hash \<Rightarrow> ('s, unit) call"
  acc_Keccak :: "bytes list \<Rightarrow> ('s, bytes) call"
  acc_KeccakHash :: "bytes list \<Rightarrow> ('s, hash) call"

definition stored_getPartial :: "(bytes \<Rightarrow> bytes) \<Rightarrow> Storage \<Rightarrow> u64 \<Rightarrow> hash arb" where
  "stored_getPartial K sto level = GetByUint64 K sto (2 + level)"

definition stored_setPartial :: "(bytes \<Rightarrow> bytes) \<Rightarrow> Storage \<Rightarrow> u64 \<Rightarrow> hash \<Rightarrow> unit arb" where
  "stored_setPartial K sto level val = SetByUint64 K sto (2 + level) val"

definition memory_getPartial :: "u64 \<Rightarrow> (memAcc, hash) call" where
  "memory_getPartial level m =
     (if unat level < length (ma_partials m) then (Ok (ma_partials m ! unat level), m) else (Panic, m))"

definition memory_setPartial :: "u64 \<Rightarrow> hash \<Rightarrow> (memAcc, unit) call" where
  "memory_setPartial level val m =
     (if unat level = length (ma_partials m) then (Ok (), m\<lparr>ma_partials := ma_partials m @ [val]\<rparr>)
      else if unat level < length (ma_partials m) then (Ok (), m\<lparr>ma_partials := (ma_partials m)[unat level := val]\<rparr>)
      else (Panic, m))"

text \<open>A counter call on the size field of a memory accumulator.\<close>

definition on_size :: "(u64, 'a) call \<Rightarrow> (memAcc, 'a) call" where
  "on_size f m = (case f (ma_size m) of (r, n) \<Rightarrow> (r, m\<lparr>ma_size := n\<rparr>))"

definition stored_acc :: "(bytes \<Rightarrow> bytes) \<Rightarrow> Storage \<Rightarrow> world backend" where
  "stored_acc K sto =
     \<lparr>sizeGet = StorageBackedUint64_Get (OpenStorageBackedUint64 K sto 0),
      sizeIncrement = StorageBackedUint64_Increment (OpenStorageBackedUint64 K sto 0),
      getPartial = stored_getPartial K sto, setPartial = stored_setPartial K sto,
      acc_Keccak = Keccak K, acc_KeccakHash = KeccakHash K\<rparr>"

definition memory_acc :: "(bytes \<Rightarrow> bytes) \<Rightarrow> memAcc backend" where
  "memory_acc K =
     \<lparr>sizeGet = on_size MemoryBackedUint64_Get, sizeIncrement = on_size MemoryBackedUint64_Increment,
      getPartial = memory_getPartial, setPartial = memory_setPartial,
      acc_Keccak = (\<lambda>data. returnM (K (concat data))),
      acc_KeccakHash = (\<lambda>data. returnM (bytes_hash (K (concat data))))\<rparr>"

definition InitializeMerkleAccumulator :: "Storage \<Rightarrow> unit arb" where
  "InitializeMerkleAccumulator sto = returnM ()"

definition NewNonpersistentMerkleAccumulator :: memAcc where
  "NewNonpersistentMerkleAccumulator = \<lparr>ma_size = 0, ma_partials = []\<rparr>"

definition CalcNumPartials :: "u64 \<Rightarrow> u64" where
  "CalcNumPartials n = Log2ceil n"

primrec FromPartials_loop :: "hash list \<Rightarrow> u64 \<Rightarrow> u64 \<Rightarrow> u64" where
  "FromPartials_loop [] n levelSize = n"
| "FromPartials_loop (p # ps) n levelSize =
     FromPartials_loop ps (if p \<noteq> 0 then n + levelSize else n) (levelSize * 2)"

definition NewNonpersistentMerkleAccumulatorFromPartials :: "hash list \<Rightarrow> memAcc" where
  "NewNonpersistentMerkleAccumulatorFromPartials partials =
     \<lparr>ma_size = FromPartials_loop partials 0 1, ma_partials = partials\<rparr>"

text \<open>The partials of levels \<open>i, i + 1, ...\<close>, as many as are left to read.\<close>

primrec GetPartials_loop :: "'s backend \<Rightarrow> nat \<Rightarrow> u64 \<Rightarrow> ('s, hash list) call" where
  "GetPartials_loop acc 0 i = returnM []"
| "GetPartials_loop acc (Suc left) i =
     bindM (getPartial acc i) (\<lambda>p. bindM (GetPartials_loop acc left (i + 1)) (\<lambda>ps. returnM (p # ps)))"

definition GetPartials :: "'s backend \<Rightarrow> ('s, hash list) call" where
  "GetPartials acc =
     bindM (sizeGet acc) (\<lambda>size. GetPartials_loop acc (unat (CalcNumPartials size)) 0)"

definition NonPersistentClone :: "'s backend \<Rightarrow> ('s, memAcc) call" where
  "NonPersistentClone acc =
     bindM (sizeGet acc) (\<lambda>size.
     bindM (GetPartials_loop acc (unat (CalcNumPartials size)) 0) (\<lambda>partials.
       returnM \<lparr>ma_size = size, ma_partials = partials\<rparr>))"

function Append_loop ::
  "'s backend \<Rightarrow> u64 \<Rightarrow> u64 \<Rightarrow> bytes \<Rightarrow> MerkleTreeNodeEvent list \<Rightarrow> ('s, MerkleTreeNodeEvent list) call" where
  "Append_loop acc newSize level soFar events =
     (if level = CalcNumPartials (newSize - 1)
      then thenM (setPartial acc level (bytes_hash soFar)) (returnM events)
      else bindM (getPartial acc level) (\<lambda>thisLevel.
        if thisLevel = 0
        then thenM (setPartial acc level (bytes_hash soFar)) (returnM events)
        else bindM (acc_Keccak acc [hash_bytes thisLevel, soFar]) (\<lambda>soFar'.
          thenM (setPartial acc level 0)
            (Append_loop acc newSize (level + 1) soFar'
              (events @ [\<lparr>ev_Level = level + 1, ev_NumLeaves = newSize - 1, ev_Hash = bytes_hash soFar'\<rparr>])))))"
  by pat_completeness auto
termination
proof (relation "measure (\<lambda>(acc, newSize, level, soFar, events). unat (CalcNumPartials (newSize - 1) - level))")
  fix acc :: "'s backend" and newSize level :: u64 and soFar soFar' :: bytes and events events' :: "MerkleTreeNodeEvent list"
  assume "level \<noteq> CalcNumPartials (newSize - 1)"
  then have "CalcNumPartials (newSize - 1) - level \<noteq> 0" by simp
  moreover have "unat (d - 1) < unat d" if "d \<noteq> 0" for d :: u64
    using that by (simp add: unat_minus_one unat_gt_0)
  ultimately have "unat (CalcNumPartials (newSize - 1) - level - 1) < unat (CalcNumPartials (newSize - 1) - level)" by blast
  then show "((acc, newSize, level + 1, soFar', events'), acc, newSize, level, soFar, events)
    \<in> measure (\<lambda>(acc, newSize, level, soFar, events). unat (CalcNumPartials (newSize - 1) - level))"
    by (simp only: in_measure prod.case diff_diff_eq)
qed simp

declare Append_loop.simps [simp del]

definition Accumulator_Append ::
  "(bytes \<Rightarrow> bytes) \<Rightarrow> 's backend \<Rightarrow> hash \<Rightarrow> ('s, MerkleTreeNodeEvent list) call" where
  "Accumulator_Append K acc itemHash =
     bindM (sizeIncrement acc) (\<lambda>size. Append_loop acc size 0 (K (hash_bytes itemHash)) [])"

text \<open>
  The inner loop of \<^verbatim>\<open>Root\<close> doubles the capacity until it reaches the level's; 64 rounds of fuel exceed
  any number of doublings of a nonzero 64-bit capacity.
\<close>

primrec Root_pad :: "'s backend \<Rightarrow> nat \<Rightarrow> hash \<Rightarrow> u64 \<Rightarrow> u64 \<Rightarrow> ('s, hash) call" where
  "Root_pad acc 0 hashSoFar capacityInHash capacity = panicM"
| "Root_pad acc (Suc fuel) hashSoFar capacityInHash capacity =
     (if capacityInHash < capacity
      then bindM (acc_KeccakHash acc [hash_bytes hashSoFar, replicate 32 0]) (\<lambda>h.
        Root_pad acc fuel h (capacityInHash * 2) capacity)
      else returnM hashSoFar)"

primrec Root_loop ::
  "'s backend \<Rightarrow> nat \<Rightarrow> u64 \<Rightarrow> (hash \<times> u64) option \<Rightarrow> u64 \<Rightarrow> ('s, (hash \<times> u64) option) call" where
  "Root_loop acc 0 level soFar capacity = returnM soFar"
| "Root_loop acc (Suc left) level soFar capacity =
     bindM (getPartial acc level) (\<lambda>partial.
       if partial \<noteq> 0 then
         (case soFar of
            None \<Rightarrow> Root_loop acc left (level + 1) (Some (partial, capacity)) (capacity * 2)
          | Some (hashSoFar, capacityInHash) \<Rightarrow>
              bindM (Root_pad acc 65 hashSoFar capacityInHash capacity) (\<lambda>padded.
              bindM (acc_KeccakHash acc [hash_bytes partial, hash_bytes padded]) (\<lambda>h.
                Root_loop acc left (level + 1) (Some (h, 2 * capacity)) (capacity * 2))))
       else Root_loop acc left (level + 1) soFar (capacity * 2))"

definition Accumulator_Root :: "'s backend \<Rightarrow> ('s, hash) call" where
  "Accumulator_Root acc =
     bindM (sizeGet acc) (\<lambda>size. if size = 0 then returnM 0 else
     bindM (Root_loop acc (unat (CalcNumPartials size)) 0 None 1) (\<lambda>soFar.
       case soFar of None \<Rightarrow> panicM | Some (h, _) \<Rightarrow> returnM h))"

definition Accumulator_Size :: "'s backend \<Rightarrow> ('s, u64) call" where
  "Accumulator_Size acc = sizeGet acc"

definition StateForExport :: "'s backend \<Rightarrow> ('s, u64 \<times> hash \<times> hash list) call" where
  "StateForExport acc =
     bindM (Accumulator_Root acc) (\<lambda>root.
     bindM (sizeGet acc) (\<lambda>size.
     bindM (GetPartials_loop acc (unat (CalcNumPartials size)) 0) (\<lambda>partials.
       returnM (size, root, partials))))"

section \<open>The reference: padded binary trees\<close>

definition keccak_ok :: "(bytes \<Rightarrow> bytes) \<Rightarrow> bool" where
  "keccak_ok K \<longleftrightarrow> (\<forall>b. length (K b) = 32 \<and> bytes_hash (K b) \<noteq> 0)"

definition node :: "(bytes \<Rightarrow> bytes) \<Rightarrow> hash \<Rightarrow> hash \<Rightarrow> hash" where
  "node K l r = bytes_hash (K (hash_bytes l @ hash_bytes r))"

definition leaf :: "(bytes \<Rightarrow> bytes) \<Rightarrow> hash \<Rightarrow> hash" where
  "leaf K item = bytes_hash (K (hash_bytes item))"

text \<open>\<open>tree_root K k xs\<close>: the root of the tree of height \<open>k\<close> over the nodes \<open>xs\<close>, absent subtrees being zero.\<close>

fun tree_root :: "(bytes \<Rightarrow> bytes) \<Rightarrow> nat \<Rightarrow> hash list \<Rightarrow> hash" where
  "tree_root K k [] = 0"
| "tree_root K 0 (x # xs) = x"
| "tree_root K (Suc k) xs = node K (tree_root K k (take (2 ^ k) xs)) (tree_root K k (drop (2 ^ k) xs))"

text \<open>One level up, with a zero on the right of an odd node, and without it.\<close>

fun up :: "(bytes \<Rightarrow> bytes) \<Rightarrow> hash list \<Rightarrow> hash list" where
  "up K (x # y # xs) = node K x y # up K xs"
| "up K [x] = [node K x 0]"
| "up K [] = []"

fun pairs :: "(bytes \<Rightarrow> bytes) \<Rightarrow> hash list \<Rightarrow> hash list" where
  "pairs K (x # y # xs) = node K x y # pairs K xs"
| "pairs K _ = []"

lemma length_pairs [simp]: "length (pairs K xs) = length xs div 2"
  by (induction K xs rule: pairs.induct) auto

text \<open>The partials of a list of leaves, lowest level first.\<close>

function partials_of :: "(bytes \<Rightarrow> bytes) \<Rightarrow> hash list \<Rightarrow> hash list" where
  "partials_of K xs =
     (if xs = [] then []
      else (if odd (length xs) then last xs else 0) # partials_of K (pairs K xs))"
  by pat_completeness auto
termination
  by (relation "measure (\<lambda>(K, xs). length xs)") (auto simp: div_less_dividend)

declare partials_of.simps [simp del]

text \<open>The height of the smallest full tree over \<open>n\<close> nodes, and the root of that tree.\<close>

definition height :: "nat \<Rightarrow> nat" where
  "height n = bit_len (n - 1)"

definition merkle_root :: "(bytes \<Rightarrow> bytes) \<Rightarrow> hash list \<Rightarrow> hash" where
  "merkle_root K xs = tree_root K (height (length xs)) xs"

text \<open>Carry propagation, and the fold \<^verbatim>\<open>Root\<close> performs, on lists of partials.\<close>

fun carry :: "(bytes \<Rightarrow> bytes) \<Rightarrow> hash list \<Rightarrow> hash \<Rightarrow> hash list" where
  "carry K [] x = [x]"
| "carry K (p # ps) x = (if p = 0 then x # ps else 0 # carry K ps (node K p x))"

primrec pad :: "(bytes \<Rightarrow> bytes) \<Rightarrow> nat \<Rightarrow> hash \<Rightarrow> hash" where
  "pad K 0 h = h"
| "pad K (Suc n) h = pad K n (node K h 0)"

fun root_fold :: "(bytes \<Rightarrow> bytes) \<Rightarrow> hash list \<Rightarrow> (hash \<times> nat) option \<Rightarrow> nat \<Rightarrow> (hash \<times> nat) option" where
  "root_fold K [] hs k = hs"
| "root_fold K (p # ps) hs k =
     (if p \<noteq> 0
      then root_fold K ps
        (case hs of None \<Rightarrow> Some (p, k) | Some (h, c) \<Rightarrow> Some (node K p (pad K (k - c) h), Suc k)) (Suc k)
      else root_fold K ps hs (Suc k))"

lemma node_nonzero: "keccak_ok K \<Longrightarrow> node K x y \<noteq> 0"
  by (simp add: keccak_ok_def node_def)

lemma leaf_nonzero: "keccak_ok K \<Longrightarrow> leaf K x \<noteq> 0"
  by (simp add: keccak_ok_def leaf_def)

lemma pairs_nonzero: "keccak_ok K \<Longrightarrow> 0 \<notin> set (pairs K xs)"
  by (induction K xs rule: pairs.induct) (auto simp: node_nonzero node_nonzero [symmetric])

lemma pairs_snoc:
  "pairs K (xs @ [x]) = (if odd (length xs) then pairs K xs @ [node K (last xs) x] else pairs K xs)"
  by (induction K xs rule: pairs.induct) auto

lemma up_snoc: "up K (xs @ [x]) = (if odd (length xs) then pairs K xs @ [node K (last xs) x] else pairs K xs @ [node K x 0])"
  by (induction K xs rule: pairs.induct) auto

lemma up_even: "even (length xs) \<Longrightarrow> up K xs = pairs K xs"
  by (induction K xs rule: up.induct) auto

lemma up_odd: "odd (length xs) \<Longrightarrow> up K xs = pairs K xs @ [node K (last xs) 0]"
  by (induction K xs rule: up.induct) auto

lemma length_up: "length (up K xs) = (length xs + 1) div 2"
  by (induction K xs rule: up.induct) auto

lemma up_take: "up K (take (2 * m) xs) = take m (up K xs)"
proof (induction K xs arbitrary: m rule: up.induct)
  case (1 K x y xs)
  then show ?case by (cases m) simp_all
next
  case (2 K x)
  then show ?case by (cases m) simp_all
qed simp

lemma up_drop: "up K (drop (2 * m) xs) = drop m (up K xs)"
proof (induction K xs arbitrary: m rule: up.induct)
  case (1 K x y xs)
  then show ?case by (cases m) simp_all
next
  case (2 K x)
  then show ?case by (cases m) simp_all
qed simp

lemma tree_root_up: "xs \<noteq> [] \<Longrightarrow> tree_root K (Suc k) xs = tree_root K k (up K xs)"
proof (induction k arbitrary: xs)
  case 0
  then show ?case by (cases "(K, xs)" rule: up.cases) (simp_all add: take_Cons')
next
  case (Suc k)
  from Suc.prems obtain y ys where xs: "xs = y # ys" by (cases xs) auto
  have "up K xs \<noteq> []" using Suc.prems length_up [of K xs] by (cases xs) auto
  then obtain z zs where up: "up K xs = z # zs" by (cases "up K xs") auto
  have l: "tree_root K (Suc k) (take (2 ^ Suc k) xs) = tree_root K k (take (2 ^ k) (up K xs))"
    using Suc.IH [of "take (2 ^ Suc k) xs"] Suc.prems up_take [of K "2 ^ k" xs] by simp
  have r: "tree_root K (Suc k) (drop (2 ^ Suc k) xs) = tree_root K k (drop (2 ^ k) (up K xs))"
  proof (cases "drop (2 ^ Suc k) xs = []")
    case True
    then have "drop (2 ^ k) (up K xs) = []" using up_drop [of K "2 ^ k" xs] by simp
    with True show ?thesis by simp
  next
    case False
    then show ?thesis using Suc.IH [of "drop (2 ^ Suc k) xs"] up_drop [of K "2 ^ k" xs] by simp
  qed
  have "tree_root K (Suc (Suc k)) xs = node K (tree_root K (Suc k) (take (2 ^ Suc k) xs)) (tree_root K (Suc k) (drop (2 ^ Suc k) xs))"
    unfolding xs by (rule tree_root.simps(3))
  also have "\<dots> = node K (tree_root K k (take (2 ^ k) (up K xs))) (tree_root K k (drop (2 ^ k) (up K xs)))"
    by (simp only: l r)
  also have "\<dots> = tree_root K (Suc k) (up K xs)" unfolding up by (rule tree_root.simps(3) [symmetric])
  finally show ?case .
qed

lemma height_up: "2 \<le> n \<Longrightarrow> height n = Suc (height ((n + 1) div 2))"
proof -
  assume n: "2 \<le> n"
  then have "(n - 1) div 2 = (n + 1) div 2 - 1" by (cases n) simp_all
  moreover have "bit_len (n - 1) = Suc (bit_len ((n - 1) div 2))"
    using n by (subst bit_len.simps) simp
  ultimately show ?thesis by (simp add: height_def)
qed

lemma merkle_root_up: "2 \<le> length xs \<Longrightarrow> merkle_root K xs = merkle_root K (up K xs)"
proof -
  assume n: "2 \<le> length xs"
  then have "height (length xs) = Suc (height (length (up K xs)))"
    unfolding length_up by (rule height_up)
  moreover have "xs \<noteq> []" using n by auto
  ultimately show ?thesis by (simp add: merkle_root_def tree_root_up)
qed

lemma merkle_root_single [simp]: "merkle_root K [x] = x"
  by (simp add: merkle_root_def height_def bit_len.simps)

lemma length_partials_of: "length (partials_of K xs) = bit_len (length xs)"
proof (induction K xs rule: partials_of.induct)
  case (1 K xs)
  show ?case
  proof (cases "xs = []")
    case False
    with 1 show ?thesis by (subst partials_of.simps) (simp add: bit_len.simps [of "length xs"])
  qed (simp add: partials_of.simps bit_len.simps)
qed

lemma partials_of_snoc:
  "keccak_ok K \<Longrightarrow> 0 \<notin> set xs \<Longrightarrow> partials_of K (xs @ [x]) = carry K (partials_of K xs) x"
proof (induction K xs arbitrary: x rule: partials_of.induct)
  case (1 K xs)
  show ?case
  proof (cases "xs = []")
    case True
    then show ?thesis by (simp add: partials_of.simps)
  next
    case False
    then have "last xs \<noteq> 0" using 1(3) by (metis last_in_set)
    with False 1 pairs_nonzero [of K xs] show ?thesis
      by (subst (1 2) partials_of.simps) (simp add: pairs_snoc)
  qed
qed

lemma pad_Suc: "pad K (Suc n) h = node K (pad K n h) 0"
  by (induction n arbitrary: h) simp_all

lemma root_fold_correct:
  assumes "keccak_ok K"
  shows "0 \<notin> set xs \<Longrightarrow> xs \<noteq> [] \<Longrightarrow> (\<And>h c. hs = Some (h, c) \<Longrightarrow> c \<le> k) \<Longrightarrow>
    \<exists>c'. root_fold K (partials_of K xs) hs k =
      Some (merkle_root K (xs @ (case hs of None \<Rightarrow> [] | Some (h, c) \<Rightarrow> [pad K (k - c) h])), c')"
proof (induction "length xs" arbitrary: xs hs k rule: less_induct)
  case less
  let ?t = "case hs of None \<Rightarrow> [] | Some (h, c) \<Rightarrow> [pad K (k - c) h]"
  let ?hs = "if odd (length xs)
    then Some (case hs of None \<Rightarrow> (last xs, k) | Some (h, c) \<Rightarrow> (node K (last xs) (pad K (k - c) h), Suc k))
    else hs"
  let ?t' = "case ?hs of None \<Rightarrow> [] | Some (h, c) \<Rightarrow> [pad K (Suc k - c) h]"
  have last: "last xs \<noteq> 0" using less.prems by (metis last_in_set)
  have step: "root_fold K (partials_of K xs) hs k = root_fold K (partials_of K (pairs K xs)) ?hs (Suc k)"
    using less.prems(2) last by (subst partials_of.simps) (auto split: option.split)
  have le: "c \<le> Suc k" if "?hs = Some (h, c)" for h c
    using that less.prems(3) by (fastforce split: if_splits option.splits)
  have up: "pairs K xs @ ?t' = up K (xs @ ?t)"
  proof (cases hs)
    case None
    then show ?thesis by (simp add: up_odd up_even)
  next
    case (Some hc)
    obtain h c where hc: "hc = (h, c)" by fastforce
    then have "Suc k - c = Suc (k - c)" using less.prems(3) Some by (simp add: Suc_diff_le)
    then show ?thesis using Some hc by (simp add: up_snoc pad_Suc del: pad.simps(2))
  qed
  show ?case
  proof (cases "pairs K xs = []")
    case True
    with less.prems(2) obtain x where xs: "xs = [x]" by (cases "(K, xs)" rule: pairs.cases) auto
    have "partials_of K (pairs K xs) = []" using True by (simp add: partials_of.simps)
    moreover have "merkle_root K [x, y] = node K x y" for y
      by (simp add: merkle_root_up [of "[x, y]" K])
    ultimately show ?thesis using xs step by (auto split: option.splits)
  next
    case False
    then have len: "2 \<le> length xs" by (cases "(K, xs)" rule: pairs.cases) auto
    have "length (pairs K xs) < length xs" using less.prems(2) by (simp add: div_less_dividend)
    then have "\<exists>c'. root_fold K (partials_of K (pairs K xs)) ?hs (Suc k) = Some (merkle_root K (pairs K xs @ ?t'), c')"
      using pairs_nonzero [OF assms] False by (rule less.hyps) (rule le)
    then obtain c' where
      "root_fold K (partials_of K (pairs K xs)) ?hs (Suc k) = Some (merkle_root K (pairs K xs @ ?t'), c')" ..
    moreover have "merkle_root K (xs @ ?t) = merkle_root K (pairs K xs @ ?t')"
      unfolding up using len by (intro merkle_root_up) simp
    ultimately show ?thesis unfolding step by simp
  qed
qed

section \<open>What the algorithm needs from a backend\<close>

primrec Append_all :: "(bytes \<Rightarrow> bytes) \<Rightarrow> 's backend \<Rightarrow> hash list \<Rightarrow> ('s, unit) call" where
  "Append_all K acc [] = returnM ()"
| "Append_all K acc (i # items) = bindM (Accumulator_Append K acc i) (\<lambda>_. Append_all K acc items)"

lemma unat_CalcNumPartials: "n < 2 ^ 64 \<Longrightarrow> unat (CalcNumPartials (of_nat n)) = bit_len n"
  by (simp add: CalcNumPartials_def unat_Log2ceil unat_of_nat_u64)

lemma bit_len_64: "n < 2 ^ 64 \<Longrightarrow> bit_len n \<le> 64"
  by (simp add: bit_len_le_iff)

lemma unat_two_power: "k \<le> 63 \<Longrightarrow> unat ((2 :: u64) ^ k) = 2 ^ k"
proof -
  assume "k \<le> 63"
  then have "(2 :: nat) ^ k < 2 ^ 64" by (intro power_strict_increasing) simp_all
  then have "unat (of_nat (2 ^ k) :: u64) = 2 ^ k" by (rule unat_of_nat_u64)
  then show ?thesis by (simp only: of_nat_power of_nat_numeral)
qed

lemma two_power_less: "c \<le> k \<Longrightarrow> k \<le> 63 \<Longrightarrow> (2 :: u64) ^ c < 2 ^ k \<longleftrightarrow> c < k"
  by (simp add: word_less_nat_alt unat_two_power)

text \<open>\<open>rel s n ps\<close>: in state \<open>s\<close> the accumulator has size \<open>n\<close> and the partials \<open>ps\<close>.\<close>

locale accumulator_store =
  fixes acc :: "'s backend" and K :: "bytes \<Rightarrow> bytes" and rel :: "'s \<Rightarrow> nat \<Rightarrow> hash list \<Rightarrow> bool"
  assumes size_law: "rel s n ps \<Longrightarrow> \<exists>s'. sizeGet acc s = (Ok (of_nat n), s') \<and> rel s' n ps"
    and increment_law: "rel s n ps \<Longrightarrow> Suc n < 2 ^ 64 \<Longrightarrow>
      \<exists>s'. sizeIncrement acc s = (Ok (of_nat (Suc n)), s') \<and> rel s' (Suc n) ps"
    and get_law: "rel s n ps \<Longrightarrow> i < length ps \<Longrightarrow>
      \<exists>s'. getPartial acc (of_nat i) s = (Ok (ps ! i), s') \<and> rel s' n ps"
    and set_law: "rel s n ps \<Longrightarrow> i < length ps \<Longrightarrow>
      \<exists>s'. setPartial acc (of_nat i) v s = (Ok (), s') \<and> rel s' n (ps[i := v])"
    and extend_law: "rel s n ps \<Longrightarrow> length ps \<le> 64 \<Longrightarrow>
      \<exists>s'. setPartial acc (of_nat (length ps)) v s = (Ok (), s') \<and> rel s' n (ps @ [v])"
    and keccak_law: "rel s n ps \<Longrightarrow> \<exists>s'. acc_Keccak acc d s = (Ok (K (concat d)), s') \<and> rel s' n ps"
    and keccakHash_law: "rel s n ps \<Longrightarrow>
      \<exists>s'. acc_KeccakHash acc d s = (Ok (bytes_hash (K (concat d))), s') \<and> rel s' n ps"
begin

lemma append_loop_carry:
  assumes ok: "keccak_ok K" and n: "Suc n < 2 ^ 64"
  shows "rel s m (front @ rest) \<Longrightarrow> length front + length rest = bit_len n \<Longrightarrow> length soFar = 32 \<Longrightarrow>
    \<exists>s' evs'. Append_loop acc (of_nat (Suc n)) (of_nat (length front)) soFar evs s = (Ok evs', s') \<and>
      rel s' m (front @ carry K rest (bytes_hash soFar))"
proof (induction rest arbitrary: front soFar evs s)
  case Nil
  have e: "(of_nat (length front) :: u64) = CalcNumPartials (of_nat (Suc n) - 1)"
    using Nil.prems(2) unat_CalcNumPartials [of n] n bit_len_64 [of n]
    by (simp add: word_eq_unat unat_of_nat_u64)
  have "length front \<le> 64" using Nil.prems(2) n bit_len_64 [of n] by simp
  with extend_law [of s m front "bytes_hash soFar"] Nil.prems(1) obtain s' where
    "setPartial acc (of_nat (length front)) (bytes_hash soFar) s = (Ok (), s')" "rel s' m (front @ [bytes_hash soFar])"
    by auto
  with e show ?case by (subst Append_loop.simps) (auto simp: bindM_Ok)
next
  case (Cons p rest)
  have len: "length front < bit_len n" using Cons.prems(2) by simp
  then have ne: "(of_nat (length front) :: u64) \<noteq> CalcNumPartials (of_nat (Suc n) - 1)"
    using unat_CalcNumPartials [of n] n bit_len_64 [of n] by (auto simp: word_eq_unat unat_of_nat_u64)
  from get_law [OF Cons.prems(1), of "length front"] obtain s1 where
    s1: "getPartial acc (of_nat (length front)) s = (Ok p, s1)" "rel s1 m (front @ p # rest)"
    by auto
  show ?case
  proof (cases "p = 0")
    case True
    from set_law [OF s1(2), of "length front" "bytes_hash soFar"] obtain s2 where
      "setPartial acc (of_nat (length front)) (bytes_hash soFar) s1 = (Ok (), s2)"
      "rel s2 m (front @ bytes_hash soFar # rest)"
      by auto
    with True ne s1(1) show ?thesis by (subst Append_loop.simps) (auto simp: bindM_Ok)
  next
    case False
    let ?h = "K (hash_bytes p @ soFar)"
    from keccak_law [OF s1(2), of "[hash_bytes p, soFar]"] obtain s2 where
      s2: "acc_Keccak acc [hash_bytes p, soFar] s1 = (Ok ?h, s2)" "rel s2 m (front @ p # rest)"
      by auto
    from set_law [OF s2(2), of "length front" 0] obtain s3 where
      s3: "setPartial acc (of_nat (length front)) 0 s2 = (Ok (), s3)" "rel s3 m ((front @ [0]) @ rest)"
      by auto
    have h: "bytes_hash ?h = node K p (bytes_hash soFar)" "length ?h = 32"
      using ok Cons.prems(3) by (simp_all add: node_def hash_bytes_inverse keccak_ok_def)
    have "length (front @ [0]) + length rest = bit_len n" using Cons.prems(2) by simp
    from Cons.IH [OF s3(2) this h(2)] False ne s1(1) s2(1) s3(1) h(1) show ?thesis
      by (subst Append_loop.simps) (simp add: bindM_Ok add.commute)
  qed
qed

lemma append_correct:
  assumes ok: "keccak_ok K" and r: "rel s (length xs) (partials_of K xs)" and nz: "0 \<notin> set xs"
    and n: "Suc (length xs) < 2 ^ 64"
  shows "\<exists>s' evs. Accumulator_Append K acc item s = (Ok evs, s') \<and>
    rel s' (length (xs @ [leaf K item])) (partials_of K (xs @ [leaf K item]))"
proof -
  from increment_law [OF r n] obtain s1 where
    s1: "sizeIncrement acc s = (Ok (of_nat (Suc (length xs))), s1)" "rel s1 (Suc (length xs)) ([] @ partials_of K xs)"
    by auto
  have "length ([] :: hash list) + length (partials_of K xs) = bit_len (length xs)" by (simp add: length_partials_of)
  from append_loop_carry [OF ok n s1(2) this, of "K (hash_bytes item)" "[]"] ok obtain s' evs where
    "Append_loop acc (of_nat (Suc (length xs))) 0 (K (hash_bytes item)) [] s1 = (Ok evs, s')"
    "rel s' (Suc (length xs)) (carry K (partials_of K xs) (leaf K item))"
    by (auto simp: keccak_ok_def leaf_def)
  with s1(1) show ?thesis
    by (auto simp: Accumulator_Append_def bindM_Ok partials_of_snoc [OF ok nz])
qed

lemma get_partials_loop:
  "rel s n (front @ ps) \<Longrightarrow>
     \<exists>s'. GetPartials_loop acc (length ps) (of_nat (length front)) s = (Ok ps, s') \<and> rel s' n (front @ ps)"
proof (induction ps arbitrary: front s)
  case Nil
  then show ?case by simp
next
  case (Cons p ps)
  from get_law [OF Cons.prems, of "length front"] obtain s1 where
    s1: "getPartial acc (of_nat (length front)) s = (Ok p, s1)" "rel s1 n ((front @ [p]) @ ps)"
    by auto
  from Cons.IH [OF s1(2)] s1(1) show ?case by (auto simp: bindM_Ok add.commute)
qed

lemma pad_correct:
  "rel s n ps \<Longrightarrow> c \<le> k \<Longrightarrow> k \<le> 63 \<Longrightarrow> k - c < fuel \<Longrightarrow>
     \<exists>s'. Root_pad acc fuel h (2 ^ c) (2 ^ k) s = (Ok (pad K (k - c) h), s') \<and> rel s' n ps"
proof (induction fuel arbitrary: c h s)
  case 0
  then show ?case by simp
next
  case (Suc fuel)
  show ?case
  proof (cases "c < k")
    case False
    with Suc.prems show ?thesis by (simp add: two_power_less)
  next
    case True
    have z: "hash_bytes 0 = replicate 32 0" by (simp add: hash_bytes_def be_bytes_zero)
    from keccakHash_law [OF Suc.prems(1), of "[hash_bytes h, replicate 32 0]"] obtain s1 where
      s1: "acc_KeccakHash acc [hash_bytes h, replicate 32 0] s = (Ok (node K h 0), s1)" "rel s1 n ps"
      by (auto simp: node_def z)
    have "k - c = Suc (k - Suc c)" using True by simp
    then show ?thesis
      using Suc.IH [OF s1(2), of "Suc c" "node K h 0"] Suc.prems s1(1) True
      by (simp add: two_power_less bindM_Ok mult.commute)
  qed
qed

lemma root_loop_fold:
  "rel s n (front @ ps) \<Longrightarrow> length front + length ps \<le> 64 \<Longrightarrow> (\<And>h c. hs = Some (h, c) \<Longrightarrow> c \<le> length front) \<Longrightarrow>
     \<exists>s'. Root_loop acc (length ps) (of_nat (length front)) (map_option (\<lambda>(h, c). (h, 2 ^ c)) hs) (2 ^ length front) s =
       (Ok (map_option (\<lambda>(h, c). (h, 2 ^ c)) (root_fold K ps hs (length front))), s') \<and> rel s' n (front @ ps)"
proof (induction ps arbitrary: front hs s)
  case Nil
  then show ?case by simp
next
  case (Cons p ps)
  from get_law [OF Cons.prems(1), of "length front"] obtain s1 where
    s1: "getPartial acc (of_nat (length front)) s = (Ok p, s1)" "rel s1 n ((front @ [p]) @ ps)"
    by auto
  have len: "length (front @ [p]) + length ps \<le> 64" using Cons.prems(2) by simp
  note IH = Cons.IH [OF _ len]
  show ?case
  proof (cases "p = 0")
    case True
    with IH [OF s1(2), of hs] s1(1) Cons.prems(3) show ?thesis by (fastforce simp: bindM_Ok add.commute mult.commute)
  next
    case False
    show ?thesis
    proof (cases hs)
      case None
      with False IH [OF s1(2), of "Some (p, length front)"] s1(1) show ?thesis
        by (auto simp: bindM_Ok add.commute mult.commute)
    next
      case (Some hc)
      obtain h c where hc: "hc = (h, c)" by fastforce
      let ?h = "pad K (length front - c) h"
      have "c \<le> length front" "length front \<le> 63" "length front - c < 65"
        using Cons.prems(2,3) Some hc by auto
      from pad_correct [OF s1(2) this] obtain s2 where
        s2: "Root_pad acc 65 h (2 ^ c) (2 ^ length front) s1 = (Ok ?h, s2)" "rel s2 n ((front @ [p]) @ ps)"
        by blast
      from keccakHash_law [OF s2(2), of "[hash_bytes p, hash_bytes ?h]"] obtain s3 where
        s3: "acc_KeccakHash acc [hash_bytes p, hash_bytes ?h] s2 = (Ok (node K p ?h), s3)"
        "rel s3 n ((front @ [p]) @ ps)"
        by (auto simp: node_def)
      from IH [OF s3(2), of "Some (node K p ?h, Suc (length front))"] show ?thesis
        using False Some hc s1(1) s2(1) s3(1) by (auto simp: bindM_Ok add.commute mult.commute)
    qed
  qed
qed

lemma root_correct:
  assumes ok: "keccak_ok K" and r: "rel s (length xs) (partials_of K xs)" and nz: "0 \<notin> set xs"
    and n: "length xs < 2 ^ 64"
  shows "\<exists>s'. Accumulator_Root acc s = (Ok (merkle_root K xs), s') \<and> rel s' (length xs) (partials_of K xs)"
proof -
  from size_law [OF r] obtain s1 where
    s1: "sizeGet acc s = (Ok (of_nat (length xs)), s1)" "rel s1 (length xs) ([] @ partials_of K xs)"
    by auto
  show ?thesis
  proof (cases "xs = []")
    case True
    with s1 show ?thesis by (simp add: Accumulator_Root_def bindM_Ok merkle_root_def)
  next
    case False
    then have n0: "(of_nat (length xs) :: u64) \<noteq> 0" using n of_nat_u64_eq [of "length xs" 0] by simp
    have len: "unat (CalcNumPartials (of_nat (length xs))) = length (partials_of K xs)"
      using n by (simp add: unat_CalcNumPartials length_partials_of)
    have "length ([] :: hash list) + length (partials_of K xs) \<le> 64"
      using n by (simp add: length_partials_of bit_len_64)
    from root_loop_fold [OF s1(2) this, of None] obtain s2 where
      s2: "Root_loop acc (length (partials_of K xs)) 0 None 1 s1 =
        (Ok (map_option (\<lambda>(h, c). (h, 2 ^ c)) (root_fold K (partials_of K xs) None 0)), s2)"
        "rel s2 (length xs) (partials_of K xs)"
      by auto
    obtain c where "root_fold K (partials_of K xs) None 0 = Some (merkle_root K xs, c)"
      using root_fold_correct [OF ok nz False, of None 0] by auto
    with s1(1) s2 n0 len show ?thesis by (simp add: Accumulator_Root_def bindM_Ok)
  qed
qed

lemma append_all_correct:
  assumes ok: "keccak_ok K"
  shows "rel s (length xs) (partials_of K xs) \<Longrightarrow> 0 \<notin> set xs \<Longrightarrow> length xs + length items < 2 ^ 64 \<Longrightarrow>
    \<exists>s'. Append_all K acc items s = (Ok (), s') \<and>
      rel s' (length xs + length items) (partials_of K (xs @ map (leaf K) items))"
proof (induction items arbitrary: s xs)
  case Nil
  then show ?case by simp
next
  case (Cons i items)
  have "Suc (length xs) < 2 ^ 64" using Cons.prems(3) by simp
  from append_correct [OF ok Cons.prems(1,2) this] obtain s1 evs where
    s1: "Accumulator_Append K acc i s = (Ok evs, s1)"
      "rel s1 (length (xs @ [leaf K i])) (partials_of K (xs @ [leaf K i]))"
    by blast
  have "0 \<notin> set (xs @ [leaf K i])" using Cons.prems(2) leaf_nonzero [OF ok, of i] by auto
  from Cons.IH [OF s1(2) this] Cons.prems(3) s1(1) show ?case by (auto simp: bindM_Ok)
qed

lemma clone_correct:
  assumes r: "rel s (length xs) (partials_of K xs)" and n: "length xs < 2 ^ 64"
  shows "\<exists>s'. NonPersistentClone acc s = (Ok \<lparr>ma_size = of_nat (length xs), ma_partials = partials_of K xs\<rparr>, s') \<and>
    GetPartials acc s = (Ok (partials_of K xs), s') \<and> rel s' (length xs) (partials_of K xs)"
proof -
  from size_law [OF r] obtain s1 where
    s1: "sizeGet acc s = (Ok (of_nat (length xs)), s1)" "rel s1 (length xs) ([] @ partials_of K xs)"
    by auto
  from get_partials_loop [OF s1(2)] obtain s2 where
    "GetPartials_loop acc (length (partials_of K xs)) 0 s1 = (Ok (partials_of K xs), s2)"
    "rel s2 (length xs) (partials_of K xs)"
    by auto
  moreover have "unat (CalcNumPartials (of_nat (length xs))) = length (partials_of K xs)"
    using n by (simp add: unat_CalcNumPartials length_partials_of)
  ultimately show ?thesis using s1(1) by (simp add: NonPersistentClone_def GetPartials_def bindM_Ok)
qed

lemma export_correct:
  assumes ok: "keccak_ok K" and r: "rel s (length xs) (partials_of K xs)" and nz: "0 \<notin> set xs"
    and n: "length xs < 2 ^ 64"
  shows "\<exists>s'. StateForExport acc s = (Ok (of_nat (length xs), merkle_root K xs, partials_of K xs), s') \<and>
    rel s' (length xs) (partials_of K xs)"
proof -
  from root_correct [OF ok r nz n] obtain s1 where
    s1: "Accumulator_Root acc s = (Ok (merkle_root K xs), s1)" "rel s1 (length xs) (partials_of K xs)" by blast
  from clone_correct [OF s1(2) n] s1(1) show ?thesis
    by (fastforce simp: StateForExport_def NonPersistentClone_def bindM_def returnM_def split: prod.splits res.splits)
qed

lemma accumulate:
  assumes ok: "keccak_ok K" and r: "rel s 0 []" and n: "length items < 2 ^ 64"
  shows "\<exists>s1 s2. Append_all K acc items s = (Ok (), s1) \<and>
    rel s1 (length (map (leaf K) items)) (partials_of K (map (leaf K) items)) \<and>
    StateForExport acc s1 =
      (Ok (of_nat (length items), merkle_root K (map (leaf K) items), partials_of K (map (leaf K) items)), s2)"
proof -
  let ?xs = "map (leaf K) items"
  have "rel s (length []) (partials_of K [])" using r by (simp add: partials_of.simps)
  from append_all_correct [OF ok this, of items] n obtain s1 where
    s1: "Append_all K acc items s = (Ok (), s1)" "rel s1 (length ?xs) (partials_of K ?xs)"
    by auto
  have "0 \<notin> set ?xs" using leaf_nonzero [OF ok] by auto
  from export_correct [OF ok s1(2) this] n s1 show ?thesis by auto
qed

end

section \<open>The two backends\<close>

definition memory_rel :: "memAcc \<Rightarrow> nat \<Rightarrow> hash list \<Rightarrow> bool" where
  "memory_rel m n ps \<longleftrightarrow> ma_size m = of_nat n \<and> n < 2 ^ 64 \<and> ma_partials m = ps \<and> length ps \<le> 65"

definition stored_rel :: "(bytes \<Rightarrow> bytes) \<Rightarrow> Storage \<Rightarrow> world \<Rightarrow> nat \<Rightarrow> hash list \<Rightarrow> bool" where
  "stored_rel K sto w n ps \<longleftrightarrow>
     collision_free K (uint_keys sto) \<and> sys w \<and> n < 2 ^ 64 \<and> length ps \<le> 65 \<and>
     u64_slot w (NewSlot K sto 0) \<and> u64_at w (NewSlot K sto 0) = of_nat n \<and>
     (\<forall>i < length ps. sdb w (NewSlot K sto (2 + of_nat i)) = ps ! i)"

lemma of_nat_neq_minus_1: "Suc n < 2 ^ 64 \<Longrightarrow> (of_nat n :: u64) \<noteq> - 1"
  using of_nat_Suc_neq_0 [of n] by (metis add.left_inverse add.commute of_nat_Suc)

lemma of_nat_Suc_u64: "(of_nat (Suc n) :: u64) = of_nat n + 1"
  by simp

interpretation memacc: accumulator_store "memory_acc K" K memory_rel
proof
  fix s n ps i v d
  assume r: "memory_rel s n ps"
  show "\<exists>s'. sizeGet (memory_acc K) s = (Ok (of_nat n), s') \<and> memory_rel s' n ps"
    using r by (auto simp: memory_acc_def on_size_def memory_rel_def MemoryBackedUint64_Get_def returnM_def)
  show "\<exists>s'. acc_Keccak (memory_acc K) d s = (Ok (K (concat d)), s') \<and> memory_rel s' n ps"
    and "\<exists>s'. acc_KeccakHash (memory_acc K) d s = (Ok (bytes_hash (K (concat d))), s') \<and> memory_rel s' n ps"
    using r by (simp_all add: memory_acc_def)
  show "\<exists>s'. sizeIncrement (memory_acc K) s = (Ok (of_nat (Suc n)), s') \<and> memory_rel s' (Suc n) ps"
    if "Suc n < 2 ^ 64"
    using r that of_nat_neq_minus_1 [OF that]
    by (simp add: of_nat_Suc_u64 memory_acc_def on_size_def memory_rel_def MemoryBackedUint64_Increment_def
        MemoryBackedUint64_Set_def returnM_def bindM_def word_plus_1_less del: of_nat_Suc)
  show "\<exists>s'. getPartial (memory_acc K) (of_nat i) s = (Ok (ps ! i), s') \<and> memory_rel s' n ps"
    and "\<exists>s'. setPartial (memory_acc K) (of_nat i) v s = (Ok (), s') \<and> memory_rel s' n (ps[i := v])"
    if "i < length ps"
    using r that by (auto simp: memory_acc_def memory_getPartial_def memory_setPartial_def memory_rel_def unat_of_nat_u64)
  show "\<exists>s'. setPartial (memory_acc K) (of_nat (length ps)) v s = (Ok (), s') \<and> memory_rel s' n (ps @ [v])"
    if "length ps \<le> 64"
    using r that by (auto simp: memory_acc_def memory_setPartial_def memory_rel_def unat_of_nat_u64)
qed

lemma partial_slot_eq:
  assumes "collision_free K (uint_keys sto)" "i < 66"
  shows "NewSlot K sto (2 + of_nat i) \<noteq> NewSlot K sto 0"
    and "j < 66 \<Longrightarrow> NewSlot K sto (2 + of_nat i) = NewSlot K sto (2 + of_nat j) \<longleftrightarrow> i = j"
proof -
  show "NewSlot K sto (2 + of_nat i) = NewSlot K sto (2 + of_nat j) \<longleftrightarrow> i = j" if "j < 66"
    using assms(2) that of_nat_u64_eq [of i j] by (simp add: queue_slot_eq [OF assms(1)])
  show "NewSlot K sto (2 + of_nat i) \<noteq> NewSlot K sto 0"
    using assms(2) of_nat_u64_eq [of "2 + i" 0] by (simp add: queue_slot_eq [OF assms(1)])
qed

interpretation stacc: accumulator_store "stored_acc K sto" K "stored_rel K sto"
proof
  fix s n ps i v d
  assume r: "stored_rel K sto s n ps"
  then have cf: "collision_free K (uint_keys sto)" and s: "sys s" "u64_slot s (NewSlot K sto 0)"
    "u64_at s (NewSlot K sto 0) = of_nat n" "length ps \<le> 65"
    by (simp_all add: stored_rel_def)
  note eq = partial_slot_eq [OF cf]
  show "\<exists>s'. sizeGet (stored_acc K sto) s = (Ok (of_nat n), s') \<and> stored_rel K sto s' n ps"
    using r s by (simp add: stored_acc_def stored_rel_def run_simps)
  show "\<exists>s'. acc_Keccak (stored_acc K sto) d s = (Ok (K (concat d)), s') \<and> stored_rel K sto s' n ps"
    and "\<exists>s'. acc_KeccakHash (stored_acc K sto) d s = (Ok (bytes_hash (K (concat d))), s') \<and> stored_rel K sto s' n ps"
    using r s by (simp_all add: stored_acc_def stored_rel_def run_simps Keccak_def)
  show "\<exists>s'. sizeIncrement (stored_acc K sto) s = (Ok (of_nat (Suc n)), s') \<and> stored_rel K sto s' (Suc n) ps"
    if "Suc n < 2 ^ 64"
    using r s that of_nat_neq_minus_1 [OF that] partial_slot_eq(1) [OF cf]
    by (auto simp: of_nat_Suc_u64 stored_acc_def stored_rel_def run_simps simp del: of_nat_Suc)
  show "\<exists>s'. getPartial (stored_acc K sto) (of_nat i) s = (Ok (ps ! i), s') \<and> stored_rel K sto s' n ps"
    and "\<exists>s'. setPartial (stored_acc K sto) (of_nat i) v s = (Ok (), s') \<and> stored_rel K sto s' n (ps[i := v])"
    if "i < length ps"
    using r s that eq(2) eq(1) [of i] eq(1) [of i, THEN not_sym]
    by (auto simp: stored_acc_def stored_getPartial_def stored_setPartial_def stored_rel_def run_simps nth_list_update)
  show "\<exists>s'. setPartial (stored_acc K sto) (of_nat (length ps)) v s = (Ok (), s') \<and> stored_rel K sto s' n (ps @ [v])"
    if "length ps \<le> 64"
    using r s that eq(2) eq(1) [of "length ps"] eq(1) [of "length ps", THEN not_sym]
    by (auto simp: stored_acc_def stored_setPartial_def stored_rel_def run_simps nth_append less_Suc_eq)
qed

lemma FromPartials_loop_partials:
  "keccak_ok K \<Longrightarrow> 0 \<notin> set xs \<Longrightarrow> FromPartials_loop (partials_of K xs) n l = n + l * of_nat (length xs)"
proof (induction K xs arbitrary: n l rule: partials_of.induct)
  case (1 K xs)
  show ?case
  proof (cases "xs = []")
    case True
    then show ?thesis by (simp add: partials_of.simps)
  next
    case False
    then have "last xs \<noteq> 0" using 1(3) by (metis last_in_set)
    have "(of_nat (length xs) :: u64) = of_nat (2 * (length xs div 2) + length xs mod 2)" by simp
    also have "\<dots> = 2 * of_nat (length xs div 2) + (if odd (length xs) then 1 else 0)"
      by (simp only: of_nat_add of_nat_mult) (simp add: odd_iff_mod_2_eq_one)
    finally show ?thesis
      using 1(1) [OF False 1(2) pairs_nonzero [OF 1(2)]] False \<open>last xs \<noteq> 0\<close>
      by (subst partials_of.simps) (simp add: algebra_simps)
  qed
qed

text \<open>
  C16: after any sequence of appends, to an empty accumulator in storage or in memory, the size is
  the number of items, the root is the root of the padded binary tree over the hashed items, and the
  partials are its complete subtrees: both kinds of accumulator agree on all they export.
\<close>

theorem accumulator_root:
  assumes "keccak_ok K" "collision_free K (uint_keys sto)" "sys w" "sdb w (NewSlot K sto 0) = 0"
    and "length items < 2 ^ 64"
  shows "\<exists>w1 w2 m1 m2 export. Append_all K (stored_acc K sto) items w = (Ok (), w1) \<and>
    StateForExport (stored_acc K sto) w1 = (Ok export, w2) \<and>
    Append_all K (memory_acc K) items NewNonpersistentMerkleAccumulator = (Ok (), m1) \<and>
    StateForExport (memory_acc K) m1 = (Ok export, m2) \<and>
    export = (of_nat (length items), merkle_root K (map (leaf K) items), partials_of K (map (leaf K) items))"
proof -
  have "stored_rel K sto w 0 []" using assms by (simp add: stored_rel_def u64_slot_def u64_at_def)
  moreover have "memory_rel NewNonpersistentMerkleAccumulator 0 []"
    by (simp add: memory_rel_def NewNonpersistentMerkleAccumulator_def)
  ultimately show ?thesis
    using stacc.accumulate [OF assms(1) _ assms(5)] memacc.accumulate [OF assms(1) _ assms(5)] by blast
qed

lemma toyK_keccak_ok: "keccak_ok toyK"
proof -
  have "length (toyK b) = 32" "last (toyK b) = 1" for b by (auto simp: toyK_def min_def)
  moreover have "last (hash_bytes 0) = 0" by (simp add: hash_bytes_def be_bytes_zero)
  ultimately have "bytes_hash (toyK b) \<noteq> 0" for b
    using hash_bytes_inverse [of "toyK b"] by (metis zero_neq_one)
  with \<open>\<And>b. length (toyK b) = 32\<close> show ?thesis by (simp add: keccak_ok_def)
qed

theorem accumulator_root_witness:
  "\<exists>w1 w2 m1 m2 export. Append_all toyK (stored_acc toyK toyStorage) [7, 8, 9] blank = (Ok (), w1) \<and>
    StateForExport (stored_acc toyK toyStorage) w1 = (Ok export, w2) \<and>
    Append_all toyK (memory_acc toyK) [7, 8, 9] NewNonpersistentMerkleAccumulator = (Ok (), m1) \<and>
    StateForExport (memory_acc toyK) m1 = (Ok export, m2) \<and>
    fst export = 3 \<and>
    fst (snd export) = node toyK (node toyK (leaf toyK 7) (leaf toyK 8)) (node toyK (leaf toyK 9) 0)"
proof -
  have "collision_free toyK (uint_keys toyStorage)" by (rule toyK_uint_keys) (simp add: toyStorage_def)
  moreover have "length [7, 8, 9 :: hash] < 2 ^ 64" by simp
  moreover have "merkle_root toyK [x, y, z] = node toyK (node toyK x y) (node toyK z 0)" for x y z
    by (simp add: merkle_root_def height_def bit_len.simps)
  ultimately show ?thesis
    using accumulator_root [where K = toyK and sto = toyStorage and w = blank and items = "[7, 8, 9]"] toyK_keccak_ok by fastforce
qed

text \<open>
  C34: the exported partials carry the whole state. An accumulator rebuilt from the partials of a
  storage accumulator is its nonpersistent clone, and appending to that clone gives the root that
  appending to the original would give.
\<close>

theorem partials_restore_accumulator:
  assumes "keccak_ok K" "collision_free K (uint_keys sto)" "sys w" "sdb w (NewSlot K sto 0) = 0"
    and "length items + length extra < 2 ^ 64"
  shows "\<exists>w1 w2 ps m m1 m2. Append_all K (stored_acc K sto) items w = (Ok (), w1) \<and>
    GetPartials (stored_acc K sto) w1 = (Ok ps, w2) \<and> NonPersistentClone (stored_acc K sto) w1 = (Ok m, w2) \<and>
    NewNonpersistentMerkleAccumulatorFromPartials ps = m \<and>
    Append_all K (memory_acc K) extra m = (Ok (), m1) \<and>
    Accumulator_Root (memory_acc K) m1 = (Ok (merkle_root K (map (leaf K) (items @ extra))), m2)"
proof -
  let ?xs = "map (leaf K) items"
  have nz: "0 \<notin> set (map (leaf K) l)" for l using leaf_nonzero [OF assms(1)] by auto
  have "stored_rel K sto w 0 []" using assms by (simp add: stored_rel_def u64_slot_def u64_at_def)
  from stacc.accumulate [OF assms(1) this, of items] assms(5) obtain w1 where
    w1: "Append_all K (stored_acc K sto) items w = (Ok (), w1)" "stored_rel K sto w1 (length ?xs) (partials_of K ?xs)"
    by auto
  let ?m = "\<lparr>ma_size = of_nat (length ?xs), ma_partials = partials_of K ?xs\<rparr>"
  from stacc.clone_correct [OF w1(2)] assms(5) obtain w2 where
    w2: "GetPartials (stored_acc K sto) w1 = (Ok (partials_of K ?xs), w2)"
      "NonPersistentClone (stored_acc K sto) w1 = (Ok ?m, w2)"
    by auto
  have m: "NewNonpersistentMerkleAccumulatorFromPartials (partials_of K ?xs) = ?m"
    using FromPartials_loop_partials [OF assms(1) nz, of items 0 1]
    by (simp add: NewNonpersistentMerkleAccumulatorFromPartials_def)
  have "memory_rel ?m (length ?xs) (partials_of K ?xs)"
    using assms(5) bit_len_64 [of "length items"] by (simp add: memory_rel_def length_partials_of)
  from memacc.append_all_correct [OF assms(1) this nz, of extra] assms(5) obtain m1 where
    m1: "Append_all K (memory_acc K) extra ?m = (Ok (), m1)"
      "memory_rel m1 (length (map (leaf K) (items @ extra))) (partials_of K (map (leaf K) (items @ extra)))"
    by auto
  from memacc.root_correct [OF assms(1) m1(2) nz] assms(5) obtain m2 where
    "Accumulator_Root (memory_acc K) m1 = (Ok (merkle_root K (map (leaf K) (items @ extra))), m2)"
    by auto
  with w1(1) w2 m m1(1) show ?thesis by blast
qed

theorem partials_restore_accumulator_witness:
  "\<exists>w1 w2 ps m m1 m2. Append_all toyK (stored_acc toyK toyStorage) [7, 8, 9] blank = (Ok (), w1) \<and>
    GetPartials (stored_acc toyK toyStorage) w1 = (Ok ps, w2) \<and>
    NewNonpersistentMerkleAccumulatorFromPartials ps = m \<and>
    Append_all toyK (memory_acc toyK) [1] m = (Ok (), m1) \<and>
    Accumulator_Root (memory_acc toyK) m1 = (Ok (merkle_root toyK (map (leaf toyK) [7, 8, 9, 1])), m2)"
proof -
  have "collision_free toyK (uint_keys toyStorage)" by (rule toyK_uint_keys) (simp add: toyStorage_def)
  moreover have "length [7, 8, 9 :: hash] + length [1 :: hash] < 2 ^ 64" by simp
  ultimately show ?thesis
    using partials_restore_accumulator [where K = toyK and sto = toyStorage and w = blank and items = "[7, 8, 9]" and extra = "[1]"]
      toyK_keccak_ok by fastforce
qed

end
