(* ===== verification/MerkleTree.thy ===== *)
theory MerkleTree
  imports MerkleAccumulator
begin

text \<open>
  \<^verbatim>\<open>util/merkletree\<close>: Merkle trees as values (\<^verbatim>\<open>merkleTree.go\<close>), their serialization, inclusion proofs,
  and trees rebuilt from accumulators and events (\<^verbatim>\<open>merkleEventProof.go\<close>). The four node types of the
  interface are the constructors of one datatype; an internal node carries its cached hash, size and
  capacity as in the source. The lemmas relate a tree to the list of leaf hashes below it
  (\<open>tree_of\<close>), over the reference roots of \<open>MerkleAccumulator\<close>.
\<close>

section \<open>Definitions\<close>

datatype MerkleTree =
    merkleTreeLeaf hash
  | merkleEmpty u64
  | merkleInternal hash u64 u64 MerkleTree MerkleTree
  | merkleCompleteSubtreeSummary hash u64

record LevelAndLeaf =
  Level :: u64
  Leaf :: u64

definition LevelAndLeaf_ToBigInt :: "LevelAndLeaf \<Rightarrow> int" where
  "LevelAndLeaf_ToBigInt place = push_bit 192 (sint (Level place)) + sint (Leaf place)"

primrec Tree_Hash :: "(bytes \<Rightarrow> bytes) \<Rightarrow> MerkleTree \<Rightarrow> hash" where
  "Tree_Hash K (merkleTreeLeaf h) = bytes_hash (K (hash_bytes h))"
| "Tree_Hash K (merkleEmpty c) = 0"
| "Tree_Hash K (merkleInternal h s c l r) = h"
| "Tree_Hash K (merkleCompleteSubtreeSummary h c) = h"

primrec Tree_Size :: "MerkleTree \<Rightarrow> u64" where
  "Tree_Size (merkleTreeLeaf h) = 1"
| "Tree_Size (merkleEmpty c) = 0"
| "Tree_Size (merkleInternal h s c l r) = s"
| "Tree_Size (merkleCompleteSubtreeSummary h c) = c"

primrec Tree_Capacity :: "MerkleTree \<Rightarrow> u64" where
  "Tree_Capacity (merkleTreeLeaf h) = 1"
| "Tree_Capacity (merkleEmpty c) = c"
| "Tree_Capacity (merkleInternal h s c l r) = c"
| "Tree_Capacity (merkleCompleteSubtreeSummary h c) = c"

definition NewEmptyMerkleTree :: MerkleTree where
  "NewEmptyMerkleTree = merkleEmpty 0"

definition NewMerkleInternal :: "(bytes \<Rightarrow> bytes) \<Rightarrow> MerkleTree \<Rightarrow> MerkleTree \<Rightarrow> MerkleTree" where
  "NewMerkleInternal K left right =
     merkleInternal (bytes_hash (K (hash_bytes (Tree_Hash K left) @ hash_bytes (Tree_Hash K right))))
       (Tree_Size left + Tree_Size right) (Tree_Capacity left + Tree_Capacity right) left right"

function Empty_Append :: "(bytes \<Rightarrow> bytes) \<Rightarrow> u64 \<Rightarrow> hash \<Rightarrow> MerkleTree" where
  "Empty_Append K capacity newHash =
     (if capacity \<le> 1 then merkleTreeLeaf newHash
      else NewMerkleInternal K (Empty_Append K (capacity div 2) newHash) (merkleEmpty (capacity div 2)))"
  by pat_completeness auto
termination
  by (relation "measure (\<lambda>(K, c, h). unat c)") (auto simp: unat_div word_le_nat_alt)

declare Empty_Append.simps [simp del]

primrec Tree_Append :: "(bytes \<Rightarrow> bytes) \<Rightarrow> MerkleTree \<Rightarrow> hash \<Rightarrow> MerkleTree" where
  "Tree_Append K (merkleTreeLeaf h) newHash =
     NewMerkleInternal K (merkleTreeLeaf h) (merkleTreeLeaf newHash)"
| "Tree_Append K (merkleEmpty c) newHash = Empty_Append K c newHash"
| "Tree_Append K (merkleInternal h s c l r) newHash =
     (if s = c then NewMerkleInternal K (merkleInternal h s c l r) (Empty_Append K c newHash)
      else if 2 * s < c then NewMerkleInternal K (Tree_Append K l newHash) r
      else NewMerkleInternal K l (Tree_Append K r newHash))"
| "Tree_Append K (merkleCompleteSubtreeSummary h c) newHash =
     NewMerkleInternal K (merkleCompleteSubtreeSummary h c) (Empty_Append K c newHash)"

definition summaryFromMerkleTree :: "(bytes \<Rightarrow> bytes) \<Rightarrow> MerkleTree \<Rightarrow> MerkleTree res" where
  "summaryFromMerkleTree K subtree =
     (if Tree_Size subtree = 1 then Ok subtree
      else if Tree_Size subtree \<noteq> Tree_Capacity subtree then Panic
      else Ok (merkleCompleteSubtreeSummary (Tree_Hash K subtree) (Tree_Capacity subtree)))"

primrec SummarizeUpTo :: "(bytes \<Rightarrow> bytes) \<Rightarrow> MerkleTree \<Rightarrow> u64 \<Rightarrow> MerkleTree res" where
  "SummarizeUpTo K (merkleTreeLeaf h) num = Ok (merkleTreeLeaf h)"
| "SummarizeUpTo K (merkleEmpty c) num = Ok (merkleEmpty c)"
| "SummarizeUpTo K (merkleInternal h s c l r) num =
     (if num = c then summaryFromMerkleTree K (merkleInternal h s c l r)
      else if num \<le> Tree_Size l
      then bindR (SummarizeUpTo K l num) (\<lambda>l'. Ok (NewMerkleInternal K l' r))
      else bindR (summaryFromMerkleTree K l) (\<lambda>l'.
           bindR (SummarizeUpTo K r (num - Tree_Size l)) (\<lambda>r'. Ok (NewMerkleInternal K l' r'))))"
| "SummarizeUpTo K (merkleCompleteSubtreeSummary h c) num = Ok (merkleCompleteSubtreeSummary h c)"

definition SerializedLeaf :: u8 where "SerializedLeaf = 0"
definition SerializedEmptySubtree :: u8 where "SerializedEmptySubtree = 1"
definition SerializedInternalNode :: u8 where "SerializedInternalNode = 2"
definition SerializedSubtreeSummary :: u8 where "SerializedSubtreeSummary = 3"

primrec Tree_Serialize :: "MerkleTree \<Rightarrow> (bytes, unit) call" where
  "Tree_Serialize (merkleTreeLeaf h) =
     thenM (WriteBytes [SerializedLeaf]) (WriteBytes (hash_bytes h))"
| "Tree_Serialize (merkleEmpty c) =
     thenM (WriteBytes [SerializedEmptySubtree]) (Uint64ToWriter c)"
| "Tree_Serialize (merkleInternal h s c l r) =
     thenM (WriteBytes [SerializedInternalNode]) (thenM (Tree_Serialize l) (Tree_Serialize r))"
| "Tree_Serialize (merkleCompleteSubtreeSummary h c) =
     thenM (WriteBytes [SerializedSubtreeSummary]) (thenM (Uint64ToWriter c) (WriteBytes (hash_bytes h)))"

definition newMerkleLeafFromReader :: "(bytes, MerkleTree) call" where
  "newMerkleLeafFromReader = bindM HashFromReader (\<lambda>h. returnM (merkleTreeLeaf h))"

definition newMerkleEmptyFromReader :: "(bytes, MerkleTree) call" where
  "newMerkleEmptyFromReader = bindM Uint64FromReader (\<lambda>capacity. returnM (merkleEmpty capacity))"

definition newMerkleSummaryFromReader :: "(bytes, MerkleTree) call" where
  "newMerkleSummaryFromReader =
     bindM Uint64FromReader (\<lambda>capacity. bindM HashFromReader (\<lambda>h.
       returnM (merkleCompleteSubtreeSummary h capacity)))"

definition newMerkleInternalFromReader ::
  "(bytes \<Rightarrow> bytes) \<Rightarrow> (bytes, MerkleTree) call \<Rightarrow> (bytes, MerkleTree) call" where
  "newMerkleInternalFromReader K read_tree =
     bindM read_tree (\<lambda>left. bindM read_tree (\<lambda>right. returnM (NewMerkleInternal K left right)))"

text \<open>
  The recursive reader. Every call consumes a byte before it recurses, so one unit of fuel per byte
  of the stream and one for the call that meets its end are enough: \<open>FromReader_fuel\<close> never panics
  from \<open>NewMerkleTreeFromReader\<close>.
\<close>

primrec FromReader_fuel :: "(bytes \<Rightarrow> bytes) \<Rightarrow> nat \<Rightarrow> (bytes, MerkleTree) call" where
  "FromReader_fuel K 0 = panicM"
| "FromReader_fuel K (Suc fuel) =
     bindM (ReadFull 1) (\<lambda>typeBuf.
       if hd typeBuf = SerializedLeaf then newMerkleLeafFromReader
       else if hd typeBuf = SerializedInternalNode then newMerkleInternalFromReader K (FromReader_fuel K fuel)
       else if hd typeBuf = SerializedEmptySubtree then newMerkleEmptyFromReader
       else if hd typeBuf = SerializedSubtreeSummary then newMerkleSummaryFromReader
       else failM (ErrMsg ''invalid node type in deserializing Merkle tree''))"

definition NewMerkleTreeFromReader :: "(bytes \<Rightarrow> bytes) \<Rightarrow> (bytes, MerkleTree) call" where
  "NewMerkleTreeFromReader K rd = FromReader_fuel K (length rd + 1) rd"

record MerkleProof =
  RootHash :: hash
  LeafHash :: hash
  LeafIndex :: u64
  Proof :: "hash list"

primrec IsCorrect_loop :: "(bytes \<Rightarrow> bytes) \<Rightarrow> hash list \<Rightarrow> hash \<Rightarrow> u64 \<Rightarrow> hash \<times> u64" where
  "IsCorrect_loop K [] h index = (h, index)"
| "IsCorrect_loop K (p # ps) h index =
     IsCorrect_loop K ps
       (if index AND 1 = 0 then bytes_hash (K (hash_bytes h @ hash_bytes p))
        else bytes_hash (K (hash_bytes p @ hash_bytes h))) (index div 2)"

definition MerkleProof_IsCorrect :: "(bytes \<Rightarrow> bytes) \<Rightarrow> MerkleProof \<Rightarrow> bool" where
  "MerkleProof_IsCorrect K pf =
     (case IsCorrect_loop K (Proof pf) (LeafHash pf) (LeafIndex pf) of
        (h, index) \<Rightarrow> index = 0 \<and> h = RootHash pf)"

text \<open>
  The padding loop of \<^verbatim>\<open>NewMerkleTreeFromAccumulator\<close> doubles the capacity of the tree each round: 65
  rounds of fuel exceed any number of doublings of a nonzero 64-bit capacity.
\<close>

primrec FromAccumulator_pad :: "(bytes \<Rightarrow> bytes) \<Rightarrow> nat \<Rightarrow> MerkleTree \<Rightarrow> u64 \<Rightarrow> MerkleTree res" where
  "FromAccumulator_pad K 0 tree capacity = Panic"
| "FromAccumulator_pad K (Suc fuel) tree capacity =
     (if Tree_Capacity tree < capacity
      then FromAccumulator_pad K fuel (NewMerkleInternal K tree (merkleEmpty (Tree_Capacity tree))) capacity
      else Ok tree)"

primrec FromAccumulator_loop ::
  "(bytes \<Rightarrow> bytes) \<Rightarrow> hash list \<Rightarrow> nat \<Rightarrow> MerkleTree option \<Rightarrow> u64 \<Rightarrow> MerkleTree option res" where
  "FromAccumulator_loop K [] level tree capacity = Ok tree"
| "FromAccumulator_loop K (partial # ps) level tree capacity =
     (if partial \<noteq> 0 then
        (let thisLevel = (if level = 0 then merkleTreeLeaf partial
                          else merkleCompleteSubtreeSummary partial capacity)
         in case tree of
              None \<Rightarrow> FromAccumulator_loop K ps (Suc level) (Some thisLevel) (capacity * 2)
            | Some t \<Rightarrow> bindR (FromAccumulator_pad K 65 t capacity) (\<lambda>padded.
                FromAccumulator_loop K ps (Suc level) (Some (NewMerkleInternal K thisLevel padded)) (capacity * 2)))
      else FromAccumulator_loop K ps (Suc level) tree (capacity * 2))"

text \<open>The result is \<open>None\<close> where the source returns its nil tree.\<close>

definition NewMerkleTreeFromAccumulator ::
  "(bytes \<Rightarrow> bytes) \<Rightarrow> 's backend \<Rightarrow> ('s, MerkleTree option) call" where
  "NewMerkleTreeFromAccumulator K acc =
     bindM (GetPartials acc) (\<lambda>partials.
       if partials = [] then returnM (Some NewEmptyMerkleTree)
       else liftR (FromAccumulator_loop K partials 0 None 1))"

text \<open>The loop over the events runs from the last to the first.\<close>

primrec FromEvents_loop :: "MerkleTreeNodeEvent list \<Rightarrow> u64 \<Rightarrow> hash list \<Rightarrow> hash list" where
  "FromEvents_loop [] latestSeen partials = partials"
| "FromEvents_loop (event # earlier) latestSeen partials =
     (if ev_NumLeaves event > latestSeen
      then FromEvents_loop earlier (ev_NumLeaves event) (partials[length earlier := ev_Hash event])
      else FromEvents_loop earlier latestSeen partials)"

definition NewNonPersistentMerkleAccumulatorFromEvents :: "MerkleTreeNodeEvent list \<Rightarrow> memAcc" where
  "NewNonPersistentMerkleAccumulatorFromEvents events =
     NewNonpersistentMerkleAccumulatorFromPartials
       (FromEvents_loop (rev events) 0 (replicate (length events) 0))"

definition NewMerkleTreeFromEvents ::
  "(bytes \<Rightarrow> bytes) \<Rightarrow> MerkleTreeNodeEvent list \<Rightarrow> MerkleTree option res" where
  "NewMerkleTreeFromEvents K events =
     fst (NewMerkleTreeFromAccumulator K (memory_acc K) (NewNonPersistentMerkleAccumulatorFromEvents events))"

section \<open>The leaves below a tree\<close>

text \<open>
  \<open>tree_of K k t xs\<close>: the tree \<open>t\<close> has height \<open>k\<close> and the leaf hashes \<open>xs\<close> below it, filled from the
  left; its caches are those the constructors compute.
\<close>

fun tree_of :: "(bytes \<Rightarrow> bytes) \<Rightarrow> nat \<Rightarrow> MerkleTree \<Rightarrow> hash list \<Rightarrow> bool" where
  "tree_of K k (merkleTreeLeaf h) xs \<longleftrightarrow> k = 0 \<and> xs = [leaf K h]"
| "tree_of K k (merkleEmpty c) xs \<longleftrightarrow> c = 2 ^ k \<and> xs = []"
| "tree_of K k (merkleCompleteSubtreeSummary h c) xs \<longleftrightarrow> c = 2 ^ k \<and> length xs = 2 ^ k \<and> h = tree_root K k xs"
| "tree_of K 0 (merkleInternal h s c l r) xs \<longleftrightarrow> False"
| "tree_of K (Suc k) (merkleInternal h s c l r) xs \<longleftrightarrow>
     xs \<noteq> [] \<and> merkleInternal h s c l r = NewMerkleInternal K l r \<and>
     tree_of K k l (take (2 ^ k) xs) \<and> tree_of K k r (drop (2 ^ k) xs)"

lemma tree_of_NewMerkleInternal [simp]:
  "tree_of K (Suc k) (NewMerkleInternal K l r) xs \<longleftrightarrow>
     xs \<noteq> [] \<and> tree_of K k l (take (2 ^ k) xs) \<and> tree_of K k r (drop (2 ^ k) xs)"
  by (auto simp: NewMerkleInternal_def)

lemma tree_root_Suc:
  "xs \<noteq> [] \<Longrightarrow> tree_root K (Suc k) xs = node K (tree_root K k (take (2 ^ k) xs)) (tree_root K k (drop (2 ^ k) xs))"
  by (cases xs) simp_all

lemma tree_of_sel:
  "tree_of K k t xs \<Longrightarrow> Tree_Hash K t = tree_root K k xs \<and> Tree_Size t = of_nat (length xs) \<and>
     Tree_Capacity t = 2 ^ k \<and> length xs \<le> 2 ^ k"
proof (induction K k t xs rule: tree_of.induct)
  case (5 K k h s c l r xs)
  have xs: "xs \<noteq> []" and e: "merkleInternal h s c l r = NewMerkleInternal K l r"
    and t: "tree_of K k l (take (2 ^ k) xs)" "tree_of K k r (drop (2 ^ k) xs)"
    using "5.prems" by simp_all
  have len: "(of_nat (length (take (2 ^ k) xs)) + of_nat (length (drop (2 ^ k) xs)) :: u64) = of_nat (length xs)"
    unfolding of_nat_add [symmetric] length_append [symmetric] append_take_drop_id ..
  have "length (drop (2 ^ k) xs) \<le> 2 ^ k" using "5.IH"(2) [OF t(2)] by blast
  then have "length xs \<le> 2 ^ Suc k" unfolding length_drop power_Suc by linarith
  with "5.IH"(1) [OF t(1)] "5.IH"(2) [OF t(2)] xs len show ?case
    unfolding e by (simp add: NewMerkleInternal_def tree_root_Suc node_def del: length_take length_drop tree_root.simps)
qed (auto simp: leaf_def)

lemmas tree_of_Hash = tree_of_sel [THEN conjunct1]
lemmas tree_of_Size = tree_of_sel [THEN conjunct2, THEN conjunct1]
lemmas tree_of_Capacity = tree_of_sel [THEN conjunct2, THEN conjunct2, THEN conjunct1]
lemmas tree_of_length = tree_of_sel [THEN conjunct2, THEN conjunct2, THEN conjunct2]

lemma two_power_half:
  assumes "k \<le> 62"
  shows "(2 :: u64) ^ Suc k div 2 = 2 ^ k" and "\<not> (2 :: u64) ^ Suc k \<le> 1"
proof -
  have u: "unat ((2 :: u64) ^ Suc k) = 2 ^ Suc k" "unat ((2 :: u64) ^ k) = 2 ^ k"
    using assms unat_two_power [of "Suc k"] unat_two_power [of k] by simp_all
  then show "(2 :: u64) ^ Suc k div 2 = 2 ^ k" by (simp only: word_eq_unat unat_div) simp
  have "1 < (2 :: nat) ^ Suc k" by (rule one_less_power) simp_all
  then show "\<not> (2 :: u64) ^ Suc k \<le> 1" unfolding word_le_nat_alt u by simp
qed

lemma Empty_Append_tree: "k \<le> 63 \<Longrightarrow> tree_of K k (Empty_Append K (2 ^ k) h) [leaf K h]"
proof (induction k)
  case 0
  then show ?case by (simp add: Empty_Append.simps)
next
  case (Suc k)
  then show ?case
    using two_power_half [of k] by (subst Empty_Append.simps) (simp del: power_Suc)
qed

lemma append_full:
  assumes t: "tree_of K k t xs" and k: "k \<le> 62" and full: "length xs = 2 ^ k"
  shows "tree_of K (Suc k) (NewMerkleInternal K t (Empty_Append K (2 ^ k) h)) (xs @ [leaf K h])"
  using t full Empty_Append_tree [of k K h] k by simp

lemma Tree_Append_tree:
  "tree_of K k t xs \<Longrightarrow> k \<le> 63 \<Longrightarrow> length xs < 2 ^ k \<Longrightarrow> tree_of K k (Tree_Append K t h) (xs @ [leaf K h])"
proof (induction K k t xs rule: tree_of.induct)
  case (2 K k c xs)
  then show ?case by (simp add: Empty_Append_tree)
next
  case (5 K k h' s c l r xs)
  have xs: "xs \<noteq> []" and t: "tree_of K k l (take (2 ^ k) xs)" "tree_of K k r (drop (2 ^ k) xs)"
    and e: "merkleInternal h' s c l r = NewMerkleInternal K l r"
    using "5.prems"(1) by simp_all
  have sc: "s = of_nat (length xs)" "c = 2 ^ Suc k" using tree_of_sel [OF "5.prems"(1)] by simp_all
  have b: "unat s = length xs" "unat c = 2 ^ Suc k" "(2 :: nat) ^ Suc k \<le> 2 ^ 63"
    using "5.prems" unat_two_power [of "Suc k"] power_increasing [of "Suc k" 63 "2 :: nat"]
    by (simp_all add: sc unat_of_nat_u64 del: power_Suc)
  have "s \<noteq> c" using "5.prems"(3) b by (auto simp: word_eq_unat)
  moreover have "2 * s < c \<longleftrightarrow> length xs < 2 ^ k"
  proof -
    have "(2 :: u64) * s = of_nat (2 * length xs)" by (simp add: sc)
    then have "unat (2 * s) = 2 * length xs" using "5.prems"(3) b(3) by (simp only:) (rule unat_of_nat_u64, simp)
    then show ?thesis using b(2) by (simp add: word_less_nat_alt)
  qed
  ultimately have a: "Tree_Append K (merkleInternal h' s c l r) h =
      (if length xs < 2 ^ k then NewMerkleInternal K (Tree_Append K l h) r else NewMerkleInternal K l (Tree_Append K r h))"
    by simp
  show ?case
  proof (cases "length xs < 2 ^ k")
    case True
    with "5.IH"(1) [OF t(1)] t(2) xs "5.prems"(2) show ?thesis unfolding a by simp
  next
    case False
    moreover have "length (drop (2 ^ k) xs) < 2 ^ k" using "5.prems"(3) False by simp
    ultimately show ?thesis using "5.IH"(2) [OF t(2)] t(1) xs "5.prems"(2) unfolding a by simp
  qed
qed simp_all

lemma Tree_Append_full:
  assumes t: "tree_of K k t xs" and k: "k \<le> 62" and full: "length xs = 2 ^ k"
  shows "tree_of K (Suc k) (Tree_Append K t h) (xs @ [leaf K h])"
proof (cases t)
  case (merkleTreeLeaf h')
  then show ?thesis using t by simp
next
  case (merkleEmpty c)
  then show ?thesis using t full by simp
next
  case (merkleInternal h' s c l r)
  then have "s = of_nat (length xs)" "c = 2 ^ k" using tree_of_sel [OF t] by simp_all
  then have "s = c" using full by simp
  with merkleInternal append_full [OF assms, of h] \<open>c = 2 ^ k\<close> show ?thesis by simp
next
  case (merkleCompleteSubtreeSummary h' c)
  with append_full [OF assms, of h] t show ?thesis by simp
qed

lemma height_Suc: "height (Suc n) = bit_len n"
  by (simp add: height_def)

lemma height_step:
  assumes "0 < n"
  shows "n \<le> 2 ^ height n" and "n = 2 ^ height n \<Longrightarrow> height (Suc n) = Suc (height n)"
    and "n < 2 ^ height n \<Longrightarrow> height (Suc n) = height n"
proof -
  have iff: "height n \<le> k \<longleftrightarrow> n \<le> 2 ^ k" "height (Suc n) \<le> k \<longleftrightarrow> n < 2 ^ k" for k
    using assms bit_len_le_iff [of "n - 1" k] bit_len_le_iff [of n k] by (auto simp: height_def)
  show "n \<le> 2 ^ height n" using iff(1) by blast
  show "height (Suc n) = Suc (height n)" if n: "n = 2 ^ height n"
  proof (rule antisym)
    have "(2 :: nat) ^ height n < 2 ^ Suc (height n)" by simp
    then show "height (Suc n) \<le> Suc (height n)" unfolding iff(2) using n by simp
    show "Suc (height n) \<le> height (Suc n)" using iff(2) [of "height n"] n by simp
  qed
  show "height (Suc n) = height n" if "n < 2 ^ height n"
    using iff(1) [of "height (Suc n)"] iff(2) [of "height (Suc n)"] iff(2) [of "height n"] that by simp
qed

lemma Tree_Append_grows:
  assumes t: "tree_of K (height (length xs)) t xs" and xs: "xs \<noteq> []" and len: "length xs < 2 ^ 63"
  shows "tree_of K (height (length (xs @ [leaf K i]))) (Tree_Append K t i) (xs @ [leaf K i])"
proof -
  let ?n = "length xs"
  have "0 < ?n" using xs by simp
  note h = height_step [OF this]
  show ?thesis
  proof (cases "?n = 2 ^ height ?n")
    case True
    then have "(2 :: nat) ^ height ?n < 2 ^ 63" using len by simp
    then have "height ?n < 63" by (rule power_less_imp_less_exp [rotated]) simp
    with Tree_Append_full [OF t, of i] True h(2) [OF True] show ?thesis by simp
  next
    case False
    then have "?n < 2 ^ height ?n" using h(1) by simp
    moreover have "height ?n \<le> 63" using len by (simp add: height_def bit_len_le_iff)
    ultimately show ?thesis using Tree_Append_tree [OF t, of i] h(3) by simp
  qed
qed

definition Tree_Append_all :: "(bytes \<Rightarrow> bytes) \<Rightarrow> hash list \<Rightarrow> MerkleTree" where
  "Tree_Append_all K items = foldl (Tree_Append K) NewEmptyMerkleTree items"

lemma Tree_Append_all_snoc: "Tree_Append_all K (items @ [i]) = Tree_Append K (Tree_Append_all K items) i"
  by (simp add: Tree_Append_all_def)

lemma Tree_Append_all_tree:
  "items \<noteq> [] \<Longrightarrow> length items \<le> 2 ^ 63 \<Longrightarrow>
     tree_of K (height (length items)) (Tree_Append_all K items) (map (leaf K) items)"
proof (induction items rule: rev_induct)
  case Nil
  then show ?case by simp
next
  case (snoc i items)
  show ?case
  proof (cases "items = []")
    case True
    then show ?thesis
      by (simp add: Tree_Append_all_def NewEmptyMerkleTree_def Empty_Append.simps height_def bit_len.simps)
  next
    case False
    with snoc Tree_Append_grows [of K "map (leaf K) items" "Tree_Append_all K items" i] show ?thesis
      by (simp add: Tree_Append_all_snoc)
  qed
qed

text \<open>
  C23: a tree grown by appending to the empty tree and an accumulator that was given the same items
  agree: the hash of the tree is the accumulator's root, its size the number of items, and its
  capacity the least power of two that holds them.
\<close>

theorem tree_matches_accumulator:
  assumes "keccak_ok K" and "0 < length items" and "length items \<le> 2 ^ 63"
  shows "\<exists>m1 m2. Append_all K (memory_acc K) items NewNonpersistentMerkleAccumulator = (Ok (), m1) \<and>
    Accumulator_Root (memory_acc K) m1 = (Ok (Tree_Hash K (Tree_Append_all K items)), m2) \<and>
    Tree_Hash K (Tree_Append_all K items) = merkle_root K (map (leaf K) items) \<and>
    Tree_Size (Tree_Append_all K items) = of_nat (length items) \<and>
    Tree_Capacity (Tree_Append_all K items) = 2 ^ height (length items)"
proof -
  have r: "memory_rel NewNonpersistentMerkleAccumulator 0 []"
    by (simp add: memory_rel_def NewNonpersistentMerkleAccumulator_def)
  have n: "length items < 2 ^ 64" using assms(3) by simp
  have nz: "0 \<notin> set (map (leaf K) items)" using leaf_nonzero [OF assms(1)] by auto
  from memacc.accumulate [OF assms(1) r n] obtain m1 where
    m1: "Append_all K (memory_acc K) items NewNonpersistentMerkleAccumulator = (Ok (), m1)"
    "memory_rel m1 (length (map (leaf K) items)) (partials_of K (map (leaf K) items))"
    by blast
  from memacc.root_correct [OF assms(1) m1(2) nz] n obtain m2 where
    "Accumulator_Root (memory_acc K) m1 = (Ok (merkle_root K (map (leaf K) items)), m2)" by auto
  moreover have "tree_of K (height (length items)) (Tree_Append_all K items) (map (leaf K) items)"
    using assms by (intro Tree_Append_all_tree) auto
  ultimately show ?thesis
    using m1(1) by (auto simp: merkle_root_def dest: tree_of_sel)
qed

theorem tree_matches_accumulator_witness:
  "\<exists>m1 m2. Append_all toyK (memory_acc toyK) [4, 5, 6] NewNonpersistentMerkleAccumulator = (Ok (), m1) \<and>
    Accumulator_Root (memory_acc toyK) m1 = (Ok (Tree_Hash toyK (Tree_Append_all toyK [4, 5, 6])), m2) \<and>
    Tree_Size (Tree_Append_all toyK [4, 5, 6]) = 3"
proof -
  have "0 < length [4, 5, 6 :: hash]" "length [4, 5, 6 :: hash] \<le> 2 ^ 63" by simp_all
  from tree_matches_accumulator [OF toyK_keccak_ok this] show ?thesis by fastforce
qed

section \<open>Summaries\<close>

lemma summaryFromMerkleTree_tree:
  assumes t: "tree_of K k t xs" and k: "k \<le> 63" and full: "length xs = 2 ^ k"
  shows "\<exists>t'. summaryFromMerkleTree K t = Ok t' \<and> tree_of K k t' xs"
  using tree_of_sel [OF t] full t by (auto simp: summaryFromMerkleTree_def)

lemma SummarizeUpTo_tree:
  "tree_of K k t xs \<Longrightarrow> k \<le> 63 \<Longrightarrow> n \<le> length xs \<Longrightarrow>
     \<exists>t'. SummarizeUpTo K t (of_nat n) = Ok t' \<and> tree_of K k t' xs"
proof (induction K k t xs arbitrary: n rule: tree_of.induct)
  case (5 K k h s c l r xs)
  have xs: "xs \<noteq> []" and t: "tree_of K k l (take (2 ^ k) xs)" "tree_of K k r (drop (2 ^ k) xs)"
    using "5.prems"(1) by simp_all
  have k: "k \<le> 63" "Suc k \<le> 63" using "5.prems"(2) by simp_all
  have le: "length xs \<le> 2 ^ Suc k" "(2 :: nat) ^ Suc k \<le> 2 ^ 63"
    using tree_of_length [OF "5.prems"(1)] k(2) power_increasing [of "Suc k" 63 "2 :: nat"] by (simp_all del: power_Suc)
  have sz: "c = 2 ^ Suc k" "Tree_Size l = of_nat (min (2 ^ k) (length xs))"
    using tree_of_Capacity [OF "5.prems"(1)] tree_of_Size [OF t(1)] by (simp_all add: min.commute)
  have n64: "n < 2 ^ 64" "min (2 ^ k) (length xs) < 2 ^ 64" using "5.prems"(3) le by simp_all
  have c: "of_nat n = c \<longleftrightarrow> n = 2 ^ Suc k"
    using n64(1) unat_two_power [OF k(2)] by (simp add: sz(1) word_eq_unat unat_of_nat_u64 del: power_Suc)
  have lt: "of_nat n \<le> Tree_Size l \<longleftrightarrow> n \<le> min (2 ^ k) (length xs)"
    unfolding sz(2) word_le_nat_alt unat_of_nat_u64 [OF n64(1)] unat_of_nat_u64 [OF n64(2)] ..
  consider "n = 2 ^ Suc k" | "n \<noteq> 2 ^ Suc k" "n \<le> min (2 ^ k) (length xs)"
    | "n \<noteq> 2 ^ Suc k" "\<not> n \<le> min (2 ^ k) (length xs)" by blast
  then show ?case
  proof cases
    case 1
    then have "length xs = 2 ^ Suc k" using "5.prems"(3) le(1) by simp
    from summaryFromMerkleTree_tree [OF "5.prems"(1) k(2) this] 1 c show ?thesis by auto
  next
    case 2
    then have "n \<le> length (take (2 ^ k) xs)" by simp
    from "5.IH"(1) [OF t(1) k(1) this] 2 c lt xs t(2) show ?thesis by auto
  next
    case 3
    then have d: "2 ^ k < n" "length (take (2 ^ k) xs) = 2 ^ k" "n - 2 ^ k \<le> length (drop (2 ^ k) xs)"
      using "5.prems"(3) by auto
    have e: "(of_nat n - Tree_Size l :: u64) = of_nat (n - 2 ^ k)"
      using d(1,2) sz(2) by (simp add: of_nat_diff min.absorb1)
    from summaryFromMerkleTree_tree [OF t(1) k(1) d(2)] "5.IH"(2) [OF t(2) k(1) d(3)] 3 c lt xs e show ?thesis
      by auto
  qed
qed simp_all

lemma Tree_Appends_grow:
  "tree_of K (height (length xs)) t xs \<Longrightarrow> xs \<noteq> [] \<Longrightarrow> length xs + length js \<le> 2 ^ 63 \<Longrightarrow>
     tree_of K (height (length xs + length js)) (foldl (Tree_Append K) t js) (xs @ map (leaf K) js)"
proof (induction js arbitrary: t xs)
  case (Cons j js)
  from Tree_Append_grows [OF Cons.prems(1,2), of j] Cons.prems(3)
  have "tree_of K (height (length (xs @ [leaf K j]))) (Tree_Append K t j) (xs @ [leaf K j])" by simp
  from Cons.IH [OF this] Cons.prems(3) show ?case by simp
qed simp

lemma SummarizeUpTo_capacity:
  assumes "tree_of K (height (length xs)) t xs" "Tree_Size t \<noteq> Tree_Capacity t" "xs \<noteq> []" "length xs < 2 ^ 63"
  shows "SummarizeUpTo K t (Tree_Capacity t) = Panic"
proof (cases t)
  case (merkleInternal h s c l r)
  have "s \<noteq> 1"
  proof
    assume "s = 1"
    then have "(of_nat (length xs) :: u64) = of_nat 1" using tree_of_sel [OF assms(1)] merkleInternal by simp
    then have "length xs = 1" using of_nat_u64_eq [of "length xs" 1] assms(4) by simp
    then have "height (length xs) = 0" by (simp add: height_def bit_len.simps)
    with assms(1) merkleInternal show False by simp
  qed
  with merkleInternal assms(2) show ?thesis by (simp add: summaryFromMerkleTree_def)
qed (use assms in auto)

text \<open>
  C24: summarizing the first \<open>n\<close> of a grown tree's items, for any \<open>n\<close> up to their number, does not panic, and the
  result stands for the tree: it has the same hash, size and capacity, now and after any further appends.
  The bound on \<open>n\<close> is needed: asked for the capacity of a tree that is not full, the routine panics.
\<close>

theorem summarize_preserves_tree:
  assumes "0 < length items" and "length items + length js < 2 ^ 63" and "n \<le> length items"
  shows "(\<exists>t'. SummarizeUpTo K (Tree_Append_all K items) (of_nat n) = Ok t' \<and>
    Tree_Hash K t' = Tree_Hash K (Tree_Append_all K items) \<and>
    Tree_Size t' = Tree_Size (Tree_Append_all K items) \<and>
    Tree_Capacity t' = Tree_Capacity (Tree_Append_all K items) \<and>
    Tree_Hash K (foldl (Tree_Append K) t' js) = Tree_Hash K (Tree_Append_all K (items @ js)) \<and>
    Tree_Size (foldl (Tree_Append K) t' js) = Tree_Size (Tree_Append_all K (items @ js)) \<and>
    Tree_Capacity (foldl (Tree_Append K) t' js) = Tree_Capacity (Tree_Append_all K (items @ js))) \<and>
    (Tree_Size (Tree_Append_all K items) \<noteq> Tree_Capacity (Tree_Append_all K items) \<longrightarrow>
      SummarizeUpTo K (Tree_Append_all K items) (Tree_Capacity (Tree_Append_all K items)) = Panic)"
proof -
  let ?xs = "map (leaf K) items"
  have t: "tree_of K (height (length ?xs)) (Tree_Append_all K items) ?xs"
    using assms Tree_Append_all_tree [of items K] by simp
  have "height (length ?xs) \<le> 63" using assms(2) by (simp add: height_def bit_len_le_iff)
  from SummarizeUpTo_tree [OF t this] assms(3) obtain t' where
    t': "SummarizeUpTo K (Tree_Append_all K items) (of_nat n) = Ok t'" "tree_of K (height (length ?xs)) t' ?xs" by auto
  have ne: "?xs \<noteq> []" "length ?xs + length js \<le> 2 ^ 63" "length ?xs < 2 ^ 63" using assms by auto
  have "Tree_Append_all K (items @ js) = foldl (Tree_Append K) (Tree_Append_all K items) js"
    by (simp add: Tree_Append_all_def)
  moreover note SummarizeUpTo_capacity [OF t _ ne(1,3)]
  ultimately show ?thesis
    using t' tree_of_sel [OF t] tree_of_sel [OF t'(2)] tree_of_Hash [OF t] tree_of_Hash [OF t'(2)]
      tree_of_sel [OF Tree_Appends_grow [OF t ne(1,2)]] tree_of_sel [OF Tree_Appends_grow [OF t'(2) ne(1,2)]]
      tree_of_Hash [OF Tree_Appends_grow [OF t ne(1,2)]] tree_of_Hash [OF Tree_Appends_grow [OF t'(2) ne(1,2)]]
    by simp
qed

theorem summarize_preserves_tree_witness:
  "(\<exists>t'. SummarizeUpTo toyK (Tree_Append_all toyK [4, 5, 6]) (of_nat 2) = Ok t' \<and>
    Tree_Hash toyK t' = Tree_Hash toyK (Tree_Append_all toyK [4, 5, 6]) \<and>
    Tree_Hash toyK (foldl (Tree_Append toyK) t' [7, 8]) = Tree_Hash toyK (Tree_Append_all toyK ([4, 5, 6] @ [7, 8]))) \<and>
   SummarizeUpTo toyK (Tree_Append_all toyK [4, 5, 6]) 4 = Panic"
proof -
  have len: "0 < length [4, 5, 6 :: hash]" "length [4, 5, 6 :: hash] + length [7, 8 :: hash] < 2 ^ 63"
    "2 \<le> length [4, 5, 6 :: hash]" by simp_all
  have "Tree_Size (Tree_Append_all toyK [4, 5, 6]) = 3" "Tree_Capacity (Tree_Append_all toyK [4, 5, 6]) = 4"
    by (simp_all add: Tree_Append_all_def NewEmptyMerkleTree_def Empty_Append.simps NewMerkleInternal_def word_le_nat_alt)
  with summarize_preserves_tree [OF len, of toyK] show ?thesis by fastforce
qed

section \<open>Serialization\<close>

text \<open>Internal nodes carry the caches their children determine.\<close>

primrec caches_ok :: "(bytes \<Rightarrow> bytes) \<Rightarrow> MerkleTree \<Rightarrow> bool" where
  "caches_ok K (merkleTreeLeaf h) \<longleftrightarrow> True"
| "caches_ok K (merkleEmpty c) \<longleftrightarrow> True"
| "caches_ok K (merkleInternal h s c l r) \<longleftrightarrow>
     h = node K (Tree_Hash K l) (Tree_Hash K r) \<and> s = Tree_Size l + Tree_Size r \<and>
     c = Tree_Capacity l + Tree_Capacity r \<and> caches_ok K l \<and> caches_ok K r"
| "caches_ok K (merkleCompleteSubtreeSummary h c) \<longleftrightarrow> True"

lemma caches_ok_NewMerkleInternal [simp]:
  "caches_ok K (NewMerkleInternal K l r) \<longleftrightarrow> caches_ok K l \<and> caches_ok K r"
  by (auto simp: NewMerkleInternal_def node_def)

lemma caches_ok_Empty_Append [simp]: "caches_ok K (Empty_Append K c h)"
proof (induction K c h rule: Empty_Append.induct)
  case (1 K c h)
  then show ?case by (subst Empty_Append.simps) simp
qed

lemma caches_ok_Tree_Append: "caches_ok K t \<Longrightarrow> caches_ok K (Tree_Append K t h)"
  by (induction t) auto

lemma caches_ok_Tree_Append_all: "caches_ok K (Tree_Append_all K items)"
  by (induction items rule: rev_induct)
    (simp_all add: Tree_Append_all_snoc caches_ok_Tree_Append, simp add: Tree_Append_all_def NewEmptyMerkleTree_def)

lemma caches_ok_summary: "caches_ok K t \<Longrightarrow> summaryFromMerkleTree K t = Ok t' \<Longrightarrow> caches_ok K t'"
  by (auto simp: summaryFromMerkleTree_def split: if_splits)

lemma caches_ok_SummarizeUpTo:
  "caches_ok K t \<Longrightarrow> SummarizeUpTo K t n = Ok t' \<Longrightarrow> caches_ok K t'"
proof (induction t arbitrary: n t')
  case (merkleInternal h s c l r)
  show ?case
  proof (cases "n = c")
    case True
    with merkleInternal.prems show ?thesis using caches_ok_summary [of K "merkleInternal h s c l r" t'] by simp
  next
    case False
    note run = merkleInternal.prems(2) [unfolded SummarizeUpTo.simps if_not_P [OF False]]
    have lr: "caches_ok K l" "caches_ok K r" using merkleInternal.prems(1) by simp_all
    show ?thesis
    proof (cases "n \<le> Tree_Size l")
      case True
      with run obtain l' where "SummarizeUpTo K l n = Ok l'" "t' = NewMerkleInternal K l' r"
        by (auto simp: bindR_Ok_iff)
      with merkleInternal.IH(1) [OF lr(1)] lr show ?thesis by simp
    next
      case False
      with run obtain l' r' where "summaryFromMerkleTree K l = Ok l'"
        "SummarizeUpTo K r (n - Tree_Size l) = Ok r'" "t' = NewMerkleInternal K l' r'"
        by (auto simp: bindR_Ok_iff)
      with merkleInternal.IH(2) [OF lr(2)] caches_ok_summary [OF lr(1)] show ?thesis by simp
    qed
  qed
qed simp_all

primrec tree_bytes :: "MerkleTree \<Rightarrow> bytes" where
  "tree_bytes (merkleTreeLeaf h) = 0 # hash_bytes h"
| "tree_bytes (merkleEmpty c) = 1 # be_bytes 8 (unat c)"
| "tree_bytes (merkleInternal h s c l r) = 2 # tree_bytes l @ tree_bytes r"
| "tree_bytes (merkleCompleteSubtreeSummary h c) = 3 # be_bytes 8 (unat c) @ hash_bytes h"

lemmas serialized_defs = SerializedLeaf_def SerializedEmptySubtree_def SerializedInternalNode_def SerializedSubtreeSummary_def

lemma Tree_Serialize_run: "Tree_Serialize t wr = (Ok (), wr @ tree_bytes t)"
  by (induction t arbitrary: wr) (simp_all add: serialized_defs WriteBytes_def Uint64ToWriter_def bindM_def)

lemma bind_ReadFull_1:
  "bindM (ReadFull (Suc 0)) f (b # rest) = f [b] rest" "bindM (ReadFull (Suc 0)) f [] = (Err ErrEOF, [])"
  by (simp_all add: ReadFull_def bindM_def)

lemma FromReader_fuel_tree:
  "caches_ok K t \<Longrightarrow> length (tree_bytes t) < fuel \<Longrightarrow> FromReader_fuel K fuel (tree_bytes t @ rest) = (Ok t, rest)"
proof (induction t arbitrary: fuel rest)
  case (merkleTreeLeaf h)
  then show ?case
    by (cases fuel) (simp_all add: bind_ReadFull_1 serialized_defs newMerkleLeafFromReader_def run_simps)
next
  case (merkleEmpty c)
  then show ?case
    by (cases fuel) (simp_all add: bind_ReadFull_1 serialized_defs newMerkleEmptyFromReader_def run_simps)
next
  case (merkleCompleteSubtreeSummary h c)
  then show ?case
    by (cases fuel) (simp_all add: bind_ReadFull_1 serialized_defs newMerkleSummaryFromReader_def run_simps)
next
  case (merkleInternal h s c l r)
  then obtain f where f: "fuel = Suc f" by (cases fuel) auto
  with merkleInternal.prems have "FromReader_fuel K f (tree_bytes l @ tree_bytes r @ rest) = (Ok l, tree_bytes r @ rest)"
    "FromReader_fuel K f (tree_bytes r @ rest) = (Ok r, rest)"
    by (auto intro!: merkleInternal.IH)
  with f merkleInternal.prems(1) show ?case
    by (simp add: bind_ReadFull_1 serialized_defs newMerkleInternalFromReader_def bindM_Ok
        NewMerkleInternal_def node_def)
qed

text \<open>A call of the reader neither panics nor adds to the stream, given a unit of fuel per byte.\<close>

definition reads_only :: "(bytes, 'a) call \<Rightarrow> bytes \<Rightarrow> bool" where
  "reads_only m rd \<longleftrightarrow> fst (m rd) \<noteq> Panic \<and> length (snd (m rd)) \<le> length rd"

lemma reads_only_bind:
  assumes m: "reads_only m rd" and f: "\<And>a rd'. length rd' \<le> length rd \<Longrightarrow> reads_only (f a) rd'"
  shows "reads_only (bindM m f) rd"
proof -
  obtain r rd' where run: "m rd = (r, rd')" by fastforce
  with m have le: "length rd' \<le> length rd" "r \<noteq> Panic" by (simp_all add: reads_only_def)
  show ?thesis
  proof (cases r)
    case (Ok a)
    with run f [OF le(1), of a] le(1) show ?thesis by (simp add: reads_only_def bindM_def)
  qed (use run le in \<open>simp_all add: reads_only_def bindM_def\<close>)
qed

lemma reads_only_prims:
  "reads_only (returnM a) rd" "reads_only (failM e) rd" "reads_only (ReadFull n) rd"
  by (simp_all add: reads_only_def returnM_def failM_def ReadFull_def)

lemma reads_only_readers:
  "reads_only newMerkleLeafFromReader rd" "reads_only newMerkleEmptyFromReader rd" "reads_only newMerkleSummaryFromReader rd"
  unfolding newMerkleLeafFromReader_def newMerkleEmptyFromReader_def newMerkleSummaryFromReader_def
    HashFromReader_def Uint64FromReader_def
  by (intro reads_only_bind reads_only_prims)+

lemma FromReader_fuel_reads: "length rd < fuel \<Longrightarrow> reads_only (FromReader_fuel K fuel) rd"
proof (induction fuel arbitrary: rd)
  case 0
  then show ?case by simp
next
  case (Suc fuel)
  show ?case
  proof (cases rd)
    case Nil
    then show ?thesis by (simp add: reads_only_def bind_ReadFull_1)
  next
    case (Cons b rest)
    have "reads_only (newMerkleInternalFromReader K (FromReader_fuel K fuel)) rest"
      unfolding newMerkleInternalFromReader_def
      using Suc.prems Cons by (intro reads_only_bind reads_only_prims Suc.IH) simp_all
    with reads_only_readers [of rest] reads_only_prims(2) [of _ rest] show ?thesis
      unfolding Cons FromReader_fuel.simps reads_only_def One_nat_def bind_ReadFull_1
      by (simp add: le_SucI)
  qed
qed

text \<open>
  C25: the reader inverts the writer. A grown tree, and any summary of it, is read back as it was
  written, leaving the rest of the stream; and on arbitrary input the recursive reader ends, with a
  tree or an error.
\<close>

theorem tree_serialization_roundtrip:
  "NewMerkleTreeFromReader K (snd (Tree_Serialize (Tree_Append_all K items) []) @ rest) = (Ok (Tree_Append_all K items), rest) \<and>
   (SummarizeUpTo K (Tree_Append_all K items) n = Ok t \<longrightarrow>
      NewMerkleTreeFromReader K (snd (Tree_Serialize t []) @ rest) = (Ok t, rest)) \<and>
   fst (NewMerkleTreeFromReader K input) \<noteq> Panic"
proof -
  have "NewMerkleTreeFromReader K (snd (Tree_Serialize u []) @ rest) = (Ok u, rest)" if "caches_ok K u" for u
    using FromReader_fuel_tree [OF that, of "Suc (length (tree_bytes u) + length rest)" rest]
    by (simp add: NewMerkleTreeFromReader_def Tree_Serialize_run)
  moreover have "fst (NewMerkleTreeFromReader K input) \<noteq> Panic"
    using FromReader_fuel_reads [of input "Suc (length input)" K] by (simp add: NewMerkleTreeFromReader_def reads_only_def)
  ultimately show ?thesis
    using caches_ok_Tree_Append_all [of K items] caches_ok_SummarizeUpTo [of K "Tree_Append_all K items" n t] by blast
qed

theorem tree_serialization_roundtrip_witness:
  "NewMerkleTreeFromReader toyK
     (snd (Tree_Serialize (merkleInternal (node toyK (leaf toyK 4) (leaf toyK 5)) 2 2 (merkleTreeLeaf 4) (merkleTreeLeaf 5)) []) @ [9])
   = (Ok (merkleInternal (node toyK (leaf toyK 4) (leaf toyK 5)) 2 2 (merkleTreeLeaf 4) (merkleTreeLeaf 5)), [9])"
proof -
  let ?t = "merkleInternal (node toyK (leaf toyK 4) (leaf toyK 5)) 2 2 (merkleTreeLeaf 4) (merkleTreeLeaf 5)"
  have "SummarizeUpTo toyK (Tree_Append_all toyK [4, 5]) 1 = Ok ?t"
    by (simp add: Tree_Append_all_def NewEmptyMerkleTree_def Empty_Append.simps NewMerkleInternal_def node_def leaf_def)
  with tree_serialization_roundtrip [where K = toyK and items = "[4, 5]" and n = 1 and t = ?t and rest = "[9]"]
  show ?thesis by blast
qed

section \<open>Inclusion proofs\<close>

text \<open>The siblings on the way up from leaf \<open>i\<close> of the tree of height \<open>k\<close> over \<open>xs\<close>.\<close>

primrec siblings :: "(bytes \<Rightarrow> bytes) \<Rightarrow> nat \<Rightarrow> hash list \<Rightarrow> nat \<Rightarrow> hash list" where
  "siblings K 0 xs i = []"
| "siblings K (Suc k) xs i =
     (if i < 2 ^ k then siblings K k (take (2 ^ k) xs) i @ [tree_root K k (drop (2 ^ k) xs)]
      else siblings K k (drop (2 ^ k) xs) (i - 2 ^ k) @ [tree_root K k (take (2 ^ k) xs)])"

text \<open>The hash a proof computes, the pairs it hashes, and the pairs the tree hashes.\<close>

primrec path_hash :: "(bytes \<Rightarrow> bytes) \<Rightarrow> hash list \<Rightarrow> hash \<Rightarrow> nat \<Rightarrow> hash" where
  "path_hash K [] h i = h"
| "path_hash K (p # ps) h i = path_hash K ps (if even i then node K h p else node K p h) (i div 2)"

primrec path_pairs :: "(bytes \<Rightarrow> bytes) \<Rightarrow> hash list \<Rightarrow> hash \<Rightarrow> nat \<Rightarrow> (hash \<times> hash) set" where
  "path_pairs K [] h i = {}"
| "path_pairs K (p # ps) h i =
     insert (if even i then (h, p) else (p, h)) (path_pairs K ps (if even i then node K h p else node K p h) (i div 2))"

fun tree_pairs :: "(bytes \<Rightarrow> bytes) \<Rightarrow> nat \<Rightarrow> hash list \<Rightarrow> (hash \<times> hash) set" where
  "tree_pairs K 0 xs = {}"
| "tree_pairs K (Suc k) xs =
     insert (tree_root K k (take (2 ^ k) xs), tree_root K k (drop (2 ^ k) xs))
       (tree_pairs K k (take (2 ^ k) xs) \<union> tree_pairs K k (drop (2 ^ k) xs))"

lemma IsCorrect_loop_path:
  "IsCorrect_loop K ps h i = (path_hash K ps h (unat i), of_nat (unat i div 2 ^ length ps))"
proof (induction ps arbitrary: h i)
  case Nil
  then show ?case by simp
next
  case (Cons p ps)
  have "i AND 1 = 0 \<longleftrightarrow> even (unat i)"
    by (simp add: and_one_eq word_eq_unat unat_mod even_iff_mod_2_eq_zero)
  moreover have "unat (i div 2) = unat i div 2" by (simp add: unat_div)
  ultimately show ?case by (simp add: Cons node_def div_mult2_eq)
qed

lemma path_snoc:
  "path_hash K (ps @ [p]) h i =
     (if even (i div 2 ^ length ps) then node K (path_hash K ps h i) p else node K p (path_hash K ps h i))"
  "path_pairs K (ps @ [p]) h i = insert (if even (i div 2 ^ length ps) then (path_hash K ps h i, p) else (p, path_hash K ps h i))
     (path_pairs K ps h i)"
  by (induction ps arbitrary: h i) (auto simp: div_mult2_eq)

lemma path_shift:
  "path_hash K ps h (i + 2 ^ length ps * m) = path_hash K ps h i \<and> path_pairs K ps h (i + 2 ^ length ps * m) = path_pairs K ps h i"
proof (induction ps arbitrary: h i)
  case (Cons p ps)
  have "(i + 2 ^ length (p # ps) * m) div 2 = i div 2 + 2 ^ length ps * m"
    using div_mult_self2 [of 2 i "2 ^ length ps * m"] by (simp add: mult.assoc)
  moreover have "even (i + 2 ^ length (p # ps) * m) \<longleftrightarrow> even i" by simp
  ultimately show ?case using Cons by simp
qed simp

lemma length_siblings [simp]: "length (siblings K k xs i) = k"
  by (induction k arbitrary: xs i) simp_all

lemma path_hash_siblings:
  "i < 2 ^ k \<Longrightarrow> i < length xs \<Longrightarrow> path_hash K (siblings K k xs i) (xs ! i) i = tree_root K k xs"
proof (induction k arbitrary: xs i)
  case 0
  then show ?case by (cases xs) simp_all
next
  case (Suc k)
  then have ne: "xs \<noteq> []" by auto
  show ?case
  proof (cases "i < 2 ^ k")
    case True
    then have "path_hash K (siblings K k (take (2 ^ k) xs) i) (xs ! i) i = tree_root K k (take (2 ^ k) xs)"
      using Suc.IH [of i "take (2 ^ k) xs"] Suc.prems(2) by simp
    with True show ?thesis by (simp add: path_snoc tree_root_Suc [OF ne] del: tree_root.simps)
  next
    case False
    let ?s = "siblings K k (drop (2 ^ k) xs) (i - 2 ^ k)"
    have "i div 2 ^ k = 1" using False Suc.prems(1) by (simp add: div_nat_eqI)
    moreover have "path_hash K ?s (xs ! i) i = tree_root K k (drop (2 ^ k) xs)"
      using path_shift [of K ?s "xs ! i" "i - 2 ^ k" 1] Suc.IH [of "i - 2 ^ k" "drop (2 ^ k) xs"] Suc.prems False
      by simp
    ultimately show ?thesis using False by (simp add: path_snoc tree_root_Suc [OF ne] del: tree_root.simps)
  qed
qed

lemma path_hash_sound:
  "keccak_ok K \<Longrightarrow> inj_on (\<lambda>(l, r). node K l r) (path_pairs K ps h i \<union> tree_pairs K k xs) \<Longrightarrow> h \<noteq> 0 \<Longrightarrow>
     length ps = k \<Longrightarrow> i < 2 ^ k \<Longrightarrow> path_hash K ps h i = tree_root K k xs \<Longrightarrow> i < length xs \<and> xs ! i = h"
proof (induction k arbitrary: ps i xs)
  case 0
  then show ?case by (cases xs) simp_all
next
  case (Suc k)
  obtain qs p where ps: "ps = qs @ [p]" and len: "length qs = k" using Suc.prems(4) by (cases ps rule: rev_cases) auto
  let ?q = "path_hash K qs h i"
  let ?l = "take (2 ^ k) xs" and ?r = "drop (2 ^ k) xs"
  let ?pair = "if even (i div 2 ^ k) then (?q, p) else (p, ?q)"
  have "xs \<noteq> []" using Suc.prems(6) node_nonzero [OF Suc.prems(1)] by (auto simp: ps path_snoc split: if_splits)
  then have "(\<lambda>(l, r). node K l r) ?pair = (\<lambda>(l, r). node K l r) (tree_root K k ?l, tree_root K k ?r)"
    using Suc.prems(6) by (simp add: ps path_snoc len tree_root_Suc del: tree_root.simps split: if_splits)
  moreover have "?pair \<in> path_pairs K ps h i" by (simp add: ps path_snoc len)
  ultimately have pair: "?pair = (tree_root K k ?l, tree_root K k ?r)"
    using Suc.prems(2) by (intro inj_onD [OF Suc.prems(2)]) auto
  have inj: "inj_on (\<lambda>(l, r). node K l r) (path_pairs K qs h j \<union> tree_pairs K k ys)"
    if "path_pairs K qs h j = path_pairs K qs h i" "ys = ?l \<or> ys = ?r" for j ys
    using that by (intro inj_on_subset [OF Suc.prems(2)]) (auto simp: ps path_snoc)
  show ?case
  proof (cases "i < 2 ^ k")
    case True
    with pair have "?q = tree_root K k ?l" by simp
    with Suc.IH [OF Suc.prems(1) inj Suc.prems(3) len True, of ?l] True show ?thesis by auto
  next
    case False
    then have d: "i div 2 ^ k = 1" using Suc.prems(5) by (simp add: div_nat_eqI)
    have sh: "path_hash K qs h (i - 2 ^ k) = ?q" "path_pairs K qs h (i - 2 ^ k) = path_pairs K qs h i"
      using path_shift [of K qs h "i - 2 ^ k" 1] False len by simp_all
    have "i - 2 ^ k < 2 ^ k" using Suc.prems(5) False by simp
    moreover have "?q = tree_root K k ?r" using pair d by simp
    ultimately show ?thesis
      using Suc.IH [OF Suc.prems(1) inj Suc.prems(3) len, of "i - 2 ^ k" ?r] sh False by auto
  qed
qed

text \<open>
  C15: inclusion proofs. The siblings of a leaf prove it against the root of its tree (completeness);
  and a proof as long as the tree is high that is accepted for a nonzero leaf hash proves a leaf that
  is there, at that index, unless two of the node pairs hashed collide (soundness).
\<close>

theorem inclusion_proofs:
  assumes k: "k < 64" and xs: "length xs \<le> 2 ^ k"
  shows "(\<forall>i < length xs. MerkleProof_IsCorrect K
      \<lparr>RootHash = tree_root K k xs, LeafHash = xs ! i, LeafIndex = of_nat i, Proof = siblings K k xs i\<rparr>) \<and>
    (\<forall>pf. keccak_ok K \<and> MerkleProof_IsCorrect K pf \<and> RootHash pf = tree_root K k xs \<and> length (Proof pf) = k \<and>
       LeafHash pf \<noteq> 0 \<and>
       inj_on (\<lambda>(l, r). node K l r) (path_pairs K (Proof pf) (LeafHash pf) (unat (LeafIndex pf)) \<union> tree_pairs K k xs) \<longrightarrow>
       unat (LeafIndex pf) < length xs \<and> xs ! unat (LeafIndex pf) = LeafHash pf)"
proof (intro conjI allI impI)
  have p: "(2 :: nat) ^ k < 2 ^ 64" using k by (intro power_strict_increasing) simp_all
  fix i
  assume i: "i < length xs"
  then have "i < 2 ^ k" "unat (of_nat i :: u64) = i" using xs p by (simp_all add: unat_of_nat_u64)
  then show "MerkleProof_IsCorrect K
      \<lparr>RootHash = tree_root K k xs, LeafHash = xs ! i, LeafIndex = of_nat i, Proof = siblings K k xs i\<rparr>"
    using path_hash_siblings [of i k xs K] i by (simp add: MerkleProof_IsCorrect_def IsCorrect_loop_path)
next
  fix pf :: MerkleProof
  let ?i = "unat (LeafIndex pf)"
  assume a: "keccak_ok K \<and> MerkleProof_IsCorrect K pf \<and> RootHash pf = tree_root K k xs \<and> length (Proof pf) = k \<and>
    LeafHash pf \<noteq> 0 \<and>
    inj_on (\<lambda>(l, r). node K l r) (path_pairs K (Proof pf) (LeafHash pf) ?i \<union> tree_pairs K k xs)"
  then have "(of_nat (?i div 2 ^ k) :: u64) = 0" and h: "path_hash K (Proof pf) (LeafHash pf) ?i = tree_root K k xs"
    by (auto simp: MerkleProof_IsCorrect_def IsCorrect_loop_path)
  moreover have "?i div 2 ^ k < 2 ^ 64" by (rule le_less_trans [OF div_le_dividend]) simp
  ultimately have "?i div 2 ^ k = 0" using of_nat_u64_eq [of "?i div 2 ^ k" 0] by simp
  then have "?i < 2 ^ k" by (simp add: div_eq_0_iff)
  with path_hash_sound [of K "Proof pf" "LeafHash pf" ?i k xs] a h
  show "?i < length xs" and "xs ! ?i = LeafHash pf" by blast+
qed

lemma last_hash_bytes: "last (hash_bytes h) = of_nat (unat h mod 256)"
proof -
  have "hash_bytes h = be_bytes (Suc 31) (unat h)" by (simp add: hash_bytes_def del: be_bytes.simps)
  then show ?thesis by (simp only: be_bytes.simps last_snoc)
qed

lemma node_toyK: "hd (hash_bytes (node toyK l r)) = last (hash_bytes r)" "last (hash_bytes (node toyK l r)) = 1"
proof -
  have len: "length (hash_bytes r) = 32" by simp
  then have r: "rev (hash_bytes r) = last (hash_bytes r) # rev (butlast (hash_bytes r))"
    by (cases "hash_bytes r" rule: rev_cases) auto
  have "hash_bytes (node toyK l r) = take 31 (rev (hash_bytes r) @ rev (hash_bytes l)) @ [1]"
    unfolding node_def by (subst hash_bytes_inverse) (simp_all add: toyK_def)
  then show "hd (hash_bytes (node toyK l r)) = last (hash_bytes r)" "last (hash_bytes (node toyK l r)) = 1"
    unfolding r by simp_all
qed

theorem inclusion_proofs_witness:
  "MerkleProof_IsCorrect toyK
     \<lparr>RootHash = tree_root toyK 2 [11, 12, 13], LeafHash = 13, LeafIndex = 2, Proof = siblings toyK 2 [11, 12, 13] 2\<rparr> \<and>
   [11, 12, 13 :: hash] ! unat (2 :: u64) = 13"
proof -
  let ?xs = "[11, 12, 13 :: hash]"
  let ?pf = "\<lparr>RootHash = tree_root toyK 2 ?xs, LeafHash = 13, LeafIndex = 2, Proof = siblings toyK 2 ?xs 2\<rparr>"
  have "(2 :: nat) < 64" "length ?xs \<le> 2 ^ 2" by simp_all
  note law = inclusion_proofs [OF this, of toyK]
  have "2 < length ?xs" by simp
  with law have "MerkleProof_IsCorrect toyK
     \<lparr>RootHash = tree_root toyK 2 ?xs, LeafHash = ?xs ! 2, LeafIndex = of_nat 2, Proof = siblings toyK 2 ?xs 2\<rparr>" by blast
  then have ok: "MerkleProof_IsCorrect toyK ?pf" by simp
  let ?n = "node toyK 11 12" and ?m = "node toyK 13 0"
  have ne: "node toyK l r \<noteq> node toyK l' r'" if "last (hash_bytes r) \<noteq> last (hash_bytes r')" for l r l' r'
    using that node_toyK(1) by metis
  have "last (hash_bytes 0) = 0" "last (hash_bytes 12) = 12" by (simp_all add: last_hash_bytes)
  then have "?m \<noteq> ?n" "?m \<noteq> node toyK ?n ?m" "?n \<noteq> node toyK ?n ?m"
    by (auto intro!: ne simp: node_toyK(2))
  then have "inj_on (\<lambda>(l, r). node toyK l r) {(13, 0), (?n, ?m), (11, 12)}" by (simp add: inj_on_def)
  moreover have "path_pairs toyK (siblings toyK 2 ?xs 2) 13 2 \<union> tree_pairs toyK 2 ?xs = {(13, 0), (?n, ?m), (11, 12)}"
    by (auto simp: numeral_2_eq_2)
  ultimately show ?thesis using ok law [THEN conjunct2, THEN spec, of ?pf] toyK_keccak_ok by simp
qed

section \<open>Trees from accumulators\<close>

lemma FromAccumulator_pad_tree:
  "Tree_Capacity t = 2 ^ c \<Longrightarrow> Tree_Hash K t = h \<Longrightarrow> c \<le> k \<Longrightarrow> k \<le> 63 \<Longrightarrow> k - c < fuel \<Longrightarrow>
     \<exists>t'. FromAccumulator_pad K fuel t (2 ^ k) = Ok t' \<and> Tree_Capacity t' = 2 ^ k \<and> Tree_Hash K t' = pad K (k - c) h"
proof (induction fuel arbitrary: c h t)
  case 0
  then show ?case by simp
next
  case (Suc fuel)
  show ?case
  proof (cases "c < k")
    case False
    with Suc.prems show ?thesis by (simp add: two_power_less)
  next
    case True
    let ?t = "NewMerkleInternal K t (merkleEmpty (Tree_Capacity t))"
    have "Tree_Capacity ?t = 2 ^ Suc c" "Tree_Hash K ?t = node K h 0"
      using Suc.prems(1,2) by (simp_all add: NewMerkleInternal_def node_def)
    moreover have "k - c = Suc (k - Suc c)" using True by simp
    ultimately show ?thesis using Suc.IH [of ?t "Suc c" "node K h 0"] Suc.prems True by (simp add: two_power_less del: power_Suc)
  qed
qed

text \<open>The first partial, if there is one, is hashed once more by the leaf made of it.\<close>

definition rehash_first :: "(bytes \<Rightarrow> bytes) \<Rightarrow> nat \<Rightarrow> hash list \<Rightarrow> hash list" where
  "rehash_first K k ps = (case ps of [] \<Rightarrow> [] | p # qs \<Rightarrow> (if k = 0 \<and> p \<noteq> 0 then leaf K p else p) # qs)"

definition tree_repr :: "(bytes \<Rightarrow> bytes) \<Rightarrow> MerkleTree option \<Rightarrow> (hash \<times> nat) option \<Rightarrow> bool" where
  "tree_repr K t hs \<longleftrightarrow> (case (t, hs) of
     (None, None) \<Rightarrow> True | (Some t, Some (h, c)) \<Rightarrow> Tree_Hash K t = h \<and> Tree_Capacity t = 2 ^ c | _ \<Rightarrow> False)"

lemma FromAccumulator_loop_fold:
  assumes ok: "keccak_ok K"
  shows "tree_repr K t hs \<Longrightarrow> k + length ps \<le> 64 \<Longrightarrow> (\<And>h c. hs = Some (h, c) \<Longrightarrow> c \<le> k) \<Longrightarrow>
    \<exists>t'. FromAccumulator_loop K ps k t (2 ^ k) = Ok t' \<and> tree_repr K t' (root_fold K (rehash_first K k ps) hs k)"
proof (induction ps arbitrary: t hs k)
  case Nil
  then show ?case by (simp add: rehash_first_def)
next
  case (Cons p ps)
  have len: "Suc k + length ps \<le> 64" using Cons.prems(2) by simp
  have re: "rehash_first K (Suc k) ps = ps" by (simp add: rehash_first_def split: list.split)
  note IH = Cons.IH [where k = "Suc k", unfolded re, OF _ len]
  show ?case
  proof (cases "p = 0")
    case True
    have "c \<le> Suc k" if "hs = Some (h, c)" for h c using Cons.prems(3) that by (simp add: le_SucI)
    with True IH [OF Cons.prems(1)] show ?thesis by (simp add: rehash_first_def mult.commute)
  next
    case False
    let ?lv = "if k = 0 then merkleTreeLeaf p else merkleCompleteSubtreeSummary p (2 ^ k)"
    let ?p = "if k = 0 then leaf K p else p"
    have lv: "Tree_Hash K ?lv = ?p" "Tree_Capacity ?lv = 2 ^ k" by (simp_all add: leaf_def)
    have nz: "?p \<noteq> 0" using False leaf_nonzero [OF ok, of p] by simp
    show ?thesis
    proof (cases hs)
      case None
      with Cons.prems(1) have "t = None" by (simp add: tree_repr_def split: option.splits)
      moreover have "tree_repr K (Some ?lv) (Some (?p, k))" using lv by (simp add: tree_repr_def)
      from IH [OF this] None \<open>t = None\<close> False nz show ?thesis by (simp add: rehash_first_def mult.commute Let_def)
    next
      case (Some hc)
      obtain h c where hc: "hc = (h, c)" by fastforce
      with Some Cons.prems(1) obtain u where u: "t = Some u" "Tree_Hash K u = h" "Tree_Capacity u = 2 ^ c"
        by (auto simp: tree_repr_def split: option.splits)
      have "c \<le> k" "k \<le> 63" "k - c < 65" using Cons.prems(2,3) Some hc by auto
      from FromAccumulator_pad_tree [OF u(3,2) this] obtain v where
        v: "FromAccumulator_pad K 65 u (2 ^ k) = Ok v" "Tree_Capacity v = 2 ^ k" "Tree_Hash K v = pad K (k - c) h" by blast
      have "tree_repr K (Some (NewMerkleInternal K ?lv v)) (Some (node K ?p (pad K (k - c) h), Suc k))"
        using lv v by (simp add: tree_repr_def NewMerkleInternal_def node_def)
      from IH [OF this] Some hc u(1) v(1) False nz show ?thesis by (simp add: rehash_first_def mult.commute Let_def)
    qed
  qed
qed

lemma partials_rehash:
  assumes "keccak_ok K" "0 \<notin> set xs" "xs \<noteq> []"
  shows "rehash_first K 0 (partials_of K xs) =
    partials_of K (if odd (length xs) then butlast xs @ [leaf K (last xs)] else xs)"
proof -
  have "last xs \<noteq> 0" using assms(2,3) by (metis last_in_set)
  moreover have "pairs K (butlast xs @ [y]) = pairs K xs" if "odd (length xs)" for y
    using that assms(3) pairs_snoc [of K "butlast xs" y] pairs_snoc [of K "butlast xs" "last xs"] by simp
  ultimately show ?thesis
    using assms(3) by (subst (1 2) partials_of.simps) (auto simp: rehash_first_def)
qed

text \<open>
  C35: a tree rebuilt from the partials of an accumulator of an even number of items has the
  accumulator's root as its hash. For an odd number it does not stand for those items: the level-0
  partial is already the hash of the last item and the leaf made of it hashes it a second time.
\<close>

theorem tree_from_accumulator:
  assumes ok: "keccak_ok K" and n: "0 < length items" "length items < 2 ^ 64"
  shows "\<exists>m1 m2 t. Append_all K (memory_acc K) items NewNonpersistentMerkleAccumulator = (Ok (), m1) \<and>
    NewMerkleTreeFromAccumulator K (memory_acc K) m1 = (Ok (Some t), m2) \<and>
    Tree_Hash K t = merkle_root K (if even (length items) then map (leaf K) items
      else map (leaf K) (butlast items) @ [leaf K (leaf K (last items))])"
proof -
  let ?xs = "map (leaf K) items"
  have r: "memory_rel NewNonpersistentMerkleAccumulator 0 []"
    by (simp add: memory_rel_def NewNonpersistentMerkleAccumulator_def)
  have nz: "0 \<notin> set (map (leaf K) l)" for l using leaf_nonzero [OF ok] by auto
  from memacc.accumulate [OF ok r n(2)] obtain m1 where
    m1: "Append_all K (memory_acc K) items NewNonpersistentMerkleAccumulator = (Ok (), m1)"
    "memory_rel m1 (length ?xs) (partials_of K ?xs)"
    by blast
  from memacc.clone_correct [OF m1(2)] n(2) obtain m2 where
    m2: "GetPartials (memory_acc K) m1 = (Ok (partials_of K ?xs), m2)" by auto
  let ?ys = "if odd (length ?xs) then butlast ?xs @ [leaf K (last ?xs)] else ?xs"
  have xs: "?xs \<noteq> []" using n(1) by auto
  have ys: "0 \<notin> set ?ys" "?ys \<noteq> []"
    using nz [of items] xs leaf_nonzero [OF ok] by (auto dest: in_set_butlastD)
  have "0 + length (partials_of K ?xs) \<le> 64" using n(2) by (simp add: length_partials_of bit_len_64)
  from FromAccumulator_loop_fold [OF ok _ this, of None None] obtain t' where
    t': "FromAccumulator_loop K (partials_of K ?xs) 0 None 1 = Ok t'"
    "tree_repr K t' (root_fold K (partials_of K ?ys) None 0)"
    by (auto simp: tree_repr_def partials_rehash [OF ok nz xs])
  obtain c where "root_fold K (partials_of K ?ys) None 0 = Some (merkle_root K ?ys, c)"
    using root_fold_correct [OF ok ys, of None 0] by auto
  with t' obtain t where t: "t' = Some t" "Tree_Hash K t = merkle_root K ?ys"
    by (auto simp: tree_repr_def split: option.splits)
  have "partials_of K ?xs \<noteq> []" using xs by (simp add: partials_of.simps)
  with m2 t'(1) t(1) have tree: "NewMerkleTreeFromAccumulator K (memory_acc K) m1 = (Ok (Some t), m2)"
    by (simp add: NewMerkleTreeFromAccumulator_def bindM_Ok liftR_def)
  have "?ys = (if even (length items) then ?xs else map (leaf K) (butlast items) @ [leaf K (leaf K (last items))])"
    using n(1) by (simp add: map_butlast last_map)
  then have "Tree_Hash K t = merkle_root K (if even (length items) then ?xs
      else map (leaf K) (butlast items) @ [leaf K (leaf K (last items))])"
    unfolding t(2) by (rule arg_cong)
  with m1(1) tree show ?thesis by blast
qed

theorem tree_from_accumulator_witness:
  "\<exists>m1 m2 t. Append_all toyK (memory_acc toyK) [5] NewNonpersistentMerkleAccumulator = (Ok (), m1) \<and>
    NewMerkleTreeFromAccumulator toyK (memory_acc toyK) m1 = (Ok (Some t), m2) \<and>
    Tree_Hash toyK t = leaf toyK (leaf toyK 5)"
proof -
  have "0 < length [5 :: hash]" "length [5 :: hash] < 2 ^ 64" by simp_all
  from tree_from_accumulator [OF toyK_keccak_ok this] show ?thesis by simp
qed

end
