(* ===== verification/BatchPoster.thy ===== *)
theory BatchPoster
  imports AddressSet
begin

text \<open>
  \<^verbatim>\<open>arbos/l1pricing/batchPoster.go\<close>: the table of batch posters, with the funds due to each of them and
  the total. The table spans several storage spaces: an address set, a space per poster, and the slot of
  the total. \<open>bp_table\<close> relates a world to the table it holds; it includes that the total is the
  sum of what is due, which every operation keeps.
\<close>

section \<open>Definitions\<close>

definition totalFundsDueOffset :: u64 where "totalFundsDueOffset = 0"
definition PosterAddrsKey :: bytes where "PosterAddrsKey = [0]"
definition PosterInfoKey :: bytes where "PosterInfoKey = [1]"

definition ErrAlreadyExists :: go_error where
  "ErrAlreadyExists = ErrMsg ''tried to add a batch poster that already exists''"

definition ErrNotExist :: go_error where
  "ErrNotExist = ErrMsg ''tried to open a batch poster that does not exist''"

record BatchPostersTable =
  posterAddrs :: AddressSet
  posterInfo :: Storage
  totalFundsDue :: StorageSlot

record BatchPosterState =
  bps_fundsDue :: StorageSlot
  bps_payTo :: StorageSlot
  postersTable :: BatchPostersTable

definition InitializeBatchPostersTable :: "(bytes \<Rightarrow> bytes) \<Rightarrow> Storage \<Rightarrow> unit arb" where
  "InitializeBatchPostersTable K sto =
     thenM (StorageBackedBigInt_SetChecked (OpenStorageBackedBigInt K sto totalFundsDueOffset) 0)
       (AddressSet_Initialize K (OpenCachedSubStorage K sto PosterAddrsKey))"

definition OpenBatchPostersTable :: "(bytes \<Rightarrow> bytes) \<Rightarrow> Storage \<Rightarrow> BatchPostersTable" where
  "OpenBatchPostersTable K sto =
     \<lparr>posterAddrs = OpenAddressSet K (OpenCachedSubStorage K sto PosterAddrsKey),
      posterInfo = OpenSubStorage K sto PosterInfoKey,
      totalFundsDue = OpenStorageBackedBigInt K sto totalFundsDueOffset\<rparr>"

definition internalOpen :: "(bytes \<Rightarrow> bytes) \<Rightarrow> BatchPostersTable \<Rightarrow> address \<Rightarrow> BatchPosterState" where
  "internalOpen K bpt poster =
     (let bpStorage = OpenSubStorage K (posterInfo bpt) (address_bytes poster)
      in \<lparr>bps_fundsDue = OpenStorageBackedBigInt K bpStorage 0,
          bps_payTo = OpenStorageBackedAddress K bpStorage 1,
          postersTable = bpt\<rparr>)"

definition ContainsPoster :: "(bytes \<Rightarrow> bytes) \<Rightarrow> BatchPostersTable \<Rightarrow> address \<Rightarrow> bool arb" where
  "ContainsPoster K bpt poster = AddressSet_IsMember K (posterAddrs bpt) poster"

definition AddPoster :: "(bytes \<Rightarrow> bytes) \<Rightarrow> BatchPostersTable \<Rightarrow> address \<Rightarrow> address \<Rightarrow> BatchPosterState arb" where
  "AddPoster K bpt posterAddress payTo =
     bindM (AddressSet_IsMember K (posterAddrs bpt) posterAddress) (\<lambda>isBatchPoster.
       if isBatchPoster then failM ErrAlreadyExists
       else let bpState = internalOpen K bpt posterAddress in
         thenM (StorageBackedBigInt_SetChecked (bps_fundsDue bpState) 0)
        (thenM (StorageBackedAddress_Set (bps_payTo bpState) payTo)
        (thenM (AddressSet_Add K (posterAddrs bpt) posterAddress) (returnM bpState))))"

definition OpenPoster :: "(bytes \<Rightarrow> bytes) \<Rightarrow> BatchPostersTable \<Rightarrow> address \<Rightarrow> bool \<Rightarrow> BatchPosterState arb" where
  "OpenPoster K bpt poster createIfNotExist =
     bindM (AddressSet_IsMember K (posterAddrs bpt) poster) (\<lambda>isBatchPoster.
       if \<not> isBatchPoster then
         (if \<not> createIfNotExist then failM ErrNotExist else AddPoster K bpt poster poster)
       else returnM (internalOpen K bpt poster))"

definition AllPosters :: "(bytes \<Rightarrow> bytes) \<Rightarrow> BatchPostersTable \<Rightarrow> u64 \<Rightarrow> address list arb" where
  "AllPosters K bpt maxNumToGet = AddressSet_AllMembers K (posterAddrs bpt) maxNumToGet"

definition TotalFundsDue :: "BatchPostersTable \<Rightarrow> int arb" where
  "TotalFundsDue bpt = StorageBackedBigInt_Get (totalFundsDue bpt)"

definition FundsDue :: "BatchPosterState \<Rightarrow> int arb" where
  "FundsDue bps = StorageBackedBigInt_Get (bps_fundsDue bps)"

definition SetFundsDue :: "BatchPosterState \<Rightarrow> int \<Rightarrow> unit arb" where
  "SetFundsDue bps val =
     bindM (StorageBackedBigInt_Get (bps_fundsDue bps)) (\<lambda>prev.
     bindM (StorageBackedBigInt_Get (totalFundsDue (postersTable bps))) (\<lambda>prevTotal.
     thenM (StorageBackedBigInt_SetSaturatingWithWarning (totalFundsDue (postersTable bps))
              (BigSub (BigAdd prevTotal val) prev))
       (StorageBackedBigInt_SetSaturatingWithWarning (bps_fundsDue bps) val)))"

definition PayTo :: "BatchPosterState \<Rightarrow> address arb" where
  "PayTo bps = StorageBackedAddress_Get (bps_payTo bps)"

definition SetPayTo :: "BatchPosterState \<Rightarrow> address \<Rightarrow> unit arb" where
  "SetPayTo bps addr = StorageBackedAddress_Set (bps_payTo bps) addr"

record FundsDueItem =
  dueTo :: address
  fdi_balance :: int

primrec GetFundsDueList_loop :: "(bytes \<Rightarrow> bytes) \<Rightarrow> BatchPostersTable \<Rightarrow> address list \<Rightarrow> FundsDueItem list arb" where
  "GetFundsDueList_loop K bpt [] = returnM []"
| "GetFundsDueList_loop K bpt (posterAddr # addrs) =
     bindM (OpenPoster K bpt posterAddr False) (\<lambda>poster.
     bindM (FundsDue poster) (\<lambda>due.
     bindM (GetFundsDueList_loop K bpt addrs) (\<lambda>ret.
       returnM (if due > 0 then \<lparr>dueTo = posterAddr, fdi_balance = due\<rparr> # ret else ret))))"

definition GetFundsDueList :: "(bytes \<Rightarrow> bytes) \<Rightarrow> BatchPostersTable \<Rightarrow> FundsDueItem list arb" where
  "GetFundsDueList K bpt =
     bindM (AllPosters K bpt (NOT 0)) (\<lambda>allPosters. GetFundsDueList_loop K bpt allPosters)"

section \<open>The table as a whole\<close>

abbreviation addrs_space :: "(bytes \<Rightarrow> bytes) \<Rightarrow> Storage \<Rightarrow> Storage" where
  "addrs_space K sto \<equiv> OpenCachedSubStorage K sto [0]"

abbreviation poster_space :: "(bytes \<Rightarrow> bytes) \<Rightarrow> Storage \<Rightarrow> address \<Rightarrow> Storage" where
  "poster_space K sto a \<equiv> OpenSubStorage K (OpenSubStorage K sto [1]) (address_bytes a)"

text \<open>The pages the table uses for posters from \<open>U\<close>, and that the hash tells them apart.\<close>

definition bp_keys :: "(bytes \<Rightarrow> bytes) \<Rightarrow> Storage \<Rightarrow> address set \<Rightarrow> (bytes \<times> hash) set" where
  "bp_keys K sto U =
     uint_keys sto \<union> uint_keys (addrs_space K sto) \<union>
     {storageKey (OpenSubStorage K (addrs_space K sto) [0])} \<times> AddressToHash ` U \<union>
     (\<Union>a \<in> U. uint_keys (poster_space K sto a))"

definition bp_free :: "(bytes \<Rightarrow> bytes) \<Rightarrow> Storage \<Rightarrow> address set \<Rightarrow> bool" where
  "bp_free K sto U \<longleftrightarrow>
     collision_free K (bp_keys K sto U) \<and>
     distinct [storageKey sto, storageKey (addrs_space K sto), storageKey (OpenSubStorage K (addrs_space K sto) [0])] \<and>
     (\<forall>a \<in> U. storageKey (poster_space K sto a) \<notin>
        {storageKey sto, storageKey (addrs_space K sto), storageKey (OpenSubStorage K (addrs_space K sto) [0])}) \<and>
     inj_on (\<lambda>a. storageKey (poster_space K sto a)) U"

record bp_abs =
  bp_posters :: "address list"
  bp_due :: "address \<Rightarrow> int"
  bp_pay :: "address \<Rightarrow> address"

definition bp_table :: "(bytes \<Rightarrow> bytes) \<Rightarrow> Storage \<Rightarrow> address set \<Rightarrow> world \<Rightarrow> bp_abs \<Rightarrow> bool" where
  "bp_table K sto U w t \<longleftrightarrow>
     bp_free K sto U \<and> aset K U (addrs_space K sto) w (bp_posters t) \<and>
     big_at w (NewSlot K sto 0) = (\<Sum>a \<in> set (bp_posters t). bp_due t a) \<and>
     (\<forall>a \<in> set (bp_posters t). big_at w (NewSlot K (poster_space K sto a) 0) = bp_due t a \<and>
        sdb w (NewSlot K (poster_space K sto a) 1) = AddressToHash (bp_pay t a))"

lemma bp_freeD:
  assumes "bp_free K sto U"
  shows "NewSlot K sto i = NewSlot K sto j \<longleftrightarrow> i = j"
    and "a \<in> U \<Longrightarrow> b \<in> U \<Longrightarrow> NewSlot K (poster_space K sto a) i = NewSlot K (poster_space K sto b) j \<longleftrightarrow> a = b \<and> i = j"
    and "a \<in> U \<Longrightarrow> NewSlot K sto i \<noteq> NewSlot K (poster_space K sto a) j"
    and "NewSlot K sto i \<noteq> NewSlot K (addrs_space K sto) j"
    and "a \<in> U \<Longrightarrow> NewSlot K (poster_space K sto a) i \<noteq> NewSlot K (addrs_space K sto) j"
    and "b \<in> U \<Longrightarrow> NewSlot K sto i \<noteq> sub_slot K (addrs_space K sto) [0] b"
    and "a \<in> U \<Longrightarrow> b \<in> U \<Longrightarrow> NewSlot K (poster_space K sto a) i \<noteq> sub_slot K (addrs_space K sto) [0] b"
    and "index_free K (addrs_space K sto) [0] U"
proof -
  let ?S = "bp_keys K sto U"
  have cf: "collision_free K ?S" using assms by (simp add: bp_free_def)
  note inj = mapAddress_inject [OF cf]
  have in_S: "(storageKey sto, UintToHash k) \<in> ?S" "(storageKey (addrs_space K sto), UintToHash k) \<in> ?S"
    "a \<in> U \<Longrightarrow> (storageKey (poster_space K sto a), UintToHash k) \<in> ?S"
    "a \<in> U \<Longrightarrow> (storageKey (OpenSubStorage K (addrs_space K sto) [0]), AddressToHash a) \<in> ?S" for k a
    by (auto simp: bp_keys_def uint_keys_def)
  have ne: "storageKey sto \<noteq> storageKey (addrs_space K sto) \<and> storageKey sto \<noteq> storageKey (OpenSubStorage K (addrs_space K sto) [0])"
    "storageKey (addrs_space K sto) \<noteq> storageKey (OpenSubStorage K (addrs_space K sto) [0])"
    "a \<in> U \<Longrightarrow> storageKey (poster_space K sto a) \<noteq> storageKey sto \<and> storageKey (poster_space K sto a) \<noteq> storageKey (addrs_space K sto)
       \<and> storageKey (poster_space K sto a) \<noteq> storageKey (OpenSubStorage K (addrs_space K sto) [0])"
    "inj_on (\<lambda>a. storageKey (poster_space K sto a)) U" for a
    using assms by (simp_all add: bp_free_def)
  show "NewSlot K sto i = NewSlot K sto j \<longleftrightarrow> i = j"
    unfolding NewSlot_def by (simp add: inj in_S)
  show "a \<in> U \<Longrightarrow> b \<in> U \<Longrightarrow> NewSlot K (poster_space K sto a) i = NewSlot K (poster_space K sto b) j \<longleftrightarrow> a = b \<and> i = j"
    unfolding NewSlot_def using ne(4) by (auto simp: inj in_S dest: inj_onD)
  have apart: "mapAddress K s k \<noteq> mapAddress K t k'"
    if "(storageKey s, k) \<in> ?S" "(storageKey t, k') \<in> ?S" "storageKey s \<noteq> storageKey t" for s t k k'
    using that by (simp add: inj)
  show "NewSlot K sto i \<noteq> NewSlot K (poster_space K sto a) j" if "a \<in> U"
    unfolding NewSlot_def by (rule apart [OF in_S(1) in_S(3) [OF that]]) (use ne(3) [OF that] in metis)
  show "NewSlot K sto i \<noteq> NewSlot K (addrs_space K sto) j"
    unfolding NewSlot_def by (rule apart [OF in_S(1) in_S(2) ne(1) [THEN conjunct1]])
  show "NewSlot K (poster_space K sto a) i \<noteq> NewSlot K (addrs_space K sto) j" if "a \<in> U"
    unfolding NewSlot_def by (rule apart [OF in_S(3) [OF that] in_S(2)]) (use ne(3) [OF that] in metis)
  show "NewSlot K sto i \<noteq> sub_slot K (addrs_space K sto) [0] b" if "b \<in> U"
    unfolding NewSlot_def sub_slot_def by (rule apart [OF in_S(1) in_S(4) [OF that] ne(1) [THEN conjunct2]])
  show "NewSlot K (poster_space K sto a) i \<noteq> sub_slot K (addrs_space K sto) [0] b" if "a \<in> U" "b \<in> U"
    unfolding NewSlot_def sub_slot_def
    by (rule apart [OF in_S(3) [OF that(1)] in_S(4) [OF that(2)]]) (use ne(3) [OF that(1)] in metis)
  have "uint_keys (addrs_space K sto) \<union> {storageKey (OpenSubStorage K (addrs_space K sto) [0])} \<times> AddressToHash ` U \<subseteq> ?S"
    by (auto simp: bp_keys_def)
  from collision_free_subset [OF cf this] ne(2) show "index_free K (addrs_space K sto) [0] U"
    unfolding index_free_def by simp
qed

text \<open>The locations of the table.\<close>

definition bp_slots :: "(bytes \<Rightarrow> bytes) \<Rightarrow> Storage \<Rightarrow> address set \<Rightarrow> hash set" where
  "bp_slots K sto U =
     {NewSlot K sto 0} \<union> range (NewSlot K (addrs_space K sto)) \<union> sub_slot K (addrs_space K sto) [0] ` U \<union>
     (\<Union>a \<in> U. range (NewSlot K (poster_space K sto a)))"

lemma indexed_same:
  assumes "indexed K sto i U w xs" "sys w'" "\<And>m. sdb w' (NewSlot K sto m) = sdb w (NewSlot K sto m)"
    "\<And>a. a \<in> U \<Longrightarrow> sdb w' (sub_slot K sto i a) = sdb w (sub_slot K sto i a)"
  shows "indexed K sto i U w' xs"
proof -
  have "xs ! j \<in> U" if "j < length xs" for j using indexedD(4) [OF assms(1)] that by auto
  with assms show ?thesis by (simp add: indexed_def)
qed

lemma bp_table_same:
  assumes t: "bp_table K sto U w t" and w': "sys w'" and same: "\<And>x. x \<in> bp_slots K sto U \<Longrightarrow> sdb w' x = sdb w x"
  shows "bp_table K sto U w' t"
proof -
  have ix: "aset K U (addrs_space K sto) w (bp_posters t)" using t by (simp add: bp_table_def)
  have U: "a \<in> U" if "a \<in> set (bp_posters t)" for a using that indexedD(4) [OF ix] by blast
  have s: "sdb w' (NewSlot K sto 0) = sdb w (NewSlot K sto 0)"
    "sdb w' (NewSlot K (addrs_space K sto) m) = sdb w (NewSlot K (addrs_space K sto) m)"
    "a \<in> U \<Longrightarrow> sdb w' (sub_slot K (addrs_space K sto) [0] a) = sdb w (sub_slot K (addrs_space K sto) [0] a)"
    "a \<in> U \<Longrightarrow> sdb w' (NewSlot K (poster_space K sto a) m) = sdb w (NewSlot K (poster_space K sto a) m)" for a m
    by (rule same; unfold bp_slots_def; blast)+
  have "aset K U (addrs_space K sto) w' (bp_posters t)" by (rule indexed_same [OF ix w']) (simp_all add: s)
  with t U show ?thesis by (simp add: bp_table_def big_at_def s)
qed

lemma bp_tableD:
  assumes "bp_table K sto U w t"
  shows "bp_free K sto U" "sys w" "aset K U (addrs_space K sto) w (bp_posters t)"
    "big_at w (NewSlot K sto 0) = (\<Sum>a \<in> set (bp_posters t). bp_due t a)"
    "\<And>a. a \<in> set (bp_posters t) \<Longrightarrow> a \<in> U"
    "\<And>a. a \<in> set (bp_posters t) \<Longrightarrow> big_at w (NewSlot K (poster_space K sto a) 0) = bp_due t a"
    "\<And>a. a \<in> set (bp_posters t) \<Longrightarrow> sdb w (NewSlot K (poster_space K sto a) 1) = AddressToHash (bp_pay t a)"
  using assms indexedD(2,4) [of K "addrs_space K sto" "[0]" U w "bp_posters t"] by (auto simp: bp_table_def)

lemma OpenBatchPostersTable_sel [simp]:
  "posterAddrs (OpenBatchPostersTable K sto) = OpenAddressSet K (addrs_space K sto)"
  "posterInfo (OpenBatchPostersTable K sto) = OpenSubStorage K sto [1]"
  "totalFundsDue (OpenBatchPostersTable K sto) = NewSlot K sto 0"
  by (simp_all add: OpenBatchPostersTable_def PosterAddrsKey_def PosterInfoKey_def totalFundsDueOffset_def)

abbreviation poster_of :: "(bytes \<Rightarrow> bytes) \<Rightarrow> Storage \<Rightarrow> address \<Rightarrow> BatchPosterState" where
  "poster_of K sto a \<equiv> internalOpen K (OpenBatchPostersTable K sto) a"

lemma poster_of_sel [simp]:
  "bps_fundsDue (poster_of K sto a) = NewSlot K (poster_space K sto a) 0"
  "bps_payTo (poster_of K sto a) = NewSlot K (poster_space K sto a) 1"
  "postersTable (poster_of K sto a) = OpenBatchPostersTable K sto"
  by (simp_all add: internalOpen_def Let_def)

lemma BigInt_SetChecked_0_run [run_simps]:
  "sys w \<Longrightarrow> StorageBackedBigInt_SetChecked a 0 w = (Ok (), upd a 0 (charge (writeCost 0) w))"
  by (simp add: StorageBackedBigInt_SetChecked_def bytes_hash_big run_simps big_BitLen_def BigToHash_abs bit_len.simps)

text \<open>Changing the entry of a poster, and its contribution to the total.\<close>

lemma bp_table_set_due:
  assumes t: "bp_table K sto U w t" and a: "a \<in> set (bp_posters t)" and w': "sys w'"
    and sdb: "sdb w' = (sdb w)(NewSlot K sto 0 := T, NewSlot K (poster_space K sto a) 0 := D)"
    and T: "sint T = (\<Sum>b \<in> set (bp_posters t). bp_due t b) + v - bp_due t a" and D: "sint D = v"
  shows "bp_table K sto U w' (t\<lparr>bp_due := (bp_due t)(a := v)\<rparr>)"
proof -
  note D' = bp_tableD [OF t] and F = bp_freeD [OF bp_tableD(1) [OF t]]
  note G = F(3-7) [THEN not_sym]
  have "aset K U (addrs_space K sto) w' (bp_posters t)"
    by (rule indexed_same [OF D'(3) w']) (use D'(5) [OF a] in \<open>simp_all add: sdb F G\<close>)
  moreover have "(\<Sum>b \<in> set (bp_posters t). ((bp_due t)(a := v)) b) = (\<Sum>b \<in> set (bp_posters t). bp_due t b) + v - bp_due t a"
    using sum_fun_upd [of "set (bp_posters t)" a v "bp_due t"] a by (simp add: fun_upd_def)
  ultimately show ?thesis
    using D' a T D unfolding bp_table_def by (auto simp: sdb big_at_def F G)
qed

lemma SetFundsDue_run:
  assumes t: "bp_table K sto U w t" and a: "a \<in> set (bp_posters t)"
    and v: "- (2 ^ 255) \<le> v" "v < 2 ^ 255"
    and T: "- (2 ^ 255) \<le> (\<Sum>b \<in> set (bp_posters t). bp_due t b) + v - bp_due t a"
      "(\<Sum>b \<in> set (bp_posters t). bp_due t b) + v - bp_due t a < 2 ^ 255"
  shows "\<exists>w'. SetFundsDue (poster_of K sto a) v w = (Ok (), w') \<and>
    bp_table K sto U w' (t\<lparr>bp_due := (bp_due t)(a := v)\<rparr>) \<and> w_balance w' = w_balance w \<and>
    (\<forall>x. x \<notin> bp_slots K sto U \<longrightarrow> sdb w' x = sdb w x)"
proof -
  note D = bp_tableD [OF t]
  let ?T = "(\<Sum>b \<in> set (bp_posters t). bp_due t b) + v - bp_due t a"
  obtain w' where w': "SetFundsDue (poster_of K sto a) v w = (Ok (), w')" "sys w'" "w_balance w' = w_balance w"
    "sdb w' = (sdb w)(NewSlot K sto 0 := tc256 ?T, NewSlot K (poster_space K sto a) 0 := tc256 v)"
    using D(2) D(4) D(6) [OF a]
    by (simp add: SetFundsDue_def run_simps BigSub_def BigAdd_def big_at_def)
  have "sint (tc256 ?T) = ?T" "sint (tc256 v) = v"
    unfolding sint_tc256 using v T by (simp_all add: clamp_def)
  from bp_table_set_due [OF t a w'(2,4) this] w' D(5) [OF a] show ?thesis
    by (auto simp: bp_slots_def)
qed

lemma AddPoster_run:
  assumes t: "bp_table K sto U w t" and a: "a \<in> U" "a \<notin> set (bp_posters t)" and len: "Suc (length (bp_posters t)) < 2 ^ 64"
  shows "\<exists>w'. AddPoster K (OpenBatchPostersTable K sto) a p w = (Ok (poster_of K sto a), w') \<and>
    bp_table K sto U w' \<lparr>bp_posters = bp_posters t @ [a], bp_due = (bp_due t)(a := 0), bp_pay = (bp_pay t)(a := p)\<rparr> \<and>
    w_balance w' = w_balance w \<and> (\<forall>x. x \<notin> bp_slots K sto U \<longrightarrow> sdb w' x = sdb w x)"
proof -
  note D = bp_tableD [OF t] and F = bp_freeD [OF bp_tableD(1) [OF t]]
  note G = F(3-7) [THEN not_sym]
  let ?pa = "addrs_space K sto" and ?d = "NewSlot K (poster_space K sto a) 0" and ?p = "NewSlot K (poster_space K sto a) 1"
  let ?w1 = "charge (writeCost (AddressToHash p)) (upd ?d 0 (charge (writeCost 0) (charge StorageReadCost w)))"
  let ?w2 = "upd ?p (AddressToHash p) ?w1"
  have w2: "sys ?w2" "sdb ?w2 = (sdb w)(?d := 0, ?p := AddressToHash p)" using D(2) by simp_all
  have ix: "aset K U ?pa ?w2 (bp_posters t)"
    by (rule indexed_same [OF D(3) w2(1)]) (use a in \<open>simp_all add: w2(2) F G\<close>)
  from AddressSet_Add_new [OF ix a len] obtain w3 where
    w3: "AddressSet_Add K (OpenAddressSet K ?pa) a ?w2 = (Ok (), w3)" "aset K U ?pa w3 (bp_posters t @ [a])"
      "w_balance w3 = w_balance ?w2"
    and rest: "\<And>x. x \<notin> range (NewSlot K ?pa) \<Longrightarrow> x \<noteq> sub_slot K ?pa [0] a \<Longrightarrow> sdb w3 x = sdb ?w2 x"
    by blast
  have run: "AddPoster K (OpenBatchPostersTable K sto) a p w = (Ok (poster_of K sto a), w3)"
    using D(2) w3(1) a(2)
    by (simp add: AddPoster_def AddressSet_IsMember_aset [OF D(3) a(1)] Let_def run_simps)
  have s: "sdb w3 (NewSlot K sto 0) = sdb w (NewSlot K sto 0)"
    "b \<in> U \<Longrightarrow> sdb w3 (NewSlot K (poster_space K sto b) i) = sdb ?w2 (NewSlot K (poster_space K sto b) i)" for b i
    using a by (simp_all add: rest image_iff F G)
  have same: "b \<in> U \<Longrightarrow> b \<noteq> a \<Longrightarrow> sdb ?w2 (NewSlot K (poster_space K sto b) i) = sdb w (NewSlot K (poster_space K sto b) i)" for b i
    using a(1) by (simp add: F(2))
  have "bp_table K sto U w3 \<lparr>bp_posters = bp_posters t @ [a], bp_due = (bp_due t)(a := 0), bp_pay = (bp_pay t)(a := p)\<rparr>"
    unfolding bp_table_def bp_abs.simps
  proof (intro conjI ballI)
    show "big_at w3 (NewSlot K sto 0) = (\<Sum>b \<in> set (bp_posters t @ [a]). ((bp_due t)(a := 0)) b)"
      using D(4) a(2) by (simp add: big_at_def s) (rule sum.cong, auto)
    fix b assume b: "b \<in> set (bp_posters t @ [a])"
    then have bU: "b \<in> U" using D(5) a(1) by auto
    show "big_at w3 (NewSlot K (poster_space K sto b) 0) = ((bp_due t)(a := 0)) b"
      and "sdb w3 (NewSlot K (poster_space K sto b) 1) = AddressToHash (((bp_pay t)(a := p)) b)"
      using b bU same D(6,7) a by (cases "b = a"; simp add: big_at_def s F(2))+
  qed (fact D(1) w3(2))+
  moreover have "sdb w3 x = sdb w x" if "x \<notin> bp_slots K sto U" for x
  proof -
    have "x \<notin> range (NewSlot K ?pa)" "x \<noteq> sub_slot K ?pa [0] a" "x \<noteq> ?d" "x \<noteq> ?p"
      using that a(1) unfolding bp_slots_def by blast+
    then show ?thesis using rest [of x] by (simp add: w2(2))
  qed
  ultimately show ?thesis using run w3(3) by simp
qed

lemma OpenPoster_run:
  assumes t: "bp_table K sto U w t" and a: "a \<in> U" and len: "Suc (length (bp_posters t)) < 2 ^ 64"
  shows "\<exists>w'. OpenPoster K (OpenBatchPostersTable K sto) a True w = (Ok (poster_of K sto a), w') \<and>
    bp_table K sto U w' (if a \<in> set (bp_posters t) then t else
      \<lparr>bp_posters = bp_posters t @ [a], bp_due = (bp_due t)(a := 0), bp_pay = (bp_pay t)(a := a)\<rparr>) \<and>
    w_balance w' = w_balance w \<and> (\<forall>x. x \<notin> bp_slots K sto U \<longrightarrow> sdb w' x = sdb w x)"
proof -
  note D = bp_tableD [OF t]
  note mem = AddressSet_IsMember_aset [OF D(3) a]
  have c: "bp_table K sto U (charge StorageReadCost w) t" using D(2) by (intro bp_table_same [OF t]) simp_all
  show ?thesis
  proof (cases "a \<in> set (bp_posters t)")
    case True
    with c show ?thesis by (simp add: OpenPoster_def mem run_simps)
  next
    case False
    from AddPoster_run [OF c a False len, of a] obtain w' where
      w': "AddPoster K (OpenBatchPostersTable K sto) a a (charge StorageReadCost w) = (Ok (poster_of K sto a), w')"
      "bp_table K sto U w' \<lparr>bp_posters = bp_posters t @ [a], bp_due = (bp_due t)(a := 0), bp_pay = (bp_pay t)(a := a)\<rparr>"
      "w_balance w' = w_balance w" "\<And>x. x \<notin> bp_slots K sto U \<Longrightarrow> sdb w' x = sdb w x"
      by auto
    with False show ?thesis by (auto simp: OpenPoster_def mem run_simps)
  qed
qed

lemma GetFundsDueList_loop_run:
  "bp_table K sto U w t \<Longrightarrow> set xs \<subseteq> set (bp_posters t) \<Longrightarrow>
     \<exists>w'. GetFundsDueList_loop K (OpenBatchPostersTable K sto) xs w =
       (Ok (map (\<lambda>a. \<lparr>dueTo = a, fdi_balance = bp_due t a\<rparr>) (filter (\<lambda>a. bp_due t a > 0) xs)), w')"
proof (induction xs arbitrary: w)
  case Nil
  then show ?case by simp
next
  case (Cons a xs)
  note D = bp_tableD [OF Cons.prems(1)]
  have a: "a \<in> set (bp_posters t)" "a \<in> U" using Cons.prems(2) D(5) by auto
  let ?w = "charge StorageReadCost (charge StorageReadCost w)"
  have "bp_table K sto U ?w t" using D(2) by (intro bp_table_same [OF Cons.prems(1)]) simp_all
  from Cons.IH [OF this] Cons.prems(2) obtain w' where
    "GetFundsDueList_loop K (OpenBatchPostersTable K sto) xs ?w =
      (Ok (map (\<lambda>a. \<lparr>dueTo = a, fdi_balance = bp_due t a\<rparr>) (filter (\<lambda>a. bp_due t a > 0) xs)), w')" by auto
  moreover have "big_at (charge StorageReadCost w) (NewSlot K (poster_space K sto a) 0) = bp_due t a"
    using D(6) [OF a(1)] by (simp add: big_at_def)
  ultimately show ?case
    using D(2) a by (simp add: OpenPoster_def AddressSet_IsMember_aset [OF D(3) a(2)] FundsDue_def run_simps)
qed

lemma GetFundsDueList_run:
  assumes t: "bp_table K sto U w t"
  shows "\<exists>w'. GetFundsDueList K (OpenBatchPostersTable K sto) w =
    (Ok (map (\<lambda>a. \<lparr>dueTo = a, fdi_balance = bp_due t a\<rparr>) (filter (\<lambda>a. bp_due t a > 0) (bp_posters t))), w')"
proof -
  note D = bp_tableD [OF t]
  have "unat (NOT 0 :: u64) = 2 ^ 64 - 1" by (subst unat_NOT_0) simp
  then have all: "take (unat (NOT 0 :: u64)) (bp_posters t) = bp_posters t"
    using indexedD(5) [OF D(3)] by (intro take_all) simp
  obtain w1 where w1: "AddressSet_AllMembers K (OpenAddressSet K (addrs_space K sto)) (NOT 0) w = (Ok (bp_posters t), w1)"
    "aset K U (addrs_space K sto) w1 (bp_posters t)" and same: "sdb w1 = sdb w"
    using AddressSet_AllMembers_aset [OF D(3), of "NOT 0", unfolded all] by blast
  have "bp_table K sto U w1 t" using indexedD(2) [OF w1(2)] same by (intro bp_table_same [OF t]) simp_all
  from GetFundsDueList_loop_run [OF this subset_refl] w1(1) show ?thesis
    by (auto simp: GetFundsDueList_def AllPosters_def bindM_Ok)
qed

text \<open>
  C22: the table of batch posters. The stored total is the sum of what is due to the posters, and the
  funds due are listed as they are. Opening an unknown poster fails or creates it with nothing due,
  adding a known one fails, and setting what is due to a poster changes its entry and the total alike
  and no other entry, short of saturation.
\<close>

theorem batch_poster_table:
  assumes t: "bp_table K sto U w t" and a: "a \<in> U" and len: "Suc (length (bp_posters t)) < 2 ^ 64"
  shows "fst (TotalFundsDue (OpenBatchPostersTable K sto) w) = Ok (\<Sum>b \<in> set (bp_posters t). bp_due t b) \<and>
    fst (GetFundsDueList K (OpenBatchPostersTable K sto) w) =
      Ok (map (\<lambda>b. \<lparr>dueTo = b, fdi_balance = bp_due t b\<rparr>) (filter (\<lambda>b. bp_due t b > 0) (bp_posters t))) \<and>
    (a \<notin> set (bp_posters t) \<longrightarrow>
       fst (OpenPoster K (OpenBatchPostersTable K sto) a False w) = Err ErrNotExist \<and>
       (\<exists>w'. OpenPoster K (OpenBatchPostersTable K sto) a True w = (Ok (poster_of K sto a), w') \<and>
         bp_table K sto U w' \<lparr>bp_posters = bp_posters t @ [a], bp_due = (bp_due t)(a := 0), bp_pay = (bp_pay t)(a := a)\<rparr>)) \<and>
    (a \<in> set (bp_posters t) \<longrightarrow>
       fst (AddPoster K (OpenBatchPostersTable K sto) a p w) = Err ErrAlreadyExists \<and>
       fst (FundsDue (poster_of K sto a) w) = Ok (bp_due t a) \<and>
       (\<forall>v. \<bar>v\<bar> < 2 ^ 254 \<and> \<bar>(\<Sum>b \<in> set (bp_posters t). bp_due t b) - bp_due t a\<bar> < 2 ^ 254 \<longrightarrow>
         (\<exists>w'. SetFundsDue (poster_of K sto a) v w = (Ok (), w') \<and>
            bp_table K sto U w' (t\<lparr>bp_due := (bp_due t)(a := v)\<rparr>))))"
proof -
  note D = bp_tableD [OF t]
  note mem = AddressSet_IsMember_aset [OF D(3) a]
  have total: "fst (TotalFundsDue (OpenBatchPostersTable K sto) w) = Ok (\<Sum>b \<in> set (bp_posters t). bp_due t b)"
    using D(2,4) by (simp add: TotalFundsDue_def run_simps)
  have dues: "fst (GetFundsDueList K (OpenBatchPostersTable K sto) w) =
      Ok (map (\<lambda>b. \<lparr>dueTo = b, fdi_balance = bp_due t b\<rparr>) (filter (\<lambda>b. bp_due t b > 0) (bp_posters t)))"
    using GetFundsDueList_run [OF t] by auto
  have new: "fst (OpenPoster K (OpenBatchPostersTable K sto) a False w) = Err ErrNotExist \<and>
       (\<exists>w'. OpenPoster K (OpenBatchPostersTable K sto) a True w = (Ok (poster_of K sto a), w') \<and>
         bp_table K sto U w' \<lparr>bp_posters = bp_posters t @ [a], bp_due = (bp_due t)(a := 0), bp_pay = (bp_pay t)(a := a)\<rparr>)"
    if "a \<notin> set (bp_posters t)"
    using OpenPoster_run [OF t a len] that by (auto simp: OpenPoster_def [of _ _ _ False] mem run_simps)
  have old: "fst (AddPoster K (OpenBatchPostersTable K sto) a p w) = Err ErrAlreadyExists"
    "fst (FundsDue (poster_of K sto a) w) = Ok (bp_due t a)" if "a \<in> set (bp_posters t)"
    using that D(2) D(6) [OF that] by (simp_all add: AddPoster_def FundsDue_def mem run_simps)
  have set: "\<exists>w'. SetFundsDue (poster_of K sto a) v w = (Ok (), w') \<and> bp_table K sto U w' (t\<lparr>bp_due := (bp_due t)(a := v)\<rparr>)"
    if "a \<in> set (bp_posters t)" "\<bar>v\<bar> < 2 ^ 254" "\<bar>(\<Sum>b \<in> set (bp_posters t). bp_due t b) - bp_due t a\<bar> < 2 ^ 254" for v
  proof -
    have "- (2 ^ 254) < v" "v < 2 ^ 254" "- (2 ^ 254) < (\<Sum>b \<in> set (bp_posters t). bp_due t b) - bp_due t a"
      "(\<Sum>b \<in> set (bp_posters t). bp_due t b) - bp_due t a < 2 ^ 254"
      using that(2,3) by (simp_all add: abs_less_iff)
    then show ?thesis using SetFundsDue_run [OF t that(1), of v] by auto
  qed
  show ?thesis using total dues new old set by blast
qed

lemma deep_keys:
  "storageKey deepStorage = map of_nat [10 ..< 42]"
  "storageKey (addrs_space toyK deepStorage) = 0 # map of_nat (rev [12 ..< 42]) @ [1]"
  "storageKey (OpenSubStorage toyK (addrs_space toyK deepStorage) [0]) = 0 # 1 # map of_nat [12 ..< 41] @ [1]"
  "storageKey (poster_space toyK deepStorage 5) = 5 # replicate 19 0 @ 1 # map of_nat [12 ..< 22] @ [1]"
  by code_simp+

lemma toyK_bp_free: "bp_free toyK deepStorage {5}"
proof -
  let ?ks = "[storageKey deepStorage, storageKey (addrs_space toyK deepStorage),
    storageKey (OpenSubStorage toyK (addrs_space toyK deepStorage) [0]), storageKey (poster_space toyK deepStorage 5)]"
  have d: "distinct (map (take 12) ?ks)" unfolding deep_keys by code_simp
  have fst: "fst ` bp_keys toyK deepStorage {5} = set ?ks" by (auto simp: bp_keys_def uint_keys_def image_Un image_iff)
  have "collision_free toyK (bp_keys toyK deepStorage {5})"
  proof (rule toyK_collision_free)
    show "inj_on (take 12) (fst ` bp_keys toyK deepStorage {5})" unfolding fst using d by (rule distinct_map [THEN iffD1, THEN conjunct2])
    fix sk k assume k: "(sk, k) \<in> bp_keys toyK deepStorage {5}"
    then have "sk \<in> set ?ks" unfolding fst [symmetric] by force
    then have "length sk = 32" by (auto simp: deep_keys)
    moreover have "unat (UintToHash n) < 2 ^ 160" for n by (simp, rule less_trans [OF unat_u64_bound], simp)
    moreover have "unat (AddressToHash a) < 2 ^ 160" for a
      using unat_less_2p [of a] by (simp add: AddressToHash_ucast unat_ucast_bound)
    then have "unat k < 2 ^ 160" using k \<open>\<And>n. unat (UintToHash n) < 2 ^ 160\<close> by (auto simp: bp_keys_def uint_keys_def)
    ultimately show "length sk = 32 \<and> unat k < 2 ^ 160" by blast
  qed
  moreover have "distinct ?ks" using d by (rule distinct_map [THEN iffD1, THEN conjunct1])
  ultimately show ?thesis by (auto simp: bp_free_def)
qed

lemma blank_bp: "bp_table toyK deepStorage {5} blank \<lparr>bp_posters = [], bp_due = \<lambda>_. 0, bp_pay = \<lambda>_. 0\<rparr>"
  using bp_freeD(8) [OF toyK_bp_free] toyK_bp_free
  by (simp add: bp_table_def indexed_def big_at_def)

theorem batch_poster_table_witness:
  "\<exists>w'. OpenPoster toyK (OpenBatchPostersTable toyK deepStorage) 5 True blank = (Ok (poster_of toyK deepStorage 5), w')"
  using batch_poster_table [OF blank_bp, of 5] by fastforce

end
