(* ===== verification/L1Pricing.thy ===== *)
theory L1Pricing
  imports BatchPoster
begin

text \<open>
  \<^verbatim>\<open>arbos/l1pricing\<close>: the price of L1 calldata. \<^verbatim>\<open>l1pricing.go\<close> keeps the pricing parameters and
  variables, charges transactions for their compressed size, and settles with a batch poster that
  reports its spending; \<^verbatim>\<open>l1PricingOldVersions.go\<close> keeps the settlement of earlier ArbOS versions. The
  transaction encoder and the compressor are parameters. The lemmas relate storage to the values it
  holds (\<open>l1_rel\<close>) and show what a settlement does to them.
\<close>

section \<open>Definitions\<close>

record L1PricingState =
  batchPosterTable :: BatchPostersTable
  l1_payRewardsTo :: StorageSlot
  l1_equilibrationUnits :: StorageSlot
  l1_inertia :: StorageSlot
  l1_perUnitReward :: StorageSlot
  l1_lastUpdateTime :: StorageSlot
  l1_fundsDueForRewards :: StorageSlot
  l1_unitsSinceUpdate :: StorageSlot
  l1_pricePerUnit :: StorageSlot
  l1_lastSurplus :: StorageSlot
  l1_perBatchGasCost :: StorageSlot
  l1_amortizedCostCapBips :: StorageSlot
  l1_l1FeesAvailable :: StorageSlot

definition BatchPosterTableKey :: bytes where "BatchPosterTableKey = [0]"

definition BatchPosterAddress :: address where
  "BatchPosterAddress = 0xA4B000000000000000000073657175656e636572"

definition BatchPosterPayToAddress :: address where
  "BatchPosterPayToAddress = BatchPosterAddress"

definition L1PricerFundsPoolAddress :: address where
  "L1PricerFundsPoolAddress = 0xA4B00000000000000000000000000000000000f6"

definition ErrInvalidTime :: go_error where
  "ErrInvalidTime = ErrMsg ''invalid timestamp''"

definition ErrInsufficientFunds :: go_error where
  "ErrInsufficientFunds = ErrMsg ''core.ErrInsufficientFunds''"

definition payRewardsToOffset :: u64 where "payRewardsToOffset = 0"
definition equilibrationUnitsOffset :: u64 where "equilibrationUnitsOffset = 1"
definition inertiaOffset :: u64 where "inertiaOffset = 2"
definition perUnitRewardOffset :: u64 where "perUnitRewardOffset = 3"
definition lastUpdateTimeOffset :: u64 where "lastUpdateTimeOffset = 4"
definition fundsDueForRewardsOffset :: u64 where "fundsDueForRewardsOffset = 5"
definition unitsSinceOffset :: u64 where "unitsSinceOffset = 6"
definition pricePerUnitOffset :: u64 where "pricePerUnitOffset = 7"
definition lastSurplusOffset :: u64 where "lastSurplusOffset = 8"
definition perBatchGasCostOffset :: u64 where "perBatchGasCostOffset = 9"
definition amortizedCostCapBipsOffset :: u64 where "amortizedCostCapBipsOffset = 10"
definition l1FeesAvailableOffset :: u64 where "l1FeesAvailableOffset = 11"

definition InitialInertia :: u64 where "InitialInertia = 10"
definition InitialPerUnitReward :: u64 where "InitialPerUnitReward = 10"
definition InitialPerBatchGasCostV6 :: i64 where "InitialPerBatchGasCostV6 = 100000"
definition InitialPerBatchGasCostV12 :: i64 where "InitialPerBatchGasCostV12 = 210000"
definition InitialEquilibrationUnitsV0 :: int where
  "InitialEquilibrationUnitsV0 = UintToBig (60 * TxDataNonZeroGasEIP2028 * 100000)"

definition InitialEquilibrationUnitsV6 :: int where
  "InitialEquilibrationUnitsV6 = UintToBig (TxDataNonZeroGasEIP2028 * 10000000)"

definition InitializeL1PricingState :: "(bytes \<Rightarrow> bytes) \<Rightarrow> Storage \<Rightarrow> address \<Rightarrow> int \<Rightarrow> unit arb" where
  "InitializeL1PricingState K sto initialRewardsRecipient initialL1BaseFee =
     (let bptStorage = OpenCachedSubStorage K sto BatchPosterTableKey in
     thenM (InitializeBatchPostersTable K bptStorage)
    (bindM (AddPoster K (OpenBatchPostersTable K bptStorage) BatchPosterAddress BatchPosterPayToAddress) (\<lambda>_.
     thenM (SetByUint64 K sto payRewardsToOffset (AddressToHash initialRewardsRecipient))
    (thenM (StorageBackedBigUint_SetChecked (OpenStorageBackedBigUint K sto equilibrationUnitsOffset) InitialEquilibrationUnitsV0)
    (thenM (SetUint64ByUint64 K sto inertiaOffset InitialInertia)
    (thenM (StorageBackedBigInt_SetChecked (OpenStorageBackedBigInt K sto fundsDueForRewardsOffset) 0)
    (thenM (SetUint64ByUint64 K sto perUnitRewardOffset InitialPerUnitReward)
       (StorageBackedBigInt_SetSaturatingWithWarning (OpenStorageBackedBigInt K sto pricePerUnitOffset) initialL1BaseFee))))))))"

definition OpenL1PricingState :: "(bytes \<Rightarrow> bytes) \<Rightarrow> Storage \<Rightarrow> L1PricingState" where
  "OpenL1PricingState K sto =
     \<lparr>batchPosterTable = OpenBatchPostersTable K (OpenCachedSubStorage K sto BatchPosterTableKey),
      l1_payRewardsTo = OpenStorageBackedAddress K sto payRewardsToOffset,
      l1_equilibrationUnits = OpenStorageBackedBigUint K sto equilibrationUnitsOffset,
      l1_inertia = OpenStorageBackedUint64 K sto inertiaOffset,
      l1_perUnitReward = OpenStorageBackedUint64 K sto perUnitRewardOffset,
      l1_lastUpdateTime = OpenStorageBackedUint64 K sto lastUpdateTimeOffset,
      l1_fundsDueForRewards = OpenStorageBackedBigInt K sto fundsDueForRewardsOffset,
      l1_unitsSinceUpdate = OpenStorageBackedUint64 K sto unitsSinceOffset,
      l1_pricePerUnit = OpenStorageBackedBigUint K sto pricePerUnitOffset,
      l1_lastSurplus = OpenStorageBackedBigInt K sto lastSurplusOffset,
      l1_perBatchGasCost = OpenStorageBackedInt64 K sto perBatchGasCostOffset,
      l1_amortizedCostCapBips = OpenStorageBackedUint64 K sto amortizedCostCapBipsOffset,
      l1_l1FeesAvailable = OpenStorageBackedBigUint K sto l1FeesAvailableOffset\<rparr>"

definition PayRewardsTo :: "L1PricingState \<Rightarrow> address arb" where
  "PayRewardsTo ps = StorageBackedAddress_Get (l1_payRewardsTo ps)"

definition SetPayRewardsTo :: "L1PricingState \<Rightarrow> address \<Rightarrow> unit arb" where
  "SetPayRewardsTo ps addr = StorageBackedAddress_Set (l1_payRewardsTo ps) addr"

definition EquilibrationUnits :: "L1PricingState \<Rightarrow> int arb" where
  "EquilibrationUnits ps = StorageBackedBigUint_Get (l1_equilibrationUnits ps)"

definition SetEquilibrationUnits :: "L1PricingState \<Rightarrow> int \<Rightarrow> unit arb" where
  "SetEquilibrationUnits ps equilUnits = StorageBackedBigUint_SetChecked (l1_equilibrationUnits ps) equilUnits"

definition Inertia :: "L1PricingState \<Rightarrow> u64 arb" where
  "Inertia ps = StorageBackedUint64_Get (l1_inertia ps)"

definition SetInertia :: "L1PricingState \<Rightarrow> u64 \<Rightarrow> unit arb" where
  "SetInertia ps inertia = StorageBackedUint64_Set (l1_inertia ps) inertia"

definition PerUnitReward :: "L1PricingState \<Rightarrow> u64 arb" where
  "PerUnitReward ps = StorageBackedUint64_Get (l1_perUnitReward ps)"

definition SetPerUnitReward :: "L1PricingState \<Rightarrow> u64 \<Rightarrow> unit arb" where
  "SetPerUnitReward ps weiPerUnit = StorageBackedUint64_Set (l1_perUnitReward ps) weiPerUnit"

definition LastUpdateTime :: "L1PricingState \<Rightarrow> u64 arb" where
  "LastUpdateTime ps = StorageBackedUint64_Get (l1_lastUpdateTime ps)"

definition SetLastUpdateTime :: "L1PricingState \<Rightarrow> u64 \<Rightarrow> unit arb" where
  "SetLastUpdateTime ps t = StorageBackedUint64_Set (l1_lastUpdateTime ps) t"

definition FundsDueForRewards :: "L1PricingState \<Rightarrow> int arb" where
  "FundsDueForRewards ps = StorageBackedBigInt_Get (l1_fundsDueForRewards ps)"

definition SetFundsDueForRewards :: "L1PricingState \<Rightarrow> int \<Rightarrow> unit arb" where
  "SetFundsDueForRewards ps amt = StorageBackedBigInt_SetSaturatingWithWarning (l1_fundsDueForRewards ps) amt"

definition UnitsSinceUpdate :: "L1PricingState \<Rightarrow> u64 arb" where
  "UnitsSinceUpdate ps = StorageBackedUint64_Get (l1_unitsSinceUpdate ps)"

definition SetUnitsSinceUpdate :: "L1PricingState \<Rightarrow> u64 \<Rightarrow> unit arb" where
  "SetUnitsSinceUpdate ps units = StorageBackedUint64_Set (l1_unitsSinceUpdate ps) units"

definition L1FeesAvailable :: "L1PricingState \<Rightarrow> int arb" where
  "L1FeesAvailable ps = StorageBackedBigUint_Get (l1_l1FeesAvailable ps)"

definition GetL1PricingSurplus :: "L1PricingState \<Rightarrow> int arb" where
  "GetL1PricingSurplus ps =
     bindM (TotalFundsDue (batchPosterTable ps)) (\<lambda>fundsDueForRefunds.
     bindM (FundsDueForRewards ps) (\<lambda>fundsDueForRewards.
     bindM (L1FeesAvailable ps) (\<lambda>haveFunds.
       returnM (BigSub haveFunds (BigAdd fundsDueForRefunds fundsDueForRewards)))))"

definition LastSurplus :: "L1PricingState \<Rightarrow> int arb" where
  "LastSurplus ps = StorageBackedBigInt_Get (l1_lastSurplus ps)"

definition SetLastSurplus :: "L1PricingState \<Rightarrow> int \<Rightarrow> u64 \<Rightarrow> unit arb" where
  "SetLastSurplus ps val arbosVersion =
     (if arbosVersion < 7 then StorageBackedBigInt_Set_preVersion7 (l1_lastSurplus ps) val
      else StorageBackedBigInt_SetSaturatingWithWarning (l1_lastSurplus ps) val)"

definition AddToUnitsSinceUpdate :: "L1PricingState \<Rightarrow> u64 \<Rightarrow> unit arb" where
  "AddToUnitsSinceUpdate ps units =
     bindM (StorageBackedUint64_Get (l1_unitsSinceUpdate ps)) (\<lambda>oldUnits.
       StorageBackedUint64_Set (l1_unitsSinceUpdate ps) (oldUnits + units))"

definition PricePerUnit :: "L1PricingState \<Rightarrow> int arb" where
  "PricePerUnit ps = StorageBackedBigUint_Get (l1_pricePerUnit ps)"

definition SetPricePerUnit :: "L1PricingState \<Rightarrow> int \<Rightarrow> unit arb" where
  "SetPricePerUnit ps price = StorageBackedBigUint_SetChecked (l1_pricePerUnit ps) price"

definition PerBatchGasCost :: "L1PricingState \<Rightarrow> i64 arb" where
  "PerBatchGasCost ps = StorageBackedInt64_Get (l1_perBatchGasCost ps)"

definition SetPerBatchGasCost :: "L1PricingState \<Rightarrow> i64 \<Rightarrow> unit arb" where
  "SetPerBatchGasCost ps cost = StorageBackedInt64_Set (l1_perBatchGasCost ps) cost"

definition AmortizedCostCapBips :: "L1PricingState \<Rightarrow> u64 arb" where
  "AmortizedCostCapBips ps = StorageBackedUint64_Get (l1_amortizedCostCapBips ps)"

definition SetAmortizedCostCapBips :: "L1PricingState \<Rightarrow> u64 \<Rightarrow> unit arb" where
  "SetAmortizedCostCapBips ps cap = StorageBackedUint64_Set (l1_amortizedCostCapBips ps) cap"

definition SetL1FeesAvailable :: "L1PricingState \<Rightarrow> int \<Rightarrow> unit arb" where
  "SetL1FeesAvailable ps val = StorageBackedBigUint_SetChecked (l1_l1FeesAvailable ps) val"

definition AddToL1FeesAvailable :: "L1PricingState \<Rightarrow> int \<Rightarrow> int arb" where
  "AddToL1FeesAvailable ps delta =
     bindM (L1FeesAvailable ps) (\<lambda>old. thenM (SetL1FeesAvailable ps (old + delta)) (returnM (old + delta)))"

definition TransferFromL1FeesAvailable :: "L1PricingState \<Rightarrow> address \<Rightarrow> int \<Rightarrow> int arb" where
  "TransferFromL1FeesAvailable ps recipient amount =
     thenM (TransferBalance (Some L1PricerFundsPoolAddress) (Some recipient) amount)
    (bindM (L1FeesAvailable ps) (\<lambda>old.
       let updated = old - amount in
       if updated < 0 then failM ErrInsufficientFunds
       else thenM (SetL1FeesAvailable ps updated) (returnM updated)))"

section \<open>Settling with a batch poster\<close>

text \<open>The parts of the settlement that the versions share, in the order of the source.\<close>

definition allocation :: "u64 \<Rightarrow> u64 \<Rightarrow> u64 \<Rightarrow> u64 \<times> u64" where
  "allocation lastUpdateTime updateTime currentTime =
     (let allocationNumerator = updateTime - lastUpdateTime;
          allocationDenominator = currentTime - lastUpdateTime
      in if allocationDenominator = 0 then (1, 1) else (allocationNumerator, allocationDenominator))"

definition firstUpdateTime :: "u64 \<Rightarrow> u64 \<Rightarrow> u64" where
  "firstUpdateTime lastUpdateTime updateTime =
     (if lastUpdateTime = 0 \<and> updateTime > 0 then updateTime - 1 else lastUpdateTime)"

definition capWeiSpent :: "L1PricingState \<Rightarrow> u64 \<Rightarrow> int \<Rightarrow> u64 \<Rightarrow> int \<Rightarrow> int arb" where
  "capWeiSpent ps arbosVersion l1Basefee unitsAllocated weiSpent =
     (if arbosVersion \<ge> 3 then
        bindM (AmortizedCostCapBips ps) (\<lambda>amortizedCostCapBips.
          if amortizedCostCapBips \<noteq> 0 then
            bindM (liftR (BigMulByBips (BigMulByUint l1Basefee unitsAllocated) (SaturatingCastToBips amortizedCostCapBips)))
              (\<lambda>weiSpentCap. returnM (if BigLessThan weiSpentCap weiSpent then weiSpentCap else weiSpent))
          else returnM weiSpent)
      else returnM weiSpent)"

definition adjustPrice :: "L1PricingState \<Rightarrow> u64 \<Rightarrow> u64 \<Rightarrow> int arb \<Rightarrow> unit arb" where
  "adjustPrice ps arbosVersion unitsAllocated getFunds =
     (if unitsAllocated > 0 then
        bindM (TotalFundsDue (batchPosterTable ps)) (\<lambda>totalDue.
        bindM (FundsDueForRewards ps) (\<lambda>fundsDueForRewards.
        bindM getFunds (\<lambda>funds.
        let surplus = BigSub funds (BigAdd totalDue fundsDueForRewards) in
        bindM (Inertia ps) (\<lambda>inertia.
        bindM (EquilibrationUnits ps) (\<lambda>equilUnits.
        bindM (liftR (BigDivByUint equilUnits inertia)) (\<lambda>inertiaUnits.
        bindM (PricePerUnit ps) (\<lambda>price.
        let allocPlusInert = BigAddByUint inertiaUnits unitsAllocated in
        bindM (LastSurplus ps) (\<lambda>oldSurplus.
        bindM (liftR (BigDiv (- surplus) equilUnits)) (\<lambda>desiredDerivative.
        bindM (liftR (BigDivByUint (BigSub surplus oldSurplus) unitsAllocated)) (\<lambda>actualDerivative.
        let changeDerivativeBy = BigSub desiredDerivative actualDerivative in
        bindM (liftR (BigDiv (BigMulByUint changeDerivativeBy unitsAllocated) allocPlusInert)) (\<lambda>priceChange.
        thenM (SetLastSurplus ps surplus arbosVersion)
          (let newPrice = BigAdd price priceChange in
           SetPricePerUnit ps (if newPrice < 0 then 0 else newPrice)))))))))))))
      else returnM ())"

text \<open>Before version 2: the funds and the price of an update, over all posters.\<close>

primrec preVersion2_settle_loop ::
  "(bytes \<Rightarrow> bytes) \<Rightarrow> BatchPostersTable \<Rightarrow> address list \<Rightarrow> int \<Rightarrow> unit arb" where
  "preVersion2_settle_loop K table [] availableFunds = returnM ()"
| "preVersion2_settle_loop K table (posterAddr # addrs) availableFunds =
     bindM (OpenPoster K table posterAddr False) (\<lambda>poster.
     bindM (FundsDue poster) (\<lambda>balanceDueToPoster.
       let balanceToTransfer = (if BigLessThan availableFunds balanceDueToPoster then availableFunds else balanceDueToPoster) in
       if balanceToTransfer > 0 then
         bindM (PayTo poster) (\<lambda>addrToPay.
         thenM (TransferBalance (Some L1PricerFundsPoolAddress) (Some addrToPay) balanceToTransfer)
        (thenM (SetFundsDue poster (BigSub balanceDueToPoster balanceToTransfer))
          (preVersion2_settle_loop K table addrs (BigSub availableFunds balanceToTransfer))))
       else preVersion2_settle_loop K table addrs availableFunds))"

definition preVersion2_adjustPrice :: "L1PricingState \<Rightarrow> u64 \<Rightarrow> int \<Rightarrow> unit arb" where
  "preVersion2_adjustPrice ps unitsAllocated oldSurplus =
     (if unitsAllocated > 0 then
        bindM (TotalFundsDue (batchPosterTable ps)) (\<lambda>totalDue.
        bindM (FundsDueForRewards ps) (\<lambda>fundsDueForRewards.
        bindM (GetBalance L1PricerFundsPoolAddress) (\<lambda>balance.
        let surplus = BigSub balance (BigAdd totalDue fundsDueForRewards) in
        bindM (Inertia ps) (\<lambda>inertia.
        bindM (EquilibrationUnits ps) (\<lambda>equilUnits.
        bindM (liftR (BigDivByUint equilUnits inertia)) (\<lambda>inertiaUnits.
        bindM (PricePerUnit ps) (\<lambda>price.
        let allocPlusInert = BigAddByUint inertiaUnits unitsAllocated in
        bindM (liftR (BigDiv
            (BigSub (BigMul surplus (BigSub equilUnits 1)) (BigMul oldSurplus equilUnits))
            (BigMul equilUnits allocPlusInert))) (\<lambda>priceChange.
          let newPrice = BigAdd price priceChange in
          SetPricePerUnit ps (if newPrice < 0 then 0 else newPrice)))))))))
      else returnM ())"

definition preVersion2_UpdateForBatchPosterSpending ::
  "(bytes \<Rightarrow> bytes) \<Rightarrow> L1PricingState \<Rightarrow> u64 \<Rightarrow> u64 \<Rightarrow> address \<Rightarrow> int \<Rightarrow> unit arb" where
  "preVersion2_UpdateForBatchPosterSpending K ps updateTime currentTime batchPoster weiSpent =
     bindM (OpenPoster K (batchPosterTable ps) batchPoster True) (\<lambda>posterState.
     bindM (TotalFundsDue (batchPosterTable ps)) (\<lambda>totalDue.
     bindM (FundsDueForRewards ps) (\<lambda>fundsDueForRewards.
     bindM (GetBalance L1PricerFundsPoolAddress) (\<lambda>oldBalance.
     let oldSurplus = BigSub oldBalance (BigAdd totalDue fundsDueForRewards) in
     bindM (LastUpdateTime ps) (\<lambda>lastTime.
     let lastUpdateTime = (if lastTime = 0 \<and> currentTime > 0 then updateTime - 1 else lastTime) in
     if updateTime \<ge> currentTime \<or> updateTime < lastUpdateTime then returnM ()
     else (case allocation lastUpdateTime updateTime currentTime of (allocationNumerator, allocationDenominator) \<Rightarrow>
     bindM (UnitsSinceUpdate ps) (\<lambda>unitsSinceUpdate.
     let unitsAllocated = unitsSinceUpdate * allocationNumerator div allocationDenominator in
     thenM (SetUnitsSinceUpdate ps (unitsSinceUpdate - unitsAllocated))
    (bindM (FundsDue posterState) (\<lambda>dueToPoster.
     thenM (SetFundsDue posterState (BigAdd dueToPoster weiSpent))
    (bindM (PerUnitReward ps) (\<lambda>perUnitReward.
     let fundsDueForRewards1 = BigAdd fundsDueForRewards (BigMulByUint (UintToBig unitsAllocated) perUnitReward) in
     thenM (SetFundsDueForRewards ps fundsDueForRewards1)
    (bindM (GetBalance L1PricerFundsPoolAddress) (\<lambda>collectedSinceUpdate.
     bindM (liftR (BigDivByUint (BigMulByUint collectedSinceUpdate allocationNumerator) allocationDenominator)) (\<lambda>availableFunds.
     let payment0 = BigMulByUint (UintToBig perUnitReward) unitsAllocated;
         paymentForRewards = (if BigLessThan availableFunds payment0 then availableFunds else payment0) in
     thenM (SetFundsDueForRewards ps (BigSub fundsDueForRewards1 paymentForRewards))
    (bindM (PayRewardsTo ps) (\<lambda>payRewardsTo.
     thenM (TransferBalance (Some L1PricerFundsPoolAddress) (Some payRewardsTo) paymentForRewards)
    (bindM (AllPosters K (batchPosterTable ps) (NOT 0)) (\<lambda>allPosterAddrs.
     thenM (preVersion2_settle_loop K (batchPosterTable ps) allPosterAddrs (BigSub availableFunds paymentForRewards))
    (thenM (SetLastUpdateTime ps updateTime)
       (preVersion2_adjustPrice ps unitsAllocated oldSurplus))))))))))))))))))))"

definition preversion10_UpdateForBatchPosterSpending ::
  "(bytes \<Rightarrow> bytes) \<Rightarrow> L1PricingState \<Rightarrow> u64 \<Rightarrow> u64 \<Rightarrow> u64 \<Rightarrow> address \<Rightarrow> int \<Rightarrow> int \<Rightarrow> unit arb" where
  "preversion10_UpdateForBatchPosterSpending K ps arbosVersion updateTime currentTime batchPoster weiSpent l1Basefee =
     (if arbosVersion < 2 then preVersion2_UpdateForBatchPosterSpending K ps updateTime currentTime batchPoster weiSpent else
     bindM (OpenPoster K (batchPosterTable ps) batchPoster True) (\<lambda>posterState.
     bindM (FundsDueForRewards ps) (\<lambda>fundsDueForRewards.
     bindM (LastUpdateTime ps) (\<lambda>lastTime.
     let lastUpdateTime = firstUpdateTime lastTime updateTime in
     if updateTime > currentTime \<or> updateTime < lastUpdateTime then failM ErrInvalidTime
     else (case allocation lastUpdateTime updateTime currentTime of (allocationNumerator, allocationDenominator) \<Rightarrow>
     bindM (UnitsSinceUpdate ps) (\<lambda>unitsSinceUpdate.
     let unitsAllocated = SaturatingUMul unitsSinceUpdate allocationNumerator div allocationDenominator in
     thenM (SetUnitsSinceUpdate ps (unitsSinceUpdate - unitsAllocated))
    (bindM (capWeiSpent ps arbosVersion l1Basefee unitsAllocated weiSpent) (\<lambda>spent.
     bindM (FundsDue posterState) (\<lambda>dueToPoster.
     thenM (SetFundsDue posterState (BigAdd dueToPoster spent))
    (bindM (PerUnitReward ps) (\<lambda>perUnitReward.
     let fundsDueForRewards1 = BigAdd fundsDueForRewards (BigMulByUint (UintToBig unitsAllocated) perUnitReward) in
     thenM (SetFundsDueForRewards ps fundsDueForRewards1)
    (bindM (GetBalance L1PricerFundsPoolAddress) (\<lambda>availableFunds.
     let payment0 = BigMulByUint (UintToBig perUnitReward) unitsAllocated;
         paymentForRewards = (if BigLessThan availableFunds payment0 then availableFunds else payment0) in
     thenM (SetFundsDueForRewards ps (BigSub fundsDueForRewards1 paymentForRewards))
    (bindM (PayRewardsTo ps) (\<lambda>payRewardsTo.
     thenM (TransferBalance (Some L1PricerFundsPoolAddress) (Some payRewardsTo) paymentForRewards)
    (bindM (GetBalance L1PricerFundsPoolAddress) (\<lambda>availableFunds1.
     bindM (FundsDue posterState) (\<lambda>balanceDueToPoster.
     let balanceToTransfer = (if BigLessThan availableFunds1 balanceDueToPoster then availableFunds1 else balanceDueToPoster) in
     thenM (if balanceToTransfer > 0 then
              bindM (PayTo posterState) (\<lambda>addrToPay.
              thenM (TransferBalance (Some L1PricerFundsPoolAddress) (Some addrToPay) balanceToTransfer)
                (SetFundsDue posterState (BigSub balanceDueToPoster balanceToTransfer)))
            else returnM ())
    (thenM (SetLastUpdateTime ps updateTime)
       (adjustPrice ps arbosVersion unitsAllocated (GetBalance L1PricerFundsPoolAddress)))))))))))))))))))))"

definition UpdateForBatchPosterSpending ::
  "(bytes \<Rightarrow> bytes) \<Rightarrow> L1PricingState \<Rightarrow> u64 \<Rightarrow> u64 \<Rightarrow> u64 \<Rightarrow> address \<Rightarrow> int \<Rightarrow> int \<Rightarrow> unit arb" where
  "UpdateForBatchPosterSpending K ps arbosVersion updateTime currentTime batchPoster weiSpent l1Basefee =
     (if arbosVersion < 10 then
        preversion10_UpdateForBatchPosterSpending K ps arbosVersion updateTime currentTime batchPoster weiSpent l1Basefee else
     bindM (OpenPoster K (batchPosterTable ps) batchPoster True) (\<lambda>posterState.
     bindM (FundsDueForRewards ps) (\<lambda>fundsDueForRewards.
     bindM (L1FeesAvailable ps) (\<lambda>l1FeesAvailable.
     bindM (LastUpdateTime ps) (\<lambda>lastTime.
     let lastUpdateTime = firstUpdateTime lastTime updateTime in
     if updateTime > currentTime \<or> updateTime < lastUpdateTime then failM ErrInvalidTime
     else (case allocation lastUpdateTime updateTime currentTime of (allocationNumerator, allocationDenominator) \<Rightarrow>
     bindM (UnitsSinceUpdate ps) (\<lambda>unitsSinceUpdate.
     let unitsAllocated = SaturatingUMul unitsSinceUpdate allocationNumerator div allocationDenominator in
     thenM (SetUnitsSinceUpdate ps (unitsSinceUpdate - unitsAllocated))
    (bindM (capWeiSpent ps arbosVersion l1Basefee unitsAllocated weiSpent) (\<lambda>spent.
     bindM (FundsDue posterState) (\<lambda>dueToPoster.
     thenM (SetFundsDue posterState (BigAdd dueToPoster spent))
    (bindM (PerUnitReward ps) (\<lambda>perUnitReward.
     let fundsDueForRewards1 = BigAdd fundsDueForRewards (BigMulByUint (UintToBig unitsAllocated) perUnitReward) in
     thenM (SetFundsDueForRewards ps fundsDueForRewards1)
    (let payment0 = BigMulByUint (UintToBig perUnitReward) unitsAllocated;
         paymentForRewards = (if BigLessThan l1FeesAvailable payment0 then l1FeesAvailable else payment0) in
     thenM (SetFundsDueForRewards ps (BigSub fundsDueForRewards1 paymentForRewards))
    (bindM (PayRewardsTo ps) (\<lambda>payRewardsTo.
     bindM (TransferFromL1FeesAvailable ps payRewardsTo paymentForRewards) (\<lambda>l1FeesAvailable1.
     bindM (FundsDue posterState) (\<lambda>balanceDueToPoster.
     let balanceToTransfer = (if BigLessThan l1FeesAvailable1 balanceDueToPoster then l1FeesAvailable1 else balanceDueToPoster) in
     bindM (if balanceToTransfer > 0 then
              bindM (PayTo posterState) (\<lambda>addrToPay.
              bindM (TransferFromL1FeesAvailable ps addrToPay balanceToTransfer) (\<lambda>available.
              thenM (SetFundsDue posterState (BigSub balanceDueToPoster balanceToTransfer)) (returnM available)))
            else returnM l1FeesAvailable1) (\<lambda>l1FeesAvailable2.
     thenM (SetLastUpdateTime ps updateTime)
       (adjustPrice ps arbosVersion unitsAllocated (returnM l1FeesAvailable2))))))))))))))))))))"

section \<open>Charging transactions for their size\<close>

text \<open>
  What the pricer sees of a transaction: its encoding, if it has one, its type, and the number of
  calldata units cached in it. The compressor and the encoder of dynamic-fee transactions are parameters.
\<close>

record poster_tx =
  tx_bytes :: "bytes option"
  tx_kind :: tx_type
  tx_CalldataUnits :: u64

definition byteCountAfterBrotliLevel :: "(bytes \<Rightarrow> u64 \<Rightarrow> bytes res) \<Rightarrow> bytes \<Rightarrow> u64 \<Rightarrow> u64 res" where
  "byteCountAfterBrotliLevel compress input level =
     bindR (compress input level) (\<lambda>compressed. Ok (of_nat (length compressed)))"

definition getPosterUnitsWithoutCache :: "(bytes \<Rightarrow> u64 \<Rightarrow> bytes res) \<Rightarrow> poster_tx \<Rightarrow> address \<Rightarrow> u64 \<Rightarrow> u64 res" where
  "getPosterUnitsWithoutCache compress tx posterAddr brotliCompressionLevel =
     (if posterAddr \<noteq> BatchPosterAddress then Ok 0
      else case tx_bytes tx of None \<Rightarrow> Ok 0
      | Some txBytes \<Rightarrow>
          if \<not> TxTypeHasPosterCosts (tx_kind tx) then Ok 0
          else case byteCountAfterBrotliLevel compress txBytes brotliCompressionLevel of
            Ok l1Bytes \<Rightarrow> Ok (l1Bytes * TxDataNonZeroGasEIP2028)
          | _ \<Rightarrow> Panic)"

text \<open>The result carries the transaction with its updated cache.\<close>

definition GetPosterInfo ::
  "(bytes \<Rightarrow> u64 \<Rightarrow> bytes res) \<Rightarrow> L1PricingState \<Rightarrow> poster_tx \<Rightarrow> address \<Rightarrow> u64 \<Rightarrow> (int \<times> u64 \<times> poster_tx) arb" where
  "GetPosterInfo compress ps tx poster brotliCompressionLevel =
     (if poster \<noteq> BatchPosterAddress then returnM (0, 0, tx) else
     bindM (if tx_CalldataUnits tx = 0 then liftR (getPosterUnitsWithoutCache compress tx poster brotliCompressionLevel)
            else returnM (tx_CalldataUnits tx)) (\<lambda>units.
     bindM (orM 0 (PricePerUnit ps)) (\<lambda>pricePerUnit.
       returnM (BigMulByUint pricePerUnit units, units, tx\<lparr>tx_CalldataUnits := units\<rparr>))))"

definition estimationPaddingUnits :: u64 where
  "estimationPaddingUnits = 16 * TxDataNonZeroGasEIP2028"

definition estimationPaddingBasisPoints :: Bips where
  "estimationPaddingBasisPoints = 100"

definition ascii :: "string \<Rightarrow> bytes" where
  "ascii s = map (\<lambda>c. of_char c) s"

definition randomNonce :: "(bytes \<Rightarrow> bytes) \<Rightarrow> u64" where
  "randomNonce K = of_nat (be_nat (take 8 (K (ascii ''Nonce''))))"

definition randomGasTipCap :: "(bytes \<Rightarrow> bytes) \<Rightarrow> int" where
  "randomGasTipCap K = int (be_nat (take 4 (K (ascii ''GasTipCap''))))"

definition randomGasFeeCap :: "(bytes \<Rightarrow> bytes) \<Rightarrow> int" where
  "randomGasFeeCap K = int (be_nat (take 4 (K (ascii ''GasFeeCap''))))"

definition RandomGas :: "(bytes \<Rightarrow> bytes) \<Rightarrow> u64" where
  "RandomGas K = of_nat (be_nat (take 4 (K (ascii ''Gas''))))"

record Message =
  msg_Tx :: "poster_tx option"
  msg_Nonce :: u64
  msg_GasTipCap :: int
  msg_GasFeeCap :: int
  msg_GasLimit :: u64
  msg_gasEstimation :: bool
  msg_To :: "address option"
  msg_Value :: int
  msg_Data :: bytes
  msg_AccessList :: "(address \<times> hash list) list"

record DynamicFeeTx =
  dft_Nonce :: u64
  dft_GasTipCap :: int
  dft_GasFeeCap :: int
  dft_Gas :: u64
  dft_To :: "address option"
  dft_Value :: int
  dft_Data :: bytes
  dft_AccessList :: "(address \<times> hash list) list"
  dft_V :: int
  dft_R :: int
  dft_S :: int

definition makeFakeTxForMessage :: "(bytes \<Rightarrow> bytes) \<Rightarrow> int \<Rightarrow> Message \<Rightarrow> DynamicFeeTx" where
  "makeFakeTxForMessage K arbitrumOneChainID message =
     \<lparr>dft_Nonce = (if msg_Nonce message = 0 then randomNonce K else msg_Nonce message),
      dft_GasTipCap = (if msg_GasTipCap message = 0 then randomGasTipCap K else msg_GasTipCap message),
      dft_GasFeeCap = (if msg_GasFeeCap message = 0 then randomGasFeeCap K else msg_GasFeeCap message),
      dft_Gas = (if msg_GasLimit message = 0 \<or> msg_gasEstimation message then RandomGas K else msg_GasLimit message),
      dft_To = msg_To message, dft_Value = msg_Value message, dft_Data = msg_Data message,
      dft_AccessList = msg_AccessList message, dft_V = BigMulByUint arbitrumOneChainID 3,
      dft_R = uint (bytes_hash (K (ascii ''R''))), dft_S = uint (bytes_hash (K (ascii ''S'')))\<rparr>"

text \<open>The result carries the message, whose transaction keeps the units once they are computed.\<close>

definition PosterDataCost ::
  "(bytes \<Rightarrow> bytes) \<Rightarrow> (bytes \<Rightarrow> u64 \<Rightarrow> bytes res) \<Rightarrow> (DynamicFeeTx \<Rightarrow> bytes option) \<Rightarrow> int \<Rightarrow>
   L1PricingState \<Rightarrow> Message \<Rightarrow> address \<Rightarrow> u64 \<Rightarrow> (int \<times> u64 \<times> Message) arb" where
  "PosterDataCost K compress marshal arbitrumOneChainID ps message poster brotliCompressionLevel =
     (case msg_Tx message of
        Some tx \<Rightarrow> bindM (GetPosterInfo compress ps tx poster brotliCompressionLevel) (\<lambda>(cost, units, tx').
          returnM (cost, units, message\<lparr>msg_Tx := Some tx'\<rparr>))
      | None \<Rightarrow>
          let tx = \<lparr>tx_bytes = marshal (makeFakeTxForMessage K arbitrumOneChainID message), tx_kind = DynamicFeeTxType,
                    tx_CalldataUnits = 0\<rparr> in
          bindM (liftR (getPosterUnitsWithoutCache compress tx poster brotliCompressionLevel)) (\<lambda>units0.
          let units = UintMulByBips (units0 + estimationPaddingUnits) (OneInBips + estimationPaddingBasisPoints) in
          bindM (orM 0 (PricePerUnit ps)) (\<lambda>pricePerUnit.
            returnM (BigMulByUint pricePerUnit units, units, message))))"

section \<open>What storage holds\<close>

abbreviation bpt_space :: "(bytes \<Rightarrow> bytes) \<Rightarrow> Storage \<Rightarrow> Storage" where
  "bpt_space K sto \<equiv> OpenCachedSubStorage K sto [0]"

definition l1_free :: "(bytes \<Rightarrow> bytes) \<Rightarrow> Storage \<Rightarrow> address set \<Rightarrow> bool" where
  "l1_free K sto U \<longleftrightarrow>
     collision_free K (uint_keys sto \<union> bp_keys K (bpt_space K sto) U) \<and>
     storageKey sto \<notin> fst ` bp_keys K (bpt_space K sto) U"

text \<open>
  The table \<open>t\<close> of batch posters and the words \<open>L\<close> in the pricing state's own slots, 64-bit where the
  slot holds a 64-bit integer.
\<close>

definition l1_rel :: "(bytes \<Rightarrow> bytes) \<Rightarrow> Storage \<Rightarrow> address set \<Rightarrow> world \<Rightarrow> bp_abs \<Rightarrow> (u64 \<Rightarrow> hash) \<Rightarrow> bool" where
  "l1_rel K sto U w t L \<longleftrightarrow>
     l1_free K sto U \<and> bp_table K (bpt_space K sto) U w t \<and> (\<forall>i. sdb w (NewSlot K sto i) = L i) \<and>
     (\<forall>i \<in> {2, 3, 4, 6, 10}. unat (L i) < 2 ^ 64)"

lemma l1_free_slots:
  assumes "l1_free K sto U"
  shows "NewSlot K sto i = NewSlot K sto j \<longleftrightarrow> i = j" and "NewSlot K sto i \<notin> bp_slots K (bpt_space K sto) U"
proof -
  let ?S = "uint_keys sto \<union> bp_keys K (bpt_space K sto) U"
  have cf: "collision_free K ?S" using assms by (simp add: l1_free_def)
  show "NewSlot K sto i = NewSlot K sto j \<longleftrightarrow> i = j" by (rule NewSlot_inject [OF cf]) auto
  have ne: "NewSlot K sto i \<noteq> mapAddress K s k" if "(storageKey s, k) \<in> bp_keys K (bpt_space K sto) U" for s k
  proof (rule NewSlot_disjoint [OF cf])
    show "storageKey sto \<noteq> storageKey s" using assms that by (force simp: l1_free_def)
  qed (use that in auto)
  show "NewSlot K sto i \<notin> bp_slots K (bpt_space K sto) U"
  proof
    assume "NewSlot K sto i \<in> bp_slots K (bpt_space K sto) U"
    then obtain s k where "(storageKey s, k) \<in> bp_keys K (bpt_space K sto) U" "NewSlot K sto i = mapAddress K s k"
      unfolding bp_slots_def bp_keys_def uint_keys_def NewSlot_def sub_slot_def by blast
    with ne show False by blast
  qed
qed

lemma l1_relD:
  assumes "l1_rel K sto U w t L"
  shows "l1_free K sto U" "sys w" "bp_table K (bpt_space K sto) U w t" "\<And>i. sdb w (NewSlot K sto i) = L i"
    "\<And>i. i \<in> {2, 3, 4, 6, 10} \<Longrightarrow> u64_slot w (NewSlot K sto i) \<and> u64_at w (NewSlot K sto i) = ucast (L i)"
  using assms bp_tableD(2) [of K "bpt_space K sto" U w t] by (auto simp: l1_rel_def u64_slot_def u64_at_def)

lemma l1_rel_charge [simp]: "l1_rel K sto U (charge n w) t L = l1_rel K sto U w t L"
  by (simp add: l1_rel_def bp_table_def big_at_def)

text \<open>Writing one of the pricing state's own slots.\<close>

lemma l1_rel_upd:
  assumes r: "l1_rel K sto U w t L" and i: "i \<in> {2, 3, 4, 6, 10} \<Longrightarrow> unat h < 2 ^ 64"
  shows "l1_rel K sto U (upd (NewSlot K sto i) h w) t (L(i := h))"
proof -
  note D = l1_relD [OF r] and F = l1_free_slots [OF l1_relD(1) [OF r]]
  have "bp_table K (bpt_space K sto) U (upd (NewSlot K sto i) h w) t"
    using D(2) F(2) by (intro bp_table_same [OF D(3)]) auto
  with r i F(1) show ?thesis by (auto simp: l1_rel_def)
qed

lemma OpenL1PricingState_sel [simp]:
  "batchPosterTable (OpenL1PricingState K sto) = OpenBatchPostersTable K (bpt_space K sto)"
  "l1_payRewardsTo (OpenL1PricingState K sto) = NewSlot K sto 0"
  "l1_equilibrationUnits (OpenL1PricingState K sto) = NewSlot K sto 1"
  "l1_inertia (OpenL1PricingState K sto) = NewSlot K sto 2"
  "l1_perUnitReward (OpenL1PricingState K sto) = NewSlot K sto 3"
  "l1_lastUpdateTime (OpenL1PricingState K sto) = NewSlot K sto 4"
  "l1_fundsDueForRewards (OpenL1PricingState K sto) = NewSlot K sto 5"
  "l1_unitsSinceUpdate (OpenL1PricingState K sto) = NewSlot K sto 6"
  "l1_pricePerUnit (OpenL1PricingState K sto) = NewSlot K sto 7"
  "l1_lastSurplus (OpenL1PricingState K sto) = NewSlot K sto 8"
  "l1_perBatchGasCost (OpenL1PricingState K sto) = NewSlot K sto 9"
  "l1_amortizedCostCapBips (OpenL1PricingState K sto) = NewSlot K sto 10"
  "l1_l1FeesAvailable (OpenL1PricingState K sto) = NewSlot K sto 11"
  by (simp_all add: OpenL1PricingState_def BatchPosterTableKey_def payRewardsToOffset_def equilibrationUnitsOffset_def
      inertiaOffset_def perUnitRewardOffset_def lastUpdateTimeOffset_def fundsDueForRewardsOffset_def unitsSinceOffset_def
      pricePerUnitOffset_def lastSurplusOffset_def perBatchGasCostOffset_def amortizedCostCapBipsOffset_def
      l1FeesAvailableOffset_def)

lemmas l1_access =
  PayRewardsTo_def EquilibrationUnits_def Inertia_def PerUnitReward_def LastUpdateTime_def SetLastUpdateTime_def
  FundsDueForRewards_def SetFundsDueForRewards_def UnitsSinceUpdate_def SetUnitsSinceUpdate_def L1FeesAvailable_def
  SetL1FeesAvailable_def LastSurplus_def SetLastSurplus_def PricePerUnit_def SetPricePerUnit_def AmortizedCostCapBips_def

text \<open>The reads of the settlement.\<close>

lemma l1_reads:
  assumes r: "l1_rel K sto U w t L"
  shows "PayRewardsTo (OpenL1PricingState K sto) w = (Ok (ucast (L 0)), charge StorageReadCost w)"
    "EquilibrationUnits (OpenL1PricingState K sto) w = (Ok (uint (L 1)), charge StorageReadCost w)"
    "Inertia (OpenL1PricingState K sto) w = (Ok (ucast (L 2)), charge StorageReadCost w)"
    "PerUnitReward (OpenL1PricingState K sto) w = (Ok (ucast (L 3)), charge StorageReadCost w)"
    "LastUpdateTime (OpenL1PricingState K sto) w = (Ok (ucast (L 4)), charge StorageReadCost w)"
    "FundsDueForRewards (OpenL1PricingState K sto) w = (Ok (sint (L 5)), charge StorageReadCost w)"
    "UnitsSinceUpdate (OpenL1PricingState K sto) w = (Ok (ucast (L 6)), charge StorageReadCost w)"
    "PricePerUnit (OpenL1PricingState K sto) w = (Ok (uint (L 7)), charge StorageReadCost w)"
    "LastSurplus (OpenL1PricingState K sto) w = (Ok (sint (L 8)), charge StorageReadCost w)"
    "AmortizedCostCapBips (OpenL1PricingState K sto) w = (Ok (ucast (L 10)), charge StorageReadCost w)"
    "L1FeesAvailable (OpenL1PricingState K sto) w = (Ok (uint (L 11)), charge StorageReadCost w)"
    "TotalFundsDue (OpenBatchPostersTable K (bpt_space K sto)) w =
       (Ok (\<Sum>b \<in> set (bp_posters t). bp_due t b), charge StorageReadCost w)"
    "a \<in> set (bp_posters t) \<Longrightarrow>
       FundsDue (poster_of K (bpt_space K sto) a) w = (Ok (bp_due t a), charge StorageReadCost w)"
    "a \<in> set (bp_posters t) \<Longrightarrow>
       PayTo (poster_of K (bpt_space K sto) a) w = (Ok (bp_pay t a), charge StorageReadCost w)"
  using l1_relD [OF r] bp_tableD [OF l1_relD(3) [OF r]]
  by (simp_all add: l1_access TotalFundsDue_def FundsDue_def PayTo_def run_simps big_at_def)

section \<open>The steps of a settlement\<close>

text \<open>The writes: the slot changes, balances do not.\<close>

lemma l1_write:
  assumes r: "l1_rel K sto U w t L" and i: "i \<in> {2, 3, 4, 6, 10} \<Longrightarrow> unat h < 2 ^ 64"
    and run: "m w = (Ok (), upd (NewSlot K sto i) h (charge n w))"
  shows "\<exists>w'. m w = (Ok (), w') \<and> l1_rel K sto U w' t (L(i := h)) \<and> w_balance w' = w_balance w"
  using l1_rel_upd [of K sto U "charge n w" t L i h] r i run by simp

lemma l1_writes:
  assumes r: "l1_rel K sto U w t L"
  shows "\<exists>w'. SetUnitsSinceUpdate (OpenL1PricingState K sto) u w = (Ok (), w') \<and>
      l1_rel K sto U w' t (L(6 := UintToHash u)) \<and> w_balance w' = w_balance w"
    and "\<exists>w'. SetLastUpdateTime (OpenL1PricingState K sto) u w = (Ok (), w') \<and>
      l1_rel K sto U w' t (L(4 := UintToHash u)) \<and> w_balance w' = w_balance w"
    and "\<exists>w'. SetFundsDueForRewards (OpenL1PricingState K sto) x w = (Ok (), w') \<and>
      l1_rel K sto U w' t (L(5 := tc256 x)) \<and> w_balance w' = w_balance w"
    and "7 \<le> v \<Longrightarrow> \<exists>w'. SetLastSurplus (OpenL1PricingState K sto) x v w = (Ok (), w') \<and>
      l1_rel K sto U w' t (L(8 := tc256 x)) \<and> w_balance w' = w_balance w"
    and "0 \<le> x \<Longrightarrow> x < 2 ^ 256 \<Longrightarrow> \<exists>w'. SetPricePerUnit (OpenL1PricingState K sto) x w = (Ok (), w') \<and>
      l1_rel K sto U w' t (L(7 := BigToHash x)) \<and> w_balance w' = w_balance w"
    and "0 \<le> x \<Longrightarrow> x < 2 ^ 256 \<Longrightarrow> \<exists>w'. SetL1FeesAvailable (OpenL1PricingState K sto) x w = (Ok (), w') \<and>
      l1_rel K sto U w' t (L(11 := BigToHash x)) \<and> w_balance w' = w_balance w"
proof -
  note s = l1_relD(2) [OF r]
  show "\<exists>w'. SetUnitsSinceUpdate (OpenL1PricingState K sto) u w = (Ok (), w') \<and>
      l1_rel K sto U w' t (L(6 := UintToHash u)) \<and> w_balance w' = w_balance w"
    by (rule l1_write [OF r]) (use s in \<open>simp_all add: l1_access run_simps\<close>)
  show "\<exists>w'. SetLastUpdateTime (OpenL1PricingState K sto) u w = (Ok (), w') \<and>
      l1_rel K sto U w' t (L(4 := UintToHash u)) \<and> w_balance w' = w_balance w"
    by (rule l1_write [OF r]) (use s in \<open>simp_all add: l1_access run_simps\<close>)
  show "\<exists>w'. SetFundsDueForRewards (OpenL1PricingState K sto) x w = (Ok (), w') \<and>
      l1_rel K sto U w' t (L(5 := tc256 x)) \<and> w_balance w' = w_balance w"
    by (rule l1_write [OF r]) (use s in \<open>simp_all add: l1_access run_simps\<close>)
  show "\<exists>w'. SetLastSurplus (OpenL1PricingState K sto) x v w = (Ok (), w') \<and>
      l1_rel K sto U w' t (L(8 := tc256 x)) \<and> w_balance w' = w_balance w" if "7 \<le> v"
    by (rule l1_write [OF r]) (use s that in \<open>simp_all add: l1_access run_simps not_less [symmetric]\<close>)
  show "\<exists>w'. SetPricePerUnit (OpenL1PricingState K sto) x w = (Ok (), w') \<and>
      l1_rel K sto U w' t (L(7 := BigToHash x)) \<and> w_balance w' = w_balance w" if "0 \<le> x" "x < 2 ^ 256"
    by (rule l1_write [OF r]) (use s that in \<open>simp_all add: l1_access run_simps\<close>)
  show "\<exists>w'. SetL1FeesAvailable (OpenL1PricingState K sto) x w = (Ok (), w') \<and>
      l1_rel K sto U w' t (L(11 := BigToHash x)) \<and> w_balance w' = w_balance w" if "0 \<le> x" "x < 2 ^ 256"
    by (rule l1_write [OF r]) (use s that in \<open>simp_all add: l1_access run_simps\<close>)
qed

text \<open>The table operations.\<close>

definition opened :: "bp_abs \<Rightarrow> address \<Rightarrow> bp_abs" where
  "opened t a = (if a \<in> set (bp_posters t) then t
     else \<lparr>bp_posters = bp_posters t @ [a], bp_due = (bp_due t)(a := 0), bp_pay = (bp_pay t)(a := a)\<rparr>)"

lemma opened_member [simp]: "a \<in> set (bp_posters (opened t a))"
  by (simp add: opened_def)

lemma l1_rel_table:
  assumes r: "l1_rel K sto U w t L" and t': "bp_table K (bpt_space K sto) U w' t'"
    and same: "\<And>x. x \<notin> bp_slots K (bpt_space K sto) U \<Longrightarrow> sdb w' x = sdb w x"
  shows "l1_rel K sto U w' t' L"
  using r t' same l1_free_slots(2) [OF l1_relD(1) [OF r]] by (simp add: l1_rel_def)

lemma l1_OpenPoster:
  assumes r: "l1_rel K sto U w t L" and a: "a \<in> U" and len: "Suc (length (bp_posters t)) < 2 ^ 64"
  shows "\<exists>w'. OpenPoster K (OpenBatchPostersTable K (bpt_space K sto)) a True w = (Ok (poster_of K (bpt_space K sto) a), w') \<and>
    l1_rel K sto U w' (opened t a) L \<and> w_balance w' = w_balance w"
  using OpenPoster_run [OF l1_relD(3) [OF r] a len] l1_rel_table [OF r] unfolding opened_def by metis

lemma l1_SetFundsDue:
  assumes r: "l1_rel K sto U w t L" and a: "a \<in> set (bp_posters t)"
    and v: "\<bar>v\<bar> < 2 ^ 254" and T: "\<bar>(\<Sum>b \<in> set (bp_posters t). bp_due t b) - bp_due t a\<bar> < 2 ^ 254"
  shows "\<exists>w'. SetFundsDue (poster_of K (bpt_space K sto) a) v w = (Ok (), w') \<and>
    l1_rel K sto U w' (t\<lparr>bp_due := (bp_due t)(a := v)\<rparr>) L \<and> w_balance w' = w_balance w"
proof -
  have "- (2 ^ 254) < v" "v < 2 ^ 254" "- (2 ^ 254) < (\<Sum>b \<in> set (bp_posters t). bp_due t b) - bp_due t a"
    "(\<Sum>b \<in> set (bp_posters t). bp_due t b) - bp_due t a < 2 ^ 254"
    using v T by (simp_all add: abs_less_iff)
  then obtain w' where "SetFundsDue (poster_of K (bpt_space K sto) a) v w = (Ok (), w')"
    "bp_table K (bpt_space K sto) U w' (t\<lparr>bp_due := (bp_due t)(a := v)\<rparr>)" "w_balance w' = w_balance w"
    "\<And>x. x \<notin> bp_slots K (bpt_space K sto) U \<Longrightarrow> sdb w' x = sdb w x"
    using SetFundsDue_run [OF l1_relD(3) [OF r] a, of v] by auto
  with l1_rel_table [OF r] show ?thesis by blast
qed

text \<open>A payment out of the fees available.\<close>

lemma l1_rel_balance [simp]: "l1_rel K sto U (w\<lparr>w_balance := B\<rparr>) t L = l1_rel K sto U w t L"
  by (simp add: l1_rel_def bp_table_def indexed_def big_at_def sys_def)

lemma l1_transfer:
  assumes r: "l1_rel K sto U w t L" and n: "0 \<le> n" "n \<le> uint (L 11)"
    and B: "n \<le> w_balance w L1PricerFundsPoolAddress"
  shows "\<exists>w'. TransferFromL1FeesAvailable (OpenL1PricingState K sto) p n w = (Ok (uint (L 11) - n), w') \<and>
    l1_rel K sto U w' t (L(11 := BigToHash (uint (L 11) - n))) \<and>
    w_balance w' = moved L1PricerFundsPoolAddress p n (w_balance w)"
proof -
  let ?w = "w\<lparr>w_balance := moved L1PricerFundsPoolAddress p n (w_balance w)\<rparr>"
  have tr: "TransferBalance (Some L1PricerFundsPoolAddress) (Some p) n w = (Ok (), ?w)"
    using n(1) B by (rule TransferBalance_moved)
  have r1: "l1_rel K sto U ?w t L" using r by simp
  have r2: "l1_rel K sto U (charge StorageReadCost ?w) t L" using r by simp
  have "uint (L 11) - n < 2 ^ 256" using n uint_lt2p [of "L 11"] by simp
  with l1_writes(6) [OF r2, of "uint (L 11) - n"] n obtain w' where
    "SetL1FeesAvailable (OpenL1PricingState K sto) (uint (L 11) - n) (charge StorageReadCost ?w) = (Ok (), w')"
    "l1_rel K sto U w' t (L(11 := BigToHash (uint (L 11) - n)))"
    "w_balance w' = moved L1PricerFundsPoolAddress p n (w_balance w)"
    by auto
  with n show ?thesis
    by (simp add: TransferFromL1FeesAvailable_def tr l1_reads(11) [OF r1] Let_def bindM_Ok)
qed

definition capped :: "u64 \<Rightarrow> int \<Rightarrow> u64 \<Rightarrow> int \<Rightarrow> int" where
  "capped cap l1Basefee units weiSpent =
     (if cap = 0 then weiSpent else min (l1Basefee * uint units * sint (SaturatingCastToBips cap) div 10000) weiSpent)"

lemma l1_capWeiSpent:
  assumes r: "l1_rel K sto U w t L" and v: "3 \<le> v"
  shows "capWeiSpent (OpenL1PricingState K sto) v l1Basefee units weiSpent w =
    (Ok (capped (ucast (L 10)) l1Basefee units weiSpent), charge StorageReadCost w)"
proof -
  have "sint OneInBips = 10000" by (simp add: OneInBips_def)
  with v show ?thesis
    by (simp add: capWeiSpent_def l1_reads(10) [OF r] bindM_Ok capped_def BigMulByBips_def BigMulByFrac_def BigMulByUint_def
        BigDiv_def euclid_div_def BigLessThan_def liftR_def bindM_def returnM_def min_def)
qed

text \<open>The adjustment of the price, over integers.\<close>

definition next_price :: "int \<Rightarrow> int \<Rightarrow> int \<Rightarrow> int \<Rightarrow> int \<Rightarrow> int \<Rightarrow> int" where
  "next_price price surplus oldSurplus equil inertia units =
     max 0 (price + (- surplus div equil - (surplus - oldSurplus) div units) * units div (equil div inertia + units))"

definition priced :: "(u64 \<Rightarrow> hash) \<Rightarrow> u64 \<Rightarrow> int \<Rightarrow> u64 \<Rightarrow> hash" where
  "priced L units surplus =
     (if units = 0 then L
      else L(8 := tc256 surplus,
             7 := BigToHash (next_price (uint (L 7)) surplus (sint (L 8)) (uint (L 1)) (uint (ucast (L 2) :: u64)) (uint units))))"

lemma uint_pos: "(v :: 'a::len word) \<noteq> 0 \<Longrightarrow> 0 < uint v"
  using unsigned_greater_eq [of v, where 'a = int] by (simp add: less_le unsigned_eq_0_iff)

lemma l1_adjustPrice:
  assumes r: "l1_rel K sto U w t L" and v: "7 \<le> v" and params: "0 < uint (L 1)" "(ucast (L 2) :: u64) \<noteq> 0"
    and S: "surplus = F - ((\<Sum>b \<in> set (bp_posters t). bp_due t b) + sint (L 5))"
    and p: "next_price (uint (L 7)) surplus (sint (L 8)) (uint (L 1)) (uint (ucast (L 2) :: u64)) (uint units) < 2 ^ 256"
  shows "\<exists>w'. adjustPrice (OpenL1PricingState K sto) v units (returnM F) w = (Ok (), w') \<and>
    l1_rel K sto U w' t (priced L units surplus) \<and> w_balance w' = w_balance w"
proof (cases "units = 0")
  case True
  then show ?thesis using r by (simp add: adjustPrice_def priced_def)
next
  case False
  note rd = l1_reads [where K = K and sto = sto and U = U and t = t and L = L]
  have u: "0 < uint units" and i: "0 < uint (ucast (L 2) :: u64)" using False params(2) by (simp_all add: uint_pos)
  have d: "0 < uint (L 1) div uint (ucast (L 2) :: u64) + uint units"
    using u i params(1) by (intro add_nonneg_pos) (simp_all add: pos_imp_zdiv_nonneg_iff)
  let ?p = "next_price (uint (L 7)) surplus (sint (L 8)) (uint (L 1)) (uint (ucast (L 2) :: u64)) (uint units)"
  let ?w = "charge StorageReadCost (charge StorageReadCost (charge StorageReadCost (charge StorageReadCost
    (charge StorageReadCost (charge StorageReadCost w)))))"
  have "l1_rel K sto U ?w t L" using r by simp
  from l1_writes(4) [OF this v, of surplus] obtain w1 where
    w1: "SetLastSurplus (OpenL1PricingState K sto) surplus v ?w = (Ok (), w1)"
    "l1_rel K sto U w1 t (L(8 := tc256 surplus))" "w_balance w1 = w_balance w" by auto
  have "0 \<le> ?p" by (simp add: next_price_def)
  from l1_writes(5) [OF w1(2) this p] obtain w2 where
    w2: "SetPricePerUnit (OpenL1PricingState K sto) ?p w1 = (Ok (), w2)"
    "l1_rel K sto U w2 t (L(8 := tc256 surplus, 7 := BigToHash ?p))" "w_balance w2 = w_balance w1" by auto
  have max: "(if x < 0 then 0 else x) = max 0 x" for x :: int by simp
  have "adjustPrice (OpenL1PricingState K sto) v units (returnM F) w = (Ok (), w2)"
    using r False u i d params(1) w1(1) w2(1)
    by (simp add: adjustPrice_def rd bindM_Ok S [symmetric] BigSub_def BigAdd_def BigDivByUint_def BigAddByUint_def
        BigMulByUint_def UintToBig_def BigDiv_def euclid_div_def liftR_def next_price_def word_neq_0_conv [symmetric] Let_def max)
  then show ?thesis using w1(3) w2(2,3) False by (simp add: priced_def)
qed

text \<open>Paying the poster, as far as the fees available go.\<close>

lemma l1_refund:
  assumes r: "l1_rel K sto U w t L" and a: "a \<in> set (bp_posters t)"
    and owed: "0 \<le> bp_due t a" "bp_due t a < 2 ^ 254" "\<bar>(\<Sum>b \<in> set (bp_posters t). bp_due t b) - bp_due t a\<bar> < 2 ^ 254"
    and B: "uint (L 11) \<le> w_balance w L1PricerFundsPoolAddress"
    and n: "n = min (uint (L 11)) (bp_due t a)"
  shows "\<exists>w'. (if n > 0 then
        bindM (PayTo (poster_of K (bpt_space K sto) a)) (\<lambda>addrToPay.
        bindM (TransferFromL1FeesAvailable (OpenL1PricingState K sto) addrToPay n) (\<lambda>available.
        thenM (SetFundsDue (poster_of K (bpt_space K sto) a) (BigSub (bp_due t a) n)) (returnM available)))
      else returnM (uint (L 11))) w = (Ok (uint (L 11) - n), w') \<and>
    l1_rel K sto U w' (t\<lparr>bp_due := (bp_due t)(a := bp_due t a - n)\<rparr>) (L(11 := BigToHash (uint (L 11) - n))) \<and>
    w_balance w' = moved L1PricerFundsPoolAddress (bp_pay t a) n (w_balance w)"
proof (cases "n > 0")
  case False
  have "0 \<le> n" using n owed(1) by simp
  with False have n0: "n = 0" by simp
  have "BigToHash (uint (L 11)) = L 11" by (simp add: BigToHash_abs)
  then show ?thesis using r by (simp add: n0 fun_upd_idem)
next
  case True
  have n': "0 \<le> n" "n \<le> uint (L 11)" "n \<le> bp_due t a" using True n by simp_all
  have rc: "l1_rel K sto U (charge StorageReadCost w) t L" using r by simp
  from l1_transfer [OF rc n'(1,2), of "bp_pay t a"] B n' obtain w1 where
    w1: "TransferFromL1FeesAvailable (OpenL1PricingState K sto) (bp_pay t a) n (charge StorageReadCost w) = (Ok (uint (L 11) - n), w1)"
    "l1_rel K sto U w1 t (L(11 := BigToHash (uint (L 11) - n)))"
    "w_balance w1 = moved L1PricerFundsPoolAddress (bp_pay t a) n (w_balance w)" by auto
  have "\<bar>bp_due t a - n\<bar> < 2 ^ 254" using n' owed(2) by simp
  from l1_SetFundsDue [OF w1(2) a this owed(3)] obtain w2 where
    "SetFundsDue (poster_of K (bpt_space K sto) a) (bp_due t a - n) w1 = (Ok (), w2)"
    "l1_rel K sto U w2 (t\<lparr>bp_due := (bp_due t)(a := bp_due t a - n)\<rparr>) (L(11 := BigToHash (uint (L 11) - n)))"
    "w_balance w2 = w_balance w1" by blast
  with True w1(1,3) show ?thesis
    by (simp add: l1_reads(14) [OF r a] bindM_Ok BigSub_def)
qed

text \<open>The quantities of a settlement, as functions of what storage held before it.\<close>

definition settled_units :: "(u64 \<Rightarrow> hash) \<Rightarrow> u64 \<Rightarrow> u64 \<Rightarrow> u64" where
  "settled_units L updateTime currentTime =
     (case allocation (firstUpdateTime (ucast (L 4)) updateTime) updateTime currentTime of
        (num, den) \<Rightarrow> SaturatingUMul (ucast (L 6)) num div den)"

definition settled_reward :: "(u64 \<Rightarrow> hash) \<Rightarrow> u64 \<Rightarrow> int" where
  "settled_reward L units = uint (ucast (L 3) :: u64) * uint units"

lemma settled_reward_bounds: "0 \<le> settled_reward L units" "settled_reward L units < 2 ^ 128"
proof -
  have "uint (ucast (L 3) :: u64) < 2 ^ 64" "uint units < 2 ^ 64" using uint_lt2p [of "ucast (L 3) :: u64"] uint_lt2p [of units] by simp_all
  then have "uint (ucast (L 3) :: u64) * uint units < 2 ^ 64 * 2 ^ 64" by (intro mult_strict_mono') simp_all
  then show "settled_reward L units < 2 ^ 128" by (simp add: settled_reward_def)
  show "0 \<le> settled_reward L units" by (simp add: settled_reward_def)
qed

lemma l1_pay_reward:
  assumes r: "l1_rel K sto U w t L" and n: "0 \<le> n" "n \<le> uint (L 11)"
    and B: "uint (L 11) \<le> w_balance w L1PricerFundsPoolAddress"
  shows "\<exists>w'. (\<forall>k. thenM (SetFundsDueForRewards (OpenL1PricingState K sto) x)
        (thenM (SetFundsDueForRewards (OpenL1PricingState K sto) y)
        (bindM (PayRewardsTo (OpenL1PricingState K sto)) (\<lambda>p.
         bindM (TransferFromL1FeesAvailable (OpenL1PricingState K sto) p n) k))) w = k (uint (L 11) - n) w') \<and>
    l1_rel K sto U w' t (L(5 := tc256 y, 11 := BigToHash (uint (L 11) - n))) \<and>
    w_balance w' = moved L1PricerFundsPoolAddress (ucast (L 0)) n (w_balance w)"
proof -
  from l1_writes(3) [OF r, of x] obtain w1 where
    w1: "SetFundsDueForRewards (OpenL1PricingState K sto) x w = (Ok (), w1)"
    "l1_rel K sto U w1 t (L(5 := tc256 x))" "w_balance w1 = w_balance w" by blast
  from l1_writes(3) [OF w1(2), of y] obtain w2 where
    w2: "SetFundsDueForRewards (OpenL1PricingState K sto) y w1 = (Ok (), w2)"
    "l1_rel K sto U w2 t (L(5 := tc256 y))" "w_balance w2 = w_balance w" using w1(3) by auto
  have rc: "l1_rel K sto U (charge StorageReadCost w2) t (L(5 := tc256 y))" using w2(2) by simp
  from l1_transfer [OF rc n(1), of "ucast (L 0)"] n B w2(3) obtain w3 where
    "TransferFromL1FeesAvailable (OpenL1PricingState K sto) (ucast (L 0)) n (charge StorageReadCost w2) = (Ok (uint (L 11) - n), w3)"
    "l1_rel K sto U w3 t (L(5 := tc256 y, 11 := BigToHash (uint (L 11) - n)))"
    "w_balance w3 = moved L1PricerFundsPoolAddress (ucast (L 0)) n (w_balance w)" by auto
  with w1(1) w2(1) show ?thesis
    by (intro exI [of _ w3]) (simp add: bindM_Ok l1_reads(1) [OF w2(2)])
qed

lemma settle_run:
  fixes L :: "u64 \<Rightarrow> hash" and t updateTime currentTime weiSpent l1Basefee a
  defines "T \<equiv> opened t a" and "units \<equiv> settled_units L updateTime currentTime"
  defines "F \<equiv> uint (L 11)" and "R \<equiv> sint (L 5)" and "reward \<equiv> settled_reward L units"
    and "spent \<equiv> capped (ucast (L 10)) l1Basefee units weiSpent"
  defines "paid \<equiv> min F reward" and "owed \<equiv> bp_due T a + spent"
  defines "refund \<equiv> min (F - paid) owed"
  defines "surplus \<equiv> F - paid - refund - ((\<Sum>b \<in> set (bp_posters T). ((bp_due T)(a := owed - refund)) b) + (R + reward - paid))"
  defines "L' \<equiv> L(6 := UintToHash (ucast (L 6) - units), 5 := tc256 (R + reward - paid),
      11 := BigToHash (F - paid - refund), 4 := UintToHash updateTime)"
  assumes r: "l1_rel K sto U w t L" and v: "10 \<le> v" and a: "a \<in> U" and len: "Suc (length (bp_posters t)) < 2 ^ 64"
    and time: "firstUpdateTime (ucast (L 4)) updateTime \<le> updateTime" "updateTime \<le> currentTime"
    and solvent: "F \<le> w_balance w L1PricerFundsPoolAddress"
    and params: "0 < uint (L 1)" "(ucast (L 2) :: u64) \<noteq> 0"
    and small: "0 \<le> owed" "owed < 2 ^ 254" "\<bar>(\<Sum>b \<in> set (bp_posters T). bp_due T b) - bp_due T a\<bar> < 2 ^ 254"
      "0 \<le> R" "R < 2 ^ 254"
    and price: "next_price (uint (L 7)) surplus (sint (L 8)) (uint (L 1)) (uint (ucast (L 2) :: u64)) (uint units) < 2 ^ 256"
  shows "\<exists>w'. UpdateForBatchPosterSpending K (OpenL1PricingState K sto) v updateTime currentTime a weiSpent l1Basefee w = (Ok (), w') \<and>
    l1_rel K sto U w' (T\<lparr>bp_due := (bp_due T)(a := owed - refund)\<rparr>) (priced L' units surplus) \<and>
    w_balance w' = moved L1PricerFundsPoolAddress (bp_pay T a) refund
      (moved L1PricerFundsPoolAddress (ucast (L 0)) paid (w_balance w)) \<and>
    F - paid - refund \<le> w_balance w' L1PricerFundsPoolAddress"
proof -
  let ?ps = "OpenL1PricingState K sto" and ?bps = "poster_of K (bpt_space K sto) a"
  have aT: "a \<in> set (bp_posters T)" by (simp add: T_def)
  have reward: "0 \<le> reward" "reward < 2 ^ 128" unfolding reward_def by (rule settled_reward_bounds)+
  have F: "0 \<le> F" "F < 2 ^ 256" using uint_lt2p [of "L 11"] by (simp_all add: F_def)
  have paid: "0 \<le> paid" "paid \<le> F" "paid \<le> reward" using F reward by (simp_all add: paid_def)
  from l1_OpenPoster [OF r a len] obtain w1 where
    w1: "OpenPoster K (OpenBatchPostersTable K (bpt_space K sto)) a True w = (Ok ?bps, w1)"
    "l1_rel K sto U w1 T L" "w_balance w1 = w_balance w" unfolding T_def by blast
  let ?c = "charge StorageReadCost"
  have "l1_rel K sto U (?c (?c (?c (?c w1)))) T L" using w1(2) by simp
  from l1_writes(1) [OF this, of "ucast (L 6) - units"] obtain w2 where
    w2: "SetUnitsSinceUpdate ?ps (ucast (L 6) - units) (?c (?c (?c (?c w1)))) = (Ok (), w2)"
    "l1_rel K sto U w2 T (L(6 := UintToHash (ucast (L 6) - units)))" "w_balance w2 = w_balance w" using w1(3) by auto
  let ?L2 = "L(6 := UintToHash (ucast (L 6) - units))"
  have cap: "capWeiSpent ?ps v l1Basefee units weiSpent w2 = (Ok spent, ?c w2)"
    using l1_capWeiSpent [OF w2(2), of v l1Basefee units weiSpent] v
    by (simp add: spent_def order_trans [of 3 10 v])
  have "l1_rel K sto U (?c (?c w2)) T ?L2" using w2(2) by simp
  moreover have "\<bar>owed\<bar> < 2 ^ 254" using small by simp
  ultimately obtain w3 where
    w3: "SetFundsDue ?bps owed (?c (?c w2)) = (Ok (), w3)"
    "l1_rel K sto U w3 (T\<lparr>bp_due := (bp_due T)(a := owed)\<rparr>) ?L2" "w_balance w3 = w_balance w"
    using l1_SetFundsDue [OF _ aT _ small(3), of K sto U "?c (?c w2)" ?L2 owed] w2(3) by auto
  let ?T3 = "T\<lparr>bp_due := (bp_due T)(a := owed)\<rparr>"
  have "l1_rel K sto U (?c w3) ?T3 ?L2" using w3(2) by simp
  from l1_pay_reward [OF this paid(1), of "R + reward" "R + reward - paid"] paid solvent w3(3) obtain w4 where
    w4: "\<And>k :: int \<Rightarrow> unit arb. thenM (SetFundsDueForRewards ?ps (R + reward)) (thenM (SetFundsDueForRewards ?ps (R + reward - paid))
      (bindM (PayRewardsTo ?ps) (\<lambda>p. bindM (TransferFromL1FeesAvailable ?ps p paid) k))) (?c w3) = k (F - paid) w4"
    "l1_rel K sto U w4 ?T3 (?L2(5 := tc256 (R + reward - paid), 11 := BigToHash (F - paid)))"
    "w_balance w4 = moved L1PricerFundsPoolAddress (ucast (L 0)) paid (w_balance w)" by (auto simp: F_def)
  let ?L4 = "?L2(5 := tc256 (R + reward - paid), 11 := BigToHash (F - paid))"
  have L4: "uint (?L4 11) = F - paid" using F paid by (simp add: uint_BigToHash)
  have pool: "uint (?L4 11) \<le> w_balance (?c w4) L1PricerFundsPoolAddress"
    unfolding L4 using w4(3) moved_pool [OF paid(1), of "w_balance w" L1PricerFundsPoolAddress "ucast (L 0)"] solvent by simp
  have due: "(\<Sum>b \<in> set (bp_posters ?T3). bp_due ?T3 b) - bp_due ?T3 a = (\<Sum>b \<in> set (bp_posters T). bp_due T b) - bp_due T a"
    using aT by (simp add: sum.remove)
  have r4: "l1_rel K sto U (?c w4) ?T3 ?L4" and a3: "a \<in> set (bp_posters ?T3)" using w4(2) aT by simp_all
  have T3: "bp_due ?T3 a = owed" "bp_pay ?T3 a = bp_pay T a"
    "?T3\<lparr>bp_due := (bp_due ?T3)(a := owed - refund)\<rparr> = T\<lparr>bp_due := (bp_due T)(a := owed - refund)\<rparr>" by simp_all
  have n: "refund = min (uint (?L4 11)) (bp_due ?T3 a)" unfolding L4 T3(1) by (simp only: refund_def)
  have small3: "0 \<le> bp_due ?T3 a" "bp_due ?T3 a < 2 ^ 254"
    "\<bar>(\<Sum>b \<in> set (bp_posters ?T3). bp_due ?T3 b) - bp_due ?T3 a\<bar> < 2 ^ 254"
    unfolding due using small T3(1) by simp_all
  obtain w5 where
    w5: "(if refund > 0 then bindM (PayTo ?bps) (\<lambda>addrToPay. bindM (TransferFromL1FeesAvailable ?ps addrToPay refund) (\<lambda>available.
        thenM (SetFundsDue ?bps (BigSub owed refund)) (returnM available)))
      else returnM (F - paid)) (?c w4) = (Ok (F - paid - refund), w5)"
    "l1_rel K sto U w5 (T\<lparr>bp_due := (bp_due T)(a := owed - refund)\<rparr>) (?L4(11 := BigToHash (F - paid - refund)))"
    "w_balance w5 = moved L1PricerFundsPoolAddress (bp_pay T a) refund (w_balance (?c w4))"
    using l1_refund [OF r4 a3 small3 pool n, unfolded L4 T3] by (elim exE conjE) (rule that)
  from l1_writes(2) [OF w5(2), of updateTime] obtain w6 where
    w6: "SetLastUpdateTime ?ps updateTime w5 = (Ok (), w6)"
    "l1_rel K sto U w6 (T\<lparr>bp_due := (bp_due T)(a := owed - refund)\<rparr>) L'" "w_balance w6 = w_balance w5"
    unfolding L'_def by (auto simp: fun_upd_upd)
  have L': "L' 1 = L 1" "L' 2 = L 2" "L' 7 = L 7" "L' 8 = L 8" "sint (L' 5) = R + reward - paid"
    using small reward paid by (simp_all add: L'_def sint_tc256 clamp_def)
  obtain w7 where w7: "adjustPrice ?ps v units (returnM (F - paid - refund)) w6 = (Ok (), w7)"
    "l1_rel K sto U w7 (T\<lparr>bp_due := (bp_due T)(a := owed - refund)\<rparr>) (priced L' units surplus)" "w_balance w7 = w_balance w6"
    using l1_adjustPrice [OF w6(2), of v surplus "F - paid - refund" units] v params price order_trans [of 7 10 v]
    unfolding L' by (auto simp: surplus_def)
  obtain num den where al: "allocation (firstUpdateTime (ucast (L 4)) updateTime) updateTime currentTime = (num, den)"
    by (cases "allocation (firstUpdateTime (ucast (L 4)) updateTime) updateTime currentTime")
  have u: "SaturatingUMul (ucast (L 6)) num div den = units" by (simp add: units_def settled_units_def al)
  have rw: "uint units * uint (ucast (L 3) :: u64) = reward" "uint (ucast (L 3) :: u64) * uint units = reward"
    by (simp_all add: reward_def settled_reward_def mult.commute)
  have p: "(if F < reward then F else reward) = paid" "(if F - paid < owed then F - paid else owed) = refund"
    by (simp_all add: paid_def refund_def min_def)
  note rd = l1_reads [where K = K and sto = sto and U = U]
  have f: "FundsDue ?bps (?c w2) = (Ok (bp_due T a), ?c (?c w2))" "PerUnitReward ?ps w3 = (Ok (ucast (L 3)), ?c w3)"
    "FundsDue ?bps w4 = (Ok owed, ?c w4)"
    using rd(13) [of "?c w2" T ?L2 a] rd(4) [OF w3(2)] rd(13) [OF w4(2) a3] w2(2) aT by simp_all
  have g: "\<not> (updateTime > currentTime \<or> updateTime < firstUpdateTime (ucast (L 4)) updateTime)" "\<not> v < 10"
    using time v by (simp_all add: not_less)
  note big = BigAdd_def BigSub_def BigMulByUint_def UintToBig_def BigLessThan_def
  have run: "UpdateForBatchPosterSpending K ?ps v updateTime currentTime a weiSpent l1Basefee w = (Ok (), w7)"
    by (simp add: UpdateForBatchPosterSpending_def Let_def g bindM_Ok w1(1,2) rd(5,6,7,11) [where t = T and L = L] al u w2(1) cap f
        owed_def [symmetric] w3(1) R_def [symmetric] F_def [symmetric] big rw p w4(1) w5(1) w5(1) [unfolded big] w6(1) w7(1)
        cong: if_cong split del: if_split)
  have "F - paid - refund \<le> w_balance w7 L1PricerFundsPoolAddress"
    using moved_pool [of refund "w_balance w4" L1PricerFundsPoolAddress "bp_pay T a"] pool L4 n small(1) paid w7(3) w6(3) w5(3)
    by (simp add: T3(1))
  with run w7 w6(3) w5(3) w4(3) show ?thesis by auto
qed

section \<open>Settlement\<close>

text \<open>
  C3. Settling a posted batch (ArbOS 10 and later): the rewards and the poster are paid out of the fees
  available, never beyond them, what was not paid stays recorded as due, and the funds pool still covers
  the fees available afterwards.
\<close>

theorem batch_posting_settlement:
  fixes L :: "u64 \<Rightarrow> hash" and t updateTime currentTime weiSpent l1Basefee a
  defines "T \<equiv> opened t a" and "units \<equiv> settled_units L updateTime currentTime"
  defines "F \<equiv> uint (L 11)" and "R \<equiv> sint (L 5)" and "reward \<equiv> settled_reward L units"
    and "spent \<equiv> capped (ucast (L 10)) l1Basefee units weiSpent"
  defines "paid \<equiv> min F reward" and "owed \<equiv> bp_due T a + spent"
  defines "refund \<equiv> min (F - paid) owed"
  defines "surplus \<equiv> F - paid - refund - ((\<Sum>b \<in> set (bp_posters T). ((bp_due T)(a := owed - refund)) b) + (R + reward - paid))"
  defines "price \<equiv> next_price (uint (L 7)) surplus (sint (L 8)) (uint (L 1)) (uint (ucast (L 2) :: u64)) (uint units)"
  assumes r: "l1_rel K sto U w t L" and v: "10 \<le> v" and a: "a \<in> U" and len: "Suc (length (bp_posters t)) < 2 ^ 64"
    and time: "firstUpdateTime (ucast (L 4)) updateTime \<le> updateTime" "updateTime \<le> currentTime"
    and solvent: "F \<le> w_balance w L1PricerFundsPoolAddress"
    and params: "0 < uint (L 1)" "(ucast (L 2) :: u64) \<noteq> 0"
    and small: "0 \<le> owed" "owed < 2 ^ 254" "\<bar>(\<Sum>b \<in> set (bp_posters T). bp_due T b) - bp_due T a\<bar> < 2 ^ 254"
      "0 \<le> R" "R < 2 ^ 254"
    and price: "price < 2 ^ 256"
  shows "\<exists>w'. UpdateForBatchPosterSpending K (OpenL1PricingState K sto) v updateTime currentTime a weiSpent l1Basefee w = (Ok (), w') \<and>
    fst (L1FeesAvailable (OpenL1PricingState K sto) w') = Ok (F - paid - refund) \<and>
    fst (FundsDueForRewards (OpenL1PricingState K sto) w') = Ok (R + reward - paid) \<and>
    fst (FundsDue (poster_of K (bpt_space K sto) a) w') = Ok (owed - refund) \<and>
    fst (TotalFundsDue (OpenBatchPostersTable K (bpt_space K sto)) w') =
      Ok ((\<Sum>b \<in> set (bp_posters T). bp_due T b) + spent - refund) \<and>
    fst (UnitsSinceUpdate (OpenL1PricingState K sto) w') = Ok (ucast (L 6) - units) \<and>
    fst (LastUpdateTime (OpenL1PricingState K sto) w') = Ok updateTime \<and>
    fst (PricePerUnit (OpenL1PricingState K sto) w') = Ok (if units = 0 then uint (L 7) else price) \<and>
    w_balance w' = moved L1PricerFundsPoolAddress (bp_pay T a) refund
      (moved L1PricerFundsPoolAddress (ucast (L 0)) paid (w_balance w)) \<and>
    0 \<le> F - paid - refund \<and> F - paid - refund \<le> w_balance w' L1PricerFundsPoolAddress"
proof -
  let ?t = "T\<lparr>bp_due := (bp_due T)(a := owed - refund)\<rparr>"
  let ?L = "L(6 := UintToHash (ucast (L 6) - units), 5 := tc256 (R + reward - paid),
      11 := BigToHash (F - paid - refund), 4 := UintToHash updateTime)"
  note d = T_def units_def F_def R_def reward_def spent_def paid_def owed_def refund_def surplus_def price_def
  obtain w' where
    w': "UpdateForBatchPosterSpending K (OpenL1PricingState K sto) v updateTime currentTime a weiSpent l1Basefee w = (Ok (), w')"
    "l1_rel K sto U w' ?t (priced ?L units surplus)"
    "w_balance w' = moved L1PricerFundsPoolAddress (bp_pay T a) refund
      (moved L1PricerFundsPoolAddress (ucast (L 0)) paid (w_balance w))"
    "F - paid - refund \<le> w_balance w' L1PricerFundsPoolAddress"
    using settle_run [OF r v a len time solvent [unfolded F_def] params] small price unfolding d by blast
  have F: "0 \<le> F" "F < 2 ^ 256" using uint_lt2p [of "L 11"] by (simp_all add: F_def)
  have b: "0 \<le> paid" "paid \<le> F" "paid \<le> reward" "refund \<le> F - paid" "0 \<le> refund" "reward < 2 ^ 128"
    using F small(1) settled_reward_bounds [of L units] by (simp_all add: paid_def refund_def reward_def)
  have aT: "a \<in> set (bp_posters T)" by (simp add: T_def)
  have sum: "(\<Sum>b \<in> set (bp_posters T). ((bp_due T)(a := owed - refund)) b) = (\<Sum>b \<in> set (bp_posters T). bp_due T b) + spent - refund"
    using aT by (simp add: sum.remove owed_def)
  have p: "0 \<le> price" by (simp add: price_def next_price_def)
  have L: "uint (priced ?L units surplus 11) = F - paid - refund" "sint (priced ?L units surplus 5) = R + reward - paid"
    "(ucast (priced ?L units surplus 6) :: u64) = ucast (L 6) - units" "(ucast (priced ?L units surplus 4) :: u64) = updateTime"
    "uint (priced ?L units surplus 7) = (if units = 0 then uint (L 7) else price)"
    using b F small price p by (simp_all add: priced_def price_def uint_BigToHash sint_tc256 clamp_def)
  show ?thesis
    using w'(1,3,4) l1_reads [OF w'(2), unfolded L] b(4) aT sum by (intro exI [of _ w']) simp
qed

text \<open>A funds pool of 1000 wei, and storage that holds the parameters of a running chain.\<close>

lemma deep_bpt_keys:
  "storageKey (bpt_space toyK deepStorage) = 0 # map of_nat (rev [12 ..< 42]) @ [1]"
  "storageKey (addrs_space toyK (bpt_space toyK deepStorage)) = 0 # 1 # map of_nat [12 ..< 41] @ [1]"
  "storageKey (OpenSubStorage toyK (addrs_space toyK (bpt_space toyK deepStorage)) [0]) = 0 # 1 # map of_nat (rev [12 ..< 41]) @ [1]"
  "storageKey (poster_space toyK (bpt_space toyK deepStorage) 5) = 5 # replicate 19 0 @ 1 # map of_nat (rev [31 ..< 41]) @ [1]"
  by code_simp+

lemma toyK_l1_free: "l1_free toyK deepStorage {5}" "bp_free toyK (bpt_space toyK deepStorage) {5}"
proof -
  let ?B = "bpt_space toyK deepStorage"
  let ?ks = "[storageKey ?B, storageKey (addrs_space toyK ?B),
    storageKey (OpenSubStorage toyK (addrs_space toyK ?B) [0]), storageKey (poster_space toyK ?B 5)]"
  let ?S = "uint_keys deepStorage \<union> bp_keys toyK ?B {5}"
  have d: "distinct (map (take 12) (storageKey deepStorage # ?ks))" unfolding deep_bpt_keys deep_keys(1) by code_simp
  have fst: "fst ` bp_keys toyK ?B {5} = set ?ks" by (auto simp: bp_keys_def uint_keys_def image_Un image_iff)
  have fst': "fst ` ?S = set (storageKey deepStorage # ?ks)" unfolding image_Un fst by (auto simp: uint_keys_def)
  have cf: "collision_free toyK ?S"
  proof (rule toyK_collision_free)
    show "inj_on (take 12) (fst ` ?S)" unfolding fst' using d by (rule distinct_map [THEN iffD1, THEN conjunct2])
    fix sk k assume k: "(sk, k) \<in> ?S"
    then have "sk \<in> set (storageKey deepStorage # ?ks)" unfolding fst' [symmetric] by force
    then have "length sk = 32" by (auto simp: deep_bpt_keys deep_keys(1))
    moreover have n: "unat (UintToHash n) < 2 ^ 160" for n by (simp, rule less_trans [OF unat_u64_bound], simp)
    moreover have "unat (AddressToHash a) < 2 ^ 160" for a
      using unat_less_2p [of a] by (simp add: AddressToHash_ucast unat_ucast_bound)
    then have "unat k < 2 ^ 160" using k n by (auto simp: bp_keys_def uint_keys_def)
    ultimately show "length sk = 32 \<and> unat k < 2 ^ 160" by blast
  qed
  have ks: "distinct (storageKey deepStorage # ?ks)" using d by (rule distinct_map [THEN iffD1, THEN conjunct1])
  then show "l1_free toyK deepStorage {5}" using cf unfolding l1_free_def fst by auto
  have "collision_free toyK (bp_keys toyK ?B {5})"
    using cf by (auto simp: collision_free_def intro: inj_on_subset)
  then show "bp_free toyK ?B {5}" using ks by (auto simp: bp_free_def)
qed

definition settle_world :: world where
  "settle_world = (let s = NewSlot toyK deepStorage in
     upd (s 1) 1600 (upd (s 2) 10 (upd (s 3) 2 (upd (s 6) 100 (upd (s 11) 1000
       (blank\<lparr>w_balance := (\<lambda>_. 0)(L1PricerFundsPoolAddress := 1000)\<rparr>))))))"

lemma settle_world_rel:
  "l1_rel toyK deepStorage {5} settle_world \<lparr>bp_posters = [], bp_due = \<lambda>_. 0, bp_pay = \<lambda>_. 0\<rparr>
     ((\<lambda>_. 0)(11 := 1000, 6 := 100, 3 := 2, 2 := 10, 1 := 1600))"
proof -
  have "l1_rel toyK deepStorage {5} blank \<lparr>bp_posters = [], bp_due = \<lambda>_. 0, bp_pay = \<lambda>_. 0\<rparr> (\<lambda>_. 0)"
    using toyK_l1_free bp_freeD(8) [OF toyK_l1_free(2)] by (simp add: l1_rel_def bp_table_def indexed_def big_at_def)
  then show ?thesis unfolding settle_world_def Let_def by (intro l1_rel_upd) simp_all
qed

text \<open>The same after a settlement at time 4.\<close>

definition late_world :: world where
  "late_world = upd (NewSlot toyK deepStorage 4) 4 settle_world"

lemma late_world_rel:
  "l1_rel toyK deepStorage {5} late_world \<lparr>bp_posters = [], bp_due = \<lambda>_. 0, bp_pay = \<lambda>_. 0\<rparr>
     ((\<lambda>_. 0)(11 := 1000, 6 := 100, 3 := 2, 2 := 10, 1 := 1600, 4 := 4))"
  unfolding late_world_def by (intro l1_rel_upd settle_world_rel) simp

theorem batch_posting_settlement_witness:
  "\<exists>w'. UpdateForBatchPosterSpending toyK (OpenL1PricingState toyK deepStorage) 10 5 5 5 300 7 settle_world = (Ok (), w') \<and>
    fst (L1FeesAvailable (OpenL1PricingState toyK deepStorage) w') = Ok 500 \<and>
    fst (FundsDueForRewards (OpenL1PricingState toyK deepStorage) w') = Ok 0 \<and> w_balance w' 5 = 300"
proof -
  let ?L = "(\<lambda>_. 0)(11 := 1000, 6 := 100, 3 := 2, 2 := 10, 1 := 1600) :: u64 \<Rightarrow> hash"
  have "SaturatingUMul 100 1 = (100 :: u64)" by code_simp
  then have u: "settled_units ?L 5 5 = 100" by (simp add: settled_units_def firstUpdateTime_def allocation_def)
  have "L1PricerFundsPoolAddress \<noteq> 5" "L1PricerFundsPoolAddress \<noteq> 0" by (simp_all add: L1PricerFundsPoolAddress_def)
  moreover have "w_balance settle_world = (\<lambda>_. 0)(L1PricerFundsPoolAddress := 1000)" by (simp add: settle_world_def Let_def)
  ultimately show ?thesis
    using batch_posting_settlement [OF settle_world_rel, of 10 5 5 5 7 300, unfolded u]
    by (simp add: opened_def settled_reward_def capped_def firstUpdateTime_def next_price_def moved_def)
      (elim exE conjE, intro exI conjI, assumption+, simp)
qed

text \<open>
  C36. A report whose time lies in the future, or before the last settlement, settles nothing at any ArbOS
  version: no balance moves and the pricing state's own slots keep their values. The one write is in the
  batch poster table, where the reporting poster is opened when it was not there. From version 2 on the
  report fails with \<^verbatim>\<open>ErrInvalidTime\<close>; before version 2 it is dropped without an error.
\<close>

theorem settlement_rejects_bad_times:
  assumes r: "l1_rel K sto U w t L" and a: "a \<in> U" and len: "Suc (length (bp_posters t)) < 2 ^ 64"
    and time: "currentTime < updateTime \<or> updateTime < firstUpdateTime (ucast (L 4)) updateTime"
  shows "\<exists>w'. UpdateForBatchPosterSpending K (OpenL1PricingState K sto) v updateTime currentTime a weiSpent l1Basefee w =
      (if v < 2 then Ok () else Err ErrInvalidTime, w') \<and> l1_rel K sto U w' (opened t a) L \<and> w_balance w' = w_balance w"
proof -
  from l1_OpenPoster [OF r a len] obtain w1 where
    w1: "OpenPoster K (OpenBatchPostersTable K (bpt_space K sto)) a True w = (Ok (poster_of K (bpt_space K sto) a), w1)"
    "l1_rel K sto U w1 (opened t a) L" "w_balance w1 = w_balance w" by blast
  note reads = l1_reads(5,6,11,12) [where K = K and sto = sto and U = U and t = "opened t a" and L = L]
  show ?thesis
  proof (cases "v < 2")
    case True
    then have v: "v < 10" by (rule less_trans) simp
    have "\<not> updateTime < updateTime - 1" if "0 < updateTime" using that by unat_arith
    then have "updateTime < ucast (L 4) \<and> (ucast (L 4) :: u64) \<noteq> 0 \<or> currentTime < updateTime"
      using time by (auto simp: firstUpdateTime_def split: if_splits)
    then have "updateTime \<ge> currentTime \<or>
        updateTime < (if (ucast (L 4) :: u64) = 0 \<and> currentTime > 0 then updateTime - 1 else ucast (L 4))"
      by auto
    then show ?thesis using w1 True v
      by (simp add: UpdateForBatchPosterSpending_def preversion10_UpdateForBatchPosterSpending_def
          preVersion2_UpdateForBatchPosterSpending_def Let_def bindM_Ok reads GetBalance_def returnM_def)
  next
    case False
    with time show ?thesis using w1
      by (simp add: UpdateForBatchPosterSpending_def preversion10_UpdateForBatchPosterSpending_def Let_def bindM_Ok
          reads failM_def)
  qed
qed

theorem settlement_rejects_bad_times_witness:
  "(\<exists>w'. UpdateForBatchPosterSpending toyK (OpenL1PricingState toyK deepStorage) 10 6 5 5 300 7 settle_world =
      (Err ErrInvalidTime, w') \<and> w_balance w' = w_balance settle_world) \<and>
   (\<exists>w'. UpdateForBatchPosterSpending toyK (OpenL1PricingState toyK deepStorage) 3 3 5 5 300 7 late_world =
      (Err ErrInvalidTime, w') \<and> w_balance w' = w_balance late_world) \<and>
   (\<exists>w'. UpdateForBatchPosterSpending toyK (OpenL1PricingState toyK deepStorage) 1 3 5 5 300 7 late_world =
      (Ok (), w') \<and> w_balance w' = w_balance late_world)"
  using settlement_rejects_bad_times [OF settle_world_rel, of 5 5 6 10 300 7]
    settlement_rejects_bad_times [OF late_world_rel, of 5 5 3 3 300 7]
    settlement_rejects_bad_times [OF late_world_rel, of 5 5 3 1 300 7]
  by (auto simp: firstUpdateTime_def)

end
