(* ===== verification/Retryables.thy ===== *)
theory Retryables
  imports Queue
begin

text \<open>
  \<^verbatim>\<open>arbos/retryables/retryable.go\<close>: retryable tickets, each in a storage space of its own named by the
  ticket's id, and the queue of timeouts that reaps them. The abstract state (\<open>rt_abs\<close>) is the list of queued ids
  and a map from live ids to tickets; the operations on storage refine the steps on it.
\<close>

section \<open>Definitions\<close>

definition RetryableLifetimeSeconds :: u64 where "RetryableLifetimeSeconds = 7 * 24 * 60 * 60"
definition RetryableReapPrice :: u64 where "RetryableReapPrice = 58000"

record RetryableState =
  rs_retryables :: Storage
  TimeoutQueue :: Queue

definition timeoutQueueKey :: bytes where "timeoutQueueKey = [0]"
definition calldataKey :: bytes where "calldataKey = [1]"

definition InitializeRetryableState :: "(bytes \<Rightarrow> bytes) \<Rightarrow> Storage \<Rightarrow> unit arb" where
  "InitializeRetryableState K sto = InitializeQueue K (OpenCachedSubStorage K sto timeoutQueueKey)"

definition OpenRetryableState :: "(bytes \<Rightarrow> bytes) \<Rightarrow> Storage \<Rightarrow> RetryableState" where
  "OpenRetryableState K sto =
     \<lparr>rs_retryables = sto, TimeoutQueue = OpenQueue K (OpenCachedSubStorage K sto timeoutQueueKey)\<rparr>"

record Retryable =
  rt_id :: hash
  backingStorage :: Storage
  numTries :: StorageSlot
  rt_from :: StorageSlot
  rt_to :: StorageSlot
  callvalue :: StorageSlot
  beneficiary :: StorageSlot
  calldata :: Storage
  timeout :: StorageSlot
  timeoutWindowsLeft :: StorageSlot

definition numTriesOffset :: u64 where "numTriesOffset = 0"
definition fromOffset :: u64 where "fromOffset = 1"
definition toOffset :: u64 where "toOffset = 2"
definition callvalueOffset :: u64 where "callvalueOffset = 3"
definition beneficiaryOffset :: u64 where "beneficiaryOffset = 4"
definition timeoutOffset :: u64 where "timeoutOffset = 5"
definition timeoutWindowsLeftOffset :: u64 where "timeoutWindowsLeftOffset = 6"

text \<open>The record that both \<^verbatim>\<open>CreateRetryable\<close> and \<^verbatim>\<open>OpenRetryable\<close> fill in.\<close>

definition retryable_at :: "(bytes \<Rightarrow> bytes) \<Rightarrow> RetryableState \<Rightarrow> hash \<Rightarrow> Retryable" where
  "retryable_at K rs ticket =
     (let sto = OpenSubStorage K (rs_retryables rs) (hash_bytes ticket) in
      \<lparr>rt_id = ticket,
       backingStorage = sto,
       numTries = OpenStorageBackedUint64 K sto numTriesOffset,
       rt_from = OpenStorageBackedAddress K sto fromOffset,
       rt_to = OpenStorageBackedAddressOrNil K sto toOffset,
       callvalue = OpenStorageBackedBigUint K sto callvalueOffset,
       beneficiary = OpenStorageBackedAddress K sto beneficiaryOffset,
       calldata = OpenStorageBackedBytes K sto calldataKey,
       timeout = OpenStorageBackedUint64 K sto timeoutOffset,
       timeoutWindowsLeft = OpenStorageBackedUint64 K sto timeoutWindowsLeftOffset\<rparr>)"

definition CreateRetryable ::
  "(bytes \<Rightarrow> bytes) \<Rightarrow> RetryableState \<Rightarrow> hash \<Rightarrow> u64 \<Rightarrow> address \<Rightarrow> address option \<Rightarrow> int \<Rightarrow> address \<Rightarrow> bytes \<Rightarrow>
     Retryable arb" where
  "CreateRetryable K rs ticket tmo sender dest val benef data =
     (let ret = retryable_at K rs ticket in
      thenM (ignoreM (StorageBackedUint64_Set (numTries ret) 0))
     (thenM (ignoreM (StorageBackedAddress_Set (rt_from ret) sender))
     (thenM (ignoreM (StorageBackedAddressOrNil_Set (rt_to ret) dest))
     (thenM (ignoreM (StorageBackedBigUint_SetChecked (callvalue ret) val))
     (thenM (ignoreM (StorageBackedAddress_Set (beneficiary ret) benef))
     (thenM (ignoreM (StorageBackedBytes_Set K (calldata ret) data))
     (thenM (ignoreM (StorageBackedUint64_Set (timeout ret) tmo))
     (thenM (ignoreM (StorageBackedUint64_Set (timeoutWindowsLeft ret) 0))
     (thenM (Queue_Put K (TimeoutQueue rs) ticket) (returnM ret))))))))))"

definition OpenRetryable ::
  "(bytes \<Rightarrow> bytes) \<Rightarrow> RetryableState \<Rightarrow> hash \<Rightarrow> u64 \<Rightarrow> Retryable option arb" where
  "OpenRetryable K rs ticket currentTimestamp =
     bindM (StorageBackedUint64_Get (timeout (retryable_at K rs ticket))) (\<lambda>tmo.
       if tmo = 0 \<or> tmo < currentTimestamp then returnM None
       else returnM (Some (retryable_at K rs ticket)))"

definition CalldataSize :: "(bytes \<Rightarrow> bytes) \<Rightarrow> Retryable \<Rightarrow> u64 arb" where
  "CalldataSize K r = StorageBackedBytes_Size K (calldata r)"

definition RetryableSizeBytes :: "(bytes \<Rightarrow> bytes) \<Rightarrow> RetryableState \<Rightarrow> hash \<Rightarrow> u64 \<Rightarrow> u64 arb" where
  "RetryableSizeBytes K rs ticket currentTime =
     bindM (OpenRetryable K rs ticket currentTime) (\<lambda>r.
       case r of None \<Rightarrow> returnM 0
       | Some retryable \<Rightarrow>
           bindM (CalldataSize K retryable) (\<lambda>size. returnM (6 * 32 + (32 + 32 * WordsForBytes size))))"

definition RetryableEscrowAddress :: "(bytes \<Rightarrow> bytes) \<Rightarrow> hash \<Rightarrow> address" where
  "RetryableEscrowAddress K ticketId =
     bytes_address (K (map of_char ''retryable escrow'' @ hash_bytes ticketId))"

definition DeleteRetryable :: "(bytes \<Rightarrow> bytes) \<Rightarrow> RetryableState \<Rightarrow> hash \<Rightarrow> bool arb" where
  "DeleteRetryable K rs ticket =
     (let retStorage = OpenSubStorage K (rs_retryables rs) (hash_bytes ticket) in
      bindM (GetByUint64 K retStorage timeoutOffset) (\<lambda>tmo.
        if tmo = 0 then returnM False else
      bindM (orM 0 (GetByUint64 K retStorage beneficiaryOffset)) (\<lambda>benef.
      let escrowAddress = RetryableEscrowAddress K ticket;
          beneficiaryAddress = bytes_address (hash_bytes benef) in
      bindM (GetBalance escrowAddress) (\<lambda>amount.
      thenM (TransferBalance (Some escrowAddress) (Some beneficiaryAddress) amount)
     (thenM (ignoreM (ClearByUint64 K retStorage numTriesOffset))
     (thenM (ignoreM (ClearByUint64 K retStorage fromOffset))
     (thenM (ignoreM (ClearByUint64 K retStorage toOffset))
     (thenM (ignoreM (ClearByUint64 K retStorage callvalueOffset))
     (thenM (ignoreM (ClearByUint64 K retStorage beneficiaryOffset))
     (thenM (ignoreM (ClearByUint64 K retStorage timeoutOffset))
     (thenM (ignoreM (ClearByUint64 K retStorage timeoutWindowsLeftOffset))
     (thenM (ClearBytes K (OpenSubStorage K retStorage calldataKey)) (returnM True)))))))))))))"

definition NumTries :: "Retryable \<Rightarrow> u64 arb" where
  "NumTries r = StorageBackedUint64_Get (numTries r)"

definition IncrementNumTries :: "Retryable \<Rightarrow> u64 arb" where
  "IncrementNumTries r = StorageBackedUint64_Increment (numTries r)"

definition Beneficiary :: "Retryable \<Rightarrow> address arb" where
  "Beneficiary r = StorageBackedAddress_Get (beneficiary r)"

definition CalculateTimeout :: "Retryable \<Rightarrow> u64 arb" where
  "CalculateTimeout r =
     bindM (StorageBackedUint64_Get (timeout r)) (\<lambda>tmo.
     bindM (StorageBackedUint64_Get (timeoutWindowsLeft r)) (\<lambda>windows.
       returnM (tmo + windows * RetryableLifetimeSeconds)))"

definition SetTimeout :: "Retryable \<Rightarrow> u64 \<Rightarrow> unit arb" where
  "SetTimeout r val = StorageBackedUint64_Set (timeout r) val"

definition TimeoutWindowsLeft :: "Retryable \<Rightarrow> u64 arb" where
  "TimeoutWindowsLeft r = StorageBackedUint64_Get (timeoutWindowsLeft r)"

definition From :: "Retryable \<Rightarrow> address arb" where
  "From r = StorageBackedAddress_Get (rt_from r)"

definition To :: "Retryable \<Rightarrow> address option arb" where
  "To r = StorageBackedAddressOrNil_Get (rt_to r)"

definition Callvalue :: "Retryable \<Rightarrow> int arb" where
  "Callvalue r = StorageBackedBigUint_Get (callvalue r)"

definition Calldata :: "(bytes \<Rightarrow> bytes) \<Rightarrow> Retryable \<Rightarrow> bytes arb" where
  "Calldata K r = StorageBackedBytes_Get K (calldata r)"

definition ErrTicketNotFound :: go_error where "ErrTicketNotFound = ErrMsg ''ticketId not found''"
definition ErrTimeoutTooFar :: go_error where "ErrTimeoutTooFar = ErrMsg ''timeout too far into the future''"

definition Keepalive :: "(bytes \<Rightarrow> bytes) \<Rightarrow> RetryableState \<Rightarrow> hash \<Rightarrow> u64 \<Rightarrow> u64 \<Rightarrow> u64 \<Rightarrow> u64 arb" where
  "Keepalive K rs ticketId currentTimestamp limitBeforeAdd timeToAdd =
     bindM (OpenRetryable K rs ticketId currentTimestamp) (\<lambda>r.
       case r of None \<Rightarrow> failM ErrTicketNotFound
       | Some retryable \<Rightarrow>
           bindM (CalculateTimeout retryable) (\<lambda>tmo.
             if tmo > limitBeforeAdd then failM ErrTimeoutTooFar else
           thenM (Queue_Put K (TimeoutQueue rs) (rt_id retryable))
          (bindM (StorageBackedUint64_Increment (timeoutWindowsLeft retryable)) (\<lambda>_.
           thenM (Burn RetryableReapPrice) (returnM (tmo + RetryableLifetimeSeconds))))))"

definition TryToReapOneRetryable :: "(bytes \<Rightarrow> bytes) \<Rightarrow> RetryableState \<Rightarrow> u64 \<Rightarrow> unit arb" where
  "TryToReapOneRetryable K rs currentTimestamp =
     bindM (Queue_Peek K (TimeoutQueue rs)) (\<lambda>front.
       case front of None \<Rightarrow> returnM ()
       | Some ticket \<Rightarrow>
           let retryableStorage = OpenSubStorage K (rs_retryables rs) (hash_bytes ticket);
               timeoutStorage = OpenStorageBackedUint64 K retryableStorage timeoutOffset;
               windowsLeftStorage = OpenStorageBackedUint64 K retryableStorage timeoutWindowsLeftOffset in
           bindM (StorageBackedUint64_Get timeoutStorage) (\<lambda>tmo.
             if tmo = 0 then bindM (Queue_Get K (TimeoutQueue rs)) (\<lambda>_. returnM ()) else
           bindM (StorageBackedUint64_Get windowsLeftStorage) (\<lambda>windowsLeft.
             if tmo \<ge> currentTimestamp then returnM () else
           bindM (Queue_Get K (TimeoutQueue rs)) (\<lambda>_.
             if windowsLeft = 0 then bindM (DeleteRetryable K rs ticket) (\<lambda>_. returnM ())
             else thenM (StorageBackedUint64_Set timeoutStorage (tmo + RetryableLifetimeSeconds))
                    (StorageBackedUint64_Set windowsLeftStorage (windowsLeft - 1))))))"

text \<open>The retry transaction of a ticket.\<close>

record ArbitrumRetryTx =
  art_ChainId :: int
  art_Nonce :: u64
  art_From :: address
  art_GasFeeCap :: int
  art_Gas :: u64
  art_To :: "address option"
  art_Value :: int
  art_Data :: bytes
  art_TicketId :: hash
  art_RefundTo :: address
  art_MaxRefund :: int
  art_SubmissionFeeRefund :: int

definition MakeTx ::
  "(bytes \<Rightarrow> bytes) \<Rightarrow> Retryable \<Rightarrow> int \<Rightarrow> u64 \<Rightarrow> int \<Rightarrow> u64 \<Rightarrow> hash \<Rightarrow> address \<Rightarrow> int \<Rightarrow> int \<Rightarrow> ArbitrumRetryTx arb" where
  "MakeTx K r chainId nonce gasFeeCap gas ticketId refundTo maxRefund submissionFeeRefund =
     bindM (From r) (\<lambda>sender.
     bindM (To r) (\<lambda>dest.
     bindM (Callvalue r) (\<lambda>val.
     bindM (Calldata K r) (\<lambda>data.
       returnM \<lparr>art_ChainId = chainId, art_Nonce = nonce, art_From = sender, art_GasFeeCap = gasFeeCap, art_Gas = gas,
         art_To = dest, art_Value = val, art_Data = data, art_TicketId = ticketId, art_RefundTo = refundTo,
         art_MaxRefund = maxRefund, art_SubmissionFeeRefund = submissionFeeRefund\<rparr>))))"

definition RetryableSubmissionFee :: "i64 \<Rightarrow> int \<Rightarrow> int" where
  "RetryableSubmissionFee calldataLengthInBytes l1BaseFee =
     BigMulByUint l1BaseFee (1400 + 6 * calldataLengthInBytes)"

section \<open>The abstract state machine\<close>

record ticket =
  t_tries :: u64
  t_from :: address
  t_to :: "address option"
  t_value :: int
  t_benef :: address
  t_data :: bytes
  t_timeout :: u64
  t_windows :: u64

record rt_abs =
  rt_queue :: "hash list"
  rt_live :: "hash \<rightharpoonup> ticket"

definition a_create :: "hash \<Rightarrow> ticket \<Rightarrow> rt_abs \<Rightarrow> rt_abs" where
  "a_create i t A = A\<lparr>rt_live := (rt_live A)(i \<mapsto> t), rt_queue := rt_queue A @ [i]\<rparr>"

definition a_keepalive :: "hash \<Rightarrow> ticket \<Rightarrow> rt_abs \<Rightarrow> rt_abs" where
  "a_keepalive i t A =
     A\<lparr>rt_queue := rt_queue A @ [i], rt_live := (rt_live A)(i \<mapsto> t\<lparr>t_windows := t_windows t + 1\<rparr>)\<rparr>"

definition a_delete :: "hash \<Rightarrow> rt_abs \<Rightarrow> rt_abs" where
  "a_delete i A = A\<lparr>rt_live := (rt_live A)(i := None)\<rparr>"

definition a_reap :: "u64 \<Rightarrow> rt_abs \<Rightarrow> rt_abs" where
  "a_reap now A =
     (case rt_queue A of [] \<Rightarrow> A
      | i # q \<Rightarrow>
          (case rt_live A i of None \<Rightarrow> A\<lparr>rt_queue := q\<rparr>
           | Some t \<Rightarrow>
               if t_timeout t \<ge> now then A
               else if t_windows t = 0 then A\<lparr>rt_queue := q, rt_live := (rt_live A)(i := None)\<rparr>
               else A\<lparr>rt_queue := q, rt_live := (rt_live A)(i \<mapsto>
                 t\<lparr>t_timeout := t_timeout t + RetryableLifetimeSeconds, t_windows := t_windows t - 1\<rparr>)\<rparr>))"

text \<open>The time until which a ticket may be redeemed, and the contents that never change.\<close>

definition deadline :: "ticket \<Rightarrow> nat" where
  "deadline t = unat (t_timeout t) + unat (t_windows t) * unat RetryableLifetimeSeconds"

definition payload :: "ticket \<Rightarrow> address \<times> address option \<times> int \<times> address \<times> bytes" where
  "payload t = (t_from t, t_to t, t_value t, t_benef t, t_data t)"

text \<open>
  The steps of the chain. An id is created once (\<^verbatim>\<open>CreateRetryable\<close> assumes it), and the limit a keepalive
  is called with is a time in the 64-bit range, a lifetime before its end.
\<close>

inductive rt_step :: "rt_abs \<Rightarrow> rt_abs \<Rightarrow> bool" where
  created: "i \<notin> set (rt_queue A) \<Longrightarrow> rt_live A i = None \<Longrightarrow> t_timeout t \<noteq> 0 \<Longrightarrow> t_windows t = 0 \<Longrightarrow>
    rt_step A (a_create i t A)"
| kept: "rt_live A i = Some t \<Longrightarrow> deadline t \<le> limit \<Longrightarrow> limit + unat RetryableLifetimeSeconds < 2 ^ 64 \<Longrightarrow>
    rt_step A (a_keepalive i t A)"
| deleted: "rt_step A (a_delete i A)"
| tried: "rt_live A i = Some t \<Longrightarrow> rt_step A (A\<lparr>rt_live := (rt_live A)(i \<mapsto> t\<lparr>t_tries := n\<rparr>)\<rparr>)"
| reaped: "rt_step A (a_reap now A)"

inductive rt_reachable :: "rt_abs \<Rightarrow> bool" where
  start: "rt_reachable \<lparr>rt_queue = [], rt_live = Map.empty\<rparr>"
| step: "rt_reachable A \<Longrightarrow> rt_step A B \<Longrightarrow> rt_reachable B"

text \<open>A live ticket is queued once for its timeout and once for every window left.\<close>

definition rt_ok :: "rt_abs \<Rightarrow> bool" where
  "rt_ok A \<longleftrightarrow> (\<forall>i t. rt_live A i = Some t \<longrightarrow>
     t_timeout t \<noteq> 0 \<and> deadline t < 2 ^ 64 \<and> count_list (rt_queue A) i = Suc (unat (t_windows t)))"

lemma lifetime [simp]: "unat RetryableLifetimeSeconds = 604800"
  by (simp add: RetryableLifetimeSeconds_def)

lemma rt_okD:
  "rt_ok A \<Longrightarrow> rt_live A i = Some t \<Longrightarrow> t_timeout t \<noteq> 0"
  "rt_ok A \<Longrightarrow> rt_live A i = Some t \<Longrightarrow> deadline t < 2 ^ 64"
  "rt_ok A \<Longrightarrow> rt_live A i = Some t \<Longrightarrow> count_list (rt_queue A) i = Suc (unat (t_windows t))"
  by (auto simp: rt_ok_def)

lemma keepalive_ticket:
  assumes "deadline t + unat RetryableLifetimeSeconds < 2 ^ 64"
  shows "unat (t_windows t + 1) = Suc (unat (t_windows t))"
    "deadline (t\<lparr>t_windows := t_windows t + 1\<rparr>) = deadline t + unat RetryableLifetimeSeconds"
proof -
  have "unat (t_windows t) + 1 < 2 ^ 64" using assms by (simp add: deadline_def)
  then show "unat (t_windows t + 1) = Suc (unat (t_windows t))" by (simp add: unat_plus_mod)
  then show "deadline (t\<lparr>t_windows := t_windows t + 1\<rparr>) = deadline t + unat RetryableLifetimeSeconds"
    by (simp add: deadline_def)
qed

text \<open>Consuming a window moves the timeout and keeps the deadline.\<close>

lemma window_ticket:
  assumes "deadline t < 2 ^ 64" "t_windows t \<noteq> 0"
  shows "unat (t_windows t - 1) = unat (t_windows t) - 1" "0 < unat (t_windows t)"
    "unat (t_timeout t + RetryableLifetimeSeconds) = unat (t_timeout t) + 604800"
    "deadline (t\<lparr>t_timeout := t_timeout t + RetryableLifetimeSeconds, t_windows := t_windows t - 1\<rparr>) = deadline t"
proof -
  have "unat (t_windows t) \<noteq> 0" using assms(2) by (simp add: unat_eq_0)
  then show p: "0 < unat (t_windows t)" by simp
  then have "(1 :: u64) \<le> t_windows t" by (simp add: word_le_nat_alt)
  then show w: "unat (t_windows t - 1) = unat (t_windows t) - 1" by (simp add: unat_minus_le)
  have "unat (t_timeout t) + 604800 < 2 ^ 64"
    using assms(1) p mult_le_mono1 [of 1 "unat (t_windows t)" 604800] by (simp add: deadline_def)
  then show t: "unat (t_timeout t + RetryableLifetimeSeconds) = unat (t_timeout t) + 604800"
    by (simp add: unat_plus_mod)
  show "deadline (t\<lparr>t_timeout := t_timeout t + RetryableLifetimeSeconds, t_windows := t_windows t - 1\<rparr>) = deadline t"
    using p by (simp add: deadline_def w t diff_mult_distrib)
qed

lemma a_reap_cases:
  obtains (idle) "a_reap now A = A"
      "rt_queue A = [] \<or> (\<exists>t. rt_live A (hd (rt_queue A)) = Some t \<and> now \<le> t_timeout t)"
  | (stale) i q where "rt_queue A = i # q" "rt_live A i = None" "a_reap now A = A\<lparr>rt_queue := q\<rparr>"
  | (expired) i q t where "rt_queue A = i # q" "rt_live A i = Some t" "t_timeout t < now" "t_windows t = 0"
      "a_reap now A = A\<lparr>rt_queue := q, rt_live := (rt_live A)(i := None)\<rparr>"
  | (window) i q t where "rt_queue A = i # q" "rt_live A i = Some t" "t_timeout t < now" "t_windows t \<noteq> 0"
      "a_reap now A = A\<lparr>rt_queue := q, rt_live := (rt_live A)(i \<mapsto>
         t\<lparr>t_timeout := t_timeout t + RetryableLifetimeSeconds, t_windows := t_windows t - 1\<rparr>)\<rparr>"
proof (cases "rt_queue A")
  case Nil
  then show ?thesis using idle by (simp add: a_reap_def)
next
  case (Cons i q)
  show ?thesis
  proof (cases "rt_live A i")
    case None
    then show ?thesis using stale Cons by (simp add: a_reap_def)
  next
    case (Some t)
    then show ?thesis
      using idle expired [OF Cons Some] window [OF Cons Some] Cons
      by (cases "now \<le> t_timeout t"; cases "t_windows t = 0") (auto simp: a_reap_def not_le)
  qed
qed

lemma reap_ok:
  assumes ok: "rt_ok A"
  shows "rt_ok (a_reap now A)"
proof (cases rule: a_reap_cases [of now A])
  case idle
  with ok show ?thesis by simp
next
  case (stale i q)
  have "count_list q j = Suc (unat (t_windows t))" if "rt_live A j = Some t" for j t
    using rt_okD(3) [OF ok that] stale that by (auto split: if_splits)
  with ok show ?thesis unfolding stale(3) by (simp add: rt_ok_def)
next
  case (expired i q t)
  have "count_list q j = Suc (unat (t_windows u))" if "rt_live A j = Some u" "j \<noteq> i" for j u
    using rt_okD(3) [OF ok that(1)] expired that by (auto split: if_splits)
  with ok show ?thesis unfolding expired(5) by (simp add: rt_ok_def)
next
  case (window i q t)
  note t = window_ticket [OF rt_okD(2) [OF ok window(2)] window(4)]
  have "count_list q j = Suc (unat (t_windows u))" if "rt_live A j = Some u" "j \<noteq> i" for j u
    using rt_okD(3) [OF ok that(1)] window that by (auto split: if_splits)
  moreover have "count_list q i = Suc (unat (t_windows t - 1))"
    using rt_okD(3) [OF ok window(2)] window(1) t by simp
  moreover have "t_timeout t + RetryableLifetimeSeconds \<noteq> 0" using t(3) by (auto simp: word_eq_unat)
  ultimately show ?thesis using ok rt_okD(2) [OF ok window(2)] t(4) unfolding window(5) by (simp add: rt_ok_def)
qed

lemma step_ok: "rt_step A B \<Longrightarrow> rt_ok A \<Longrightarrow> rt_ok B"
proof (induction rule: rt_step.induct)
  case (created i A t)
  have "count_list (rt_queue A) i = 0" using created(1) by (simp add: count_list_0_iff)
  with created show ?case by (auto simp: rt_ok_def a_create_def deadline_def)
next
  case (kept A i t limit)
  then have "deadline t + unat RetryableLifetimeSeconds < 2 ^ 64" by simp
  from keepalive_ticket [OF this] kept this show ?case by (auto simp: rt_ok_def a_keepalive_def)
next
  case (deleted A i)
  then show ?case by (auto simp: rt_ok_def a_delete_def)
next
  case (tried A i t n)
  then show ?case by (auto simp: rt_ok_def deadline_def)
next
  case (reaped A now)
  then show ?case by (simp add: reap_ok)
qed

lemma reachable_ok: "rt_reachable A \<Longrightarrow> rt_ok A"
  by (induction rule: rt_reachable.induct) (simp add: rt_ok_def, rule step_ok)

lemma reap_keeps:
  assumes ok: "rt_ok A" and t: "rt_live A i = Some t" and now: "unat now \<le> deadline t"
  shows "\<exists>t'. rt_live (a_reap now A) i = Some t' \<and> deadline t' = deadline t \<and> payload t' = payload t \<and> t_tries t' = t_tries t"
proof (cases rule: a_reap_cases [of now A])
  case (expired j q u)
  have "i \<noteq> j"
  proof
    assume "i = j"
    with expired t now show False by (simp add: deadline_def word_less_nat_alt)
  qed
  with t show ?thesis unfolding expired(5) by simp
next
  case (window j q u)
  note d = window_ticket(4) [OF rt_okD(2) [OF ok window(2)] window(4)]
  show ?thesis using t window(2) d unfolding window(5) by (cases "i = j") (simp_all add: payload_def)
qed (use t in simp_all)

text \<open>When every deadline has passed, each call takes an entry off the queue.\<close>

lemma reap_progress:
  assumes ok: "rt_ok A" and past: "\<And>i t. rt_live A i = Some t \<Longrightarrow> deadline t < unat now"
  shows "rt_queue (a_reap now A) = tl (rt_queue A)"
    and "\<And>i t. rt_live (a_reap now A) i = Some t \<Longrightarrow> deadline t < unat now"
proof -
  have "t_timeout t < now" if "rt_live A i = Some t" for i t
    using past [OF that] by (simp add: deadline_def word_less_nat_alt)
  then show "rt_queue (a_reap now A) = tl (rt_queue A)"
    by (cases rule: a_reap_cases [of now A]) (auto simp: not_le [symmetric])
  fix i t assume live: "rt_live (a_reap now A) i = Some t"
  show "deadline t < unat now"
  proof (cases rule: a_reap_cases [of now A])
    case (window j q u)
    note d = window_ticket(4) [OF rt_okD(2) [OF ok window(2)] window(4)]
    show ?thesis using live past [OF window(2)] past d unfolding window(5) by (auto split: if_splits)
  qed (use live past in \<open>auto split: if_splits\<close>)
qed

lemma reap_all:
  assumes "rt_ok A" "\<And>i t. rt_live A i = Some t \<Longrightarrow> deadline t < unat now" "length (rt_queue A) \<le> n"
  shows "(a_reap now ^^ n) A = \<lparr>rt_queue = [], rt_live = Map.empty\<rparr>"
  using assms
proof (induction n arbitrary: A)
  case 0
  then have q: "rt_queue A = []" by simp
  have "rt_live A = Map.empty"
  proof
    fix i show "rt_live A i = None" using rt_okD(3) [OF 0(1), of i] q by (cases "rt_live A i") auto
  qed
  with q show ?case by simp
next
  case (Suc n)
  have "(a_reap now ^^ n) (a_reap now A) = \<lparr>rt_queue = [], rt_live = Map.empty\<rparr>"
  proof (rule Suc.IH)
    show "length (rt_queue (a_reap now A)) \<le> n" using reap_progress(1) [OF Suc.prems(1,2)] Suc.prems(3) by simp
  qed (use reap_ok Suc.prems(1) reap_progress(2) [OF Suc.prems(1,2)] in auto)
  then show ?case by (simp add: funpow_swap1)
qed

section \<open>What storage holds\<close>

abbreviation q_space :: "(bytes \<Rightarrow> bytes) \<Rightarrow> Storage \<Rightarrow> Storage" where
  "q_space K sto \<equiv> OpenCachedSubStorage K sto timeoutQueueKey"

abbreviation t_space :: "(bytes \<Rightarrow> bytes) \<Rightarrow> Storage \<Rightarrow> hash \<Rightarrow> Storage" where
  "t_space K sto i \<equiv> OpenSubStorage K sto (hash_bytes i)"

abbreviation d_space :: "(bytes \<Rightarrow> bytes) \<Rightarrow> Storage \<Rightarrow> hash \<Rightarrow> Storage" where
  "d_space K sto i \<equiv> OpenSubStorage K (t_space K sto i) calldataKey"

definition rt_keys :: "(bytes \<Rightarrow> bytes) \<Rightarrow> Storage \<Rightarrow> hash set \<Rightarrow> (bytes \<times> hash) set" where
  "rt_keys K sto I =
     uint_keys (q_space K sto) \<union> (\<Union>i \<in> I. uint_keys (t_space K sto i) \<union> uint_keys (d_space K sto i))"

definition rt_free :: "(bytes \<Rightarrow> bytes) \<Rightarrow> Storage \<Rightarrow> hash set \<Rightarrow> bool" where
  "rt_free K sto I \<longleftrightarrow>
     collision_free K (rt_keys K sto I) \<and>
     inj_on (\<lambda>i. storageKey (t_space K sto i)) I \<and> inj_on (\<lambda>i. storageKey (d_space K sto i)) I \<and>
     (\<forall>i \<in> I. storageKey (t_space K sto i) \<noteq> storageKey (q_space K sto) \<and>
        storageKey (d_space K sto i) \<noteq> storageKey (q_space K sto)) \<and>
     (\<forall>i \<in> I. \<forall>j \<in> I. storageKey (t_space K sto i) \<noteq> storageKey (d_space K sto j))"

lemma rt_free_slots:
  assumes f: "rt_free K sto I"
  shows "collision_free K (uint_keys (q_space K sto))"
    "i \<in> I \<Longrightarrow> NewSlot K (t_space K sto i) m \<noteq> NewSlot K (q_space K sto) n"
    "i \<in> I \<Longrightarrow> NewSlot K (d_space K sto i) m \<noteq> NewSlot K (q_space K sto) n"
    "i \<in> I \<Longrightarrow> j \<in> I \<Longrightarrow> NewSlot K (t_space K sto i) m = NewSlot K (t_space K sto j) n \<longleftrightarrow> i = j \<and> m = n"
    "i \<in> I \<Longrightarrow> j \<in> I \<Longrightarrow> i \<noteq> j \<Longrightarrow> NewSlot K (d_space K sto i) m \<noteq> NewSlot K (d_space K sto j) n"
    "i \<in> I \<Longrightarrow> j \<in> I \<Longrightarrow> NewSlot K (t_space K sto i) m \<noteq> NewSlot K (d_space K sto j) n"
    "i \<in> I \<Longrightarrow> collision_free K (uint_keys (d_space K sto i))"
proof -
  let ?S = "rt_keys K sto I"
  have cf: "collision_free K ?S" using f by (simp add: rt_free_def)
  have q: "uint_keys (q_space K sto) \<subseteq> ?S" by (auto simp: rt_keys_def)
  have t: "uint_keys (t_space K sto i) \<subseteq> ?S" "uint_keys (d_space K sto i) \<subseteq> ?S" if "i \<in> I" for i
    using that by (auto simp: rt_keys_def)
  have S: "(storageKey (q_space K sto), UintToHash n) \<in> ?S"
    "i \<in> I \<Longrightarrow> (storageKey (t_space K sto i), UintToHash n) \<in> ?S"
    "i \<in> I \<Longrightarrow> (storageKey (d_space K sto i), UintToHash n) \<in> ?S" for i n
    by (auto simp: rt_keys_def uint_keys_def)
  note inj = mapAddress_inject [OF cf]
  show "collision_free K (uint_keys (q_space K sto))" using collision_free_subset [OF cf q] .
  show "collision_free K (uint_keys (d_space K sto i))" if "i \<in> I" using collision_free_subset [OF cf t(2) [OF that]] .
  show "NewSlot K (t_space K sto i) m \<noteq> NewSlot K (q_space K sto) n" if "i \<in> I"
    using f that unfolding NewSlot_def inj [OF S(2) [OF that] S(1)] by (auto simp: rt_free_def)
  show "NewSlot K (d_space K sto i) m \<noteq> NewSlot K (q_space K sto) n" if "i \<in> I"
    using f that unfolding NewSlot_def inj [OF S(3) [OF that] S(1)] by (auto simp: rt_free_def)
  show "NewSlot K (t_space K sto i) m = NewSlot K (t_space K sto j) n \<longleftrightarrow> i = j \<and> m = n" if "i \<in> I" "j \<in> I"
    using f that unfolding NewSlot_def inj [OF S(2) [OF that(1)] S(2) [OF that(2)]] by (auto simp: rt_free_def dest: inj_onD)
  show "NewSlot K (d_space K sto i) m \<noteq> NewSlot K (d_space K sto j) n" if "i \<in> I" "j \<in> I" "i \<noteq> j"
    using f that unfolding NewSlot_def inj [OF S(3) [OF that(1)] S(3) [OF that(2)]] by (auto simp: rt_free_def dest: inj_onD)
  show "NewSlot K (t_space K sto i) m \<noteq> NewSlot K (d_space K sto j) n" if "i \<in> I" "j \<in> I"
    using f that unfolding NewSlot_def inj [OF S(2) [OF that(1)] S(3) [OF that(2)]] by (auto simp: rt_free_def)
qed

definition to_word :: "address option \<Rightarrow> hash" where
  "to_word d = (case d of None \<Rightarrow> NilAddressRepresentation | Some a \<Rightarrow> AddressToHash a)"

lemma AddressOrNil_Set_run [run_simps]:
  "sys w \<Longrightarrow> StorageBackedAddressOrNil_Set ss d w = (Ok (), upd ss (to_word d) (charge (writeCost (to_word d)) w))"
  by (simp add: StorageBackedAddressOrNil_Set_def to_word_def run_simps AddressToHash_def split: option.split)

lemma AddressOrNil_Get_run:
  assumes "sys w" "sdb w ss = to_word d"
  shows "StorageBackedAddressOrNil_Get ss w = (Ok d, charge StorageReadCost w)"
proof -
  have "AddressToHash a \<noteq> NilAddressRepresentation" for a
  proof -
    have "unat (AddressToHash a) < 2 ^ 160"
      using unat_less_2p [of a] by (simp add: AddressToHash_ucast unat_ucast_bound)
    moreover have "unat NilAddressRepresentation = 2 ^ 255"
      by (simp add: NilAddressRepresentation_def BigToHash_abs)
    ultimately show ?thesis by auto
  qed
  with assms show ?thesis
    by (cases d) (simp_all add: StorageBackedAddressOrNil_Get_def to_word_def run_simps flip: AddressToHash_def)
qed

text \<open>A space holds a ticket: seven words and the calldata in a space below it.\<close>

definition holds_ticket :: "(bytes \<Rightarrow> bytes) \<Rightarrow> Storage \<Rightarrow> world \<Rightarrow> ticket \<Rightarrow> bool" where
  "holds_ticket K s w t \<longleftrightarrow>
     sdb w (NewSlot K s 0) = UintToHash (t_tries t) \<and> sdb w (NewSlot K s 1) = AddressToHash (t_from t) \<and>
     sdb w (NewSlot K s 2) = to_word (t_to t) \<and> sdb w (NewSlot K s 3) = BigToHash (t_value t) \<and>
     sdb w (NewSlot K s 4) = AddressToHash (t_benef t) \<and> sdb w (NewSlot K s 5) = UintToHash (t_timeout t) \<and>
     sdb w (NewSlot K s 6) = UintToHash (t_windows t) \<and>
     holds_bytes K (OpenSubStorage K s calldataKey) w (t_data t) 1 \<and>
     sdb w (NewSlot K (OpenSubStorage K s calldataKey) 0) = UintToHash (of_nat (length (t_data t)))"

definition ticket_ok :: "ticket \<Rightarrow> bool" where
  "ticket_ok t \<longleftrightarrow> t_timeout t \<noteq> 0 \<and> length (t_data t) < 2 ^ 64 \<and> 0 \<le> t_value t \<and> t_value t < 2 ^ 256"

definition rt_rel :: "(bytes \<Rightarrow> bytes) \<Rightarrow> Storage \<Rightarrow> hash set \<Rightarrow> world \<Rightarrow> rt_abs \<Rightarrow> bool" where
  "rt_rel K sto I w A \<longleftrightarrow>
     rt_free K sto I \<and> queue_inv K (q_space K sto) w \<and> queue_contents K (q_space K sto) w = rt_queue A \<and>
     set (rt_queue A) \<subseteq> I \<and>
     (\<forall>i \<in> I. case rt_live A i of None \<Rightarrow> sdb w (NewSlot K (t_space K sto i) 5) = 0
        | Some t \<Rightarrow> ticket_ok t \<and> holds_ticket K (t_space K sto i) w t)"

lemma rt_relD:
  assumes "rt_rel K sto I w A"
  shows "rt_free K sto I" "queue_inv K (q_space K sto) w" "queue_contents K (q_space K sto) w = rt_queue A"
    "set (rt_queue A) \<subseteq> I" "sys w"
    "\<And>i. i \<in> I \<Longrightarrow> rt_live A i = None \<Longrightarrow> sdb w (NewSlot K (t_space K sto i) 5) = 0"
    "\<And>i t. i \<in> I \<Longrightarrow> rt_live A i = Some t \<Longrightarrow> ticket_ok t \<and> holds_ticket K (t_space K sto i) w t"
proof -
  show "sys w" using assms by (simp add: rt_rel_def queue_inv_def)
  show "sdb w (NewSlot K (t_space K sto i) 5) = 0" if "i \<in> I" "rt_live A i = None" for i
    using bspec [OF conjunct2 [OF conjunct2 [OF conjunct2 [OF conjunct2 [OF assms [unfolded rt_rel_def]]]]] that(1)] that(2) by simp
  show "ticket_ok t \<and> holds_ticket K (t_space K sto i) w t" if "i \<in> I" "rt_live A i = Some t" for i t
    using bspec [OF conjunct2 [OF conjunct2 [OF conjunct2 [OF conjunct2 [OF assms [unfolded rt_rel_def]]]]] that(1)] that(2) by simp
qed (use assms in \<open>simp_all add: rt_rel_def\<close>)

lemma queue_same:
  assumes "sys w'" "\<And>n. sdb w' (NewSlot K s n) = sdb w (NewSlot K s n)"
  shows "queue_contents K s w' = queue_contents K s w" "queue_capacity K s w' = queue_capacity K s w"
    "queue_inv K s w \<Longrightarrow> queue_inv K s w'"
  using assms by (auto simp: queue_inv_def queue_contents_def queue_capacity_def queue_sel_defs u64_at_def u64_slot_def)

lemma holds_ticket_same:
  assumes "\<And>n. sdb w' (NewSlot K s n) = sdb w (NewSlot K s n)"
    "\<And>n. sdb w' (NewSlot K (OpenSubStorage K s calldataKey) n) = sdb w (NewSlot K (OpenSubStorage K s calldataKey) n)"
  shows "holds_ticket K s w' t = holds_ticket K s w t"
  using assms by (simp add: holds_ticket_def holds_bytes_def)

text \<open>A change to the space of one ticket.\<close>

lemma rt_rel_ticket:
  assumes r: "rt_rel K sto I w A" and i: "i \<in> I" and w': "sys w'"
    and same: "\<And>x. x \<notin> range (NewSlot K (t_space K sto i)) \<union> range (NewSlot K (d_space K sto i)) \<Longrightarrow> sdb w' x = sdb w x"
    and v: "case v of None \<Rightarrow> sdb w' (NewSlot K (t_space K sto i) 5) = 0
        | Some t \<Rightarrow> ticket_ok t \<and> holds_ticket K (t_space K sto i) w' t"
  shows "rt_rel K sto I w' (A\<lparr>rt_live := (rt_live A)(i := v)\<rparr>)"
proof -
  note D = rt_relD [OF r] and F = rt_free_slots [OF rt_relD(1) [OF r]]
  have q: "sdb w' (NewSlot K (q_space K sto) n) = sdb w (NewSlot K (q_space K sto) n)" for n
    using F(2,3) [OF i, THEN not_sym] by (intro same) auto
  have t: "sdb w' (NewSlot K (t_space K sto j) n) = sdb w (NewSlot K (t_space K sto j) n)"
    "sdb w' (NewSlot K (d_space K sto j) n) = sdb w (NewSlot K (d_space K sto j) n)" if "j \<in> I" "j \<noteq> i" for j n
    using F(4) [OF that(1) i] F(5) [OF that(1) i that(2)] F(6) [OF that(1) i] F(6) [OF i that(1), THEN not_sym] that(2)
    by (auto intro!: same)
  have "case ((rt_live A)(i := v)) j of None \<Rightarrow> sdb w' (NewSlot K (t_space K sto j) 5) = 0
        | Some t \<Rightarrow> ticket_ok t \<and> holds_ticket K (t_space K sto j) w' t" if j: "j \<in> I" for j
  proof (cases "j = i")
    case True
    show ?thesis using v unfolding True by simp
  next
    case False
    with D(6,7) [OF j] t [OF j False] holds_ticket_same [of w' K "t_space K sto j" w] show ?thesis
      by (simp split: option.split)
  qed
  with D(1-4) queue_same [OF w' q] show ?thesis by (simp add: rt_rel_def)
qed

text \<open>A change to the queue, and one to nothing but balances and gas.\<close>

lemma rt_rel_queue:
  assumes r: "rt_rel K sto I w A" and q: "queue_inv K (q_space K sto) w'" "queue_contents K (q_space K sto) w' = q'" "set q' \<subseteq> I"
    and same: "\<And>x. x \<notin> range (NewSlot K (q_space K sto)) \<Longrightarrow> sdb w' x = sdb w x"
  shows "rt_rel K sto I w' (A\<lparr>rt_queue := q'\<rparr>)"
proof -
  note D = rt_relD [OF r] and F = rt_free_slots [OF rt_relD(1) [OF r]]
  have t: "sdb w' (NewSlot K (t_space K sto j) n) = sdb w (NewSlot K (t_space K sto j) n)"
    "sdb w' (NewSlot K (d_space K sto j) n) = sdb w (NewSlot K (d_space K sto j) n)" if "j \<in> I" for j n
    using F(2,3) [OF that] by (auto intro!: same)
  have "case rt_live A j of None \<Rightarrow> sdb w' (NewSlot K (t_space K sto j) 5) = 0
        | Some t \<Rightarrow> ticket_ok t \<and> holds_ticket K (t_space K sto j) w' t" if j: "j \<in> I" for j
    using D(6,7) [OF j] t [OF j] holds_ticket_same [of w' K "t_space K sto j" w] by (simp split: option.split)
  with D(1) q show ?thesis by (simp add: rt_rel_def)
qed

lemma rt_rel_same:
  assumes "rt_rel K sto I w A" "sdb w' = sdb w" "sys w'"
  shows "rt_rel K sto I w' A"
  using rt_rel_queue [OF assms(1), of w' "rt_queue A"] rt_relD(2-4) [OF assms(1)] assms(2,3)
    queue_same [of w' K "q_space K sto" w] by simp

section \<open>The operations refine the steps\<close>

lemma OpenRetryableState_sel [simp]:
  "rs_retryables (OpenRetryableState K sto) = sto" "TimeoutQueue (OpenRetryableState K sto) = OpenQueue K (q_space K sto)"
  by (simp_all add: OpenRetryableState_def)

lemmas rt_offset_defs = numTriesOffset_def fromOffset_def toOffset_def callvalueOffset_def beneficiaryOffset_def
  timeoutOffset_def timeoutWindowsLeftOffset_def

lemma retryable_at_sel [simp]:
  "rt_id (retryable_at K (OpenRetryableState K sto) i) = i"
  "numTries (retryable_at K (OpenRetryableState K sto) i) = NewSlot K (t_space K sto i) 0"
  "rt_from (retryable_at K (OpenRetryableState K sto) i) = NewSlot K (t_space K sto i) 1"
  "rt_to (retryable_at K (OpenRetryableState K sto) i) = NewSlot K (t_space K sto i) 2"
  "callvalue (retryable_at K (OpenRetryableState K sto) i) = NewSlot K (t_space K sto i) 3"
  "beneficiary (retryable_at K (OpenRetryableState K sto) i) = NewSlot K (t_space K sto i) 4"
  "calldata (retryable_at K (OpenRetryableState K sto) i) = d_space K sto i"
  "timeout (retryable_at K (OpenRetryableState K sto) i) = NewSlot K (t_space K sto i) 5"
  "timeoutWindowsLeft (retryable_at K (OpenRetryableState K sto) i) = NewSlot K (t_space K sto i) 6"
  by (simp_all add: retryable_at_def Let_def rt_offset_defs OpenStorageBackedBytes_def)

lemma rt_Put:
  assumes r: "rt_rel K sto I w A" and i: "i \<in> I" and cap: "0 < queue_capacity K (q_space K sto) w"
  shows "\<exists>w'. Queue_Put K (OpenQueue K (q_space K sto)) i w = (Ok (), w') \<and>
    rt_rel K sto I w' (A\<lparr>rt_queue := rt_queue A @ [i]\<rparr>) \<and> w_balance w' = w_balance w \<and>
    queue_capacity K (q_space K sto) w' = queue_capacity K (q_space K sto) w - 1"
proof -
  note D = rt_relD [OF r]
  from stq.put_law [OF D(2) cap, of i] obtain w' where
    w': "Queue_Put K (OpenQueue K (q_space K sto)) i w = (Ok (), w')" "queue_inv K (q_space K sto) w'"
    "queue_contents K (q_space K sto) w' = rt_queue A @ [i]"
    "queue_capacity K (q_space K sto) w' = queue_capacity K (q_space K sto) w - 1" unfolding D(3) by blast
  have "rt_rel K sto I w' (A\<lparr>rt_queue := rt_queue A @ [i]\<rparr>)"
    by (rule rt_rel_queue [OF r w'(2,3)]) (use D(4) i frameD [OF frame_queue(2) w'(1)] in auto)
  with w'(1,4) keeps_balanceD [OF keeps_balance_queue(2) w'(1)] show ?thesis by blast
qed

lemma rt_Get:
  assumes r: "rt_rel K sto I w A"
  shows "\<exists>w'. Queue_Get K (OpenQueue K (q_space K sto)) w = (Ok (case rt_queue A of [] \<Rightarrow> None | i # _ \<Rightarrow> Some i), w') \<and>
    rt_rel K sto I w' (A\<lparr>rt_queue := tl (rt_queue A)\<rparr>) \<and> w_balance w' = w_balance w"
proof -
  note D = rt_relD [OF r]
  from stq.get_law [OF D(2)] obtain w' where
    w': "Queue_Get K (OpenQueue K (q_space K sto)) w = (Ok (case rt_queue A of [] \<Rightarrow> None | i # _ \<Rightarrow> Some i), w')"
    "queue_inv K (q_space K sto) w'" "queue_contents K (q_space K sto) w' = tl (rt_queue A)" unfolding D(3) by blast
  have "set (tl (rt_queue A)) \<subseteq> I" using D(4) by (cases "rt_queue A") auto
  then have "rt_rel K sto I w' (A\<lparr>rt_queue := tl (rt_queue A)\<rparr>)"
    by (rule rt_rel_queue [OF r w'(2,3)]) (use frameD [OF frame_queue(3) w'(1)] in auto)
  with w'(1) keeps_balanceD [OF keeps_balance_queue(3) w'(1)] show ?thesis by blast
qed

lemma rt_Peek:
  assumes r: "rt_rel K sto I w A"
  shows "\<exists>w'. Queue_Peek K (OpenQueue K (q_space K sto)) w = (Ok (case rt_queue A of [] \<Rightarrow> None | i # _ \<Rightarrow> Some i), w') \<and>
    rt_rel K sto I w' A \<and> w_balance w' = w_balance w"
proof -
  note D = rt_relD [OF r]
  from stq.peek_law [OF D(2)] obtain w' where
    w': "Queue_Peek K (OpenQueue K (q_space K sto)) w = (Ok (case rt_queue A of [] \<Rightarrow> None | i # _ \<Rightarrow> Some i), w')"
    "queue_inv K (q_space K sto) w'" "queue_contents K (q_space K sto) w' = rt_queue A" unfolding D(3) by blast
  have "rt_rel K sto I w' (A\<lparr>rt_queue := rt_queue A\<rparr>)"
    by (rule rt_rel_queue [OF r w'(2,3)]) (use D(4) frameD [OF frame_queue(4) w'(1)] in auto)
  with w'(1) keeps_balanceD [OF keeps_balance_queue(4) w'(1)] show ?thesis by auto
qed

text \<open>Reading a ticket.\<close>

lemma rt_timeout:
  assumes r: "rt_rel K sto I w A" and i: "i \<in> I"
  shows "StorageBackedUint64_Get (NewSlot K (t_space K sto i) 5) w =
    (Ok (case rt_live A i of None \<Rightarrow> 0 | Some t \<Rightarrow> t_timeout t), charge StorageReadCost w)"
proof (cases "rt_live A i")
  case None
  then show ?thesis using rt_relD(5) [OF r] rt_relD(6) [OF r i None] by (simp add: run_simps u64_slot_def u64_at_def)
next
  case (Some t)
  then show ?thesis using rt_relD(5) [OF r] rt_relD(7) [OF r i Some]
    by (simp add: run_simps u64_slot_def u64_at_def holds_ticket_def)
qed

lemma rt_rel_charge [simp]: "rt_rel K sto I (charge n w) A = rt_rel K sto I w A"
  by (simp add: rt_rel_def holds_ticket_def holds_bytes_def cong: option.case_cong)

lemma rt_reads:
  assumes r: "rt_rel K sto I w A" and i: "i \<in> I" and t: "rt_live A i = Some t"
  defines "R \<equiv> retryable_at K (OpenRetryableState K sto) i"
  shows "NumTries R w = (Ok (t_tries t), charge StorageReadCost w)"
    "From R w = (Ok (t_from t), charge StorageReadCost w)" "To R w = (Ok (t_to t), charge StorageReadCost w)"
    "Callvalue R w = (Ok (t_value t), charge StorageReadCost w)" "Beneficiary R w = (Ok (t_benef t), charge StorageReadCost w)"
    "TimeoutWindowsLeft R w = (Ok (t_windows t), charge StorageReadCost w)"
    "CalldataSize K R w = (Ok (of_nat (length (t_data t))), charge StorageReadCost w)"
    "\<exists>w'. Calldata K R w = (Ok (t_data t), w') \<and> rt_rel K sto I w' A \<and> w_balance w' = w_balance w"
proof -
  note s = rt_relD(5) [OF r]
  have ok: "ticket_ok t" and h: "holds_ticket K (t_space K sto i) w t" using rt_relD(7) [OF r i t] by simp_all
  have len: "length (t_data t) < 2 ^ 64" and val: "0 \<le> t_value t" "t_value t < 2 ^ 256" using ok by (simp_all add: ticket_ok_def)
  show "To R w = (Ok (t_to t), charge StorageReadCost w)"
    unfolding R_def To_def retryable_at_sel by (rule AddressOrNil_Get_run [OF s]) (use h in \<open>simp add: holds_ticket_def\<close>)
  show "NumTries R w = (Ok (t_tries t), charge StorageReadCost w)"
    "From R w = (Ok (t_from t), charge StorageReadCost w)"
    "Callvalue R w = (Ok (t_value t), charge StorageReadCost w)" "Beneficiary R w = (Ok (t_benef t), charge StorageReadCost w)"
    "TimeoutWindowsLeft R w = (Ok (t_windows t), charge StorageReadCost w)"
    "CalldataSize K R w = (Ok (of_nat (length (t_data t))), charge StorageReadCost w)"
    using s h val uint_BigToHash [OF val]
    by (simp_all add: R_def NumTries_def From_def Callvalue_def Beneficiary_def TimeoutWindowsLeft_def CalldataSize_def
        StorageBackedBytes_Size_def GetBytesSize_def run_simps u64_slot_def u64_at_def holds_ticket_def)
  have "holds_bytes K (d_space K sto i) w (t_data t) 1"
    "sdb w (NewSlot K (d_space K sto i) 0) = UintToHash (of_nat (length (t_data t)))"
    using h by (simp_all add: holds_ticket_def)
  from GetBytes_run [OF s this len] obtain w' where
    w': "GetBytes K (d_space K sto i) w = (Ok (t_data t), w')" "sys w'" "sdb w' = sdb w" by blast
  moreover have "rt_rel K sto I w' A" using r w'(3,2) by (rule rt_rel_same)
  moreover have "w_balance w' = w_balance w" using keeps_balance_bytes(3) w'(1) by (rule keeps_balanceD)
  ultimately show "\<exists>w'. Calldata K R w = (Ok (t_data t), w') \<and> rt_rel K sto I w' A \<and> w_balance w' = w_balance w"
    by (auto simp: R_def Calldata_def StorageBackedBytes_Get_def)
qed

lemma OpenRetryable_run:
  assumes r: "rt_rel K sto I w A" and i: "i \<in> I"
  shows "OpenRetryable K (OpenRetryableState K sto) i now w =
    (Ok (case rt_live A i of None \<Rightarrow> None
         | Some t \<Rightarrow> if t_timeout t < now then None else Some (retryable_at K (OpenRetryableState K sto) i)),
     charge StorageReadCost w)"
proof -
  have "t_timeout t \<noteq> 0" if "rt_live A i = Some t" for t
    using rt_relD(7) [OF r i that] by (simp add: ticket_ok_def)
  then show ?thesis
    by (simp add: OpenRetryable_def rt_timeout [OF r i] bindM_Ok split: option.split)
qed

lemma ignoreM_Ok [run_simps]: "m w = (Ok (), w') \<Longrightarrow> ignoreM m w = (Ok (), w')"
  by (simp add: orM_def)

lemma CreateRetryable_run:
  fixes i tmo sender dest val benef data
  defines "t \<equiv> \<lparr>t_tries = 0, t_from = sender, t_to = dest, t_value = val, t_benef = benef, t_data = data, t_timeout = tmo, t_windows = 0\<rparr>"
  assumes r: "rt_rel K sto I w A" and i: "i \<in> I" and cap: "0 < queue_capacity K (q_space K sto) w" and ok: "ticket_ok t"
  shows "\<exists>w'. CreateRetryable K (OpenRetryableState K sto) i tmo sender dest val benef data w =
      (Ok (retryable_at K (OpenRetryableState K sto) i), w') \<and>
    rt_rel K sto I w' (a_create i t A) \<and> w_balance w' = w_balance w \<and>
    queue_capacity K (q_space K sto) w' = queue_capacity K (q_space K sto) w - 1"
proof -
  let ?R = "retryable_at K (OpenRetryableState K sto) i" and ?s = "NewSlot K (t_space K sto i)" and ?d = "NewSlot K (d_space K sto i)"
  let ?set = "\<lambda>n v w. upd (?s n) v (charge (writeCost v) w)"
  note F = rt_free_slots [OF rt_relD(1) [OF r]]
  have sys: "sys w" and val: "0 \<le> val" "val < 2 ^ 256" and len: "length data < 2 ^ 64"
    using rt_relD(5) [OF r] ok by (simp_all add: ticket_ok_def t_def)
  define w1 where "w1 = ?set 4 (AddressToHash benef) (?set 3 (BigToHash val) (?set 2 (to_word dest)
    (?set 1 (AddressToHash sender) (?set 0 (UintToHash 0) w))))"
  have sys1: "sys w1" using sys by (simp add: w1_def)
  from SetBytes_run [OF F(7) [OF i] subset_refl sys1 len] obtain w2 where
    w2: "SetBytes K (d_space K sto i) data w1 = (Ok (), w2)" "sys w2" "holds_bytes K (d_space K sto i) w2 data 1"
    "?d 0 \<in> range ?d \<and> sdb w2 (?d 0) = UintToHash (of_nat (length data))" by auto
  have fr: "x \<notin> range ?d \<Longrightarrow> sdb w2 x = sdb w1 x" for x using frameD [OF frame_bytes(2) [OF subset_refl] w2(1)] .
  have td: "?s n \<notin> range ?d" and qd: "NewSlot K (q_space K sto) n \<notin> range ?d" for n
    using F(6) [OF i i] F(3) [OF i, THEN not_sym] by auto
  define w3 where "w3 = ?set 6 (UintToHash 0) (?set 5 (UintToHash tmo) w2)"
  have sys3: "sys w3" using w2(2) by (simp add: w3_def)
  have d3: "sdb w3 (?d n) = sdb w2 (?d n)" for n using F(6) [OF i i, THEN not_sym] by (simp add: w3_def)
  have "holds_ticket K (t_space K sto i) w3 t"
    using w2(3,4) by (simp add: holds_ticket_def holds_bytes_def d3)
      (simp add: t_def w3_def fr [OF td] w1_def F(4) [OF i i])
  then have "rt_rel K sto I w3 (A\<lparr>rt_live := (rt_live A)(i := Some t)\<rparr>)"
    by (intro rt_rel_ticket [OF r i sys3]) (use ok in \<open>auto simp: w3_def fr w1_def\<close>)
  moreover have "queue_capacity K (q_space K sto) w3 = queue_capacity K (q_space K sto) w"
    using F(2) [OF i, THEN not_sym] by (intro queue_same(2) [OF sys3]) (simp add: w3_def fr [OF qd] w1_def)
  ultimately obtain w4 where w4: "Queue_Put K (OpenQueue K (q_space K sto)) i w3 = (Ok (), w4)"
    "rt_rel K sto I w4 (A\<lparr>rt_live := (rt_live A)(i := Some t), rt_queue := rt_queue A @ [i]\<rparr>)" "w_balance w4 = w_balance w3"
    "queue_capacity K (q_space K sto) w4 = queue_capacity K (q_space K sto) w - 1"
    using rt_Put [of K sto I w3 "A\<lparr>rt_live := (rt_live A)(i := Some t)\<rparr>" i] i cap by auto
  have "w_balance w3 = w_balance w" using keeps_balanceD [OF keeps_balance_bytes(2) w2(1)] by (simp add: w3_def w1_def)
  moreover have "CreateRetryable K (OpenRetryableState K sto) i tmo sender dest val benef data w = (Ok ?R, w4)"
    using sys val w2(1,2) w4(1) unfolding w3_def w1_def
    by (simp add: CreateRetryable_def Let_def run_simps StorageBackedBytes_Set_def)
  ultimately show ?thesis using w4(2-4) by (simp add: a_create_def)
qed

text \<open>Deleting a ticket pays what is in escrow to the beneficiary.\<close>

lemma DeleteRetryable_none:
  assumes "rt_rel K sto I w A" "i \<in> I" "rt_live A i = None"
  shows "DeleteRetryable K (OpenRetryableState K sto) i w = (Ok False, charge StorageReadCost w)"
  using rt_relD(5,6) [OF assms(1)] assms(2,3)
  by (simp add: DeleteRetryable_def Let_def run_simps timeoutOffset_def)

lemma DeleteRetryable_run:
  assumes r: "rt_rel K sto I w A" and i: "i \<in> I" and t: "rt_live A i = Some t"
    and b: "0 \<le> w_balance w (RetryableEscrowAddress K i)"
  shows "\<exists>w'. DeleteRetryable K (OpenRetryableState K sto) i w = (Ok True, w') \<and> rt_rel K sto I w' (a_delete i A) \<and>
    w_balance w' = moved (RetryableEscrowAddress K i) (t_benef t) (w_balance w (RetryableEscrowAddress K i)) (w_balance w)"
proof -
  let ?s = "NewSlot K (t_space K sto i)" and ?d = "NewSlot K (d_space K sto i)"
  let ?e = "RetryableEscrowAddress K i"
  let ?clr = "\<lambda>n w. upd (?s n) 0 (charge (writeCost 0) w)" and ?c = "charge StorageReadCost"
  note F = rt_free_slots [OF rt_relD(1) [OF r]]
  have sys: "sys w" and h: "ticket_ok t" "holds_ticket K (t_space K sto i) w t"
    using rt_relD(5) [OF r] rt_relD(7) [OF r i t] by simp_all
  have "UintToHash (t_timeout t) \<noteq> UintToHash 0" using h by (simp only: UintToHash_inject) (simp add: ticket_ok_def)
  then have tmo: "sdb w (?s 5) \<noteq> 0" using h by (simp add: holds_ticket_def)
  have ben: "sdb w (?s 4) = AddressToHash (t_benef t)" using h by (simp add: holds_ticket_def)
  define w1 where "w1 = (?c (?c w))\<lparr>w_balance := moved ?e (t_benef t) (w_balance w ?e) (w_balance w)\<rparr>"
  have tr: "TransferBalance (Some ?e) (Some (t_benef t)) (w_balance w ?e) (?c (?c w)) = (Ok (), w1)"
    using TransferBalance_moved [of "w_balance w ?e" "?c (?c w)" ?e "t_benef t"] b by (simp add: w1_def)
  have s1: "sys w1" "sdb w1 = sdb w" using sys by (simp_all add: w1_def sys_def charge_def split: burner.splits)
  define w2 where "w2 = ?clr 6 (?clr 5 (?clr 4 (?clr 3 (?clr 2 (?clr 1 (?clr 0 w1))))))"
  have sys2: "sys w2" using s1(1) by (simp add: w2_def)
  from ClearBytes_run [OF sys2, of K "d_space K sto i"] obtain w3 where
    w3: "ClearBytes K (d_space K sto i) w2 = (Ok (), w3)" "sys w3" by blast
  have fr: "x \<notin> range ?d \<Longrightarrow> sdb w3 x = sdb w2 x" for x using frameD [OF frame_bytes(1) [OF subset_refl] w3(1)] .
  have td: "?s n \<notin> range ?d" for n using F(6) [OF i i] by auto
  have "rt_rel K sto I w3 (A\<lparr>rt_live := (rt_live A)(i := None)\<rparr>)"
    by (rule rt_rel_ticket [OF r i w3(2)]) (auto simp: fr [OF td] fr w2_def s1(2) F(4) [OF i i])
  moreover have "w_balance w3 = moved ?e (t_benef t) (w_balance w ?e) (w_balance w)"
    using keeps_balanceD [OF keeps_balance_bytes(1) w3(1)] by (simp add: w2_def w1_def)
  moreover have "DeleteRetryable K (OpenRetryableState K sto) i w = (Ok True, w3)"
    using sys tmo ben tr s1(1) w3(1) unfolding w2_def
    by (simp add: DeleteRetryable_def Let_def run_simps rt_offset_defs orM_def GetBalance_def bindM_def)
  ultimately show ?thesis by (auto simp: a_delete_def)
qed

text \<open>The two words that keepalives and the reaper write.\<close>

lemma rt_set_words:
  assumes r: "rt_rel K sto I w A" and i: "i \<in> I" and t: "rt_live A i = Some t" and tmo: "tmo \<noteq> 0"
  shows "rt_rel K sto I (upd (NewSlot K (t_space K sto i) 6) (UintToHash n) (charge c (upd (NewSlot K (t_space K sto i) 5) (UintToHash tmo) w)))
    (A\<lparr>rt_live := (rt_live A)(i \<mapsto> t\<lparr>t_timeout := tmo, t_windows := n\<rparr>)\<rparr>)" (is "rt_rel K sto I ?w _")
proof -
  let ?s = "NewSlot K (t_space K sto i)" and ?d = "NewSlot K (d_space K sto i)"
  note F = rt_free_slots [OF rt_relD(1) [OF r]]
  have h: "ticket_ok t" "holds_ticket K (t_space K sto i) w t" using rt_relD(7) [OF r i t] by simp_all
  have d: "sdb ?w (?d n) = sdb w (?d n)" for n using F(6) [OF i i, THEN not_sym] by simp
  have "holds_ticket K (t_space K sto i) ?w (t\<lparr>t_timeout := tmo, t_windows := n\<rparr>)"
    using h(2) unfolding holds_ticket_def holds_bytes_def d by (simp add: F(4) [OF i i])
  then show ?thesis
    using rt_relD(5) [OF r] h(1) tmo by (intro rt_rel_ticket [OF r i]) (auto simp: ticket_ok_def)
qed

lemma rt_set_windows:
  assumes r: "rt_rel K sto I w A" and i: "i \<in> I" and t: "rt_live A i = Some t"
  shows "rt_rel K sto I (upd (NewSlot K (t_space K sto i) 6) (UintToHash n) w) (A\<lparr>rt_live := (rt_live A)(i \<mapsto> t\<lparr>t_windows := n\<rparr>)\<rparr>)"
proof -
  have h: "ticket_ok t" "holds_ticket K (t_space K sto i) w t" using rt_relD(7) [OF r i t] by simp_all
  then have "upd (NewSlot K (t_space K sto i) 5) (UintToHash (t_timeout t)) w = w"
    by (simp add: upd_def holds_ticket_def fun_upd_idem)
  moreover have "charge 0 w = w" by (simp add: charge_def split: burner.split)
  ultimately show ?thesis using rt_set_words [OF r i t, of "t_timeout t" n 0] h(1) by (simp add: ticket_ok_def)
qed

lemma Keepalive_run:
  assumes r: "rt_rel K sto I w A" and ok: "rt_ok A" and i: "i \<in> I" and t: "rt_live A i = Some t"
    and cap: "0 < queue_capacity K (q_space K sto) w" and now: "now \<le> t_timeout t"
    and lim: "deadline t \<le> unat limit" "unat limit + unat RetryableLifetimeSeconds < 2 ^ 64"
  shows "\<exists>w'. Keepalive K (OpenRetryableState K sto) i now limit add w = (Ok (of_nat (deadline t) + RetryableLifetimeSeconds), w') \<and>
    rt_rel K sto I w' (a_keepalive i t A) \<and> w_balance w' = w_balance w"
proof -
  let ?R = "retryable_at K (OpenRetryableState K sto) i" and ?c = "charge StorageReadCost"
  have d: "t_timeout t + t_windows t * RetryableLifetimeSeconds = of_nat (deadline t)"
    by (simp add: deadline_def RetryableLifetimeSeconds_def)
  have n: "unat (of_nat (deadline t) :: u64) = deadline t" using rt_okD(2) [OF ok t] by (simp add: unat_of_nat)
  have rc: "rt_rel K sto I (?c (?c (?c w))) A" "0 < queue_capacity K (q_space K sto) (?c (?c (?c w)))" using r cap by simp_all
  from rt_Put [OF rc(1) i rc(2)] obtain w1 where w1: "Queue_Put K (OpenQueue K (q_space K sto)) i (?c (?c (?c w))) = (Ok (), w1)"
    "rt_rel K sto I w1 (A\<lparr>rt_queue := rt_queue A @ [i]\<rparr>)" "w_balance w1 = w_balance w" by auto
  have h: "holds_ticket K (t_space K sto i) w1 t" and s1: "sys w1" using rt_relD(7) [OF w1(2) i] rt_relD(5) [OF w1(2)] t by simp_all
  have "deadline t + unat RetryableLifetimeSeconds < 2 ^ 64" using lim by simp
  from keepalive_ticket(1) [OF this] have "t_windows t \<noteq> - 1" by auto
  then have inc: "StorageBackedUint64_Increment (NewSlot K (t_space K sto i) 6) w1 =
      (Ok (t_windows t + 1), upd (NewSlot K (t_space K sto i) 6) (UintToHash (t_windows t + 1))
         (charge (writeCost (UintToHash (t_windows t + 1))) (?c w1)))" (is "_ = (_, ?w2)")
    using s1 h by (simp add: run_simps u64_slot_def u64_at_def holds_ticket_def)
  have "rt_rel K sto I ?w2 (a_keepalive i t A)"
    using rt_set_windows [OF _ i, of K sto _ "A\<lparr>rt_queue := rt_queue A @ [i]\<rparr>" t "t_windows t + 1"] w1(2) t
    by (simp add: a_keepalive_def)
  moreover have "CalculateTimeout ?R (?c w) = (Ok (of_nat (deadline t)), ?c (?c (?c w)))"
    using rt_timeout [of K sto I "?c w" A i] rt_reads(6) [of K sto I "?c (?c w)" A i t] r i t
    by (simp add: CalculateTimeout_def TimeoutWindowsLeft_def run_simps d)
  moreover have "\<not> limit < of_nat (deadline t)" using lim(1) n by (simp add: word_less_nat_alt)
  moreover have "sys ?w2" using s1 by simp
  ultimately show ?thesis using w1 inc now t
    by (simp add: Keepalive_def OpenRetryable_run [OF r i] run_simps)
qed

lemma Reap_run:
  assumes r: "rt_rel K sto I w A" and ok: "rt_ok A" and b: "\<And>a. 0 \<le> w_balance w a"
  shows "\<exists>w'. TryToReapOneRetryable K (OpenRetryableState K sto) now w = (Ok (), w') \<and>
    rt_rel K sto I w' (a_reap now A) \<and> (\<forall>a. 0 \<le> w_balance w' a)"
proof -
  let ?Q = "OpenQueue K (q_space K sto)" and ?c = "charge StorageReadCost"
  from rt_Peek [OF r] obtain w1 where w1: "Queue_Peek K ?Q w = (Ok (case rt_queue A of [] \<Rightarrow> None | i # _ \<Rightarrow> Some i), w1)"
    "rt_rel K sto I w1 A" "w_balance w1 = w_balance w" by blast
  show ?thesis
  proof (cases "rt_queue A")
    case Nil
    with w1 b show ?thesis by (simp add: TryToReapOneRetryable_def run_simps a_reap_def)
  next
    case (Cons i q)
    then have i: "i \<in> I" using rt_relD(4) [OF r] by simp
    have tm: "StorageBackedUint64_Get (NewSlot K (t_space K sto i) 5) w1 =
      (Ok (case rt_live A i of None \<Rightarrow> 0 | Some t \<Rightarrow> t_timeout t), ?c w1)" by (rule rt_timeout [OF w1(2) i])
    note defs = TryToReapOneRetryable_def Let_def timeoutOffset_def timeoutWindowsLeftOffset_def
    have rc: "rt_rel K sto I (?c w1) A" "rt_rel K sto I (?c (?c w1)) A" using w1(2) by simp_all
    show ?thesis
    proof (cases "rt_live A i")
      case None
      from rt_Get [OF rc(1)] obtain w2 where "Queue_Get K ?Q (?c w1) = (Ok (Some i), w2)"
        "rt_rel K sto I w2 (A\<lparr>rt_queue := q\<rparr>)" "w_balance w2 = w_balance w" using Cons w1(3) by auto
      with None tm w1(1) Cons b show ?thesis by (simp add: defs run_simps a_reap_def)
    next
      case (Some t)
      have t0: "t_timeout t \<noteq> 0" by (rule rt_okD(1) [OF ok Some])
      have win: "StorageBackedUint64_Get (NewSlot K (t_space K sto i) 6) (?c w1) = (Ok (t_windows t), ?c (?c w1))"
        using rt_reads(6) [OF rc(1) i Some] by (simp add: TimeoutWindowsLeft_def)
      from rt_Get [OF rc(2)] obtain w2 where w2: "Queue_Get K ?Q (?c (?c w1)) = (Ok (Some i), w2)"
        "rt_rel K sto I w2 (A\<lparr>rt_queue := q\<rparr>)" "w_balance w2 = w_balance w" using Cons w1(3) by auto
      have Some2: "rt_live (A\<lparr>rt_queue := q\<rparr>) i = Some t" using Some by simp
      consider (early) "now \<le> t_timeout t" | (expired) "\<not> now \<le> t_timeout t" "t_windows t = 0"
        | (window) "\<not> now \<le> t_timeout t" "t_windows t \<noteq> 0" by fastforce
      then show ?thesis
      proof cases
        case early
        with Some t0 tm win w1 rc(2) Cons b show ?thesis by (simp add: defs run_simps a_reap_def)
      next
        case expired
        from DeleteRetryable_run [OF w2(2) i Some2] b w2(3) obtain w3 where
          w3: "DeleteRetryable K (OpenRetryableState K sto) i w2 = (Ok True, w3)" "rt_rel K sto I w3 (a_delete i (A\<lparr>rt_queue := q\<rparr>))"
          "w_balance w3 = moved (RetryableEscrowAddress K i) (t_benef t) (w_balance w (RetryableEscrowAddress K i)) (w_balance w)" by auto
        have "0 \<le> w_balance w3 a" for a
          using b [of a] b [of "RetryableEscrowAddress K i"] w3(3) by (auto simp: moved_def)
        with expired Some t0 tm win w1(1) w2(1) w3(1,2) Cons show ?thesis
          by (simp add: defs run_simps a_reap_def a_delete_def)
      next
        case window
        note tw = window_ticket(3) [OF rt_okD(2) [OF ok Some] window(2)]
        have "t_timeout t + RetryableLifetimeSeconds \<noteq> 0" using tw by (auto simp: word_eq_unat)
        note set = rt_set_words [OF _ i _ this, of K sto _ "A\<lparr>rt_queue := q\<rparr>" t "t_windows t - 1"]
        have "sys w2" using rt_relD(5) [OF w2(2)] .
        with window Some t0 tm win w1(1) w2 Cons b set show ?thesis
          by (simp add: defs run_simps a_reap_def)
      qed
    qed
  qed
qed

lemma CalculateTimeout_run:
  assumes r: "rt_rel K sto I w A" and i: "i \<in> I" and t: "rt_live A i = Some t"
  shows "CalculateTimeout (retryable_at K (OpenRetryableState K sto) i) w =
    (Ok (of_nat (deadline t)), charge StorageReadCost (charge StorageReadCost w))"
  using rt_timeout [OF r i] rt_reads(6) [of K sto I "charge StorageReadCost w" A i t] r i t
  by (simp add: CalculateTimeout_def TimeoutWindowsLeft_def run_simps deadline_def RetryableLifetimeSeconds_def)

lemma MakeTx_run:
  assumes r: "rt_rel K sto I w A" and i: "i \<in> I" and t: "rt_live A i = Some t"
  shows "fst (MakeTx K (retryable_at K (OpenRetryableState K sto) i) chainId nonce feeCap gas ticketId refundTo maxRefund submissionRefund w) =
    Ok \<lparr>art_ChainId = chainId, art_Nonce = nonce, art_From = t_from t, art_GasFeeCap = feeCap, art_Gas = gas, art_To = t_to t,
      art_Value = t_value t, art_Data = t_data t, art_TicketId = ticketId, art_RefundTo = refundTo, art_MaxRefund = maxRefund,
      art_SubmissionFeeRefund = submissionRefund\<rparr>"
proof -
  let ?c = "charge StorageReadCost"
  have rc: "rt_rel K sto I (?c w) A" "rt_rel K sto I (?c (?c w)) A" "rt_rel K sto I (?c (?c (?c w))) A" using r by simp_all
  from rt_reads(8) [OF rc(3) i t] obtain w' where
    "Calldata K (retryable_at K (OpenRetryableState K sto) i) (?c (?c (?c w))) = (Ok (t_data t), w')" by blast
  then show ?thesis
    by (simp add: MakeTx_def rt_reads(2) [OF r i t] rt_reads(3) [OF rc(1) i t] rt_reads(4) [OF rc(2) i t] bindM_Ok)
qed

section \<open>Properties\<close>

text \<open>
  C4. The life of a ticket: it opens until its timeout and not after it, its retry transaction carries what
  was submitted, its size is charged by its calldata; deleting it pays the escrow to the beneficiary, after
  which it does not open and cannot be deleted again.
\<close>

theorem retryable_lifecycle:
  fixes i tmo sender dest val benef data K sto
  defines "t \<equiv> \<lparr>t_tries = 0, t_from = sender, t_to = dest, t_value = val, t_benef = benef, t_data = data, t_timeout = tmo, t_windows = 0\<rparr>"
    and "R \<equiv> retryable_at K (OpenRetryableState K sto) i" and "e \<equiv> RetryableEscrowAddress K i"
  assumes r: "rt_rel K sto I w A" and i: "i \<in> I" and cap: "0 < queue_capacity K (q_space K sto) w"
    and val: "tmo \<noteq> 0" "0 \<le> val" "val < 2 ^ 256" "length data < 2 ^ 64" and b: "0 \<le> w_balance w e"
  shows "\<exists>w1 w2. CreateRetryable K (OpenRetryableState K sto) i tmo sender dest val benef data w = (Ok R, w1) \<and>
    rt_rel K sto I w1 (a_create i t A) \<and>
    (\<forall>now. fst (OpenRetryable K (OpenRetryableState K sto) i now w1) = Ok (if tmo < now then None else Some R)) \<and>
    (\<forall>now. fst (RetryableSizeBytes K (OpenRetryableState K sto) i now w1) =
       Ok (if tmo < now then 0 else 224 + 32 * WordsForBytes (of_nat (length data)))) \<and>
    fst (MakeTx K R chainId nonce feeCap gas i refundTo maxRefund submissionRefund w1) =
      Ok \<lparr>art_ChainId = chainId, art_Nonce = nonce, art_From = sender, art_GasFeeCap = feeCap, art_Gas = gas, art_To = dest,
        art_Value = val, art_Data = data, art_TicketId = i, art_RefundTo = refundTo, art_MaxRefund = maxRefund,
        art_SubmissionFeeRefund = submissionRefund\<rparr> \<and>
    DeleteRetryable K (OpenRetryableState K sto) i w1 = (Ok True, w2) \<and>
    w_balance w2 = moved e benef (w_balance w e) (w_balance w) \<and>
    (\<forall>now. fst (OpenRetryable K (OpenRetryableState K sto) i now w2) = Ok None) \<and>
    fst (DeleteRetryable K (OpenRetryableState K sto) i w2) = Ok False"
proof -
  have ok: "ticket_ok t" using val by (simp add: ticket_ok_def t_def)
  from CreateRetryable_run [OF r i cap, where tmo = tmo and val = val and data = data and sender = sender and dest = dest and benef = benef] ok obtain w1 where
    w1: "CreateRetryable K (OpenRetryableState K sto) i tmo sender dest val benef data w = (Ok R, w1)"
    "rt_rel K sto I w1 (a_create i t A)" "w_balance w1 = w_balance w" unfolding t_def R_def by blast
  have live: "rt_live (a_create i t A) i = Some t" by (simp add: a_create_def)
  have s: "t_timeout t = tmo" "t_data t = data" "t_benef t = benef" by (simp_all add: t_def)
  from DeleteRetryable_run [OF w1(2) i live] b w1(3) obtain w2 where
    w2: "DeleteRetryable K (OpenRetryableState K sto) i w1 = (Ok True, w2)" "rt_rel K sto I w2 (a_delete i (a_create i t A))"
    "w_balance w2 = moved e benef (w_balance w e) (w_balance w)" unfolding s e_def by auto
  have dead: "rt_live (a_delete i (a_create i t A)) i = None" by (simp add: a_delete_def)
  have op: "fst (OpenRetryable K (OpenRetryableState K sto) i now w1) = Ok (if tmo < now then None else Some R)" for now
    by (simp add: OpenRetryable_run [OF w1(2) i] live s R_def)
  have size: "fst (RetryableSizeBytes K (OpenRetryableState K sto) i now w1) =
       Ok (if tmo < now then 0 else 224 + 32 * WordsForBytes (of_nat (length data)))" for now
    using rt_reads(7) [of K sto I "charge StorageReadCost w1" "a_create i t A" i t] w1(2) i live
    by (simp add: RetryableSizeBytes_def OpenRetryable_run [OF w1(2) i] s bindM_Ok)
  have none: "fst (OpenRetryable K (OpenRetryableState K sto) i now w2) = Ok None" for now
    by (simp add: OpenRetryable_run [OF w2(2) i] dead)
  have "fst (DeleteRetryable K (OpenRetryableState K sto) i w2) = Ok False"
    by (simp add: DeleteRetryable_none [OF w2(2) i dead])
  with w1(1,2) w2(1,3) op size none MakeTx_run [OF w1(2) i live] show ?thesis
    unfolding R_def by (intro exI [of _ w1] exI [of _ w2]) (simp add: t_def)
qed

text \<open>Calls to the reaper, block after block.\<close>

primrec reap_times :: "(bytes \<Rightarrow> bytes) \<Rightarrow> RetryableState \<Rightarrow> u64 \<Rightarrow> nat \<Rightarrow> unit arb" where
  "reap_times K rs now 0 = returnM ()"
| "reap_times K rs now (Suc n) = thenM (TryToReapOneRetryable K rs now) (reap_times K rs now n)"

lemma reap_times_run:
  assumes "rt_rel K sto I w A" "rt_ok A" "\<And>a. 0 \<le> w_balance w a"
  shows "\<exists>w'. reap_times K (OpenRetryableState K sto) now n w = (Ok (), w') \<and> rt_rel K sto I w' ((a_reap now ^^ n) A)"
  using assms
proof (induction n arbitrary: w A)
  case 0
  then show ?case by auto
next
  case (Suc n)
  from Reap_run [OF Suc.prems] obtain w1 where w1: "TryToReapOneRetryable K (OpenRetryableState K sto) now w = (Ok (), w1)"
    "rt_rel K sto I w1 (a_reap now A)" "\<And>a. 0 \<le> w_balance w1 a" by blast
  from Suc.IH [OF w1(2) reap_ok [OF Suc.prems(2)] w1(3)] w1(1) show ?case by (simp add: bindM_Ok funpow_swap1)
qed

lemma toyK_rt_free: "rt_free toyK deepStorage {7}"
proof -
  let ?ks = "[storageKey (q_space toyK deepStorage), storageKey (t_space toyK deepStorage 7), storageKey (d_space toyK deepStorage 7)]"
  have keys: "?ks = [0 # map of_nat (rev [12 ..< 42]) @ [1], 7 # replicate 30 0 @ [1], 1 # 1 # replicate 29 0 @ [1]]" by code_simp
  have d: "distinct (map (take 12) ?ks)" unfolding keys by code_simp
  have fst: "fst ` rt_keys toyK deepStorage {7} = set ?ks" by (auto simp: rt_keys_def uint_keys_def image_Un image_iff)
  have "collision_free toyK (rt_keys toyK deepStorage {7})"
  proof (rule toyK_collision_free)
    show "inj_on (take 12) (fst ` rt_keys toyK deepStorage {7})" unfolding fst using d by (rule distinct_map [THEN iffD1, THEN conjunct2])
    fix sk k assume k: "(sk, k) \<in> rt_keys toyK deepStorage {7}"
    then have "sk \<in> set ?ks" unfolding fst [symmetric] by force
    then have "length sk = 32" unfolding keys by auto
    moreover have "unat (UintToHash n) < 2 ^ 160" for n by (simp, rule less_trans [OF unat_u64_bound], simp)
    then have "unat k < 2 ^ 160" using k by (auto simp: rt_keys_def uint_keys_def)
    ultimately show "length sk = 32 \<and> unat k < 2 ^ 160" by blast
  qed
  moreover have "distinct ?ks" using d by (rule distinct_map [THEN iffD1, THEN conjunct1])
  ultimately show ?thesis by (auto simp: rt_free_def)
qed

lemma toy_start:
  "\<exists>w. InitializeRetryableState toyK deepStorage blank = (Ok (), w) \<and>
     rt_rel toyK deepStorage {7} w \<lparr>rt_queue = [], rt_live = Map.empty\<rparr> \<and>
     1 < queue_capacity toyK (q_space toyK deepStorage) w \<and> (\<forall>a. w_balance w a = 0)"
proof -
  note F = rt_free_slots [OF toyK_rt_free]
  from InitializeQueue_run [OF F(1) sys_blank] obtain w where w: "InitializeQueue toyK (q_space toyK deepStorage) blank = (Ok (), w)"
    "queue_inv toyK (q_space toyK deepStorage) w" "queue_contents toyK (q_space toyK deepStorage) w = []"
    "queue_capacity toyK (q_space toyK deepStorage) w = 2 ^ 64 - 3" by blast
  have "sdb w (NewSlot toyK (t_space toyK deepStorage 7) 5) = 0"
    using frameD [OF frame_queue(1) w(1), of "NewSlot toyK (t_space toyK deepStorage 7) 5"] F(2) [of 7] by auto
  then have "rt_rel toyK deepStorage {7} w \<lparr>rt_queue = [], rt_live = Map.empty\<rparr>"
    using w toyK_rt_free by (simp add: rt_rel_def)
  moreover have "w_balance w a = 0" for a
    using keeps_balanceD [OF keeps_balance_queue(1) w(1)] by (simp add: blank_def)
  ultimately show ?thesis using w(1,4) by (simp add: InitializeRetryableState_def)
qed

theorem retryable_lifecycle_witness:
  "\<exists>w0 w1 w2. InitializeRetryableState toyK deepStorage blank = (Ok (), w0) \<and>
    CreateRetryable toyK (OpenRetryableState toyK deepStorage) 7 100 1 None 5 2 [3, 4] w0 =
      (Ok (retryable_at toyK (OpenRetryableState toyK deepStorage) 7), w1) \<and>
    DeleteRetryable toyK (OpenRetryableState toyK deepStorage) 7 w1 = (Ok True, w2)"
proof -
  from toy_start obtain w0 where w0: "InitializeRetryableState toyK deepStorage blank = (Ok (), w0)"
    "rt_rel toyK deepStorage {7} w0 \<lparr>rt_queue = [], rt_live = Map.empty\<rparr>"
    "0 < queue_capacity toyK (q_space toyK deepStorage) w0" "\<forall>a. w_balance w0 a = 0" by fastforce
  have "length [3, 4 :: u8] < 2 ^ 64" "0 \<le> w_balance w0 (RetryableEscrowAddress toyK 7)" using w0(4) by simp_all
  from retryable_lifecycle [OF w0(2) _ w0(3) _ _ _ this, where tmo = 100 and val = 5 and sender = 1 and dest = None and benef = 2
      and chainId = 1 and nonce = 0 and feeCap = 0 and gas = 0 and refundTo = 0 and maxRefund = 0 and submissionRefund = 0] obtain w1 w2 where
    "CreateRetryable toyK (OpenRetryableState toyK deepStorage) 7 100 1 None 5 2 [3, 4] w0 =
      (Ok (retryable_at toyK (OpenRetryableState toyK deepStorage) 7), w1)"
    "DeleteRetryable toyK (OpenRetryableState toyK deepStorage) 7 w1 = (Ok True, w2)" by auto
  with w0(1) show ?thesis by blast
qed

text \<open>
  C5. Liveness of the reaper: in every state the chain can reach, once the deadlines of all tickets have
  passed, as many calls as the queue has entries delete every ticket and empty the queue.
\<close>

theorem expired_retryables_reaped:
  assumes r: "rt_rel K sto I w A" and reach: "rt_reachable A" and b: "\<forall>a. 0 \<le> w_balance w a"
    and past: "\<forall>i t. rt_live A i = Some t \<longrightarrow> deadline t < unat now" and n: "length (rt_queue A) \<le> n"
  shows "\<exists>w'. reap_times K (OpenRetryableState K sto) now n w = (Ok (), w') \<and>
    rt_rel K sto I w' \<lparr>rt_queue = [], rt_live = Map.empty\<rparr> \<and>
    (\<forall>i \<in> I. \<forall>time. fst (OpenRetryable K (OpenRetryableState K sto) i time w') = Ok None)"
proof -
  note ok = reachable_ok [OF reach]
  have "(a_reap now ^^ n) A = \<lparr>rt_queue = [], rt_live = Map.empty\<rparr>"
    using past n by (intro reap_all [OF ok]) auto
  with reap_times_run [OF r ok, of now n] b obtain w' where
    w': "reap_times K (OpenRetryableState K sto) now n w = (Ok (), w')" "rt_rel K sto I w' \<lparr>rt_queue = [], rt_live = Map.empty\<rparr>"
    by auto
  moreover have "fst (OpenRetryable K (OpenRetryableState K sto) i time w') = Ok None" if "i \<in> I" for i time
    by (simp add: OpenRetryable_run [OF w'(2) that])
  ultimately show ?thesis by blast
qed

definition toy_ticket :: ticket where
  "toy_ticket = \<lparr>t_tries = 0, t_from = 1, t_to = None, t_value = 5, t_benef = 2, t_data = [3, 4], t_timeout = 100, t_windows = 0\<rparr>"

lemma toy_created:
  "\<exists>w. rt_rel toyK deepStorage {7} w (a_create 7 toy_ticket \<lparr>rt_queue = [], rt_live = Map.empty\<rparr>) \<and> (\<forall>a. w_balance w a = 0) \<and>
     rt_reachable (a_create 7 toy_ticket \<lparr>rt_queue = [], rt_live = Map.empty\<rparr>) \<and>
     0 < queue_capacity toyK (q_space toyK deepStorage) w"
proof -
  let ?A = "\<lparr>rt_queue = [], rt_live = Map.empty\<rparr>"
  from toy_start obtain w0 where w0: "rt_rel toyK deepStorage {7} w0 ?A" "\<forall>a. w_balance w0 a = 0"
    "1 < queue_capacity toyK (q_space toyK deepStorage) w0" by blast
  have "ticket_ok toy_ticket" by (simp add: toy_ticket_def ticket_ok_def)
  moreover have "0 < queue_capacity toyK (q_space toyK deepStorage) w0" using w0(3) by simp
  ultimately obtain w where w: "rt_rel toyK deepStorage {7} w (a_create 7 toy_ticket ?A)" "w_balance w = w_balance w0"
    "queue_capacity toyK (q_space toyK deepStorage) w = queue_capacity toyK (q_space toyK deepStorage) w0 - 1"
    using CreateRetryable_run [OF w0(1), of 7 1 None 5 2 "[3, 4]" 100] unfolding toy_ticket_def by auto
  have "rt_reachable (a_create 7 toy_ticket ?A)"
    by (rule rt_reachable.step [OF rt_reachable.start]) (rule rt_step.created; simp add: toy_ticket_def)
  with w w0(2,3) show ?thesis by (intro exI [of _ w]) simp
qed

theorem expired_retryables_reaped_witness:
  "\<exists>w w'. fst (OpenRetryable toyK (OpenRetryableState toyK deepStorage) 7 0 w) =
       Ok (Some (retryable_at toyK (OpenRetryableState toyK deepStorage) 7)) \<and>
     reap_times toyK (OpenRetryableState toyK deepStorage) 101 1 w = (Ok (), w') \<and>
     fst (OpenRetryable toyK (OpenRetryableState toyK deepStorage) 7 0 w') = Ok None"
proof -
  let ?A = "a_create 7 toy_ticket \<lparr>rt_queue = [], rt_live = Map.empty\<rparr>"
  from toy_created obtain w where w: "rt_rel toyK deepStorage {7} w ?A" "\<forall>a. w_balance w a = 0" "rt_reachable ?A" by blast
  have "\<forall>i t. rt_live ?A i = Some t \<longrightarrow> deadline t < unat (101 :: u64)" "length (rt_queue ?A) \<le> 1"
    by (auto simp: a_create_def toy_ticket_def deadline_def split: if_splits)
  from expired_retryables_reaped [OF w(1,3) _ this] w(2) obtain w' where
    "reap_times toyK (OpenRetryableState toyK deepStorage) 101 1 w = (Ok (), w')"
    "fst (OpenRetryable toyK (OpenRetryableState toyK deepStorage) 7 0 w') = Ok None" by auto
  moreover have "fst (OpenRetryable toyK (OpenRetryableState toyK deepStorage) 7 0 w) =
      Ok (Some (retryable_at toyK (OpenRetryableState toyK deepStorage) 7))"
    by (simp add: OpenRetryable_run [OF w(1)] a_create_def)
  ultimately show ?thesis by blast
qed

text \<open>
  C6. The reaper never takes a ticket early: in every state the chain can reach, a call leaves each ticket
  whose deadline has not passed with the same retry transaction, number of tries and deadline.
\<close>

theorem reaper_respects_deadlines:
  assumes r: "rt_rel K sto I w A" and reach: "rt_reachable A" and b: "\<forall>a. 0 \<le> w_balance w a"
    and i: "i \<in> I" and t: "rt_live A i = Some t" and now: "unat now \<le> deadline t"
  defines "R \<equiv> retryable_at K (OpenRetryableState K sto) i"
  shows "\<exists>w'. TryToReapOneRetryable K (OpenRetryableState K sto) now w = (Ok (), w') \<and>
    fst (MakeTx K R chainId nonce feeCap gas i refundTo maxRefund submissionRefund w') =
      fst (MakeTx K R chainId nonce feeCap gas i refundTo maxRefund submissionRefund w) \<and>
    fst (NumTries R w') = fst (NumTries R w) \<and> fst (Beneficiary R w') = fst (Beneficiary R w) \<and>
    fst (CalculateTimeout R w') = fst (CalculateTimeout R w)"
proof -
  note ok = reachable_ok [OF reach]
  from Reap_run [OF r ok, of now] b obtain w' where
    w': "TryToReapOneRetryable K (OpenRetryableState K sto) now w = (Ok (), w')" "rt_rel K sto I w' (a_reap now A)" by auto
  from reap_keeps [OF ok t now] obtain t' where t': "rt_live (a_reap now A) i = Some t'"
    "deadline t' = deadline t" "payload t' = payload t" "t_tries t' = t_tries t" by blast
  then show ?thesis
    using w'(1) MakeTx_run [OF r i t] MakeTx_run [OF w'(2) i t'(1)] rt_reads(1,5) [OF r i t] rt_reads(1,5) [OF w'(2) i t'(1)]
      CalculateTimeout_run [OF r i t] CalculateTimeout_run [OF w'(2) i t'(1)]
    by (simp add: R_def payload_def)
qed

theorem reaper_respects_deadlines_witness:
  "\<exists>w w'. TryToReapOneRetryable toyK (OpenRetryableState toyK deepStorage) 100 w = (Ok (), w') \<and>
     fst (CalculateTimeout (retryable_at toyK (OpenRetryableState toyK deepStorage) 7) w') = Ok 100"
proof -
  let ?A = "a_create 7 toy_ticket \<lparr>rt_queue = [], rt_live = Map.empty\<rparr>"
  from toy_created obtain w where w: "rt_rel toyK deepStorage {7} w ?A" "\<forall>a. w_balance w a = 0" "rt_reachable ?A" by blast
  have t: "rt_live ?A 7 = Some toy_ticket" "deadline toy_ticket = 100" by (simp_all add: a_create_def toy_ticket_def deadline_def)
  have "\<forall>a. 0 \<le> w_balance w a" "unat (100 :: u64) \<le> deadline toy_ticket" using w(2) t(2) by simp_all
  from reaper_respects_deadlines [OF w(1,3) this(1) _ t(1) this(2), where chainId = 1 and nonce = 0 and feeCap = 0 and gas = 0
      and refundTo = 0 and maxRefund = 0 and submissionRefund = 0] CalculateTimeout_run [OF w(1) _ t(1)] t(2)
  show ?thesis by auto
qed

text \<open>
  C37. A keepalive on a live ticket extends its deadline by a lifetime and queues it once more; it reports a ticket
  that does not exist or has timed out as not found, and one whose deadline exceeds the limit as too far
  in the future, and then changes nothing.
\<close>

theorem keepalive_extends:
  assumes r: "rt_rel K sto I w A" and reach: "rt_reachable A" and i: "i \<in> I"
    and cap: "0 < queue_capacity K (q_space K sto) w" and lim: "unat limit + unat RetryableLifetimeSeconds < 2 ^ 64"
  shows "\<exists>res w'. Keepalive K (OpenRetryableState K sto) i now limit add w = (res, w') \<and> w_balance w' = w_balance w \<and>
    (case rt_live A i of None \<Rightarrow> res = Err ErrTicketNotFound \<and> rt_rel K sto I w' A
     | Some t \<Rightarrow>
         if t_timeout t < now then res = Err ErrTicketNotFound \<and> rt_rel K sto I w' A
         else if unat limit < deadline t then res = Err ErrTimeoutTooFar \<and> rt_rel K sto I w' A
         else res = Ok (of_nat (deadline t + unat RetryableLifetimeSeconds)) \<and> rt_rel K sto I w' (a_keepalive i t A) \<and>
           fst (CalculateTimeout (retryable_at K (OpenRetryableState K sto) i) w') =
             Ok (of_nat (deadline t + unat RetryableLifetimeSeconds)))"
proof (cases "rt_live A i")
  case None
  then show ?thesis using r by (simp add: Keepalive_def OpenRetryable_run [OF r i] run_simps failM_def)
next
  case (Some t)
  note ok = reachable_ok [OF reach]
  have n: "unat (of_nat (deadline t) :: u64) = deadline t" using rt_okD(2) [OF ok Some] by (simp add: unat_of_nat)
  consider (late) "t_timeout t < now" | (far) "\<not> t_timeout t < now" "unat limit < deadline t"
    | (good) "\<not> t_timeout t < now" "\<not> unat limit < deadline t" by blast
  then show ?thesis
  proof cases
    case late
    with Some show ?thesis using r by (simp add: Keepalive_def OpenRetryable_run [OF r i] run_simps failM_def)
  next
    case far
    have rc: "rt_rel K sto I (charge StorageReadCost w) A" using r by simp
    have "limit < of_nat (deadline t)" using far(2) n by (simp add: word_less_nat_alt)
    with far Some r show ?thesis
      by (simp add: Keepalive_def OpenRetryable_run [OF r i] CalculateTimeout_run [OF rc i Some] run_simps failM_def)
  next
    case good
    have now: "now \<le> t_timeout t" and d: "deadline t \<le> unat limit" using good by simp_all
    from Keepalive_run [OF r ok i Some cap now d lim, of add] obtain w' where
      w': "Keepalive K (OpenRetryableState K sto) i now limit add w = (Ok (of_nat (deadline t) + RetryableLifetimeSeconds), w')"
      "rt_rel K sto I w' (a_keepalive i t A)" "w_balance w' = w_balance w" by blast
    have live: "rt_live (a_keepalive i t A) i = Some (t\<lparr>t_windows := t_windows t + 1\<rparr>)" by (simp add: a_keepalive_def)
    have "deadline (t\<lparr>t_windows := t_windows t + 1\<rparr>) = deadline t + unat RetryableLifetimeSeconds"
      using d lim by (intro keepalive_ticket(2)) simp
    then show ?thesis using w' good Some CalculateTimeout_run [OF w'(2) i live]
      by (simp add: RetryableLifetimeSeconds_def)
  qed
qed

theorem keepalive_extends_witness:
  "\<exists>w w'. Keepalive toyK (OpenRetryableState toyK deepStorage) 7 50 1000 0 w = (Ok 604900, w')"
proof -
  let ?A = "a_create 7 toy_ticket \<lparr>rt_queue = [], rt_live = Map.empty\<rparr>"
  from toy_created obtain w where w: "rt_rel toyK deepStorage {7} w ?A" "rt_reachable ?A"
    "0 < queue_capacity toyK (q_space toyK deepStorage) w" by blast
  have t: "rt_live ?A 7 = Some toy_ticket" "deadline toy_ticket = 100" "t_timeout toy_ticket = 100"
    by (simp_all add: a_create_def toy_ticket_def deadline_def)
  from keepalive_extends [OF w(1,2) _ w(3), of 7 1000 50 0] t show ?thesis by auto
qed

end
