(* ===== verification/IncomingMessage.thy ===== *)
theory IncomingMessage
  imports ArbosUtil
begin

text \<open>
  \<^verbatim>\<open>arbos/arbostypes/incomingmessage.go\<close> and \<^verbatim>\<open>messagewithmeta.go\<close>: the messages a chain receives from its
  parent, their encoding, and the fields of initialization and batch-posting-report messages. Pointers that
  may be nil are options. The JSON and RLP codecs are parameters.
\<close>

section \<open>Definitions\<close>

definition L1MessageType_L2Message :: u8 where "L1MessageType_L2Message = 3"
definition L1MessageType_EndOfBlock :: u8 where "L1MessageType_EndOfBlock = 6"
definition L1MessageType_L2FundedByL1 :: u8 where "L1MessageType_L2FundedByL1 = 7"
definition L1MessageType_RollupEvent :: u8 where "L1MessageType_RollupEvent = 8"
definition L1MessageType_SubmitRetryable :: u8 where "L1MessageType_SubmitRetryable = 9"
definition L1MessageType_BatchForGasEstimation :: u8 where "L1MessageType_BatchForGasEstimation = 10"
definition L1MessageType_Initialize :: u8 where "L1MessageType_Initialize = 11"
definition L1MessageType_EthDeposit :: u8 where "L1MessageType_EthDeposit = 12"
definition L1MessageType_BatchPostingReport :: u8 where "L1MessageType_BatchPostingReport = 13"
definition L1MessageType_Invalid :: u8 where "L1MessageType_Invalid = 0xFF"

definition MaxL2MessageSize :: u64 where "MaxL2MessageSize = 256 * 1024"
definition ArbosVersion_FixRedeemGas :: u64 where "ArbosVersion_FixRedeemGas = 11"
definition ArbosVersion_Stylus :: u64 where "ArbosVersion_Stylus = 20"

record L1IncomingMessageHeader =
  Kind :: u8
  Poster :: address
  BlockNumber :: u64
  Timestamp :: u64
  RequestId :: "hash option"
  L1BaseFee :: "int option"

definition SeqNum :: "L1IncomingMessageHeader \<Rightarrow> u64 res" where
  "SeqNum h =
     (case RequestId h of None \<Rightarrow> Err (ErrMsg ''no requestId'')
      | Some requestId \<Rightarrow>
          if \<not> IsUint64 (uint requestId) then Err (ErrMsg ''bad requestId'')
          else Ok (big_Uint64 (uint requestId)))"

record L1IncomingMessage =
  Header :: L1IncomingMessageHeader
  L2msg :: bytes
  BatchGasCost :: "u64 option"

definition InvalidL1Message :: L1IncomingMessage where
  "InvalidL1Message =
     \<lparr>Header = \<lparr>Kind = L1MessageType_Invalid, Poster = 0, BlockNumber = 0, Timestamp = 0, RequestId = None, L1BaseFee = None\<rparr>,
      L2msg = [], BatchGasCost = None\<rparr>"

definition Serialize_writes :: "L1IncomingMessage \<Rightarrow> (bytes, unit) call" where
  "Serialize_writes msg =
     thenM (WriteBytes [Kind (Header msg)])
    (thenM (AddressTo256ToWriter (Poster (Header msg)))
    (thenM (Uint64ToWriter (BlockNumber (Header msg)))
    (thenM (Uint64ToWriter (Timestamp (Header msg)))
    (case RequestId (Header msg) of
       None \<Rightarrow> failM (ErrMsg ''cannot serialize L1IncomingMessage without RequestId'')
     | Some requestId \<Rightarrow>
         thenM (HashToWriter requestId)
        (case L1BaseFee (Header msg) of
           None \<Rightarrow> failM (ErrMsg ''cannot serialize L1IncomingMessage without L1BaseFee'')
         | Some fee \<Rightarrow> thenM (HashToWriter (BigToHash fee)) (WriteBytes (L2msg msg)))))))"

definition Message_Serialize :: "L1IncomingMessage \<Rightarrow> bytes res" where
  "Message_Serialize msg =
     (case Serialize_writes msg [] of (Ok _, wr) \<Rightarrow> Ok wr | (Err e, _) \<Rightarrow> Err e | (Panic, _) \<Rightarrow> Panic)"

definition hashesEqual :: "hash option \<Rightarrow> hash option \<Rightarrow> bool" where
  "hashesEqual ha hb =
     (if (ha = None) \<noteq> (hb = None) then False
      else (ha = None \<and> hb = None) \<or> the ha = the hb)"

text \<open>Comparing big integers behind pointers panics on a single nil.\<close>

definition BigEquals_ptr :: "int option \<Rightarrow> int option \<Rightarrow> bool res" where
  "BigEquals_ptr first second =
     (case (first, second) of
        (None, None) \<Rightarrow> Ok True
      | (Some x, Some y) \<Rightarrow> Ok (BigEquals x y)
      | _ \<Rightarrow> Panic)"

definition Header_Equals :: "L1IncomingMessageHeader \<Rightarrow> L1IncomingMessageHeader \<Rightarrow> bool res" where
  "Header_Equals h h' =
     (if Kind h = Kind h' \<and> Poster h = Poster h' \<and> BlockNumber h = BlockNumber h' \<and> Timestamp h = Timestamp h' \<and>
         hashesEqual (RequestId h) (RequestId h')
      then BigEquals_ptr (L1BaseFee h) (L1BaseFee h') else Ok False)"

definition Message_Equals :: "L1IncomingMessage \<Rightarrow> L1IncomingMessage \<Rightarrow> bool res" where
  "Message_Equals msg msg' =
     bindR (Header_Equals (Header msg) (Header msg')) (\<lambda>eq. Ok (eq \<and> L2msg msg = L2msg msg'))"

primrec ComputeBatchGasCost_loop :: "bytes \<Rightarrow> u64 \<Rightarrow> u64" where
  "ComputeBatchGasCost_loop [] gas = gas"
| "ComputeBatchGasCost_loop (b # bs) gas =
     ComputeBatchGasCost_loop bs (gas + (if b = 0 then TxDataZeroGas else TxDataNonZeroGasEIP2028))"

definition ComputeBatchGasCost :: "bytes \<Rightarrow> u64" where
  "ComputeBatchGasCost data =
     (let gas = ComputeBatchGasCost_loop data 0;
          keccakWords = WordsForBytes (of_nat (length data));
          gas = gas + (Keccak256Gas + keccakWords * Keccak256WordGas)
      in gas + 2 * SstoreSetGasEIP2200)"

text \<open>The last field of a report is absent in old messages.\<close>

definition ExtraGasFromReader :: "(bytes, u64) call" where
  "ExtraGasFromReader rd =
     (case Uint64FromReader rd of
        (Err e, rd') \<Rightarrow> if e = ErrEOF then (Ok 0, rd') else (Err e, rd')
      | r \<Rightarrow> r)"

definition ParseBatchPostingReportMessageFields :: "(bytes, int \<times> address \<times> hash \<times> u64 \<times> int \<times> u64) call" where
  "ParseBatchPostingReportMessageFields =
     bindM HashFromReader (\<lambda>batchTimestamp.
     bindM AddressFromReader (\<lambda>batchPosterAddr.
     bindM HashFromReader (\<lambda>dataHash.
     bindM HashFromReader (\<lambda>batchNum.
     bindM HashFromReader (\<lambda>l1BaseFee.
     bindM ExtraGasFromReader (\<lambda>extraGas.
       if \<not> IsUint64 (uint batchNum) then failM (ErrMsg ''batch number is not a uint64'')
       else returnM (uint batchTimestamp, batchPosterAddr, dataHash, big_Uint64 (uint batchNum), uint l1BaseFee, extraGas)))))))"

definition FillInBatchGasCost ::
  "(bytes \<Rightarrow> bytes) \<Rightarrow> (u64 \<Rightarrow> bytes res) option \<Rightarrow> L1IncomingMessage \<Rightarrow> L1IncomingMessage res" where
  "FillInBatchGasCost K batchFetcher msg =
     (case batchFetcher of None \<Rightarrow> Ok msg
      | Some fetch \<Rightarrow>
          if Kind (Header msg) \<noteq> L1MessageType_BatchPostingReport \<or> BatchGasCost msg \<noteq> None then Ok msg
          else case fst (ParseBatchPostingReportMessageFields (L2msg msg)) of
            Err e \<Rightarrow> Err (ErrMsg ''failed to parse batch posting report'')
          | Panic \<Rightarrow> Panic
          | Ok (_, _, batchHash, batchNum, _, _) \<Rightarrow>
              (case fetch batchNum of
                 Err e \<Rightarrow> Err (ErrMsg ''failed to fetch batch mentioned by batch posting report'')
               | Panic \<Rightarrow> Panic
               | Ok batchData \<Rightarrow>
                   if bytes_hash (K batchData) \<noteq> batchHash then Err (ErrMsg ''batch fetcher returned incorrect data hash'')
                   else Ok (msg\<lparr>BatchGasCost := Some (ComputeBatchGasCost batchData)\<rparr>)))"

text \<open>Reading a single byte, and all that is left.\<close>

definition ReadByte :: "(bytes, u8) call" where
  "ReadByte rd = (case rd of [] \<Rightarrow> (Err ErrEOF, []) | b # rest \<Rightarrow> (Ok b, rest))"

definition ReadAll :: "(bytes, bytes) call" where
  "ReadAll rd = (Ok rd, [])"

definition ParseIncomingL1Message ::
  "(bytes \<Rightarrow> bytes) \<Rightarrow> (u64 \<Rightarrow> bytes res) option \<Rightarrow> (bytes, L1IncomingMessage) call" where
  "ParseIncomingL1Message K batchFetcher =
     bindM ReadByte (\<lambda>kind.
     bindM AddressFrom256FromReader (\<lambda>sender.
     bindM Uint64FromReader (\<lambda>blockNumber.
     bindM Uint64FromReader (\<lambda>timestamp.
     bindM HashFromReader (\<lambda>requestId.
     bindM HashFromReader (\<lambda>baseFeeL1.
     bindM ReadAll (\<lambda>data.
       liftR (FillInBatchGasCost K batchFetcher
         \<lparr>Header = \<lparr>Kind = kind, Poster = sender, BlockNumber = blockNumber, Timestamp = timestamp,
            RequestId = Some requestId, L1BaseFee = Some (uint baseFeeL1)\<rparr>,
          L2msg = data, BatchGasCost = None\<rparr>))))))))"

record 'c ParsedInitMessage =
  init_ChainId :: int
  InitialL1BaseFee :: int
  ChainConfig :: "'c option"
  SerializedChainConfig :: "bytes option"

definition DefaultInitialL1BaseFee :: int where "DefaultInitialL1BaseFee = 50 * GWei"

definition ParseInitMessage :: "(bytes \<Rightarrow> 'c res) \<Rightarrow> L1IncomingMessage \<Rightarrow> 'c ParsedInitMessage res" where
  "ParseInitMessage unmarshal msg =
     (if Kind (Header msg) \<noteq> L1MessageType_Initialize then Err (ErrMsg ''invalid init message kind'')
      else
        let chainId = int (be_nat (take 32 (L2msg msg)));
            config = (\<lambda>basefee serializedChainConfig.
              case unmarshal serializedChainConfig of
                Ok chainConfig \<Rightarrow> Ok \<lparr>init_ChainId = chainId, InitialL1BaseFee = basefee,
                  ChainConfig = Some chainConfig, SerializedChainConfig = Some serializedChainConfig\<rparr>
              | Err e \<Rightarrow> Err (ErrMsg ''failed to parse init message'')
              | Panic \<Rightarrow> Panic)
        in if length (L2msg msg) = 32 then
             Ok \<lparr>init_ChainId = chainId, InitialL1BaseFee = DefaultInitialL1BaseFee, ChainConfig = None, SerializedChainConfig = None\<rparr>
           else if length (L2msg msg) > 32 then
             (let version = L2msg msg ! 32; reader = drop 33 (L2msg msg) in
              if version = 1 then
                (case Uint256FromReader reader of
                   (Ok basefee, rest) \<Rightarrow> config basefee rest
                 | (Err e, _) \<Rightarrow> Err e
                 | (Panic, _) \<Rightarrow> Panic)
              else if version = 0 then config DefaultInitialL1BaseFee reader
              else Err (ErrMsg ''invalid init message data''))
           else Err (ErrMsg ''invalid init message data''))"

definition uniquifyingPrefix :: bytes where
  "uniquifyingPrefix = map of_char ''Arbitrum Nitro Feed:''"

record MessageWithMetadata =
  mwm_Message :: L1IncomingMessage
  DelayedMessagesRead :: u64

definition MessageWithMetadata_Hash ::
  "(bytes \<Rightarrow> bytes) \<Rightarrow> (L1IncomingMessage \<Rightarrow> bytes res) \<Rightarrow> MessageWithMetadata \<Rightarrow> u64 \<Rightarrow> u64 \<Rightarrow> hash res" where
  "MessageWithMetadata_Hash K encodeToBytes m sequenceNumber chainId =
     (let serializedExtraData = be_bytes 8 (unat sequenceNumber) @ be_bytes 8 (unat chainId) @ be_bytes 8 (unat (DelayedMessagesRead m)) in
      case encodeToBytes (mwm_Message m) of
        Ok serializedMessage \<Rightarrow> Ok (bytes_hash (K (uniquifyingPrefix @ serializedExtraData @ serializedMessage)))
      | Err e \<Rightarrow> Err (ErrMsg ''unable to serialize message'')
      | Panic \<Rightarrow> Panic)"

section \<open>Properties\<close>

text \<open>
  C38. A message with a request id and a base fee is read back from its encoding as it was, up to the batch gas cost,
  which the reader fills in; one without them has no encoding.
\<close>

theorem message_roundtrip:
  "(RequestId (Header msg) = None \<or> L1BaseFee (Header msg) = None \<longrightarrow> (\<exists>e. Message_Serialize msg = Err e)) \<and>
   (\<forall>r fee. RequestId (Header msg) = Some r \<and> L1BaseFee (Header msg) = Some fee \<and> 0 \<le> fee \<and> fee < 2 ^ 256 \<longrightarrow>
     (\<exists>b. Message_Serialize msg = Ok b \<and> length b = 113 + length (L2msg msg) \<and>
        ParseIncomingL1Message K fetch b = (FillInBatchGasCost K fetch (msg\<lparr>BatchGasCost := None\<rparr>), []) \<and>
        ParseIncomingL1Message K None b = (Ok (msg\<lparr>BatchGasCost := None\<rparr>), [])))"
proof -
  have none: "\<exists>e. Message_Serialize msg = Err e" if "RequestId (Header msg) = None \<or> L1BaseFee (Header msg) = None"
    using that by (auto simp: Message_Serialize_def Serialize_writes_def AddressTo256ToWriter_def AddressToWriter_def
        Uint64ToWriter_def HashToWriter_def run_simps bindM_def failM_def WriteBytes_def split: option.split)
  have some: "\<exists>b. Message_Serialize msg = Ok b \<and> length b = 113 + length (L2msg msg) \<and>
        (\<forall>fetch. ParseIncomingL1Message K fetch b = (FillInBatchGasCost K fetch (msg\<lparr>BatchGasCost := None\<rparr>), []))"
    if h: "RequestId (Header msg) = Some r" "L1BaseFee (Header msg) = Some fee" "0 \<le> fee" "fee < 2 ^ 256" for r fee
  proof -
    let ?b = "Kind (Header msg) # replicate 12 0 @ address_bytes (Poster (Header msg)) @ be_bytes 8 (unat (BlockNumber (Header msg))) @
      be_bytes 8 (unat (Timestamp (Header msg))) @ hash_bytes r @ hash_bytes (BigToHash fee) @ L2msg msg"
    have "Message_Serialize msg = Ok ?b"
      using h by (simp add: Message_Serialize_def Serialize_writes_def AddressTo256ToWriter_def AddressToWriter_def
          Uint64ToWriter_def HashToWriter_def bindM_def WriteBytes_def)
    moreover have "length ?b = 113 + length (L2msg msg)" by (simp add: address_bytes_def)
    moreover {
    have "uint (BigToHash fee) = fee" using h(3,4) by (simp add: BigToHash_abs unsigned_of_int take_bit_int_eq_self)
    moreover have "msg\<lparr>BatchGasCost := None\<rparr> = \<lparr>Header = \<lparr>Kind = Kind (Header msg), Poster = Poster (Header msg),
        BlockNumber = BlockNumber (Header msg), Timestamp = Timestamp (Header msg), RequestId = Some r, L1BaseFee = Some fee\<rparr>,
        L2msg = L2msg msg, BatchGasCost = None\<rparr>"
      using h(1,2) by (cases msg; cases "Header msg") simp
    ultimately have "ParseIncomingL1Message K fetch ?b = (FillInBatchGasCost K fetch (msg\<lparr>BatchGasCost := None\<rparr>), [])" for fetch
      by (simp add: ParseIncomingL1Message_def ReadByte_def ReadAll_def run_simps liftR_def)
    }
    ultimately show ?thesis by blast
  qed
  have "FillInBatchGasCost K None m = Ok m" for m by (simp add: FillInBatchGasCost_def)
  with none some show ?thesis by (intro conjI impI allI) (blast, elim conjE, fastforce)
qed

theorem message_roundtrip_witness:
  "\<exists>b. Message_Serialize \<lparr>Header = \<lparr>Kind = 3, Poster = 1, BlockNumber = 2, Timestamp = 3, RequestId = Some 4, L1BaseFee = Some 5\<rparr>,
        L2msg = [6, 7], BatchGasCost = None\<rparr> = Ok b \<and> length b = 115 \<and>
     ParseIncomingL1Message (\<lambda>b. b) None b =
       (Ok \<lparr>Header = \<lparr>Kind = 3, Poster = 1, BlockNumber = 2, Timestamp = 3, RequestId = Some 4, L1BaseFee = Some 5\<rparr>,
          L2msg = [6, 7], BatchGasCost = None\<rparr>, [])"
  using message_roundtrip [of "\<lparr>Header = \<lparr>Kind = 3, Poster = 1, BlockNumber = 2, Timestamp = 3, RequestId = Some 4, L1BaseFee = Some 5\<rparr>,
     L2msg = [6, 7], BatchGasCost = None\<rparr>" "\<lambda>b. b" None] by auto

end
