(* ===== verification/ParseL2.thy ===== *)
theory ParseL2
  imports IncomingMessage
begin

text \<open>
  \<^verbatim>\<open>arbos/parse_l2.go\<close>: the transactions in a message from the parent chain. Batches nest; their parser recurses on
  the bytes it reads. The decoder of signed Ethereum transactions, the packer of internal transactions and the
  fetcher of batch data are parameters.
\<close>

section \<open>Definitions\<close>

text \<open>The transactions built, with the source's fields; \<open>'s\<close> is a decoded signed transaction.\<close>

record ArbitrumUnsignedTx =
  aut_ChainId :: int
  aut_From :: address
  aut_Nonce :: u64
  aut_GasFeeCap :: int
  aut_Gas :: u64
  aut_To :: "address option"
  aut_Value :: int
  aut_Data :: bytes

record ArbitrumContractTx =
  act_ChainId :: int
  act_RequestId :: hash
  act_From :: address
  act_GasFeeCap :: int
  act_Gas :: u64
  act_To :: "address option"
  act_Value :: int
  act_Data :: bytes

record ArbitrumDepositTx =
  adt_ChainId :: int
  adt_L1RequestId :: hash
  adt_From :: address
  adt_To :: address
  adt_Value :: int

record ArbitrumSubmitRetryableTx =
  asr_ChainId :: int
  asr_RequestId :: hash
  asr_From :: address
  asr_L1BaseFee :: "int option"
  asr_DepositValue :: int
  asr_GasFeeCap :: int
  asr_Gas :: u64
  asr_RetryTo :: "address option"
  asr_RetryValue :: int
  asr_Beneficiary :: address
  asr_MaxSubmissionFee :: int
  asr_FeeRefundAddr :: address
  asr_RetryData :: bytes

record ArbitrumInternalTx =
  ait_ChainId :: int
  ait_Data :: bytes

datatype 's l2_tx =
    UnsignedTx ArbitrumUnsignedTx
  | ContractTx ArbitrumContractTx
  | DepositTx ArbitrumDepositTx
  | SubmitRetryableTx ArbitrumSubmitRetryableTx
  | InternalTx ArbitrumInternalTx
  | SignedTx 's

definition L2MessageKind_UnsignedUserTx :: u8 where "L2MessageKind_UnsignedUserTx = 0"
definition L2MessageKind_ContractTx :: u8 where "L2MessageKind_ContractTx = 1"
definition L2MessageKind_NonmutatingCall :: u8 where "L2MessageKind_NonmutatingCall = 2"
definition L2MessageKind_Batch :: u8 where "L2MessageKind_Batch = 3"
definition L2MessageKind_SignedTx :: u8 where "L2MessageKind_SignedTx = 4"
definition L2MessageKind_Heartbeat :: u8 where "L2MessageKind_Heartbeat = 6"
definition L2MessageKind_SignedCompressedTx :: u8 where "L2MessageKind_SignedCompressedTx = 7"

lemmas kind_defs = L2MessageKind_UnsignedUserTx_def L2MessageKind_ContractTx_def L2MessageKind_NonmutatingCall_def
  L2MessageKind_Batch_def L2MessageKind_SignedTx_def L2MessageKind_Heartbeat_def L2MessageKind_SignedCompressedTx_def

text \<open>8 August 2022, 16:00 GMT, in seconds since the epoch.\<close>

definition HeartbeatsDisabledAt :: u64 where "HeartbeatsDisabledAt = 1659974400"

definition destinationOf :: "address \<Rightarrow> address option" where
  "destinationOf to = (if to \<noteq> 0 then Some to else None)"

definition Uint64OfHash :: "string \<Rightarrow> hash \<Rightarrow> (bytes, u64) call" where
  "Uint64OfHash msg h = (if \<not> IsUint64 (uint h) then failM (ErrMsg msg) else returnM (big_Uint64 (uint h)))"

definition parseUnsignedTx :: "address \<Rightarrow> hash option \<Rightarrow> int \<Rightarrow> u8 \<Rightarrow> (bytes, 's l2_tx) call" where
  "parseUnsignedTx poster requestId chainId txKind =
     bindM HashFromReader (\<lambda>gasLimitHash.
     bindM (Uint64OfHash ''unsigned user tx gas limit >= 2^64'' gasLimitHash) (\<lambda>gasLimit.
     bindM HashFromReader (\<lambda>maxFeePerGas.
     bindM (if txKind = L2MessageKind_UnsignedUserTx then
              bindM HashFromReader (Uint64OfHash ''unsigned user tx nonce >= 2^64'')
            else returnM 0) (\<lambda>nonce.
     bindM AddressFrom256FromReader (\<lambda>to.
     bindM HashFromReader (\<lambda>val.
     bindM ReadAll (\<lambda>calldata.
       if txKind = L2MessageKind_UnsignedUserTx then
         returnM (UnsignedTx \<lparr>aut_ChainId = chainId, aut_From = poster, aut_Nonce = nonce, aut_GasFeeCap = uint maxFeePerGas,
           aut_Gas = gasLimit, aut_To = destinationOf to, aut_Value = uint val, aut_Data = calldata\<rparr>)
       else if txKind = L2MessageKind_ContractTx then
         (case requestId of None \<Rightarrow> failM (ErrMsg ''cannot issue contract tx without L1 request id'')
          | Some r \<Rightarrow> returnM (ContractTx \<lparr>act_ChainId = chainId, act_RequestId = r, act_From = poster,
              act_GasFeeCap = uint maxFeePerGas, act_Gas = gasLimit, act_To = destinationOf to, act_Value = uint val,
              act_Data = calldata\<rparr>))
       else failM (ErrMsg ''invalid L2 tx type in parseUnsignedTx''))))))))"

text \<open>
  The parser of L2 messages and the loop over the segments of a batch, on the bytes left in the reader;
  \<open>decode\<close> is \<^verbatim>\<open>Transaction.UnmarshalBinary\<close>, giving a transaction and its type.
\<close>

definition parseSignedTx :: "(bytes \<Rightarrow> ('s \<times> tx_type) res) \<Rightarrow> bytes \<Rightarrow> 's l2_tx list res" where
  "parseSignedTx decode readBytes =
     bindR (decode readBytes) (\<lambda>(newTx, type).
       if type \<in> {ArbitrumDepositTxType, ArbitrumUnsignedTxType, ArbitrumContractTxType, ArbitrumRetryTxType,
           ArbitrumSubmitRetryableTxType, ArbitrumInternalTxType, ArbitrumLegacyTxType} \<or> type = BlobTxType
       then Err (ErrMsg ''transaction type not supported'') else Ok [SignedTx newTx])"

lemma ReadFull_length: "ReadFull n rd = (Ok bs, rd') \<Longrightarrow> length bs = n \<and> length rd' + n = length rd"
  by (auto simp: ReadFull_def split: if_splits)

lemma Bytestring_length:
  assumes "BytestringFromReader limit rd = (Ok bs, rd')"
  shows "length bs + length rd' + 8 = length rd"
proof -
  obtain size rd1 where "Uint64FromReader rd = (Ok size, rd1)" and r: "ReadFull (unat size) rd1 = (Ok bs, rd')"
    using assms by (auto simp: BytestringFromReader_def bindM_def failM_def split: prod.splits res.splits if_splits)
  then have "length rd1 + 8 = length rd"
    by (auto simp: Uint64FromReader_def bindM_def returnM_def dest: ReadFull_length split: prod.splits res.splits)
  with ReadFull_length [OF r] show ?thesis by simp
qed

lemma Bytestring_less:
  "(Ok bs, rd') = BytestringFromReader limit rd \<Longrightarrow> length bs < length rd \<and> length rd' < length rd"
  using Bytestring_length [of limit rd bs rd'] by simp

function parseL2Message ::
    "(bytes \<Rightarrow> bytes) \<Rightarrow> (bytes \<Rightarrow> ('s \<times> tx_type) res) \<Rightarrow> address \<Rightarrow> u64 \<Rightarrow> hash option \<Rightarrow> int \<Rightarrow> nat \<Rightarrow> bytes \<Rightarrow> 's l2_tx list res"
  and parseL2Message_batch ::
    "(bytes \<Rightarrow> bytes) \<Rightarrow> (bytes \<Rightarrow> ('s \<times> tx_type) res) \<Rightarrow> address \<Rightarrow> u64 \<Rightarrow> hash option \<Rightarrow> int \<Rightarrow> nat \<Rightarrow> int \<Rightarrow> 's l2_tx list \<Rightarrow>
       bytes \<Rightarrow> 's l2_tx list res" where
  "parseL2Message K decode poster timestamp requestId chainId depth rd =
     (case rd of [] \<Rightarrow> Err ErrEOF
      | kind # rest \<Rightarrow>
          if kind = L2MessageKind_UnsignedUserTx then
            bindR (fst (parseUnsignedTx poster requestId chainId L2MessageKind_UnsignedUserTx rest)) (\<lambda>tx. Ok [tx])
          else if kind = L2MessageKind_ContractTx then
            bindR (fst (parseUnsignedTx poster requestId chainId L2MessageKind_ContractTx rest)) (\<lambda>tx. Ok [tx])
          else if kind = L2MessageKind_NonmutatingCall then Err (ErrMsg ''L2 message kind NonmutatingCall is unimplemented'')
          else if kind = L2MessageKind_Batch then
            (if depth \<ge> 16 then Err (ErrMsg ''L2 message batches have a max depth of 16'')
             else parseL2Message_batch K decode poster timestamp requestId chainId depth 0 [] rest)
          else if kind = L2MessageKind_SignedTx then parseSignedTx decode rest
          else if kind = L2MessageKind_Heartbeat then
            (if timestamp \<ge> HeartbeatsDisabledAt then Err (ErrMsg ''heartbeat messages have been disabled'') else Ok [])
          else if kind = L2MessageKind_SignedCompressedTx then Err (ErrMsg ''L2 message kind SignedCompressedTx is unimplemented'')
          else Err (ErrMsg ''unkown L2 message kind''))"
| "parseL2Message_batch K decode poster timestamp requestId chainId depth index segments rd =
     (case BytestringFromReader MaxL2MessageSize rd of
        (Ok nextMsg, rd') \<Rightarrow>
          (case parseL2Message K decode poster timestamp
               (map_option (\<lambda>r. bytes_hash (K (hash_bytes r @ U256Bytes index))) requestId) chainId (depth + 1) nextMsg of
             Ok nestedSegments \<Rightarrow>
               parseL2Message_batch K decode poster timestamp requestId chainId depth (index + 1) (segments @ nestedSegments) rd'
           | Err e \<Rightarrow> Err e
           | Panic \<Rightarrow> Panic)
      | _ \<Rightarrow> Ok segments)"
  by pat_completeness auto
termination
  by (relation "measure (\<lambda>x. case x of Inl (_, _, _, _, _, _, _, rd) \<Rightarrow> 2 * length rd
      | Inr (_, _, _, _, _, _, _, _, _, rd) \<Rightarrow> 2 * length rd + 1)")
    (use Bytestring_less in \<open>fastforce+\<close>)

declare parseL2Message.simps [simp del] parseL2Message_batch.simps [simp del]

definition parseEthDepositMessage :: "L1IncomingMessageHeader \<Rightarrow> int \<Rightarrow> (bytes, 's l2_tx) call" where
  "parseEthDepositMessage header chainId =
     bindM AddressFromReader (\<lambda>to.
     bindM HashFromReader (\<lambda>balance.
       case RequestId header of None \<Rightarrow> failM (ErrMsg ''cannot issue deposit tx without L1 request id'')
       | Some r \<Rightarrow> returnM (DepositTx \<lparr>adt_ChainId = chainId, adt_L1RequestId = r, adt_From = Poster header,
           adt_To = to, adt_Value = uint balance\<rparr>)))"

text \<open>
  \<^verbatim>\<open>Reader.Read\<close> into a zeroed buffer of \<open>n\<close> bytes, \<open>n > 0\<close>: a short read is no error and leaves the
  rest of the buffer zero.
\<close>

definition ReadInto :: "nat \<Rightarrow> (bytes, bytes) call" where
  "ReadInto n rd =
     (if rd = [] then (Err ErrEOF, []) else (Ok (take n rd @ replicate (n - length rd) 0), drop n rd))"

definition parseSubmitRetryableMessage :: "L1IncomingMessageHeader \<Rightarrow> int \<Rightarrow> (bytes, 's l2_tx) call" where
  "parseSubmitRetryableMessage header chainId =
     bindM AddressFrom256FromReader (\<lambda>retryTo.
     bindM HashFromReader (\<lambda>callvalue.
     bindM HashFromReader (\<lambda>depositValue.
     bindM HashFromReader (\<lambda>maxSubmissionFee.
     bindM AddressFrom256FromReader (\<lambda>feeRefundAddress.
     bindM AddressFrom256FromReader (\<lambda>callvalueRefundAddress.
     bindM HashFromReader (\<lambda>gasLimit.
     bindM (Uint64OfHash ''gas limit too large'' gasLimit) (\<lambda>gas.
     bindM HashFromReader (\<lambda>maxFeePerGas.
     bindM HashFromReader (\<lambda>dataLength256.
     bindM (Uint64OfHash ''data length field too large'' dataLength256) (\<lambda>dataLength.
       if dataLength > MaxL2MessageSize then failM (ErrMsg ''retryable data too large'') else
     bindM (if dataLength > 0 then ReadInto (unat dataLength) else returnM []) (\<lambda>retryData.
       case RequestId header of None \<Rightarrow> failM (ErrMsg ''cannot issue submit retryable tx without L1 request id'')
       | Some r \<Rightarrow> returnM (SubmitRetryableTx \<lparr>asr_ChainId = chainId, asr_RequestId = r, asr_From = Poster header,
           asr_L1BaseFee = L1BaseFee header, asr_DepositValue = uint depositValue, asr_GasFeeCap = uint maxFeePerGas,
           asr_Gas = gas, asr_RetryTo = destinationOf retryTo, asr_RetryValue = uint callvalue,
           asr_Beneficiary = callvalueRefundAddress, asr_MaxSubmissionFee = uint maxSubmissionFee,
           asr_FeeRefundAddr = feeRefundAddress, asr_RetryData = retryData\<rparr>)))))))))))))"

definition parseBatchPostingReportMessage ::
  "(int \<Rightarrow> address \<Rightarrow> u64 \<Rightarrow> u64 \<Rightarrow> int \<Rightarrow> bytes res) \<Rightarrow> int \<Rightarrow> u64 option \<Rightarrow> (u64 \<Rightarrow> hash \<Rightarrow> bytes) \<Rightarrow> (bytes, 's l2_tx) call" where
  "parseBatchPostingReportMessage pack chainId msgBatchGasCost batchFetcher =
     bindM ParseBatchPostingReportMessageFields (\<lambda>(batchTimestamp, batchPosterAddr, batchHash, batchNum, l1BaseFee, extraGas).
       let batchDataGas = (case msgBatchGasCost of Some gas \<Rightarrow> gas
             | None \<Rightarrow> ComputeBatchGasCost (batchFetcher batchNum batchHash));
           batchDataGas = SaturatingUAdd batchDataGas extraGas
       in bindM (liftR (pack batchTimestamp batchPosterAddr batchNum batchDataGas l1BaseFee)) (\<lambda>data.
            returnM (InternalTx \<lparr>ait_ChainId = chainId, ait_Data = data\<rparr>)))"

definition l2_tx_Value :: "'s l2_tx \<Rightarrow> int" where
  "l2_tx_Value tx = (case tx of UnsignedTx t \<Rightarrow> aut_Value t | ContractTx t \<Rightarrow> act_Value t | DepositTx t \<Rightarrow> adt_Value t
     | SubmitRetryableTx t \<Rightarrow> asr_RetryValue t | _ \<Rightarrow> 0)"

definition ParseL2Transactions ::
  "(bytes \<Rightarrow> bytes) \<Rightarrow> (bytes \<Rightarrow> ('s \<times> tx_type) res) \<Rightarrow> (int \<Rightarrow> address \<Rightarrow> u64 \<Rightarrow> u64 \<Rightarrow> int \<Rightarrow> bytes res) \<Rightarrow>
     L1IncomingMessage \<Rightarrow> int \<Rightarrow> (u64 \<Rightarrow> hash \<Rightarrow> bytes) \<Rightarrow> 's l2_tx list res" where
  "ParseL2Transactions K decode pack msg chainId batchFetcher =
     (let h = Header msg in
      if length (L2msg msg) > unat MaxL2MessageSize then Err (ErrMsg ''message too large'')
      else if Kind h = L1MessageType_L2Message then
        parseL2Message K decode (Poster h) (Timestamp h) (RequestId h) chainId 0 (L2msg msg)
      else if Kind h = L1MessageType_Initialize then
        Err (ErrMsg ''ParseL2Transactions encounted initialize message (handled explicitly at genesis)'')
      else if Kind h = L1MessageType_EndOfBlock then Ok []
      else if Kind h = L1MessageType_L2FundedByL1 then
        (case L2msg msg of [] \<Rightarrow> Err (ErrMsg ''L2FundedByL1 message has no data'')
         | kind # rest \<Rightarrow>
             (case RequestId h of None \<Rightarrow> Err (ErrMsg ''cannot issue L2 funded by L1 tx without L1 request id'')
              | Some r \<Rightarrow>
                  let depositRequestId = bytes_hash (K (hash_bytes r @ U256Bytes 0));
                      unsignedRequestId = bytes_hash (K (hash_bytes r @ U256Bytes 1))
                  in bindR (fst (parseUnsignedTx (Poster h) (Some unsignedRequestId) chainId kind rest)) (\<lambda>tx.
                       Ok [DepositTx \<lparr>adt_ChainId = chainId, adt_L1RequestId = depositRequestId, adt_From = 0,
                             adt_To = Poster h, adt_Value = l2_tx_Value tx\<rparr>, tx])))
      else if Kind h = L1MessageType_SubmitRetryable then
        bindR (fst (parseSubmitRetryableMessage h chainId (L2msg msg))) (\<lambda>tx. Ok [tx])
      else if Kind h = L1MessageType_BatchForGasEstimation then
        Err (ErrMsg ''L1 message type BatchForGasEstimation is unimplemented'')
      else if Kind h = L1MessageType_EthDeposit then
        bindR (fst (parseEthDepositMessage h chainId (L2msg msg))) (\<lambda>tx. Ok [tx])
      else if Kind h = L1MessageType_RollupEvent then Ok []
      else if Kind h = L1MessageType_BatchPostingReport then
        bindR (fst (parseBatchPostingReportMessage pack chainId (BatchGasCost msg) batchFetcher (L2msg msg))) (\<lambda>tx. Ok [tx])
      else if Kind h = L1MessageType_Invalid then Err (ErrMsg ''invalid message'')
      else Err (ErrMsg ''invalid message type''))"

section \<open>The parser ends without panicking\<close>

definition no_panic :: "('s, 'a) call \<Rightarrow> bool" where
  "no_panic m \<longleftrightarrow> (\<forall>s. fst (m s) \<noteq> Panic)"

named_theorems np_intros \<open>calls that do not panic\<close>

lemma np_bindM [np_intros]: "no_panic m \<Longrightarrow> (\<And>x. no_panic (f x)) \<Longrightarrow> no_panic (bindM m f)"
  by (auto simp: no_panic_def bindM_def split: prod.splits res.splits) (metis fst_conv)+

lemma np_basic [np_intros]:
  "no_panic (returnM x)" "no_panic (failM e)" "r \<noteq> Panic \<Longrightarrow> no_panic (liftR r)"
  "no_panic (ReadFull n)" "no_panic ReadAll" "no_panic ReadByte" "no_panic (ReadInto n)"
  by (auto simp: no_panic_def returnM_def failM_def liftR_def ReadFull_def ReadAll_def ReadByte_def ReadInto_def split: list.split)

lemma np_if [np_intros]: "no_panic m \<Longrightarrow> no_panic n \<Longrightarrow> no_panic (if b then m else n)"
  by simp

lemma np_readers [np_intros]:
  "no_panic HashFromReader" "no_panic AddressFromReader" "no_panic AddressFrom256FromReader" "no_panic Uint64FromReader"
  "no_panic (BytestringFromReader n)" "no_panic (Uint64OfHash e h)" "no_panic ExtraGasFromReader"
proof -
  have u: "no_panic Uint64FromReader" by (simp add: Uint64FromReader_def np_intros)
  then show "no_panic ExtraGasFromReader"
    by (auto simp: no_panic_def ExtraGasFromReader_def split: prod.split res.split) (metis fst_conv)
  show "no_panic HashFromReader" "no_panic AddressFromReader" "no_panic AddressFrom256FromReader" "no_panic Uint64FromReader"
    "no_panic (BytestringFromReader n)" "no_panic (Uint64OfHash e h)"
    by (simp_all add: HashFromReader_def AddressFromReader_def AddressFrom256FromReader_def BytestringFromReader_def
        Uint64OfHash_def u np_intros)
qed

lemma np_parsers:
  "no_panic (parseUnsignedTx poster requestId chainId txKind)" "no_panic (parseEthDepositMessage h chainId)"
  "no_panic (parseSubmitRetryableMessage h chainId)"
  "(\<And>a b c d e. pack a b c d e \<noteq> Panic) \<Longrightarrow> no_panic (parseBatchPostingReportMessage pack chainId cost fetch)"
  by (auto simp: parseUnsignedTx_def parseEthDepositMessage_def parseSubmitRetryableMessage_def
      parseBatchPostingReportMessage_def ParseBatchPostingReportMessageFields_def Let_def intro!: np_intros split: option.split)

lemma bindR_Panic: "bindR r f = Panic \<longleftrightarrow> r = Panic \<or> (\<exists>x. r = Ok x \<and> f x = Panic)"
  by (cases r) (simp_all add: bindR_def)

lemma bindR_Ok: "bindR r Ok = r"
  by (cases r) (simp_all add: bindR_def)

lemma parse_l2_bounds:
  fixes K :: "bytes \<Rightarrow> bytes" and decode :: "bytes \<Rightarrow> ('s \<times> tx_type) res"
  assumes d: "\<And>b. decode b \<noteq> Panic"
  shows "parseL2Message K decode poster ts r c depth rd \<noteq> Panic \<and>
      (\<forall>txs. parseL2Message K decode poster ts r c depth rd = Ok txs \<longrightarrow> length txs \<le> length rd)"
    and "parseL2Message_batch K decode poster ts r c depth i segs rd \<noteq> Panic \<and>
      (\<forall>txs. parseL2Message_batch K decode poster ts r c depth i segs rd = Ok txs \<longrightarrow> length txs \<le> length segs + length rd)"
  using d
proof (induction K decode poster ts r c depth rd and K decode poster ts r c depth i segs rd
    rule: parseL2Message_parseL2Message_batch.induct)
  case (1 K decode poster ts r c depth rd)
  show ?case
  proof (cases rd)
    case Nil
    then show ?thesis by (simp add: parseL2Message.simps)
  next
    case (Cons kind rest)
    have np: "fst ((parseUnsignedTx poster r c k :: (bytes, 's l2_tx) call) rest) \<noteq> Panic" for k
      by (rule np_parsers(1) [unfolded no_panic_def, rule_format])
    have sg: "parseSignedTx decode rest \<noteq> Panic \<and> (\<forall>txs. parseSignedTx decode rest = Ok txs \<longrightarrow> length txs = 1)"
      using 1(2) [of rest] by (auto simp: parseSignedTx_def bindR_Panic bindR_Ok_iff split: prod.splits)
    show ?thesis
      unfolding parseL2Message.simps [of K decode poster ts r c depth rd]
      using Cons np sg 1 by (auto simp: bindR_Panic bindR_Ok_iff kind_defs)
  qed
next
  case (2 K decode poster ts r c depth i segs rd)
  show ?case
  proof (cases "BytestringFromReader MaxL2MessageSize rd")
    case (Pair res rd')
    show ?thesis
    proof (cases res)
      case (Ok m)
      with Pair have len: "length m + length rd' + 8 = length rd" by (simp add: Bytestring_length)
      let ?r = "map_option (\<lambda>q. bytes_hash (K (hash_bytes q @ U256Bytes i))) r"
      have nested: "parseL2Message K decode poster ts ?r c (depth + 1) m \<noteq> Panic"
        "\<And>txs. parseL2Message K decode poster ts ?r c (depth + 1) m = Ok txs \<Longrightarrow> length txs \<le> length m"
        using 2(1) [OF Pair [symmetric] Ok 2(3)] by blast+
      show ?thesis
      proof (cases "parseL2Message K decode poster ts ?r c (depth + 1) m")
        case (Ok txs)
        note IH = 2(2) [OF Pair [symmetric] \<open>res = Ok m\<close> Ok 2(3)]
        show ?thesis
          unfolding parseL2Message_batch.simps [of K decode poster ts r c depth i segs rd]
          using Pair \<open>res = Ok m\<close> Ok IH nested(2) [OF Ok] len by fastforce
      qed (use Pair \<open>res = Ok m\<close> nested(1) in \<open>simp_all add: parseL2Message_batch.simps [of K decode poster ts r c depth i segs rd]\<close>)
    qed (use Pair in \<open>simp_all add: parseL2Message_batch.simps [of K decode poster ts r c depth i segs rd]\<close>)
  qed
qed

text \<open>None of the parsers of single transactions succeeds on no bytes.\<close>

lemma parsers_empty:
  "fst (parseUnsignedTx poster r c k b) = Ok x \<Longrightarrow> b \<noteq> []" "fst (parseEthDepositMessage h c b) = Ok x \<Longrightarrow> b \<noteq> []"
  "fst (parseSubmitRetryableMessage h c b) = Ok x \<Longrightarrow> b \<noteq> []"
  "fst (parseBatchPostingReportMessage pack c cost fetch b) = Ok x \<Longrightarrow> b \<noteq> []"
  by (auto simp: parseUnsignedTx_def parseEthDepositMessage_def parseSubmitRetryableMessage_def
      parseBatchPostingReportMessage_def ParseBatchPostingReportMessageFields_def HashFromReader_def AddressFromReader_def
      AddressFrom256FromReader_def bindM_def ReadFull_def)

definition few :: "nat \<Rightarrow> 'a list res \<Rightarrow> bool" where
  "few n r \<longleftrightarrow> r \<noteq> Panic \<and> (\<forall>txs. r = Ok txs \<longrightarrow> length txs \<le> n)"

lemma few_basic: "few n (Err e)" "few n (Ok [])"
  by (simp_all add: few_def)

lemma few_if: "few n x \<Longrightarrow> few n y \<Longrightarrow> few n (if b then x else y)"
  by simp

lemma few_one: "(\<And>x. r = Ok x \<Longrightarrow> b \<noteq> []) \<Longrightarrow> r \<noteq> Panic \<Longrightarrow> few (length b) (bindR r (\<lambda>tx. Ok [tx]))"
  by (cases r; cases b) (auto simp: few_def bindR_def)

lemma few_two: "(\<And>x. r = Ok x \<Longrightarrow> b \<noteq> []) \<Longrightarrow> r \<noteq> Panic \<Longrightarrow> few (Suc (length b)) (bindR r (\<lambda>tx. Ok [f tx, tx]))"
  by (cases r; cases b) (auto simp: few_def bindR_def)

text \<open>
  C13. The parser of messages ends on every message, with an error or with transactions of which there are
  no more than the message has bytes; it never panics, if the decoder and the packer do not.
\<close>

theorem parsing_terminates_bounded:
  fixes decode :: "bytes \<Rightarrow> ('s \<times> tx_type) res"
  assumes d: "\<And>b. decode b \<noteq> Panic" and p: "\<And>a b c d e. pack a b c d e \<noteq> Panic"
  shows "(\<exists>e. ParseL2Transactions K decode pack msg chainId fetch = Err e) \<or>
    (\<exists>txs. ParseL2Transactions K decode pack msg chainId fetch = Ok txs \<and> length txs \<le> length (L2msg msg))"
proof -
  let ?n = "length (L2msg msg)"
  note np = np_parsers [unfolded no_panic_def, rule_format]
  have l2: "few ?n (parseL2Message K decode (Poster (Header msg)) (Timestamp (Header msg)) (RequestId (Header msg)) chainId 0 (L2msg msg))"
    using parse_l2_bounds(1) [OF d] by (simp add: few_def)
  have one: "few ?n (bindR (fst (parseSubmitRetryableMessage (Header msg) chainId (L2msg msg)) :: 's l2_tx res) (\<lambda>tx. Ok [tx]))"
    "few ?n (bindR (fst (parseEthDepositMessage (Header msg) chainId (L2msg msg)) :: 's l2_tx res) (\<lambda>tx. Ok [tx]))"
    "few ?n (bindR (fst (parseBatchPostingReportMessage pack chainId (BatchGasCost msg) fetch (L2msg msg)) :: 's l2_tx res) (\<lambda>tx. Ok [tx]))"
    by (rule few_one, erule parsers_empty, rule np, (rule p)?)+
  have "few ?n (ParseL2Transactions K decode pack msg chainId fetch)"
    unfolding ParseL2Transactions_def Let_def
    by (intro few_basic few_if l2 one; auto simp: few_basic split: list.split option.split intro!: few_two parsers_empty(1) np(1))
  then show ?thesis unfolding few_def by (metis res.exhaust)
qed

theorem parsing_terminates_bounded_witness:
  "\<exists>txs. ParseL2Transactions (\<lambda>b. b) (\<lambda>b. Ok (b, LegacyTxType)) (\<lambda>a b c d e. Ok [])
      \<lparr>Header = \<lparr>Kind = 3, Poster = 1, BlockNumber = 2, Timestamp = 3, RequestId = None, L1BaseFee = None\<rparr>, L2msg = [4, 9], BatchGasCost = None\<rparr>
      7 (\<lambda>n h. []) = Ok txs \<and> length txs \<le> 2"
  using parsing_terminates_bounded [of "\<lambda>b. Ok (b, LegacyTxType)" "\<lambda>a b c d e. Ok []" "\<lambda>b. b"
      "\<lparr>Header = \<lparr>Kind = 3, Poster = 1, BlockNumber = 2, Timestamp = 3, RequestId = None, L1BaseFee = None\<rparr>, L2msg = [4, 9], BatchGasCost = None\<rparr>"
      7 "\<lambda>n h. []"]
  by (simp add: ParseL2Transactions_def L1MessageType_L2Message_def MaxL2MessageSize_def parseL2Message.simps kind_defs parseSignedTx_def bindR_def)

section \<open>Batches\<close>

primrec parse_segments :: "(int \<Rightarrow> bytes \<Rightarrow> 'a list res) \<Rightarrow> int \<Rightarrow> bytes list \<Rightarrow> 'a list res" where
  "parse_segments f i [] = Ok []"
| "parse_segments f i (m # ms) = bindR (f i m) (\<lambda>txs. bindR (parse_segments f (i + 1) ms) (\<lambda>rest. Ok (txs @ rest)))"

lemma batch_loop_segments:
  assumes "\<And>m. m \<in> set msgs \<Longrightarrow> length m \<le> unat MaxL2MessageSize"
    and junk: "\<nexists>m rd. BytestringFromReader MaxL2MessageSize junk = (Ok m, rd)"
  shows "parseL2Message_batch K decode poster ts r c depth i segs (concat (map (\<lambda>m. snd (BytestringToWriter m [])) msgs) @ junk) =
    bindR (parse_segments (\<lambda>i m. parseL2Message K decode poster ts
        (map_option (\<lambda>q. bytes_hash (K (hash_bytes q @ U256Bytes i))) r) c (depth + 1) m) i msgs) (\<lambda>txs. Ok (segs @ txs))"
  using assms(1)
proof (induction msgs arbitrary: i segs)
  case Nil
  have "\<exists>x rd. BytestringFromReader MaxL2MessageSize junk = (x, rd) \<and> (\<forall>m. x \<noteq> Ok m)" using junk by (metis surj_pair)
  then show ?case
    by (auto simp: parseL2Message_batch.simps [of _ _ _ _ _ _ _ _ _ junk] bindR_def split: res.split)
next
  case (Cons m ms)
  have len: "length m < 2 ^ 64" "length m \<le> unat MaxL2MessageSize" using Cons.prems [of m] by (simp_all add: MaxL2MessageSize_def)
  then have n: "unat (of_nat (length m) :: u64) = length m" by (simp add: unat_of_nat)
  then have "(of_nat (length m) :: u64) \<le> MaxL2MessageSize" using len(2) by (simp add: word_le_nat_alt)
  then have rd: "BytestringFromReader MaxL2MessageSize (snd (BytestringToWriter m []) @ rest) = (Ok m, rest)" for rest
    using n Uint64FromReader_run [of "of_nat (length m)" "m @ rest"]
    by (simp add: BytestringFromReader_def BytestringToWriter_def Uint64ToWriter_def WriteBytes_def bindM_def not_less ReadFull_append)
  have IH: "parseL2Message_batch K decode poster ts r c depth i segs (concat (map (\<lambda>m. snd (BytestringToWriter m [])) ms) @ junk) =
    bindR (parse_segments (\<lambda>i m. parseL2Message K decode poster ts
        (map_option (\<lambda>q. bytes_hash (K (hash_bytes q @ U256Bytes i))) r) c (depth + 1) m) i ms) (\<lambda>txs. Ok (segs @ txs))" for i segs
    using Cons.IH Cons.prems by simp
  show ?case
    by (simp add: parseL2Message_batch.simps [of _ _ _ _ _ _ _ _ _ "snd (BytestringToWriter m []) @ _"] rd IH bindR_def
        split: res.split)
qed

text \<open>
  C14. A batch is its segments: parsing it parses each length-prefixed segment in order, one level deeper and
  under the request id derived from its index, and concatenates the transactions; a segment that fails
  fails the batch, bytes that are no segment end it, and the seventeenth level is refused.
\<close>

theorem batch_parses_segments:
  assumes "\<And>m. m \<in> set msgs \<Longrightarrow> length m \<le> unat MaxL2MessageSize"
    and "\<nexists>m rd. BytestringFromReader MaxL2MessageSize junk = (Ok m, rd)"
  shows "parseL2Message K decode poster ts r chainId depth
      (L2MessageKind_Batch # concat (map (\<lambda>m. snd (BytestringToWriter m [])) msgs) @ junk) =
    (if depth \<ge> 16 then Err (ErrMsg ''L2 message batches have a max depth of 16'')
     else parse_segments (\<lambda>i m. parseL2Message K decode poster ts
        (map_option (\<lambda>q. bytes_hash (K (hash_bytes q @ U256Bytes i))) r) chainId (depth + 1) m) 0 msgs)"
proof -
  show ?thesis
    using batch_loop_segments [where msgs = msgs and K = K and decode = decode and poster = poster and ts = ts and r = r and c = chainId
        and depth = depth and i = 0 and segs = "[]", OF assms]
    by (simp add: parseL2Message.simps [of _ _ _ _ _ _ _ "_ # _"] kind_defs bindR_Ok)
qed

theorem batch_parses_segments_witness:
  "parseL2Message (\<lambda>b. b) (\<lambda>b. Ok (b, LegacyTxType)) 1 0 None 2 0
     (L2MessageKind_Batch # concat (map (\<lambda>m. snd (BytestringToWriter m [])) [[4, 7], [6], [4, 8, 9]]) @ [1]) =
   Ok [SignedTx [7], SignedTx [8, 9]]"
proof -
  have "\<nexists>m rd. BytestringFromReader MaxL2MessageSize [1] = (Ok m, rd)"
    by (simp add: BytestringFromReader_def Uint64FromReader_def bindM_def ReadFull_def)
  then show ?thesis
    by (subst batch_parses_segments) (auto simp: MaxL2MessageSize_def parseL2Message.simps kind_defs parseSignedTx_def bindR_def HeartbeatsDisabledAt_def)
qed

end
