(* ===== verification/L2Pricing.thy ===== *)
theory L2Pricing
  imports AddressSet
begin

text \<open>
  \<^verbatim>\<open>arbos/l2pricing\<close>: the price of L2 gas. \<^verbatim>\<open>l2pricing.go\<close> keeps the parameters in storage, \<^verbatim>\<open>model.go\<close>
  pays off the gas backlog and sets the base fee from it. The lemmas compare \<^verbatim>\<open>UpdatePricingModel\<close>
  with \<open>l2_price\<close>, the fee as a function of natural numbers.
\<close>

section \<open>Definitions\<close>

record L2PricingState =
  l2_speedLimitPerSecond :: StorageSlot
  l2_perBlockGasLimit :: StorageSlot
  l2_baseFeeWei :: StorageSlot
  l2_minBaseFeeWei :: StorageSlot
  l2_gasBacklog :: StorageSlot
  l2_pricingInertia :: StorageSlot
  l2_backlogTolerance :: StorageSlot

definition speedLimitPerSecondOffset :: u64 where "speedLimitPerSecondOffset = 0"
definition perBlockGasLimitOffset :: u64 where "perBlockGasLimitOffset = 1"
definition baseFeeWeiOffset :: u64 where "baseFeeWeiOffset = 2"
definition minBaseFeeWeiOffset :: u64 where "minBaseFeeWeiOffset = 3"
definition gasBacklogOffset :: u64 where "gasBacklogOffset = 4"
definition pricingInertiaOffset :: u64 where "pricingInertiaOffset = 5"
definition backlogToleranceOffset :: u64 where "backlogToleranceOffset = 6"

definition InitialSpeedLimitPerSecondV0 :: u64 where "InitialSpeedLimitPerSecondV0 = 1000000"
definition InitialPerBlockGasLimitV0 :: u64 where "InitialPerBlockGasLimitV0 = 20 * 1000000"
definition InitialSpeedLimitPerSecondV6 :: u64 where "InitialSpeedLimitPerSecondV6 = 7000000"
definition InitialPerBlockGasLimitV6 :: u64 where "InitialPerBlockGasLimitV6 = 32 * 1000000"
definition InitialMinimumBaseFeeWei :: u64 where "InitialMinimumBaseFeeWei = 1000000000 div 10"
definition InitialBaseFeeWei :: u64 where "InitialBaseFeeWei = InitialMinimumBaseFeeWei"
definition InitialPricingInertia :: u64 where "InitialPricingInertia = 102"
definition InitialBacklogTolerance :: u64 where "InitialBacklogTolerance = 10"

definition InitializeL2PricingState :: "(bytes \<Rightarrow> bytes) \<Rightarrow> Storage \<Rightarrow> unit arb" where
  "InitializeL2PricingState K sto =
     thenM (ignoreM (SetUint64ByUint64 K sto speedLimitPerSecondOffset InitialSpeedLimitPerSecondV0))
    (thenM (ignoreM (SetUint64ByUint64 K sto perBlockGasLimitOffset InitialPerBlockGasLimitV0))
    (thenM (ignoreM (SetUint64ByUint64 K sto baseFeeWeiOffset InitialBaseFeeWei))
    (thenM (ignoreM (SetUint64ByUint64 K sto gasBacklogOffset 0))
    (thenM (ignoreM (SetUint64ByUint64 K sto pricingInertiaOffset InitialPricingInertia))
    (thenM (ignoreM (SetUint64ByUint64 K sto backlogToleranceOffset InitialBacklogTolerance))
       (SetUint64ByUint64 K sto minBaseFeeWeiOffset InitialMinimumBaseFeeWei))))))"

definition OpenL2PricingState :: "(bytes \<Rightarrow> bytes) \<Rightarrow> Storage \<Rightarrow> L2PricingState" where
  "OpenL2PricingState K sto =
     \<lparr>l2_speedLimitPerSecond = OpenStorageBackedUint64 K sto speedLimitPerSecondOffset,
      l2_perBlockGasLimit = OpenStorageBackedUint64 K sto perBlockGasLimitOffset,
      l2_baseFeeWei = OpenStorageBackedBigUint K sto baseFeeWeiOffset,
      l2_minBaseFeeWei = OpenStorageBackedBigUint K sto minBaseFeeWeiOffset,
      l2_gasBacklog = OpenStorageBackedUint64 K sto gasBacklogOffset,
      l2_pricingInertia = OpenStorageBackedUint64 K sto pricingInertiaOffset,
      l2_backlogTolerance = OpenStorageBackedUint64 K sto backlogToleranceOffset\<rparr>"

definition BaseFeeWei :: "L2PricingState \<Rightarrow> int arb" where
  "BaseFeeWei ps = StorageBackedBigUint_Get (l2_baseFeeWei ps)"

definition SetBaseFeeWei :: "L2PricingState \<Rightarrow> int \<Rightarrow> unit arb" where
  "SetBaseFeeWei ps val = StorageBackedBigUint_SetSaturatingWithWarning (l2_baseFeeWei ps) val"

definition MinBaseFeeWei :: "L2PricingState \<Rightarrow> int arb" where
  "MinBaseFeeWei ps = StorageBackedBigUint_Get (l2_minBaseFeeWei ps)"

definition SetMinBaseFeeWei :: "L2PricingState \<Rightarrow> int \<Rightarrow> unit arb" where
  "SetMinBaseFeeWei ps val = StorageBackedBigUint_SetChecked (l2_minBaseFeeWei ps) val"

definition SpeedLimitPerSecond :: "L2PricingState \<Rightarrow> u64 arb" where
  "SpeedLimitPerSecond ps = StorageBackedUint64_Get (l2_speedLimitPerSecond ps)"

definition SetSpeedLimitPerSecond :: "L2PricingState \<Rightarrow> u64 \<Rightarrow> unit arb" where
  "SetSpeedLimitPerSecond ps limit = StorageBackedUint64_Set (l2_speedLimitPerSecond ps) limit"

definition PerBlockGasLimit :: "L2PricingState \<Rightarrow> u64 arb" where
  "PerBlockGasLimit ps = StorageBackedUint64_Get (l2_perBlockGasLimit ps)"

definition SetMaxPerBlockGasLimit :: "L2PricingState \<Rightarrow> u64 \<Rightarrow> unit arb" where
  "SetMaxPerBlockGasLimit ps limit = StorageBackedUint64_Set (l2_perBlockGasLimit ps) limit"

definition GasBacklog :: "L2PricingState \<Rightarrow> u64 arb" where
  "GasBacklog ps = StorageBackedUint64_Get (l2_gasBacklog ps)"

definition SetGasBacklog :: "L2PricingState \<Rightarrow> u64 \<Rightarrow> unit arb" where
  "SetGasBacklog ps backlog = StorageBackedUint64_Set (l2_gasBacklog ps) backlog"

definition PricingInertia :: "L2PricingState \<Rightarrow> u64 arb" where
  "PricingInertia ps = StorageBackedUint64_Get (l2_pricingInertia ps)"

definition SetPricingInertia :: "L2PricingState \<Rightarrow> u64 \<Rightarrow> unit arb" where
  "SetPricingInertia ps val = StorageBackedUint64_Set (l2_pricingInertia ps) val"

definition BacklogTolerance :: "L2PricingState \<Rightarrow> u64 arb" where
  "BacklogTolerance ps = StorageBackedUint64_Get (l2_backlogTolerance ps)"

definition SetBacklogTolerance :: "L2PricingState \<Rightarrow> u64 \<Rightarrow> unit arb" where
  "SetBacklogTolerance ps val = StorageBackedUint64_Set (l2_backlogTolerance ps) val"

definition L2PricingState_Restrict :: "go_error option \<Rightarrow> unit arb" where
  "L2PricingState_Restrict err = Restrict err"

definition AddToGasPool :: "L2PricingState \<Rightarrow> i64 \<Rightarrow> unit arb" where
  "AddToGasPool ps gas =
     bindM (GasBacklog ps) (\<lambda>backlog.
       SetGasBacklog ps (SaturatingUCast (SaturatingSub backlog gas)))"

text \<open>Go's signed division: a zero divisor panics.\<close>

definition sdivR :: "i64 \<Rightarrow> i64 \<Rightarrow> i64 res" where
  "sdivR a b = (if b = 0 then Panic else Ok (sdivw a b))"

definition UpdatePricingModel :: "L2PricingState \<Rightarrow> u64 \<Rightarrow> unit arb" where
  "UpdatePricingModel ps timePassed =
     bindM (orM 0 (SpeedLimitPerSecond ps)) (\<lambda>speedLimit.
     thenM (ignoreM (AddToGasPool ps (timePassed * speedLimit)))
    (bindM (orM 0 (PricingInertia ps)) (\<lambda>inertia.
     bindM (orM 0 (BacklogTolerance ps)) (\<lambda>tolerance.
     bindM (orM 0 (GasBacklog ps)) (\<lambda>backlog.
     bindM (orM 0 (MinBaseFeeWei ps)) (\<lambda>minBaseFee.
     bindM (if backlog > tolerance * speedLimit
            then liftR
              (bindR (sdivR (NaturalToBips (backlog - tolerance * speedLimit)) (inertia * speedLimit)) (\<lambda>exponentBips.
               bindR (ApproxExpBasisPoints exponentBips 4) (\<lambda>e. BigMulByBips minBaseFee e)))
            else returnM minBaseFee) (\<lambda>baseFee.
       ignoreM (SetBaseFeeWei ps baseFee))))))))"

section \<open>The backlog\<close>

lemmas l2_offsets =
  speedLimitPerSecondOffset_def perBlockGasLimitOffset_def baseFeeWeiOffset_def minBaseFeeWeiOffset_def
  gasBacklogOffset_def pricingInertiaOffset_def backlogToleranceOffset_def

lemmas l2_access =
  BaseFeeWei_def SetBaseFeeWei_def MinBaseFeeWei_def SetMinBaseFeeWei_def SpeedLimitPerSecond_def SetSpeedLimitPerSecond_def
  PerBlockGasLimit_def SetMaxPerBlockGasLimit_def GasBacklog_def SetGasBacklog_def PricingInertia_def SetPricingInertia_def
  BacklogTolerance_def SetBacklogTolerance_def

lemma OpenL2PricingState_sel [simp]:
  "l2_speedLimitPerSecond (OpenL2PricingState K sto) = NewSlot K sto 0"
  "l2_perBlockGasLimit (OpenL2PricingState K sto) = NewSlot K sto 1"
  "l2_baseFeeWei (OpenL2PricingState K sto) = NewSlot K sto 2"
  "l2_minBaseFeeWei (OpenL2PricingState K sto) = NewSlot K sto 3"
  "l2_gasBacklog (OpenL2PricingState K sto) = NewSlot K sto 4"
  "l2_pricingInertia (OpenL2PricingState K sto) = NewSlot K sto 5"
  "l2_backlogTolerance (OpenL2PricingState K sto) = NewSlot K sto 6"
  by (simp_all add: OpenL2PricingState_def l2_offsets)

text \<open>The slots of the pricing state hold 64-bit integers.\<close>

definition l2_inv :: "(bytes \<Rightarrow> bytes) \<Rightarrow> Storage \<Rightarrow> world \<Rightarrow> bool" where
  "l2_inv K sto w \<longleftrightarrow> collision_free K (uint_keys sto) \<and> sys w \<and>
     (\<forall>i \<in> {0, 1, 4, 5, 6}. u64_slot w (NewSlot K sto i))"

text \<open>The backlog after adding \<open>gas\<close> to the pool, as integers.\<close>

definition paid_off :: "u64 \<Rightarrow> i64 \<Rightarrow> u64" where
  "paid_off backlog gas = SaturatingUCast (SaturatingSub backlog gas)"

lemma sint_u64_small: "unat (v :: u64) < 2 ^ 63 \<Longrightarrow> sint v = int (unat v)"
proof -
  assume "unat v < 2 ^ 63"
  then have "int (unat v) < int (2 ^ 63)" by (simp only: of_nat_less_iff)
  then have "uint v < 2 ^ (LENGTH(64) - 1)" by simp
  then have "sint v = uint v" unfolding sint_uint by (intro signed_take_bit_int_eq_self) (simp_all add: order_trans [of _ 0])
  then show ?thesis by (simp only: uint_nat)
qed

lemma uint_SaturatingUCast: "uint (SaturatingUCast (v :: i64) :: u64) = max 0 (sint v)"
proof (cases "v \<le>s 0")
  case True
  then show ?thesis by (simp add: SaturatingUCast_def word_sle_eq)
next
  case False
  then have p: "0 < sint v" by (simp add: word_sle_eq)
  then have "unat v = nat (sint v)" by (simp add: unat_nonneg)
  then have "int (unat v) = sint v" using p by (simp only: int_nat_eq) simp
  then have "uint v = sint v" by simp
  with False p show ?thesis by (simp add: SaturatingUCast_def Let_def max_def)
qed

lemma sint_uminus: "sint (g :: i64) \<noteq> - (2 ^ 63) \<Longrightarrow> sint (- g) = - sint g"
proof -
  assume g: "sint g \<noteq> - (2 ^ 63)"
  have "- (2 ^ (LENGTH(64) - 1)) \<le> sint g" "sint g < 2 ^ (LENGTH(64) - 1)" by (rule sint_range)+
  with g have "signed_take_bit 63 (- sint g) = - sint g" by (intro signed_take_bit_int_eq_self) simp_all
  then show ?thesis by (simp add: sint_word_minus)
qed

lemma paid_off_int:
  assumes "unat b < 2 ^ 63" "sint g \<noteq> - (2 ^ 63)"
  shows "int (unat (paid_off b g)) =
    (if int (unat b) - sint g \<ge> 2 ^ 63 then 0 else max 0 (int (unat b) - sint g))"
proof -
  have s: "sint b + sint (- g) = int (unat b) - sint g"
    using assms by (simp add: sint_u64_small sint_uminus)
  have "sint (SaturatingSub b g) = (if int (unat b) - sint g \<ge> 2 ^ 63 then - 1
      else if int (unat b) - sint g < - (2 ^ 63) then 0 else int (unat b) - sint g)"
    using SaturatingAdd_high [of b "- g"] SaturatingAdd_low [of b "- g"] SaturatingAdd_exact [of b "- g"]
    by (simp add: SaturatingSub_def s)
  then show ?thesis by (auto simp: paid_off_def uint_SaturatingUCast)
qed

lemma AddToGasPool_run:
  assumes "sys w" "u64_slot w (l2_gasBacklog ps)"
  shows "\<exists>w'. AddToGasPool ps gas w = (Ok (), w') \<and> sys w' \<and>
    sdb w' = (sdb w)(l2_gasBacklog ps := UintToHash (paid_off (u64_at w (l2_gasBacklog ps)) gas))"
  using assms by (simp add: AddToGasPool_def l2_access run_simps paid_off_def)

lemma l2_inv_upd:
  assumes "l2_inv K sto w" "sys w'" "sdb w' = (sdb w)(NewSlot K sto i := UintToHash v)"
  shows "l2_inv K sto w'"
  using assms by (auto simp: l2_inv_def u64_slot_def)

text \<open>
  C21: adding gas to the pool pays off the backlog down to zero, and a negative amount (gas used by a
  transaction) grows it, exactly, as long as the backlog stays below \<open>2 ^ 63\<close>. From there on the
  signed addition does not saturate: the backlog is wiped to zero.
\<close>

theorem backlog_accounting:
  assumes inv: "l2_inv K sto w" and run: "GasBacklog (OpenL2PricingState K sto) w = (Ok b, w0)"
    and b: "unat b < 2 ^ 63" and g: "sint gas \<noteq> - (2 ^ 63)"
  shows "\<exists>w' w'' b'. AddToGasPool (OpenL2PricingState K sto) gas w = (Ok (), w') \<and> l2_inv K sto w' \<and>
    GasBacklog (OpenL2PricingState K sto) w' = (Ok b', w'') \<and>
    int (unat b') = (if int (unat b) - sint gas \<ge> 2 ^ 63 then 0 else max 0 (int (unat b) - sint gas)) \<and>
    (\<forall>a. a \<noteq> NewSlot K sto 4 \<longrightarrow> sdb w' a = sdb w a)"
proof -
  have w: "sys w" "u64_slot w (NewSlot K sto 4)" using inv by (simp_all add: l2_inv_def)
  then have b': "b = u64_at w (NewSlot K sto 4)" using run by (simp add: l2_access run_simps)
  from AddToGasPool_run [of w "OpenL2PricingState K sto" gas] w obtain w' where
    w': "AddToGasPool (OpenL2PricingState K sto) gas w = (Ok (), w')" "sys w'"
    "sdb w' = (sdb w)(NewSlot K sto 4 := UintToHash (paid_off b gas))"
    by (auto simp: b')
  have "u64_slot w' (NewSlot K sto 4)" "u64_at w' (NewSlot K sto 4) = paid_off b gas"
    using w'(3) by (simp_all add: u64_slot_def u64_at_def)
  then have "GasBacklog (OpenL2PricingState K sto) w' = (Ok (paid_off b gas), charge StorageReadCost w')"
    using w'(2) by (simp add: l2_access run_simps)
  with w' l2_inv_upd [OF inv w'(2,3)] paid_off_int [OF b g] show ?thesis by (auto simp del: of_nat_unat)
qed

lemma blank_l2: "l2_inv toyK toyStorage blank"
  by (simp add: l2_inv_def toyK_uint_keys toyStorage_def u64_slot_def)

theorem backlog_accounting_witness:
  "\<exists>w' w'' b'. AddToGasPool (OpenL2PricingState toyK toyStorage) (- 5) blank = (Ok (), w') \<and>
     GasBacklog (OpenL2PricingState toyK toyStorage) w' = (Ok b', w'') \<and> int (unat b') = 5"
proof -
  have "GasBacklog (OpenL2PricingState toyK toyStorage) blank = (Ok 0, charge StorageReadCost blank)"
    by (simp add: l2_access run_simps u64_slot_def u64_at_def)
  from backlog_accounting [OF blank_l2 this, of "- 5"] show ?thesis by auto
qed

section \<open>The base fee\<close>

text \<open>
  The base fee for a backlog \<open>B\<close>: the minimum \<open>M\<close> up to the tolerated backlog \<open>T * S\<close>, and above it
  the minimum times the exponential of the excess over \<open>I * S\<close>.
\<close>

definition l2_price :: "int \<Rightarrow> nat \<Rightarrow> nat \<Rightarrow> nat \<Rightarrow> nat \<Rightarrow> int" where
  "l2_price M S I T B =
     (if B \<le> T * S then M else M * int (exp_nat ((B - T * S) * 10000 div (I * S)) 4) div 10000)"

lemma l2_price_floor: "0 \<le> M \<Longrightarrow> M \<le> l2_price M S I T B"
proof -
  assume M: "0 \<le> M"
  have "M * 10000 \<le> M * int (exp_nat x 4)" for x
    using exp_nat_lower [of x 4] M by (intro mult_left_mono) simp_all
  then have "M * 10000 div 10000 \<le> M * int (exp_nat x 4) div 10000" for x by (intro zdiv_mono1) simp_all
  then show ?thesis by (simp add: l2_price_def)
qed

lemma l2_price_mono: "0 \<le> M \<Longrightarrow> B \<le> B' \<Longrightarrow> l2_price M S I T B \<le> l2_price M S I T B'"
proof -
  assume M: "0 \<le> M" and B: "B \<le> B'"
  show ?thesis
  proof (cases "B \<le> T * S")
    case True
    with l2_price_floor [OF M] show ?thesis by (simp add: l2_price_def [of _ _ _ _ B])
  next
    case False
    have "(B - T * S) * 10000 div (I * S) \<le> (B' - T * S) * 10000 div (I * S)"
      using B by (intro div_le_mono mult_le_mono1 diff_le_mono)
    from exp_nat_mono [OF this, of 4] False B M show ?thesis
      by (simp add: l2_price_def zdiv_mono1 mult_left_mono)
  qed
qed

lemma exp_nat_4_bound: "exp_nat x 4 \<le> 1844674407380955"
proof -
  have "exp_nat x 4 = exp_nat_loop x 4 [2, 3] (10000 + min ((10000 + x div 4) * x) (2 ^ 64 - 1) div 30000)"
    by (simp add: exp_nat_def upt_rec)
  also have "\<dots> \<le> 1844674407380955"
    by (rule exp_nat_loop_bound) simp_all
  finally show ?thesis .
qed

lemma sdivR_NaturalToBips:
  assumes e: "unat e * 10000 < 2 ^ 63" and d: "0 < unat d" "unat d < 2 ^ 63"
  shows "\<exists>q. sdivR (NaturalToBips e) d = Ok q \<and> sint q = int (unat e * 10000 div unat d)"
proof -
  have se: "sint e = int (unat e)" "sint d = int (unat d)" using e d by (simp_all add: sint_u64_small)
  have "int (unat e * 10000) < int (2 ^ 63)" using e by (simp only: of_nat_less_iff)
  then have b: "int (unat e) * 10000 < 2 ^ 63" by simp
  have one: "sint (OneInBips) = 10000" using sint_u64_small [of OneInBips] by (simp add: OneInBips_def)
  have n: "sint (NaturalToBips e) = int (unat e * 10000)"
    using SaturatingMul_exact [of e OneInBips] b unsigned_greater_eq [of e, where 'a = int]
    by (simp add: NaturalToBips_def se one)
  have t: "tdiv (int m) (int k) = int (m div k)" for m k
    by (cases "m = 0"; cases "k = 0") (simp_all add: tdiv_def sgn_if zdiv_int)
  let ?r = "unat e * 10000 div unat d"
  have "?r < 2 ^ 63" by (rule le_less_trans [OF div_le_dividend e])
  then have "int ?r < int (2 ^ 63)" by (simp only: of_nat_less_iff)
  then have "signed_take_bit (LENGTH(64) - 1) (int ?r) = int ?r"
    by (intro signed_take_bit_int_eq_self) simp_all
  then have "sint (word_of_int (int ?r) :: i64) = int ?r" by (simp only: sint_sbintrunc')
  moreover have "d \<noteq> 0" using d by auto
  ultimately show ?thesis by (simp add: sdivR_def sdivw_def n se(2) t del: of_nat_mult of_nat_unat)
qed

lemma l2_fee_run:
  assumes B: "unat B * 10000 < 2 ^ 63" and I: "0 < unat inertia * unat S" "unat inertia * unat S < 2 ^ 63"
    and T: "unat tol * unat S < 2 ^ 63"
  shows "bindM (if B > tol * S
      then liftR (bindR (sdivR (NaturalToBips (B - tol * S)) (inertia * S)) (\<lambda>x.
             bindR (ApproxExpBasisPoints x 4) (\<lambda>e. BigMulByBips M e)))
      else returnM M) f w = f (l2_price M (unat S) (unat inertia) (unat tol) (unat B)) w"
proof -
  have m: "unat (tol * S) = unat tol * unat S" "unat (inertia * S) = unat inertia * unat S"
    using I(2) T by (simp_all add: unat_times_mod)
  show ?thesis
  proof (cases "B > tol * S")
    case False
    then show ?thesis by (simp add: l2_price_def word_less_nat_alt m not_less)
  next
    case True
    then have lt: "unat tol * unat S < unat B" by (simp add: word_less_nat_alt m)
    have e: "unat (B - tol * S) = unat B - unat tol * unat S" using True by (subst unat_sub) (simp_all add: m)
    have "unat (B - tol * S) * 10000 < 2 ^ 63" using B unfolding e by (rule le_less_trans [rotated]) simp
    from sdivR_NaturalToBips [OF this, of "inertia * S"] I obtain x where
      x: "sdivR (NaturalToBips (B - tol * S)) (inertia * S) = Ok x"
      "sint x = int ((unat B - unat tol * unat S) * 10000 div (unat inertia * unat S))"
      by (auto simp: m e)
    have "0 \<le> sint x" unfolding x(2) by (rule of_nat_0_le_iff)
    from ApproxExpBasisPoints_nonneg [OF this, of 4] obtain q where
      q: "ApproxExpBasisPoints x 4 = Ok q"
      "sint q = int (exp_nat ((unat B - unat tol * unat S) * 10000 div (unat inertia * unat S)) 4)"
      using exp_nat_4_bound [of "(unat B - unat tol * unat S) * 10000 div (unat inertia * unat S)"]
      by (auto simp: x(2) nat_int simp del: of_nat_mult of_nat_unat of_nat_diff)
    have one: "sint (OneInBips) = 10000" using sint_u64_small [of OneInBips] by (simp add: OneInBips_def)
    from True lt x(1) q show ?thesis
      by (simp add: BigMulByBips_def BigMulByFrac_def BigDiv_def euclid_div_def one l2_price_def liftR_def bindM_def)
  qed
qed

lemma paid_off_time:
  assumes "unat b < 2 ^ 63" "unat dt * unat S < 2 ^ 63"
  shows "unat (paid_off b (dt * S)) = unat b - unat dt * unat S"
proof -
  have u: "unat (dt * S) = unat dt * unat S" using assms(2) by (simp add: unat_times_mod)
  then have s: "sint (dt * S) = int (unat dt * unat S)" using assms(2) sint_u64_small [of "dt * S"] by simp
  have y: "0 \<le> int (unat dt * unat S)" by (rule of_nat_0_le_iff)
  have "sint (dt * S) \<noteq> - (2 ^ 63)" unfolding s
  proof
    assume "int (unat dt * unat S) = - (2 ^ 63)"
    from y [unfolded this] show False by simp
  qed
  from paid_off_int [OF assms(1) this]
  have "int (unat (paid_off b (dt * S))) = (if int (unat b) - int (unat dt * unat S) \<ge> 2 ^ 63 then 0
      else max 0 (int (unat b) - int (unat dt * unat S)))"
    unfolding s .
  moreover have "int (unat b) < int (2 ^ 63)" using assms(1) by (simp only: of_nat_less_iff)
  then have "int (unat b) < 2 ^ 63" by (simp only: of_nat_power of_nat_numeral)
  then have "\<not> int (unat b) - int (unat dt * unat S) \<ge> 2 ^ 63" using y by linarith
  ultimately have "int (unat (paid_off b (dt * S))) = max 0 (int (unat b) - int (unat dt * unat S))"
    by (simp only: if_False)
  also have "\<dots> = int (unat b - unat dt * unat S)" by linarith
  finally show ?thesis by (simp only: of_nat_eq_iff)
qed

text \<open>
  C20: after a block the pricing model has paid off the backlog by the speed limit times the time
  passed, and the base fee is the price of what is left: the minimum up to the tolerated backlog,
  exponential in the excess above it. It is never below the minimum and grows with the backlog. In particular
  one update brings the fee to a raised minimum at once, whatever the fee was before; the comment in
  \<^verbatim>\<open>SetMinBaseFeeWei\<close>, that it then increases by up to a factor of two per block until it reaches the minimum,
  does not describe this code.
\<close>

theorem pricing_model_update:
  assumes inv: "l2_inv K sto w"
    and "S = u64_at w (NewSlot K sto 0)" "I = u64_at w (NewSlot K sto 5)" "T = u64_at w (NewSlot K sto 6)"
    and "M = uint (sdb w (NewSlot K sto 3))" "b = u64_at w (NewSlot K sto 4)"
    and b: "unat b * 10000 < 2 ^ 63" and dt: "unat dt * unat S < 2 ^ 63"
    and I: "0 < unat I * unat S" "unat I * unat S < 2 ^ 63" and T: "unat T * unat S < 2 ^ 63"
  shows "\<exists>w'. UpdatePricingModel (OpenL2PricingState K sto) dt w = (Ok (), w') \<and> l2_inv K sto w' \<and>
    (let B = unat b - unat dt * unat S; price = l2_price M (unat S) (unat I) (unat T) B
     in fst (GasBacklog (OpenL2PricingState K sto) w') = Ok (of_nat B) \<and>
        fst (BaseFeeWei (OpenL2PricingState K sto) w') = Ok (min price (2 ^ 256 - 1)) \<and>
        M \<le> price \<and> (B \<le> unat T * unat S \<longrightarrow> price = M) \<and>
        (\<forall>B' \<ge> B. price \<le> l2_price M (unat S) (unat I) (unat T) B'))"
proof -
  let ?ps = "OpenL2PricingState K sto"
  let ?B = "paid_off b (dt * S)"
  have cf: "collision_free K (uint_keys sto)" and w: "sys w" "u64_slot w (NewSlot K sto 0)"
    "u64_slot w (NewSlot K sto 4)" "u64_slot w (NewSlot K sto 5)" "u64_slot w (NewSlot K sto 6)"
    using inv by (simp_all add: l2_inv_def)
  have B: "unat ?B = unat b - unat dt * unat S" using b by (intro paid_off_time dt) simp
  then have "unat ?B * 10000 < 2 ^ 63" using b by simp
  note fee = l2_fee_run [OF this I T, of M, unfolded B]
  from AddToGasPool_run [of "charge StorageReadCost w" ?ps "dt * S"] w assms(6) obtain w1 where
    w1: "AddToGasPool ?ps (dt * S) (charge StorageReadCost w) = (Ok (), w1)" "sys w1"
    "sdb w1 = (sdb w)(NewSlot K sto 4 := UintToHash ?B)"
    by auto
  have slots: "u64_slot w1 (NewSlot K sto i)" if "u64_slot w (NewSlot K sto i)" for i
    using that w1(3) by (simp add: u64_slot_def)
  have at: "u64_at w1 (NewSlot K sto 5) = I" "u64_at w1 (NewSlot K sto 6) = T" "u64_at w1 (NewSlot K sto 4) = ?B"
    using w1(3) assms(3,4) by (simp_all add: u64_at_def queue_slot_eq [OF cf])
  have M: "uint (sdb w1 (NewSlot K sto 3)) = M" using assms(5) w1(3) by (simp add: queue_slot_eq [OF cf])
  let ?p = "l2_price M (unat S) (unat I) (unat T) (unat b - unat dt * unat S)"
  have "0 \<le> M" using assms(5) by simp
  note price = l2_price_floor [OF this] l2_price_mono [OF this]
  obtain w2 where w2: "UpdatePricingModel ?ps dt w = (Ok (), w2)" "sys w2"
    "sdb w2 = (sdb w1)(NewSlot K sto 2 := BigToHash (clamp 0 (2 ^ 256 - 1) ?p))"
    using w w1(1,2) slots at assms(2) [symmetric] M
    by (simp add: UpdatePricingModel_def l2_access run_simps fee Let_def)
  have "0 \<le> ?p" by (rule order_trans [OF \<open>0 \<le> M\<close> price(1)])
  then have c: "clamp 0 (2 ^ 256 - 1) ?p = min ?p (2 ^ 256 - 1)" by (simp add: clamp_def min.commute)
  have s4: "u64_slot w2 (NewSlot K sto 4)" "u64_at w2 (NewSlot K sto 4) = ?B"
    using w2(3) slots [OF w(3)] at(3) by (simp_all add: u64_slot_def u64_at_def queue_slot_eq [OF cf])
  have "of_nat (unat b - unat dt * unat S) = ?B" unfolding B [symmetric] by simp
  with s4 w2(2) have g: "fst (GasBacklog ?ps w2) = Ok (of_nat (unat b - unat dt * unat S))"
    by (simp add: l2_access run_simps)
  have f: "fst (BaseFeeWei ?ps w2) = Ok (min ?p (2 ^ 256 - 1))"
  proof -
    have "uint (sdb w2 (NewSlot K sto 2)) = min ?p (2 ^ 256 - 1)"
      unfolding w2(3) fun_upd_same using uint_clamp [of ?p] by (simp only: c)
    with w2(2) show ?thesis by (simp add: l2_access run_simps)
  qed
  have "l2_inv K sto w2" unfolding l2_inv_def
    using cf w2(2,3) inv slots by (auto simp: l2_inv_def u64_slot_def queue_slot_eq [OF cf])
  with w2(1) g f price show ?thesis unfolding Let_def by (auto simp: l2_price_def)
qed

lemma InitializeL2PricingState_run:
  assumes cf: "collision_free K (uint_keys sto)" and w: "sys w"
  shows "\<exists>w'. InitializeL2PricingState K sto w = (Ok (), w') \<and> l2_inv K sto w' \<and>
    u64_at w' (NewSlot K sto 0) = 1000000 \<and> u64_at w' (NewSlot K sto 4) = 0 \<and> u64_at w' (NewSlot K sto 5) = 102 \<and>
    u64_at w' (NewSlot K sto 6) = 10 \<and> uint (sdb w' (NewSlot K sto 3)) = 100000000"
proof -
  have "uint (UintToHash v) = uint v" for v by (metis of_nat_unat unat_UintToHash)
  with w show ?thesis
    by (simp add: InitializeL2PricingState_def run_simps l2_offsets l2_inv_def cf queue_slot_eq [OF cf]
      InitialSpeedLimitPerSecondV0_def InitialPricingInertia_def InitialBacklogTolerance_def InitialMinimumBaseFeeWei_def)
qed

theorem pricing_model_update_witness:
  "\<exists>w w'. InitializeL2PricingState toyK toyStorage blank = (Ok (), w) \<and>
     UpdatePricingModel (OpenL2PricingState toyK toyStorage) 3 w = (Ok (), w') \<and>
     fst (BaseFeeWei (OpenL2PricingState toyK toyStorage) w') = Ok 100000000"
proof -
  have "collision_free toyK (uint_keys toyStorage)" by (rule toyK_uint_keys) (simp add: toyStorage_def)
  from InitializeL2PricingState_run [OF this sys_blank] obtain w where
    w: "InitializeL2PricingState toyK toyStorage blank = (Ok (), w)" "l2_inv toyK toyStorage w"
    "u64_at w (NewSlot toyK toyStorage 0) = 1000000" "u64_at w (NewSlot toyK toyStorage 4) = 0"
    "u64_at w (NewSlot toyK toyStorage 5) = 102" "u64_at w (NewSlot toyK toyStorage 6) = 10"
    "uint (sdb w (NewSlot toyK toyStorage 3)) = 100000000" by blast
  from pricing_model_update [OF w(2) w(3) [symmetric] w(5) [symmetric] w(6) [symmetric] _ w(4) [symmetric],
      of 100000000 3] w(7)
  obtain w' where "UpdatePricingModel (OpenL2PricingState toyK toyStorage) 3 w = (Ok (), w')"
    "fst (BaseFeeWei (OpenL2PricingState toyK toyStorage) w') = Ok 100000000"
    by (auto simp: Let_def)
  with w(1) show ?thesis by blast
qed

end
