(* ===== verification/Programs.thy ===== *)
theory Programs
  imports L2Pricing
begin

text \<open>
  \<^verbatim>\<open>arbos/programs\<close>: the parameters of Stylus packed in a storage word (\<^verbatim>\<open>params.go\<close>), the price of program data
  (\<^verbatim>\<open>data_pricer.go\<close>), the gas of wasm memory (\<^verbatim>\<open>memory.go\<close>), and the table of activated programs
  (\<^verbatim>\<open>programs.go\<close>). The wasm compiler, the code of accounts, decompression and the caches of compiled
  modules are parameters (\<open>stylus_env\<close>).
\<close>

section \<open>Parameters\<close>

definition MaxWasmSize :: nat where "MaxWasmSize = 128 * 1024"
definition initialStackDepth :: u32 where "initialStackDepth = 4 * 65536"
definition InitialFreePages :: u16 where "InitialFreePages = 2"
definition InitialPageGas :: u16 where "InitialPageGas = 1000"
definition initialPageRamp :: u64 where "initialPageRamp = 620674314"
definition initialPageLimit :: u16 where "initialPageLimit = 128"
definition initialInkPrice :: Uint24 where "initialInkPrice = 10000"
definition initialMinInitGas :: u8 where "initialMinInitGas = 0"
definition initialMinCachedInitGas :: u8 where "initialMinCachedInitGas = 0"
definition initialExpiryDays :: u16 where "initialExpiryDays = 365"
definition initialKeepaliveDays :: u16 where "initialKeepaliveDays = 31"
definition initialRecentCacheSize :: u16 where "initialRecentCacheSize = 32"
definition minCachedInitGasUnits :: u64 where "minCachedInitGasUnits = 64"
definition minInitGasUnits :: u64 where "minInitGasUnits = 256"
definition WarmStorageReadCostEIP2929 :: u64 where "WarmStorageReadCostEIP2929 = 100"

record StylusParams =
  sp_backingStorage :: "Storage option"
  sp_Version :: u16
  InkPrice :: Uint24
  MaxStackDepth :: u32
  FreePages :: u16
  PageGas :: u16
  PageRamp :: u64
  PageLimit :: u16
  MinInitGas :: u8
  MinCachedInitGas :: u8
  ExpiryDays :: u16
  KeepaliveDays :: u16
  BlockCacheSize :: u16

text \<open>The closure \<^verbatim>\<open>take\<close>: the next slot to read and the bytes left of the last one read.\<close>

definition Params_take :: "(bytes \<Rightarrow> bytes) \<Rightarrow> Storage \<Rightarrow> nat \<Rightarrow> u64 \<times> bytes \<Rightarrow> (bytes \<times> (u64 \<times> bytes)) arb" where
  "Params_take K sto n st =
     (case st of (nxt, data) \<Rightarrow>
       bindM (if length data < n
              then bindM (GetFree K sto (UintToHash nxt)) (\<lambda>word. returnM (nxt + 1, hash_bytes word))
              else returnM (nxt, data)) (\<lambda>(nxt, data).
         if n > length data then panicM else returnM (take n data, (nxt, drop n data))))"

definition Params_at :: "(bytes \<Rightarrow> bytes) \<Rightarrow> Storage \<Rightarrow> StylusParams arb" where
  "Params_at K sto =
     thenM (Burn (1 * WarmStorageReadCostEIP2929))
    (bindM (Params_take K sto 2 (0, [])) (\<lambda>(b1, st). bindM (liftR (BytesToUint16 b1)) (\<lambda>version.
     bindM (Params_take K sto 3 st) (\<lambda>(b2, st). bindM (liftR (BytesToUint24 b2)) (\<lambda>inkPrice.
     bindM (Params_take K sto 4 st) (\<lambda>(b3, st). bindM (liftR (BytesToUint32 b3)) (\<lambda>maxStackDepth.
     bindM (Params_take K sto 2 st) (\<lambda>(b4, st). bindM (liftR (BytesToUint16 b4)) (\<lambda>freePages.
     bindM (Params_take K sto 2 st) (\<lambda>(b5, st). bindM (liftR (BytesToUint16 b5)) (\<lambda>pageGas.
     bindM (Params_take K sto 8 st) (\<lambda>(b6, st). bindM (liftR (BytesToUint b6)) (\<lambda>pageRamp.
     bindM (Params_take K sto 2 st) (\<lambda>(b7, st). bindM (liftR (BytesToUint16 b7)) (\<lambda>pageLimit.
     bindM (Params_take K sto 1 st) (\<lambda>(b8, st). bindM (liftR (BytesToUint8 b8)) (\<lambda>minInitGas.
     bindM (Params_take K sto 1 st) (\<lambda>(b9, st). bindM (liftR (BytesToUint8 b9)) (\<lambda>minCachedInitGas.
     bindM (Params_take K sto 2 st) (\<lambda>(b10, st). bindM (liftR (BytesToUint16 b10)) (\<lambda>expiryDays.
     bindM (Params_take K sto 2 st) (\<lambda>(b11, st). bindM (liftR (BytesToUint16 b11)) (\<lambda>keepaliveDays.
     bindM (Params_take K sto 2 st) (\<lambda>(b12, st). bindM (liftR (BytesToUint16 b12)) (\<lambda>blockCacheSize.
       returnM \<lparr>sp_backingStorage = Some sto, sp_Version = version, InkPrice = inkPrice, MaxStackDepth = maxStackDepth,
         FreePages = freePages, PageGas = pageGas, PageRamp = pageRamp, PageLimit = pageLimit, MinInitGas = minInitGas,
         MinCachedInitGas = minCachedInitGas, ExpiryDays = expiryDays, KeepaliveDays = keepaliveDays,
         BlockCacheSize = blockCacheSize\<rparr>)))))))))))))))))))))))))"

definition params_bytes :: "StylusParams \<Rightarrow> bytes" where
  "params_bytes p = ConcatByteSlices
     [Uint16ToBytes (sp_Version p), Uint24ToBytes (InkPrice p), Uint32ToBytes (MaxStackDepth p), Uint16ToBytes (FreePages p),
      Uint16ToBytes (PageGas p), UintToBytes (PageRamp p), Uint16ToBytes (PageLimit p), Uint8ToBytes (MinInitGas p),
      Uint8ToBytes (MinCachedInitGas p), Uint16ToBytes (ExpiryDays p), Uint16ToBytes (KeepaliveDays p), Uint16ToBytes (BlockCacheSize p)]"

text \<open>A word on the left of a slot, padded with zeros on the right.\<close>

definition left_word :: "bytes \<Rightarrow> hash" where
  "left_word info = bytes_hash (info @ replicate (32 - length info) 0)"

function Save_loop :: "(bytes \<Rightarrow> bytes) \<Rightarrow> Storage \<Rightarrow> bytes \<Rightarrow> u64 \<Rightarrow> unit arb" where
  "Save_loop K sto data slot =
     (if data = [] then returnM ()
      else let nxt = MinInt 32 (length data) in
        thenM (SetByUint64 K sto slot (left_word (take nxt data))) (Save_loop K sto (drop nxt data) (slot + 1)))"
  by pat_completeness auto
termination
  by (relation "measure (\<lambda>(_, _, data, _). length data)") (auto simp: MinInt_def)

declare Save_loop.simps [simp del]

definition Params_Save :: "(bytes \<Rightarrow> bytes) \<Rightarrow> StylusParams \<Rightarrow> unit arb" where
  "Params_Save K p =
     (case sp_backingStorage p of None \<Rightarrow> failM (ErrMsg ''invalid StylusParams'')
      | Some sto \<Rightarrow> Save_loop K sto (params_bytes p) 0)"

definition initStylusParams :: "(bytes \<Rightarrow> bytes) \<Rightarrow> Storage \<Rightarrow> unit arb" where
  "initStylusParams K sto =
     ignoreM (Params_Save K \<lparr>sp_backingStorage = Some sto, sp_Version = 1, InkPrice = initialInkPrice,
       MaxStackDepth = initialStackDepth, FreePages = InitialFreePages, PageGas = InitialPageGas, PageRamp = initialPageRamp,
       PageLimit = initialPageLimit, MinInitGas = initialMinInitGas, MinCachedInitGas = initialMinCachedInitGas,
       ExpiryDays = initialExpiryDays, KeepaliveDays = initialKeepaliveDays, BlockCacheSize = initialRecentCacheSize\<rparr>)"

section \<open>The price of program data\<close>

record DataPricer =
  dp_backingStorage :: Storage
  dp_demand :: StorageSlot
  dp_bytesPerSecond :: StorageSlot
  dp_lastUpdateTime :: StorageSlot
  dp_minPrice :: StorageSlot
  dp_inertia :: StorageSlot

definition demandOffset :: u64 where "demandOffset = 0"
definition bytesPerSecondOffset :: u64 where "bytesPerSecondOffset = 1"
definition dp_lastUpdateTimeOffset :: u64 where "dp_lastUpdateTimeOffset = 2"
definition minPriceOffset :: u64 where "minPriceOffset = 3"
definition dp_inertiaOffset :: u64 where "dp_inertiaOffset = 4"

definition initialDemand :: u32 where "initialDemand = 0"
definition InitialHourlyBytes :: nat where "InitialHourlyBytes = 1 * 2 ^ 40 div (365 * 24)"
definition initialBytesPerSecond :: u32 where "initialBytesPerSecond = of_nat (InitialHourlyBytes div (60 * 60))"
definition initialLastUpdateTime :: u64 where "initialLastUpdateTime = 1421388000"
definition initialMinPrice :: u32 where "initialMinPrice = 82928201"
definition initialInertia :: u32 where "initialInertia = 21360419"

definition initDataPricer :: "(bytes \<Rightarrow> bytes) \<Rightarrow> Storage \<Rightarrow> unit arb" where
  "initDataPricer K sto =
     thenM (ignoreM (StorageBackedUint32_Set (OpenStorageBackedUint32 K sto demandOffset) initialDemand))
    (thenM (ignoreM (StorageBackedUint32_Set (OpenStorageBackedUint32 K sto bytesPerSecondOffset) initialBytesPerSecond))
    (thenM (ignoreM (StorageBackedUint64_Set (OpenStorageBackedUint64 K sto dp_lastUpdateTimeOffset) initialLastUpdateTime))
    (thenM (ignoreM (StorageBackedUint32_Set (OpenStorageBackedUint32 K sto minPriceOffset) initialMinPrice))
      (ignoreM (StorageBackedUint32_Set (OpenStorageBackedUint32 K sto dp_inertiaOffset) initialInertia)))))"

definition openDataPricer :: "(bytes \<Rightarrow> bytes) \<Rightarrow> Storage \<Rightarrow> DataPricer" where
  "openDataPricer K sto =
     \<lparr>dp_backingStorage = sto,
      dp_demand = OpenStorageBackedUint32 K sto demandOffset,
      dp_bytesPerSecond = OpenStorageBackedUint32 K sto bytesPerSecondOffset,
      dp_lastUpdateTime = OpenStorageBackedUint64 K sto dp_lastUpdateTimeOffset,
      dp_minPrice = OpenStorageBackedUint32 K sto minPriceOffset,
      dp_inertia = OpenStorageBackedUint32 K sto dp_inertiaOffset\<rparr>"

definition UpdateModel :: "DataPricer \<Rightarrow> u32 \<Rightarrow> u64 \<Rightarrow> int arb" where
  "UpdateModel p tempBytes time =
     bindM (orM 0 (StorageBackedUint32_Get (dp_demand p))) (\<lambda>demand0.
     bindM (orM 0 (StorageBackedUint32_Get (dp_bytesPerSecond p))) (\<lambda>bytesPerSecond.
     bindM (orM 0 (StorageBackedUint64_Get (dp_lastUpdateTime p))) (\<lambda>lastUpdateTime.
     bindM (orM 0 (StorageBackedUint32_Get (dp_minPrice p))) (\<lambda>minPrice.
     bindM (StorageBackedUint32_Get (dp_inertia p)) (\<lambda>inertia.
     let passed = (SaturatingUUCast (time - lastUpdateTime) :: u32);
         credit = SaturatingUMul bytesPerSecond passed;
         demand = SaturatingUAdd (SaturatingUSub demand0 credit) tempBytes in
     thenM (StorageBackedUint32_Set (dp_demand p) demand)
    (thenM (StorageBackedUint64_Set (dp_lastUpdateTime p) time)
    (bindM (liftR (sdivR (OneInBips * ucast demand) (ucast inertia))) (\<lambda>exponent.
     bindM (liftR (ApproxExpBasisPoints exponent 12)) (\<lambda>multiplier.
     let costPerByte = SaturatingUMul (ucast minPrice) multiplier div 10000;
         costInWei = SaturatingUMul costPerByte (ucast tempBytes) in
     returnM (UintToBig costInWei))))))))))"

section \<open>The gas of wasm memory\<close>

record MemoryModel =
  mm_freePages :: u16
  mm_pageGas :: u16

definition NewMemoryModel :: "u16 \<Rightarrow> u16 \<Rightarrow> MemoryModel" where
  "NewMemoryModel freePages pageGas = \<lparr>mm_freePages = freePages, mm_pageGas = pageGas\<rparr>"

definition memoryExponents :: "u32 list" where
  "memoryExponents =
    [1, 1, 1, 1, 1, 1, 2, 2, 2, 3, 3, 4, 5, 5, 6, 7, 8, 9, 11, 12, 14, 17, 19, 22, 25, 29, 33, 38,
     43, 50, 57, 65, 75, 85, 98, 112, 128, 147, 168, 193, 221, 253, 289, 331, 379, 434, 497, 569,
     651, 745, 853, 976, 1117, 1279, 1463, 1675, 1917, 2194, 2511, 2874, 3290, 3765, 4309, 4932,
     5645, 6461, 7395, 8464, 9687, 11087, 12689, 14523, 16621, 19024, 21773, 24919, 28521, 32642,
     37359, 42758, 48938, 56010, 64104, 73368, 83971, 96106, 109994, 125890, 144082, 164904, 188735,
     216010, 247226, 282953, 323844, 370643, 424206, 485509, 555672, 635973, 727880, 833067, 953456,
     1091243, 1248941, 1429429, 1636000, 1872423, 2143012, 2452704, 2807151, 3212820, 3677113,
     4208502, 4816684, 5512756, 6309419, 7221210, 8264766, 9459129, 10826093, 12390601, 14181199,
     16230562, 18576084, 21260563, 24332984, 27849408, 31873999]"

definition MemoryModel_exp :: "MemoryModel \<Rightarrow> u16 \<Rightarrow> u64" where
  "MemoryModel_exp model pages =
     (if unat pages < length memoryExponents then ucast (memoryExponents ! unat pages) else - 1)"

definition GasCost :: "MemoryModel \<Rightarrow> u16 \<Rightarrow> u16 \<Rightarrow> u16 \<Rightarrow> u64" where
  "GasCost model new open ever =
     (let newOpen = SaturatingUAdd open new;
          newEver = MaxInt ever [newOpen] in
      if newEver \<le> mm_freePages model then 0
      else
        let subFree = (\<lambda>pages. SaturatingUSub pages (mm_freePages model));
            adding = SaturatingUSub (subFree newOpen) (subFree open);
            linear = SaturatingUMul (ucast adding) (ucast (mm_pageGas model) :: u64);
            expand = MemoryModel_exp model newEver - MemoryModel_exp model ever
        in SaturatingUAdd linear expand)"

section \<open>The table of programs\<close>

record Programs =
  ps_backingStorage :: Storage
  ps_programs :: Storage
  ps_moduleHashes :: Storage
  ps_dataPricer :: DataPricer
  ps_cacheManagers :: AddressSet

record Program =
  pg_version :: u16
  initGas :: u16
  cachedInitGas :: u16
  footprint :: u16
  asmEstimateKb :: Uint24
  activatedAt :: Uint24
  ageSeconds :: u64
  cached :: bool

definition paramsKey :: bytes where "paramsKey = [0]"
definition programDataKey :: bytes where "programDataKey = [1]"
definition moduleHashesKey :: bytes where "moduleHashesKey = [2]"
definition dataPricerKey :: bytes where "dataPricerKey = [3]"
definition cacheManagersKey :: bytes where "cacheManagersKey = [4]"

text \<open>
  The errors of the program precompile. The source calls them through variables that the precompiles set to the
  constructors of the Solidity errors of these names and arguments.
\<close>

definition ErrProgramActivation :: go_error where "ErrProgramActivation = ErrMsg ''program activation failed''"
definition ProgramNotWasmError :: go_error where "ProgramNotWasmError = ErrMsg ''ProgramNotWasm''"
definition ProgramNotActivatedError :: go_error where "ProgramNotActivatedError = ErrMsg ''ProgramNotActivated''"
definition ProgramNeedsUpgradeError :: "u16 \<Rightarrow> u16 \<Rightarrow> go_error" where
  "ProgramNeedsUpgradeError version stylusVersion = ErrArgs ''ProgramNeedsUpgrade'' [unat version, unat stylusVersion]"
definition ProgramExpiredError :: "u64 \<Rightarrow> go_error" where "ProgramExpiredError age = ErrArgs ''ProgramExpired'' [unat age]"
definition ProgramUpToDateError :: go_error where "ProgramUpToDateError = ErrMsg ''ProgramUpToDate''"
definition ProgramKeepaliveTooSoon :: "u64 \<Rightarrow> go_error" where "ProgramKeepaliveTooSoon age = ErrArgs ''ProgramKeepaliveTooSoon'' [unat age]"

definition Programs_Initialize :: "(bytes \<Rightarrow> bytes) \<Rightarrow> Storage \<Rightarrow> unit arb" where
  "Programs_Initialize K sto =
     thenM (initStylusParams K (OpenSubStorage K sto paramsKey))
    (thenM (initDataPricer K (OpenSubStorage K sto dataPricerKey))
      (ignoreM (AddressSet_Initialize K (OpenCachedSubStorage K sto cacheManagersKey))))"

definition Programs_Open :: "(bytes \<Rightarrow> bytes) \<Rightarrow> Storage \<Rightarrow> Programs" where
  "Programs_Open K sto =
     \<lparr>ps_backingStorage = sto,
      ps_programs = OpenSubStorage K sto programDataKey,
      ps_moduleHashes = OpenSubStorage K sto moduleHashesKey,
      ps_dataPricer = openDataPricer K (OpenCachedSubStorage K sto dataPricerKey),
      ps_cacheManagers = OpenAddressSet K (OpenCachedSubStorage K sto cacheManagersKey)\<rparr>"

definition Params :: "(bytes \<Rightarrow> bytes) \<Rightarrow> Programs \<Rightarrow> StylusParams arb" where
  "Params K p = Params_at K (OpenCachedSubStorage K (ps_backingStorage p) paramsKey)"

text \<open>
  The helpers on time subtract \<^verbatim>\<open>lastUpdateTimeOffset\<close>, a slot number, where the comments speak of the time
  Arbitrum began; ages only depend on the difference.
\<close>

definition hoursSinceArbitrum :: "u64 \<Rightarrow> Uint24" where
  "hoursSinceArbitrum time = ucast ((time - dp_lastUpdateTimeOffset) div 3600)"

definition hoursToAge :: "u64 \<Rightarrow> Uint24 \<Rightarrow> u64" where
  "hoursToAge time hours =
     (let seconds = SaturatingUMul (ucast hours) 3600;
          at = SaturatingUAdd dp_lastUpdateTimeOffset seconds
      in SaturatingUSub time at)"

definition getProgram :: "(bytes \<Rightarrow> bytes) \<Rightarrow> Programs \<Rightarrow> hash \<Rightarrow> u64 \<Rightarrow> Program arb" where
  "getProgram K p codeHash time =
     bindM (Get K (ps_programs p) codeHash) (\<lambda>word. let data = hash_bytes word in
     bindM (liftR (BytesToUint16 (take 2 data))) (\<lambda>version.
     bindM (liftR (BytesToUint16 (take 2 (drop 2 data)))) (\<lambda>init.
     bindM (liftR (BytesToUint16 (take 2 (drop 4 data)))) (\<lambda>cachedInit.
     bindM (liftR (BytesToUint16 (take 2 (drop 6 data)))) (\<lambda>foot.
     bindM (liftR (BytesToUint24 (take 3 (drop 8 data)))) (\<lambda>at.
     bindM (liftR (BytesToUint24 (take 3 (drop 11 data)))) (\<lambda>kb.
     bindM (liftR (BytesToBool (take 1 (drop 14 data)))) (\<lambda>isCached.
       returnM \<lparr>pg_version = version, initGas = init, cachedInitGas = cachedInit, footprint = foot, asmEstimateKb = kb,
         activatedAt = at, ageSeconds = hoursToAge time at, cached = isCached\<rparr>))))))))"

definition getActiveProgram :: "(bytes \<Rightarrow> bytes) \<Rightarrow> Programs \<Rightarrow> hash \<Rightarrow> u64 \<Rightarrow> StylusParams \<Rightarrow> Program arb" where
  "getActiveProgram K p codeHash time params =
     bindM (getProgram K p codeHash time) (\<lambda>program.
       if pg_version program = 0 then failM ProgramNotActivatedError
       else if pg_version program \<noteq> sp_Version params then
         failM (ProgramNeedsUpgradeError (pg_version program) (sp_Version params))
       else if ageSeconds program > DaysToSeconds (ExpiryDays params) then failM (ProgramExpiredError (ageSeconds program))
       else returnM program)"

definition program_bytes :: "Program \<Rightarrow> bytes" where
  "program_bytes program =
     Uint16ToBytes (pg_version program) @ Uint16ToBytes (initGas program) @ Uint16ToBytes (cachedInitGas program) @
     Uint16ToBytes (footprint program) @ Uint24ToBytes (activatedAt program) @ Uint24ToBytes (asmEstimateKb program) @
     BoolToBytes (cached program)"

definition setProgram :: "(bytes \<Rightarrow> bytes) \<Rightarrow> Programs \<Rightarrow> hash \<Rightarrow> Program \<Rightarrow> unit arb" where
  "setProgram K p codehash program = Set K (ps_programs p) codehash (left_word (program_bytes program))"

definition programExists :: "(bytes \<Rightarrow> bytes) \<Rightarrow> Programs \<Rightarrow> hash \<Rightarrow> u64 \<Rightarrow> StylusParams \<Rightarrow> (u16 \<times> bool \<times> bool) arb" where
  "programExists K p codeHash time params =
     bindM (getProgram K p codeHash time) (\<lambda>program.
       let at = activatedAt program;
           expired = (at = 0 \<or> hoursToAge time at > DaysToSeconds (ExpiryDays params))
       in returnM (pg_version program, expired, cached program))"

definition asmSize :: "Program \<Rightarrow> u32" where
  "asmSize program = SaturatingUMul (asmEstimateKb program) 1024"

record activationInfo =
  ai_moduleHash :: hash
  ai_initGas :: u16
  ai_cachedInitGas :: u16
  ai_asmEstimate :: u32
  ai_footprint :: u16

text \<open>
  What the environment provides: whether an account self-destructed, its code, the decompressor with the number
  of the dictionary, the compiler, the pages open in the transaction, and the caches of compiled modules.
\<close>

record stylus_env =
  se_selfDestructed :: "address \<Rightarrow> bool"
  se_code :: "address \<Rightarrow> bytes option"
  se_stripPrefix :: "bytes \<Rightarrow> (bytes \<times> u8) res"
  se_decompress :: "bytes \<Rightarrow> nat \<Rightarrow> u8 \<Rightarrow> bytes res"
  se_activate :: "address \<Rightarrow> bytes \<Rightarrow> u16 \<Rightarrow> u16 \<Rightarrow> bool \<Rightarrow> activationInfo arb"
  se_pagesOpen :: u16
  se_cacheProgram :: "hash \<Rightarrow> u16 \<Rightarrow> bool \<Rightarrow> world \<Rightarrow> world"
  se_evictProgram :: "hash \<Rightarrow> u16 \<Rightarrow> bool \<Rightarrow> bool \<Rightarrow> world \<Rightarrow> world"

text \<open>A call into the environment that cannot fail.\<close>

definition effectM :: "(world \<Rightarrow> world) \<Rightarrow> unit arb" where
  "effectM f w = (Ok (), f w)"

definition getWasm :: "stylus_env \<Rightarrow> address \<Rightarrow> bytes res" where
  "getWasm env program =
     (case se_code env program of None \<Rightarrow> Err ProgramNotWasmError
      | Some prefixedWasm \<Rightarrow>
          bindR (se_stripPrefix env prefixedWasm) (\<lambda>(wasm, dictByte).
            if dictByte = 0 \<or> dictByte = 1 then se_decompress env wasm MaxWasmSize dictByte
            else Err (ErrMsg ''unsupported dictionary'')))"

text \<open>An activation ends with its results, or with an error and whether to take all gas.\<close>

datatype activation = Activated u16 hash hash int | NotActivated bool go_error

definition tryM :: "bool \<Rightarrow> 'a arb \<Rightarrow> ('a \<Rightarrow> activation arb) \<Rightarrow> activation arb" where
  "tryM takeAllGas m f w =
     (case m w of (Ok x, w') \<Rightarrow> f x w' | (Err e, w') \<Rightarrow> (Ok (NotActivated takeAllGas e), w') | (Panic, w') \<Rightarrow> (Panic, w'))"

definition ActivateProgram ::
  "(bytes \<Rightarrow> bytes) \<Rightarrow> stylus_env \<Rightarrow> Programs \<Rightarrow> address \<Rightarrow> u64 \<Rightarrow> bool \<Rightarrow> activation arb" where
  "ActivateProgram K env p address time debugMode =
     bindM (\<lambda>w. (Ok (w_codeHash w address), w)) (\<lambda>codeHash.
     if se_selfDestructed env address then returnM (NotActivated False (ErrMsg ''self destructed'')) else
     tryM False (Params K p) (\<lambda>params. let stylusVersion = sp_Version params in
     tryM False (programExists K p codeHash time params) (\<lambda>(currentVersion, expired, isCached).
     if currentVersion = stylusVersion \<and> \<not> expired then returnM (NotActivated False ProgramUpToDateError) else
     tryM False (liftR (getWasm env address)) (\<lambda>wasm.
     let pageLimit = SaturatingUSub (PageLimit params) (se_pagesOpen env) in
     tryM True (se_activate env address wasm pageLimit stylusVersion debugMode) (\<lambda>info.
     tryM True (if isCached then
         bindM (Get K (ps_moduleHashes p) codeHash) (\<lambda>oldModuleHash.
         thenM (effectM (se_evictProgram env oldModuleHash currentVersion debugMode expired))
           (effectM (se_cacheProgram env (ai_moduleHash info) stylusVersion debugMode))) else returnM ()) (\<lambda>_.
     tryM True (Set K (ps_moduleHashes p) codeHash (ai_moduleHash info)) (\<lambda>_.
     tryM True (bindM (liftR (DivCeil (ai_asmEstimate info) 1024)) (\<lambda>kb.
         case IntToUint24 kb of (v, None) \<Rightarrow> returnM v | (v, Some e) \<Rightarrow> failM e)) (\<lambda>estimateKb.
     tryM True (UpdateModel (ps_dataPricer p) (ai_asmEstimate info) time) (\<lambda>dataFee.
     let programData = \<lparr>pg_version = stylusVersion, initGas = ai_initGas info, cachedInitGas = ai_cachedInitGas info,
           footprint = ai_footprint info, asmEstimateKb = estimateKb, activatedAt = hoursSinceArbitrum time,
           ageSeconds = 0, cached = isCached\<rparr> in
     tryM False (setProgram K p codeHash programData) (\<lambda>_.
       returnM (Activated stylusVersion codeHash (ai_moduleHash info) dataFee)))))))))))"

record goParams =
  gp_version :: u16
  gp_maxDepth :: u32
  gp_inkPrice :: Uint24
  gp_debugMode :: bool

definition Programs_goParams :: "u16 \<Rightarrow> bool \<Rightarrow> StylusParams \<Rightarrow> goParams" where
  "Programs_goParams version debug params =
     \<lparr>gp_version = version, gp_maxDepth = MaxStackDepth params, gp_inkPrice = InkPrice params, gp_debugMode = debug\<rparr>"

text \<open>
  The gas a call pays before the program runs: its memory and its initialization; \<open>recent\<close> says that the
  program is among the recently used ones.
\<close>

definition CallProgram_cost :: "StylusParams \<Rightarrow> Program \<Rightarrow> u16 \<Rightarrow> u16 \<Rightarrow> bool \<Rightarrow> u64" where
  "CallProgram_cost params program open ever recent =
     (let model = NewMemoryModel (FreePages params) (PageGas params);
          callCost = GasCost model (footprint program) open ever
      in if cached program \<or> recent then
           SaturatingUAdd (SaturatingUAdd callCost (minCachedInitGasUnits * ucast (MinCachedInitGas params)))
             (ucast (cachedInitGas program))
         else SaturatingUAdd (SaturatingUAdd callCost (minInitGasUnits * ucast (MinInitGas params))) (ucast (initGas program)))"

record evmData =
  ed_blockBasefee :: hash
  ed_chainId :: u64
  ed_blockCoinbase :: address
  ed_blockGasLimit :: u64
  ed_blockNumber :: u64
  ed_blockTimestamp :: u64
  ed_contractAddress :: address
  ed_moduleHash :: hash
  ed_msgSender :: address
  ed_msgValue :: hash
  ed_txGasPrice :: hash
  ed_txOrigin :: address
  ed_reentrant :: u32
  ed_cached :: bool
  ed_tracing :: bool

text \<open>
  What a call takes from the interpreter and from go-ethereum's state database: the contract, the block and the
  transaction, whether the call is traced, and the operations on the pages of the transaction, on its cache of recent
  programs, and on the gas of the contract.
\<close>

record call_context =
  cc_codeHash :: hash
  cc_Address :: address
  cc_CodeAddr :: "address option"
  cc_Caller :: address
  cc_Value :: int
  cc_debugMode :: bool
  cc_ChainID :: int
  cc_BaseFee :: int
  cc_Coinbase :: address
  cc_GasLimit :: u64
  cc_Time :: u64
  cc_GasPrice :: int
  cc_Origin :: address
  cc_tracing :: bool
  cc_L1BlockNumber :: "u64 arb"
  cc_GetStylusPages :: "(u16 \<times> u16) arb"
  cc_AddStylusPages :: "u16 \<Rightarrow> unit arb"
  cc_SetStylusPagesOpen :: "u16 \<Rightarrow> unit arb"
  cc_RecentWasms_Insert :: "hash \<Rightarrow> u16 \<Rightarrow> bool arb"
  cc_BurnGas :: "u64 \<Rightarrow> unit arb"

text \<open>\<^verbatim>\<open>defer d()\<close>: \<open>d\<close> runs after the rest of the function, however that ends.\<close>

definition deferM :: "unit arb \<Rightarrow> 'a arb \<Rightarrow> 'a arb" where
  "deferM d m w = (case m w of (r, w') \<Rightarrow> (case d w' of (Panic, w'') \<Rightarrow> (Panic, w'') | (_, w'') \<Rightarrow> (r, w'')))"

text \<open>\<open>callProgram\<close> runs the program at an address with a module hash.\<close>

definition CallProgram ::
  "(bytes \<Rightarrow> bytes) \<Rightarrow> Programs \<Rightarrow> call_context \<Rightarrow>
   (address \<Rightarrow> hash \<Rightarrow> evmData \<Rightarrow> goParams \<Rightarrow> MemoryModel \<Rightarrow> 'r arb) \<Rightarrow> bool \<Rightarrow> 'r arb" where
  "CallProgram K p ctx callProgram reentrant =
     bindM (Params K p) (\<lambda>params.
     bindM (getActiveProgram K p (cc_codeHash ctx) (cc_Time ctx) params) (\<lambda>program.
     bindM (Get K (ps_moduleHashes p) (cc_codeHash ctx)) (\<lambda>moduleHash.
     bindM (cc_L1BlockNumber ctx) (\<lambda>l1BlockNumber.
     bindM (cc_GetStylusPages ctx) (\<lambda>(open, ever).
     bindM (if cached program then returnM True
            else cc_RecentWasms_Insert ctx (cc_codeHash ctx) (BlockCacheSize params)) (\<lambda>recent.
     thenM (cc_BurnGas ctx (CallProgram_cost params program open ever recent))
    (thenM (cc_AddStylusPages ctx (footprint program))
    (deferM (cc_SetStylusPagesOpen ctx open)
    (let evmData =
       \<lparr>ed_blockBasefee = BigToHash (cc_BaseFee ctx), ed_chainId = big_Uint64 (cc_ChainID ctx),
        ed_blockCoinbase = cc_Coinbase ctx, ed_blockGasLimit = cc_GasLimit ctx, ed_blockNumber = l1BlockNumber,
        ed_blockTimestamp = cc_Time ctx, ed_contractAddress = cc_Address ctx, ed_moduleHash = moduleHash,
        ed_msgSender = cc_Caller ctx, ed_msgValue = BigToHash (cc_Value ctx), ed_txGasPrice = BigToHash (cc_GasPrice ctx),
        ed_txOrigin = cc_Origin ctx, ed_reentrant = BoolToUint32 reentrant, ed_cached = cached program,
        ed_tracing = cc_tracing ctx\<rparr>;
         address = (case cc_CodeAddr ctx of None \<Rightarrow> cc_Address ctx | Some a \<Rightarrow> a) in
     callProgram address moduleHash evmData (Programs_goParams (pg_version program) (cc_debugMode ctx) params)
       (NewMemoryModel (FreePages params) (PageGas params)))))))))))"

definition ProgramKeepalive :: "(bytes \<Rightarrow> bytes) \<Rightarrow> Programs \<Rightarrow> hash \<Rightarrow> u64 \<Rightarrow> StylusParams \<Rightarrow> int arb" where
  "ProgramKeepalive K p codeHash time params =
     bindM (getActiveProgram K p codeHash time params) (\<lambda>program.
       if ageSeconds program < DaysToSeconds (KeepaliveDays params) then failM (ProgramKeepaliveTooSoon (ageSeconds program))
       else if pg_version program \<noteq> sp_Version params then
         failM (ProgramNeedsUpgradeError (pg_version program) (sp_Version params))
       else bindM (UpdateModel (ps_dataPricer p) (asmSize program) time) (\<lambda>dataFee.
         thenM (setProgram K p codeHash (program\<lparr>activatedAt := hoursSinceArbitrum time\<rparr>)) (returnM dataFee)))"

definition ProgramCached :: "(bytes \<Rightarrow> bytes) \<Rightarrow> Programs \<Rightarrow> hash \<Rightarrow> bool arb" where
  "ProgramCached K p codeHash =
     bindM (Get K (ps_programs p) codeHash) (\<lambda>word. liftR (BytesToBool (take 1 (drop 14 (hash_bytes word)))))"

definition SetProgramCached ::
  "(bytes \<Rightarrow> bytes) \<Rightarrow> stylus_env \<Rightarrow> Programs \<Rightarrow> unit arb \<Rightarrow> hash \<Rightarrow> bool \<Rightarrow> u64 \<Rightarrow> StylusParams \<Rightarrow> bool \<Rightarrow> unit arb" where
  "SetProgramCached K env p emitEvent codeHash cache time params debug =
     bindM (getProgram K p codeHash time) (\<lambda>program.
       let expired = ageSeconds program > DaysToSeconds (ExpiryDays params) in
       if pg_version program = 0 \<and> cache then failM (ProgramNeedsUpgradeError 0 (sp_Version params))
       else if expired \<and> cache then failM (ProgramExpiredError (ageSeconds program))
       else if cached program = cache then returnM ()
       else thenM emitEvent
         (thenM (Burn (ucast (initGas program)))
         (bindM (Get K (ps_moduleHashes p) codeHash) (\<lambda>moduleHash.
          thenM (effectM (if cache then se_cacheProgram env moduleHash (pg_version program) debug
                          else se_evictProgram env moduleHash (pg_version program) debug expired))
            (setProgram K p codeHash (program\<lparr>cached := cache\<rparr>))))))"

definition CodehashVersion :: "(bytes \<Rightarrow> bytes) \<Rightarrow> Programs \<Rightarrow> hash \<Rightarrow> u64 \<Rightarrow> StylusParams \<Rightarrow> u16 arb" where
  "CodehashVersion K p codeHash time params =
     bindM (getActiveProgram K p codeHash time params) (\<lambda>program. returnM (pg_version program))"

definition ProgramTimeLeft :: "(bytes \<Rightarrow> bytes) \<Rightarrow> Programs \<Rightarrow> hash \<Rightarrow> u64 \<Rightarrow> StylusParams \<Rightarrow> u64 arb" where
  "ProgramTimeLeft K p codeHash time params =
     bindM (getActiveProgram K p codeHash time params) (\<lambda>program.
       let age = hoursToAge time (activatedAt program);
           expirySeconds = DaysToSeconds (ExpiryDays params) in
       if age > expirySeconds then failM (ProgramExpiredError age)
       else returnM (SaturatingUSub expirySeconds age))"

definition ProgramInitGas :: "(bytes \<Rightarrow> bytes) \<Rightarrow> Programs \<Rightarrow> hash \<Rightarrow> u64 \<Rightarrow> StylusParams \<Rightarrow> (u16 \<times> u16) arb" where
  "ProgramInitGas K p codeHash time params =
     bindM (getActiveProgram K p codeHash time params) (\<lambda>program. returnM (initGas program, cachedInitGas program))"

definition ProgramMemoryFootprint :: "(bytes \<Rightarrow> bytes) \<Rightarrow> Programs \<Rightarrow> hash \<Rightarrow> u64 \<Rightarrow> StylusParams \<Rightarrow> u16 arb" where
  "ProgramMemoryFootprint K p codeHash time params =
     bindM (getActiveProgram K p codeHash time params) (\<lambda>program. returnM (footprint program))"

definition ProgramAsmSize :: "(bytes \<Rightarrow> bytes) \<Rightarrow> Programs \<Rightarrow> hash \<Rightarrow> u64 \<Rightarrow> StylusParams \<Rightarrow> u32 arb" where
  "ProgramAsmSize K p codeHash time params =
     bindM (getActiveProgram K p codeHash time params) (\<lambda>program. returnM (asmSize program))"

datatype userStatus = userSuccess | userRevert | userFailure | userOutOfInk | userOutOfStack | userUnknown u8

text \<open>The data returned and the error; the message for the log is left out.\<close>

definition toResult :: "userStatus \<Rightarrow> bytes \<Rightarrow> bytes option \<times> go_error option" where
  "toResult status data =
     (case status of
        userSuccess \<Rightarrow> (Some data, None)
      | userRevert \<Rightarrow> (Some data, Some ErrExecutionReverted)
      | userFailure \<Rightarrow> (None, Some ErrExecutionReverted)
      | userOutOfInk \<Rightarrow> (None, Some ErrOutOfGas)
      | userOutOfStack \<Rightarrow> (None, Some ErrDepth)
      | userUnknown _ \<Rightarrow> (None, Some ErrExecutionReverted))"

section \<open>Packed words\<close>

lemma hash_bytes_left_word: "length bs \<le> 32 \<Longrightarrow> hash_bytes (left_word bs) = bs @ replicate (32 - length bs) 0"
  by (simp add: left_word_def hash_bytes_inverse)

lemmas read_back =
  BytesToUint16_Uint16ToBytes [where rest = "[]", simplified] BytesToUint32_Uint32ToBytes [where rest = "[]", simplified]
  BytesToUint_UintToBytes [where rest = "[]", simplified] BytesToUint8_Uint8ToBytes [where rest = "[]", simplified]
  BytesToBool_BoolToBytes [where rest = "[]", simplified] BytesToUint24_Uint24ToBytes [where rest = "[]", simplified]

lemma Params_take_first: "Params_take K sto n (0, []) w =
   (if 0 < n then (if n \<le> 32 then (Ok (take n (hash_bytes (sdb w (NewSlot K sto 0))), 1, drop n (hash_bytes (sdb w (NewSlot K sto 0)))), w)
      else (Panic, w)) else (Ok ([], 0, []), w))"
  by (simp add: Params_take_def GetFree_def NewSlot_def run_simps)

lemma Params_take_next: "length xs = n \<Longrightarrow> Params_take K sto n (i, xs @ ys) w = (Ok (xs, i, ys), w)"
  by (simp add: Params_take_def run_simps)

text \<open>The parameters whose ink price fits its three bytes.\<close>

definition params_wf :: "StylusParams \<Rightarrow> bool" where
  "params_wf p \<longleftrightarrow> unat (InkPrice p) \<le> MaxUint24"

lemma length_params_bytes [simp]: "length (params_bytes p) = 31"
  by (simp add: params_bytes_def)

lemma Params_at_run:
  assumes "sys w" and "params_wf p" and "sp_backingStorage p = Some sto"
    and slot: "sdb w (NewSlot K sto 0) = left_word (params_bytes p)"
  shows "Params_at K sto w = (Ok p, charge WarmStorageReadCostEIP2929 w)"
proof -
  have bytes: "hash_bytes (sdb w (NewSlot K sto 0)) = params_bytes p @ [0]"
    unfolding slot by (subst hash_bytes_left_word) (simp_all add: params_bytes_def)
  show ?thesis
    using assms(1-3)
    by (simp add: Params_at_def params_wf_def run_simps bindM_Ok Params_take_first Params_take_next bytes params_bytes_def read_back)
qed

lemma Params_Save_run:
  "sys w \<Longrightarrow> sp_backingStorage p = Some sto \<Longrightarrow>
     Params_Save K p w = (Ok (), upd (NewSlot K sto 0) (left_word (params_bytes p)) (charge (writeCost (left_word (params_bytes p))) w))"
  using length_params_bytes [of p] by (auto simp: Params_Save_def Save_loop.simps MinInt_def run_simps simp del: length_params_bytes)

text \<open>
  The parameters of Stylus survive storage: saving a well-formed set of parameters and reading the parameters
  back gives the same set, with one storage write and one warm read.
\<close>

theorem stylus_params_roundtrip:
  assumes "sys w" and "params_wf p" and "sp_backingStorage p = Some sto"
  shows "thenM (Params_Save K p) (Params_at K sto) w =
    (Ok p, charge WarmStorageReadCostEIP2929
      (upd (NewSlot K sto 0) (left_word (params_bytes p)) (charge (writeCost (left_word (params_bytes p))) w)))"
  using assms by (simp add: bindM_def Params_Save_run Params_at_run)

section \<open>Memory\<close>

text \<open>The cost of having ever opened a number of pages, up to the 128 pages of the limit, as a number.\<close>

definition page_exp :: "nat \<Rightarrow> nat" where
  "page_exp i = unat (memoryExponents ! i)"

lemma memoryExponents_sorted: "sorted (map unat memoryExponents)"
  by (simp add: memoryExponents_def sorted1 sorted2 del: sorted_wrt.simps)

lemma length_memoryExponents: "length memoryExponents = 129"
  by (simp add: memoryExponents_def)

lemma page_exp_mono: "i \<le> j \<Longrightarrow> j \<le> 128 \<Longrightarrow> page_exp i \<le> page_exp j"
  using sorted_nth_mono [OF memoryExponents_sorted, of i j] by (simp add: page_exp_def length_memoryExponents)

lemma page_exp_flat: "i \<le> 5 \<Longrightarrow> page_exp i = 1"
proof -
  assume "i \<le> 5"
  then have "page_exp i \<le> page_exp 5" "page_exp 0 \<le> page_exp i" by (auto intro: page_exp_mono)
  then show ?thesis by (simp add: page_exp_def memoryExponents_def)
qed

lemma page_exp_bound: "i \<le> 128 \<Longrightarrow> page_exp i < 2 ^ 32"
  by (simp add: page_exp_def)

lemma unat_MemoryModel_exp: "unat pages \<le> 128 \<Longrightarrow> unat (MemoryModel_exp m pages) = page_exp (unat pages)"
  by (simp add: MemoryModel_exp_def page_exp_def length_memoryExponents unat_ucast_bound)

text \<open>The gas of an allocation within the limit, in unbounded arithmetic.\<close>

definition page_cost :: "nat \<Rightarrow> nat \<Rightarrow> nat \<Rightarrow> nat \<Rightarrow> nat \<Rightarrow> nat" where
  "page_cost free gas new open ever =
     (if max ever (open + new) \<le> free then 0
      else ((open + new - free) - (open - free)) * gas + (page_exp (max ever (open + new)) - page_exp ever))"

lemma unat_GasCost:
  assumes "unat open + unat new \<le> 128" and "unat ever \<le> 128"
  shows "unat (GasCost m new open ever) = page_cost (unat (mm_freePages m)) (unat (mm_pageGas m)) (unat new) (unat open) (unat ever)"
proof -
  let ?o = "SaturatingUAdd open new"
  have o: "unat ?o = unat open + unat new" using assms by (simp add: unat_SaturatingUAdd)
  let ?e = "MaxInt ever [?o]"
  have e: "unat ?e = max (unat ever) (unat open + unat new)"
    by (simp add: o word_less_nat_alt max_def)
  have le: "page_exp (unat ever) \<le> page_exp (unat ?e)" and b: "page_exp (unat ?e) < 2 ^ 32"
    unfolding e using assms page_exp_bound [of "max (unat ever) (unat open + unat new)"] by (auto intro!: page_exp_mono)
  have x: "unat (MemoryModel_exp m ?e - MemoryModel_exp m ever) = page_exp (unat ?e) - page_exp (unat ever)"
    using assms le by (subst unat_sub) (simp_all add: word_le_nat_alt unat_MemoryModel_exp e del: MaxInt.simps)
  let ?l = "((unat open + unat new - unat (mm_freePages m)) - (unat open - unat (mm_freePages m))) * unat (mm_pageGas m)"
  have "?l \<le> 128 * 65535"
  proof (rule mult_le_mono)
    show "unat (mm_pageGas m) \<le> 65535" using unat_u16_bound [of "mm_pageGas m"] by linarith
  qed (use assms(1) in simp)
  moreover have "min (unat open + unat new) 65535 = unat open + unat new" using assms(1) by simp
  ultimately show ?thesis
    using b by (simp add: GasCost_def Let_def page_cost_def word_le_nat_alt e x o unat_SaturatingUAdd unat_SaturatingUMul
      unat_SaturatingUSub unat_ucast_bound del: MaxInt.simps)
qed

lemma page_cost_split:
  assumes "o' + a + b \<le> 128" and "ever \<le> 128"
  defines "e1 \<equiv> max ever (o' + a)" and "e2 \<equiv> max ever (o' + a + b)"
  shows "page_cost f g a o' ever + page_cost f g b (o' + a) e1 \<le> page_cost f g (a + b) o' ever"
    and "f \<le> 5 \<Longrightarrow> page_cost f g a o' ever + page_cost f g b (o' + a) e1 = page_cost f g (a + b) o' ever"
proof -
  let ?x = "(o' + a - f) - (o' - f)" and ?y = "(o' + a + b - f) - (o' + a - f)"
  have e: "max e1 (o' + a + b) = e2" "max ever (o' + (a + b)) = e2" "ever \<le> e1" "e1 \<le> e2" "e2 \<le> 128" "o' + a \<le> e1"
    using assms(1,2) by (auto simp: e1_def e2_def)
  have E: "page_exp ever \<le> page_exp e1" "page_exp e1 \<le> page_exp e2" using e(3-5) by (auto intro!: page_exp_mono)
  have one: "page_cost f g a o' ever = (if e1 \<le> f then 0 else ?x * g + (page_exp e1 - page_exp ever))"
    and two: "page_cost f g b (o' + a) e1 = (if e2 \<le> f then 0 else ?y * g + (page_exp e2 - page_exp e1))"
    by (simp_all add: page_cost_def e e1_def [symmetric])
  have "(o' + (a + b) - f) - (o' - f) = ?x + ?y" by linarith
  then have all: "page_cost f g (a + b) o' ever = (if e2 \<le> f then 0 else (?x + ?y) * g + (page_exp e2 - page_exp ever))"
    by (simp only: page_cost_def e)
  have x0: "?x = 0" if "e1 \<le> f" using that e(6) by linarith
  have sum: "(?x + ?y) * g = ?x * g + ?y * g" by (rule add_mult_distrib)
  show "page_cost f g a o' ever + page_cost f g b (o' + a) e1 \<le> page_cost f g (a + b) o' ever"
    unfolding one two all sum using E e(4) x0 by (cases "e1 \<le> f"; cases "e2 \<le> f") (simp_all add: add.assoc)
  have flat: "page_exp ever = page_exp e1" if "f \<le> 5" "e1 \<le> f"
    using page_exp_flat [of e1] page_exp_flat [of ever] that e(3) by simp
  show "page_cost f g a o' ever + page_cost f g b (o' + a) e1 = page_cost f g (a + b) o' ever" if "f \<le> 5"
    unfolding one two all sum using E e(4) x0 flat [OF that] by (cases "e1 \<le> f"; cases "e2 \<le> f") (simp_all add: add.assoc)
qed

text \<open>
  C39. Allocating memory in two steps never costs more than in one, and costs the same as long as the free pages
  do not exceed five, where the cost of expansion is flat: within the limit of 128 pages no arithmetic wraps or
  saturates. (With more free pages a first step inside them is free and raises the number of pages ever open, so
  the second step is charged for a smaller expansion.)
\<close>

theorem memory_cost_split:
  assumes "unat open + unat a + unat b \<le> 128" and "unat open \<le> unat ever" and "unat ever \<le> 128"
  shows "unat (GasCost m a open ever) + unat (GasCost m b (open + a) (max ever (open + a))) \<le> unat (GasCost m (a + b) open ever) \<and>
    (unat (mm_freePages m) \<le> 5 \<longrightarrow>
      unat (GasCost m a open ever) + unat (GasCost m b (open + a) (max ever (open + a))) = unat (GasCost m (a + b) open ever))"
proof -
  have oa: "unat (open + a) = unat open + unat a" and ab: "unat (a + b) = unat a + unat b"
    using assms by (simp_all add: unat_plus_mod)
  have mx: "unat (max ever (open + a)) = max (unat ever) (unat open + unat a)"
    by (simp add: max_def word_le_nat_alt oa)
  have cost: "unat (GasCost m a open ever) = page_cost (unat (mm_freePages m)) (unat (mm_pageGas m)) (unat a) (unat open) (unat ever)"
    "unat (GasCost m b (open + a) (max ever (open + a))) = page_cost (unat (mm_freePages m)) (unat (mm_pageGas m)) (unat b)
       (unat open + unat a) (max (unat ever) (unat open + unat a))"
    "unat (GasCost m (a + b) open ever) = page_cost (unat (mm_freePages m)) (unat (mm_pageGas m)) (unat a + unat b) (unat open) (unat ever)"
    using assms by (simp_all add: unat_GasCost oa ab mx)
  show ?thesis unfolding cost using assms page_cost_split [of "unat open" "unat a" "unat b" "unat ever"] by blast
qed

theorem memory_cost_split_witness:
  "let m = NewMemoryModel InitialFreePages InitialPageGas
   in unat (GasCost m 3 1 (1 :: u16)) + unat (GasCost m 70 4 4) = unat (GasCost m 73 1 1)"
proof -
  have "max (1 :: u16) (1 + 3) = 4" by simp
  with memory_cost_split [of 1 3 70 1 "NewMemoryModel InitialFreePages InitialPageGas"]
  show ?thesis by (simp add: NewMemoryModel_def InitialFreePages_def Let_def)
qed

section \<open>The lifetime of a program\<close>

definition program_wf :: "Program \<Rightarrow> bool" where
  "program_wf pg \<longleftrightarrow> unat (activatedAt pg) \<le> MaxUint24 \<and> unat (asmEstimateKb pg) \<le> MaxUint24"

lemma length_program_bytes [simp]: "length (program_bytes pg) = 15"
  by (simp add: program_bytes_def)

lemma getProgram_stored:
  assumes "sys w" and "program_wf pg" and slot: "sdb w (mapAddress K (ps_programs p) h) = left_word (program_bytes pg)"
  shows "getProgram K p h t w = (Ok (pg\<lparr>ageSeconds := hoursToAge t (activatedAt pg)\<rparr>), charge StorageReadCost w)"
proof -
  have bytes: "hash_bytes (sdb w (mapAddress K (ps_programs p) h)) = program_bytes pg @ replicate 17 0"
    unfolding slot by (subst hash_bytes_left_word) simp_all
  show ?thesis
    using assms(1,2)
    by (simp add: getProgram_def program_wf_def run_simps bindM_Ok bytes program_bytes_def read_back)
qed

lemma BytesToUint24_range:
  assumes "length bs = 3"
  shows "\<exists>v. BytesToUint24 bs = Ok v \<and> unat v \<le> MaxUint24"
proof -
  have "be_nat (0 # bs) = be_nat bs" using be_nat_append [of "[0]" bs] by (simp add: be_nat_def)
  moreover have "be_nat bs < 256 ^ 3" using be_nat_less [of bs] assms by simp
  ultimately show ?thesis
    using assms by (simp add: BytesToUint24_def be_read_def MaxUint24_def unat_of_nat)
qed

lemma getProgram_typed:
  assumes "sys w"
  shows "\<exists>pg. getProgram K p h t w = (Ok pg, charge StorageReadCost w) \<and> program_wf pg \<and>
    ageSeconds pg = hoursToAge t (activatedAt pg)"
proof -
  let ?b = "hash_bytes (sdb w (mapAddress K (ps_programs p) h))"
  obtain x y where "BytesToUint24 (take 3 (drop 8 ?b)) = Ok x" "unat x \<le> MaxUint24"
    and "BytesToUint24 (take 3 (drop 11 ?b)) = Ok y" "unat y \<le> MaxUint24"
    using BytesToUint24_range [of "take 3 (drop 8 ?b)"] BytesToUint24_range [of "take 3 (drop 11 ?b)"] by auto
  moreover obtain c where "BytesToBool (take 1 (drop 14 ?b)) = Ok c"
    by (cases "take 1 (drop 14 ?b)") (auto simp: BytesToBool_def)
  ultimately show ?thesis
    using assms by (simp add: getProgram_def Let_def run_simps bindM_Ok BytesToUint16_def be_read_def program_wf_def)
qed

lemma Set_OkD: "Set K s k v w = (Ok (), w') \<Longrightarrow> sdb w' (mapAddress K s k) = v"
  by (auto simp: Set_def SetState_def failM_def ok_iffs split: if_splits)

text \<open>
  C40. Every word of the program table decodes, without a panic, to a program whose 24-bit fields fit, and a program
  read from the table and stored under any code hash reads back the same.
\<close>

theorem program_table_typed:
  assumes "sys w"
  shows "\<exists>pg. getProgram K p h t w = (Ok pg, charge StorageReadCost w) \<and> program_wf pg \<and>
    fst (thenM (setProgram K p h' pg) (getProgram K p h' t) w) = Ok pg"
proof -
  from getProgram_typed [OF assms] obtain pg where pg: "getProgram K p h t w = (Ok pg, charge StorageReadCost w)"
    "program_wf pg" "ageSeconds pg = hoursToAge t (activatedAt pg)" by blast
  have same: "pg\<lparr>ageSeconds := hoursToAge t (activatedAt pg)\<rparr> = pg" unfolding pg(3) [symmetric] by simp
  have "fst (thenM (setProgram K p h' pg) (getProgram K p h' t) w) = Ok pg"
    using assms pg(2) by (simp add: setProgram_def run_simps bindM_Ok getProgram_stored same)
  with pg(1,2) show ?thesis by blast
qed

theorem program_table_typed_witness:
  "\<exists>pg. getProgram toyK (Programs_Open toyK deepStorage) 7 100 blank = (Ok pg, charge StorageReadCost blank) \<and> program_wf pg \<and>
    fst (thenM (setProgram toyK (Programs_Open toyK deepStorage) 9 pg) (getProgram toyK (Programs_Open toyK deepStorage) 9 100) blank) = Ok pg"
  by (rule program_table_typed) simp

lemma unat_DaysToSeconds: "unat (DaysToSeconds (d :: u16)) = unat d * 86400"
proof -
  have "unat d < 65536" by simp
  then have "unat d * 86400 < 65536 * 86400" by linarith
  also have "\<dots> < (2 ^ 64 :: nat)" by simp
  finally have "unat d * 86400 < 2 ^ 64" .
  then show ?thesis by (simp add: DaysToSeconds_def unat_word_ariths unat_ucast_bound mult.assoc)
qed

lemma unat_hoursToAge:
  assumes "unat h \<le> MaxUint24"
  shows "unat (hoursToAge t h) = unat t - (unat h * 3600 + 2)"
proof -
  have "unat h * 3600 + 2 < 2 ^ 64" using assms by (simp add: MaxUint24_def)
  then show ?thesis
    by (simp add: hoursToAge_def dp_lastUpdateTimeOffset_def Let_def unat_SaturatingUSub unat_SaturatingUAdd
      unat_SaturatingUMul unat_ucast_bound)
qed

text \<open>The times the 24-bit hours of activation can count.\<close>

definition countable_time :: "u64 \<Rightarrow> bool" where
  "countable_time t \<longleftrightarrow> 2 \<le> unat t \<and> unat t < 2 ^ 24 * 3600"

lemma unat_hoursSinceArbitrum:
  assumes "countable_time t"
  shows "unat (hoursSinceArbitrum t) = (unat t - 2) div 3600" and "unat (hoursSinceArbitrum t) \<le> MaxUint24"
proof -
  have "unat (t - 2) = unat t - 2"
    using assms by (subst unat_sub) (simp_all add: countable_time_def word_le_nat_alt)
  moreover have "(unat t - 2) div 3600 < 2 ^ 24" using assms unfolding countable_time_def by linarith
  ultimately show "unat (hoursSinceArbitrum t) = (unat t - 2) div 3600" "unat (hoursSinceArbitrum t) \<le> MaxUint24"
    by (simp_all add: hoursSinceArbitrum_def dp_lastUpdateTimeOffset_def unat_div unsigned_ucast_eq take_bit_nat_eq_self MaxUint24_def)
qed

text \<open>Whatever ends the computation with an activation has a property.\<close>

definition activates :: "(u16 \<Rightarrow> hash \<Rightarrow> hash \<Rightarrow> int \<Rightarrow> world \<Rightarrow> bool) \<Rightarrow> activation arb \<Rightarrow> bool" where
  "activates P m \<longleftrightarrow> (\<forall>w v h mh fee w'. m w = (Ok (Activated v h mh fee), w') \<longrightarrow> P v h mh fee w')"

lemma activates_tryM: "(\<And>w x w1. m w = (Ok x, w1) \<Longrightarrow> activates P (f x)) \<Longrightarrow> activates P (tryM b m f)"
  by (auto simp: activates_def tryM_def split: prod.splits res.splits)

lemma activates_bindM: "(\<And>x. activates P (f x)) \<Longrightarrow> activates P (bindM m f)"
  by (auto simp: activates_def ok_iffs)

lemma activates_if: "activates P m \<Longrightarrow> activates P n \<Longrightarrow> activates P (if c then m else n)"
  by simp

lemma activates_refused: "activates P (returnM (NotActivated b e))"
  by (simp add: activates_def returnM_def)

lemma activates_set:
  "(\<And>w w'. m w = (Ok (), w') \<Longrightarrow> P v h mh fee w') \<Longrightarrow> activates P (tryM b m (\<lambda>_. returnM (Activated v h mh fee)))"
  by (auto simp: activates_def tryM_def returnM_def split: prod.splits res.splits)

lemma estimate_bound:
  "bindM (liftR (DivCeil (x :: u32) 1024)) (\<lambda>kb. case IntToUint24 kb of (v, None) \<Rightarrow> returnM v | (v, Some e) \<Rightarrow> failM e) w = (Ok k, w1)
     \<Longrightarrow> unat k \<le> MaxUint24"
  by (auto simp: IntToUint24_def MaxUint24_def unat_ucast_bound returnM_def failM_def ok_iffs split: if_splits)

lemma ActivateProgram_sets:
  "activates (\<lambda>v h mh fee w'. \<exists>pg w1. setProgram K p h pg w1 = (Ok (), w') \<and> pg_version pg = v \<and>
     activatedAt pg = hoursSinceArbitrum time \<and> unat (asmEstimateKb pg) \<le> MaxUint24)
   (ActivateProgram K env p a time debug)"
  unfolding ActivateProgram_def Let_def
  apply (rule activates_bindM)
  apply (rule activates_if, rule activates_refused)
  apply (rule activates_tryM)
  apply (rule activates_tryM, clarify)
  apply (rule activates_if, rule activates_refused)
  apply (rule activates_set | rule activates_tryM)+
  apply (drule estimate_bound)
  apply (intro exI conjI, assumption)
  by simp_all

text \<open>
  C19. An activated program stays active for the expiry period, up to the hour its activation time is rounded down
  to, and expires with it: after an activation at a time that 24-bit hours can count, a lookup at a later time
  finds the program with the activated version while the period has at least an hour left, and fails with
  \<^verbatim>\<open>ProgramExpired\<close> once the period is over. The compiler, the caches and the contract's code are arbitrary.
\<close>

theorem activation_lifetime:
  assumes run: "ActivateProgram K env p a time debug w = (Ok (Activated v h mh fee), w')"
    and "countable_time time" and "sys w'" and "v \<noteq> 0" and "sp_Version params = v"
  shows "(unat t + 3599 \<le> unat time + 86400 * unat (ExpiryDays params) \<longrightarrow>
       (\<exists>pg. fst (getActiveProgram K p h t params w') = Ok pg \<and> pg_version pg = v \<and> activatedAt pg = hoursSinceArbitrum time)) \<and>
    (unat time + 86400 * unat (ExpiryDays params) < unat t \<longrightarrow>
       (\<exists>age. fst (getActiveProgram K p h t params w') = Err (ProgramExpiredError age)))"
proof -
  from ActivateProgram_sets [of K p time env a debug] run obtain pg w1 where set: "setProgram K p h pg w1 = (Ok (), w')"
    and pg: "pg_version pg = v" "activatedAt pg = hoursSinceArbitrum time" "unat (asmEstimateKb pg) \<le> MaxUint24"
    unfolding activates_def by blast
  note hours = unat_hoursSinceArbitrum [OF assms(2)]
  from set have "sdb w' (mapAddress K (ps_programs p) h) = left_word (program_bytes pg)"
    unfolding setProgram_def by (rule Set_OkD)
  moreover have "program_wf pg" using pg hours by (simp add: program_wf_def)
  ultimately have get: "getProgram K p h t w' = (Ok (pg\<lparr>ageSeconds := hoursToAge t (activatedAt pg)\<rparr>), charge StorageReadCost w')"
    using assms(3) by (intro getProgram_stored)
  have age: "hoursToAge t (hoursSinceArbitrum time) > DaysToSeconds (ExpiryDays params) \<longleftrightarrow>
      unat (ExpiryDays params) * 86400 < unat t - ((unat time - 2) div 3600 * 3600 + 2)"
    using hours by (simp add: word_less_nat_alt unat_DaysToSeconds unat_hoursToAge)
  have "(unat time - 2) div 3600 * 3600 + 2 \<le> unat time" "unat time \<le> (unat time - 2) div 3600 * 3600 + 3601"
    using assms(2) unfolding countable_time_def by linarith+
  then show ?thesis
    using assms(4,5) pg(1,2) by (auto simp: getActiveProgram_def get bindM_Ok age failM_def returnM_def)
qed

definition toy_env :: stylus_env where
  "toy_env = \<lparr>se_selfDestructed = (\<lambda>_. False), se_code = (\<lambda>_. Some [1, 2, 3]), se_stripPrefix = (\<lambda>bs. Ok (bs, 0)),
     se_decompress = (\<lambda>bs _ _. Ok bs),
     se_activate = (\<lambda>_ _ _ _ _. returnM \<lparr>ai_moduleHash = 77, ai_initGas = 10, ai_cachedInitGas = 5, ai_asmEstimate = 3000, ai_footprint = 2\<rparr>),
     se_pagesOpen = 0, se_cacheProgram = (\<lambda>_ _ _ w. w), se_evictProgram = (\<lambda>_ _ _ _ w. w)\<rparr>"

definition toy_params :: StylusParams where
  "toy_params = \<lparr>sp_backingStorage = Some (OpenCachedSubStorage toyK deepStorage paramsKey), sp_Version = 1, InkPrice = initialInkPrice,
     MaxStackDepth = initialStackDepth, FreePages = InitialFreePages, PageGas = InitialPageGas, PageRamp = initialPageRamp,
     PageLimit = initialPageLimit, MinInitGas = 72, MinCachedInitGas = 11,
     ExpiryDays = initialExpiryDays, KeepaliveDays = initialKeepaliveDays, BlockCacheSize = initialRecentCacheSize\<rparr>"

definition toy_programs_keys :: "(bytes \<times> hash) set" where
  "toy_programs_keys = uint_keys (OpenCachedSubStorage toyK deepStorage paramsKey) \<union>
     uint_keys (OpenCachedSubStorage toyK deepStorage dataPricerKey) \<union>
     {(storageKey (OpenSubStorage toyK deepStorage programDataKey), 0), (storageKey (OpenSubStorage toyK deepStorage moduleHashesKey), 0)}"

lemma toy_programs_free: "collision_free toyK toy_programs_keys"
proof (rule toyK_spaces)
  let ?ks = "map (\<lambda>key. storageKey (OpenSubStorage toyK deepStorage key)) [paramsKey, dataPricerKey, programDataKey, moduleHashesKey]"
  have keys: "?ks = map (\<lambda>i. i # map of_nat (rev [12..<42]) @ [1]) [0, 3, 1, 2]" by code_simp
  show "distinct (map (take 12) ?ks)" unfolding keys by code_simp
  show "length sk = 32" if "sk \<in> set ?ks" for sk using that unfolding keys by auto
  have "unat (UintToHash n) < 2 ^ 160" for n by (simp, rule less_trans [OF unat_u64_bound], simp)
  then show "sk \<in> set ?ks \<and> unat k < 2 ^ 160" if "(sk, k) \<in> toy_programs_keys" for sk k
    using that by (auto simp: toy_programs_keys_def uint_keys_def OpenCachedSubStorage_def OpenSubStorage_def)
qed

lemma toy_programs_slots:
  "NewSlot toyK (OpenCachedSubStorage toyK deepStorage dataPricerKey) i \<noteq> NewSlot toyK (OpenCachedSubStorage toyK deepStorage paramsKey) 0"
  "NewSlot toyK (OpenCachedSubStorage toyK deepStorage dataPricerKey) i \<noteq> mapAddress toyK (OpenSubStorage toyK deepStorage programDataKey) 0"
  "NewSlot toyK (OpenCachedSubStorage toyK deepStorage dataPricerKey) i \<noteq> mapAddress toyK (OpenSubStorage toyK deepStorage moduleHashesKey) 0"
  "NewSlot toyK (OpenCachedSubStorage toyK deepStorage paramsKey) 0 \<noteq> mapAddress toyK (OpenSubStorage toyK deepStorage programDataKey) 0"
  "NewSlot toyK (OpenCachedSubStorage toyK deepStorage dataPricerKey) i = NewSlot toyK (OpenCachedSubStorage toyK deepStorage dataPricerKey) j \<longleftrightarrow> i = j"
proof -
  let ?D = "OpenCachedSubStorage toyK deepStorage dataPricerKey" and ?P = "OpenCachedSubStorage toyK deepStorage paramsKey"
    and ?G = "OpenSubStorage toyK deepStorage programDataKey" and ?M = "OpenSubStorage toyK deepStorage moduleHashesKey"
  have ne: "storageKey ?D \<noteq> storageKey ?P" "storageKey ?D \<noteq> storageKey ?G" "storageKey ?D \<noteq> storageKey ?M" "storageKey ?P \<noteq> storageKey ?G"
    by code_simp+
  have sub: "uint_keys ?D \<subseteq> toy_programs_keys" "uint_keys ?P \<subseteq> toy_programs_keys"
    by (auto simp: toy_programs_keys_def)
  have "(storageKey ?P, UintToHash 0) \<in> uint_keys ?P" unfolding uint_keys_def by (intro SigmaI singletonI rangeI)
  then have mem: "(storageKey ?P, UintToHash 0) \<in> toy_programs_keys" "(storageKey ?G, 0) \<in> toy_programs_keys" "(storageKey ?M, 0) \<in> toy_programs_keys"
    unfolding toy_programs_keys_def by blast+
  note D = NewSlot_disjoint [OF toy_programs_free sub(1)]
  show "NewSlot toyK ?D i \<noteq> NewSlot toyK ?P 0" unfolding NewSlot_def [of _ ?P] by (rule D [OF mem(1) ne(1)])
  show "NewSlot toyK ?D i \<noteq> mapAddress toyK ?G 0" by (rule D [OF mem(2) ne(2)])
  show "NewSlot toyK ?D i \<noteq> mapAddress toyK ?M 0" by (rule D [OF mem(3) ne(3)])
  show "NewSlot toyK ?P 0 \<noteq> mapAddress toyK ?G 0" by (rule NewSlot_disjoint [OF toy_programs_free sub(2) mem(2) ne(4)])
  show "NewSlot toyK ?D i = NewSlot toyK ?D j \<longleftrightarrow> i = j" by (rule NewSlot_inject [OF toy_programs_free sub(1)])
qed

text \<open>A world with the parameters and the inertia of the data pricer in place.\<close>

definition toy_programs_world :: world where
  "toy_programs_world =
     upd (NewSlot toyK (OpenCachedSubStorage toyK deepStorage dataPricerKey) 4) 21360419
       (upd (NewSlot toyK (OpenCachedSubStorage toyK deepStorage paramsKey) 0) (left_word (params_bytes toy_params)) blank)"

lemma toy_Params: "Params toyK (Programs_Open toyK deepStorage) toy_programs_world = (Ok toy_params, charge WarmStorageReadCostEIP2929 toy_programs_world)"
  unfolding Params_def
  by (rule Params_at_run)
    (simp_all add: toy_programs_world_def Programs_Open_def toy_params_def params_wf_def initialInkPrice_def MaxUint24_def
      toy_programs_slots(1) [symmetric])

lemma idle_exponent:
  "sdivR (OneInBips * ucast (3000 :: u32)) (ucast (21360419 :: u32)) = Ok 1"
  by (simp add: sdivR_def OneInBips_def sdivw_def tdiv_def)

lemma idle_multiplier: "\<exists>q. ApproxExpBasisPoints 1 12 = Ok q"
  using ApproxExpBasisPoints_nonneg [of 1 12] by auto

lemma Uint32_Get_run:
  "sys w \<Longrightarrow> unat (sdb w a) < 2 ^ 32 \<Longrightarrow> StorageBackedUint32_Get a w = (Ok (ucast (sdb w a)), charge StorageReadCost w)"
  by (simp add: StorageBackedUint32_Get_def run_simps word_less_nat_alt unsigned_ucast_eq take_bit_nat_eq_self take_bit_word_eq_self)

lemma UpdateModel_idle:
  assumes "sys w" and z: "sdb w (dp_demand p) = 0" "sdb w (dp_bytesPerSecond p) = 0" "sdb w (dp_lastUpdateTime p) = 0"
    "sdb w (dp_minPrice p) = 0" "sdb w (dp_inertia p) = 21360419"
  shows "\<exists>fee w'. UpdateModel p 3000 time w = (Ok fee, w') \<and> sys w'"
proof -
  have s: "SaturatingUAdd (SaturatingUSub 0 c) 3000 = (3000 :: u32)" for c
    by (simp add: SaturatingUSub_def SaturatingUAdd_def)
  obtain q where q: "ApproxExpBasisPoints 1 12 = Ok q" using idle_multiplier ..
  have u: "u64_slot w (dp_lastUpdateTime p)" "u64_at w (dp_lastUpdateTime p) = 0" by (simp_all add: u64_slot_def u64_at_def z)
  show ?thesis
    using assms(1) idle_exponent
    by (simp add: UpdateModel_def StorageBackedUint32_Set_def orM_def bindM_def Uint32_Get_run run_simps z u s q Let_def liftR_def)
qed

definition toy_entry :: Program where
  "toy_entry = \<lparr>pg_version = 0, initGas = 0, cachedInitGas = 0, footprint = 0, asmEstimateKb = 0, activatedAt = 0, ageSeconds = 0, cached = False\<rparr>"

lemma toy_activation:
  "\<exists>fee w'. ActivateProgram toyK toy_env (Programs_Open toyK deepStorage) 5 1730000000 False toy_programs_world =
     (Ok (Activated 1 0 77 fee), w') \<and> sys w'"
proof -
  let ?p = "Programs_Open toyK deepStorage" and ?w = "charge WarmStorageReadCostEIP2929 toy_programs_world"
  let ?M = "mapAddress toyK (OpenSubStorage toyK deepStorage moduleHashesKey) 0"
  let ?v = "upd ?M 77 (charge (writeCost 77) (charge StorageReadCost ?w))"
  have w: "sys ?w" "w_codeHash toy_programs_world 5 = 0" by (simp_all add: toy_programs_world_def) (simp add: blank_def)
  have "left_word (program_bytes toy_entry) = 0" by code_simp
  then have "sdb ?w (mapAddress toyK (ps_programs ?p) 0) = left_word (program_bytes toy_entry)"
    by (simp add: toy_programs_world_def Programs_Open_def toy_programs_slots(2,4) [symmetric])
  moreover have "program_wf toy_entry" by (simp add: toy_entry_def program_wf_def)
  ultimately have get: "getProgram toyK ?p 0 t ?w = (Ok (toy_entry\<lparr>ageSeconds := hoursToAge t 0\<rparr>), charge StorageReadCost ?w)" for t
    using w(1) by (subst getProgram_stored [of _ toy_entry]) (simp_all add: toy_entry_def)
  have "\<exists>fee w'. UpdateModel (ps_dataPricer ?p) 3000 t ?v = (Ok fee, w') \<and> sys w'" for t
    by (rule UpdateModel_idle)
      (use w(1) toy_programs_slots in \<open>simp_all add: toy_programs_world_def Programs_Open_def openDataPricer_def demandOffset_def
        bytesPerSecondOffset_def dp_lastUpdateTimeOffset_def minPriceOffset_def dp_inertiaOffset_def\<close>)
  then obtain fee w' where up: "UpdateModel (ps_dataPricer ?p) 3000 1730000000 ?v = (Ok fee, w')" "sys w'" by blast
  have kb: "DivCeil (3000 :: u32) 1024 = Ok 3" by code_simp
  have sel: "ps_moduleHashes ?p = OpenSubStorage toyK deepStorage moduleHashesKey" by (simp add: Programs_Open_def)
  have tryM_Ok: "tryM b m f s = f x s'" if "m s = (Ok x, s')" for b m f s s' and x :: 'x using that by (simp add: tryM_def)
  have "programExists toyK ?p 0 1730000000 toy_params ?w = (Ok (0, True, False), charge StorageReadCost ?w)"
    by (simp add: programExists_def bindM_Ok get toy_entry_def returnM_def)
  moreover have "sp_Version toy_params = 1" by (simp add: toy_params_def)
  moreover have "getWasm toy_env 5 = Ok [1, 2, 3]" by (simp add: getWasm_def toy_env_def bindR_def)
  ultimately show ?thesis
    using w up
    by (simp add: ActivateProgram_def bindM_def tryM_Ok toy_Params returnM_def toy_env_def liftR_def Set_run kb sel
      IntToUint24_def MaxUint24_def setProgram_def Let_def)
qed

theorem activation_lifetime_witness:
  "\<exists>w'. sys w' \<and> (\<exists>pg. fst (getActiveProgram toyK (Programs_Open toyK deepStorage) 0 1730000060 toy_params w') = Ok pg \<and> pg_version pg = 1) \<and>
     (\<exists>age. fst (getActiveProgram toyK (Programs_Open toyK deepStorage) 0 1830000000 toy_params w') = Err (ProgramExpiredError age))"
proof -
  from toy_activation obtain fee w' where
    run: "ActivateProgram toyK toy_env (Programs_Open toyK deepStorage) 5 1730000000 False toy_programs_world = (Ok (Activated 1 0 77 fee), w')"
    and w': "sys w'" by blast
  have c: "countable_time 1730000000" by (simp add: countable_time_def)
  have v: "(1 :: u16) \<noteq> 0" "sp_Version toy_params = 1" "unat (ExpiryDays toy_params) = 365"
    by (simp_all add: toy_params_def initialExpiryDays_def)
  note A = activation_lifetime [OF run c w' v(1,2)]
  from A [of 1730000060] A [of 1830000000] w' show ?thesis unfolding v(3) by auto
qed

end
