(* ===== verification/ZeroHeavy.thy ===== *)
theory ZeroHeavy
  imports ArbosUtil
begin

text \<open>
  \<^verbatim>\<open>zeroheavy/zeroheavy.go\<close>: a code that turns data with many one bits into data with many zero bytes. The
  encoder reads its input bit by bit and maps prefix-free patterns of bits to bytes; the decoder maps each byte
  back to its pattern and drops the padding. Both are readers over a reader, here over a byte string, whose only
  error is the end of the input.
\<close>

unbundle bit_operations_syntax

section \<open>The encoder\<close>

record ZeroheavyEncoder =
  enc_inner :: bytes
  enc_buffer :: u8
  bitsReadFromBuffer :: u8
  nowInPadding :: bool
  atEof :: bool

definition NewZeroheavyEncoder :: "bytes \<Rightarrow> ZeroheavyEncoder" where
  "NewZeroheavyEncoder inner =
     \<lparr>enc_inner = inner, enc_buffer = 0, bitsReadFromBuffer = 8, nowInPadding = False, atEof = False\<rparr>"

definition buffered_bit :: "ZeroheavyEncoder \<Rightarrow> bool \<times> ZeroheavyEncoder" where
  "buffered_bit e =
     (enc_buffer e AND push_bit (unat (7 - bitsReadFromBuffer e)) 1 \<noteq> 0,
      e\<lparr>bitsReadFromBuffer := bitsReadFromBuffer e + 1\<rparr>)"

definition nextInputBit :: "ZeroheavyEncoder \<Rightarrow> bool \<times> ZeroheavyEncoder" where
  "nextInputBit e =
     (if nowInPadding e then (True, e)
      else if bitsReadFromBuffer e = 8 then
        (case enc_inner e of
           [] \<Rightarrow> (False, e\<lparr>nowInPadding := True\<rparr>)
         | b # rest \<Rightarrow> buffered_bit (e\<lparr>enc_inner := rest, bitsReadFromBuffer := 0, enc_buffer := b\<rparr>))
      else buffered_bit e)"

text \<open>The loops that shift a number of bits into the result.\<close>

primrec shiftIn :: "nat \<Rightarrow> u8 \<Rightarrow> ZeroheavyEncoder \<Rightarrow> u8 \<times> ZeroheavyEncoder" where
  "shiftIn 0 ret e = (ret, e)"
| "shiftIn (Suc n) ret e =
     (case nextInputBit e of (nextBit, e') \<Rightarrow>
       shiftIn n (if nextBit then push_bit 1 ret + 1 else push_bit 1 ret) e')"

definition readOneImpl :: "ZeroheavyEncoder \<Rightarrow> u8 \<times> ZeroheavyEncoder" where
  "readOneImpl e =
     (case nextInputBit e of (firstBit, e1) \<Rightarrow>
       if \<not> firstBit then
         (case nextInputBit e1 of (secondBit, e2) \<Rightarrow>
           if \<not> secondBit then (0, e2)
           else (case shiftIn 6 1 e2 of (ret, e3) \<Rightarrow>
             if ret = 64 then (1, e3)
             else (case nextInputBit e3 of (nextBit, e4) \<Rightarrow>
               let ret' = push_bit 1 ret AND 0x7f in (if nextBit then ret' + 1 else ret', e4))))
       else shiftIn 7 1 e1)"

definition Encoder_readOne :: "(ZeroheavyEncoder, u8) call" where
  "Encoder_readOne e =
     (if atEof e then (Err ErrEOF, e)
      else (case readOneImpl e of (b, e') \<Rightarrow>
        (Ok b, if nowInPadding e' then e'\<lparr>atEof := True\<rparr> else e')))"

text \<open>A \<^verbatim>\<open>Read\<close> into a slice of a given length: the bytes written and the error, if any.\<close>

primrec read_into :: "('s, u8) call \<Rightarrow> nat \<Rightarrow> 's \<Rightarrow> (bytes \<times> go_error option) res \<times> 's" where
  "read_into one 0 s = (Ok ([], None), s)"
| "read_into one (Suc n) s =
     (case one s of
        (Ok b, s') \<Rightarrow>
          (case read_into one n s' of
             (Ok (bs, err), s'') \<Rightarrow> (Ok (b # bs, err), s'')
           | (Err e, s'') \<Rightarrow> (Err e, s'')
           | (Panic, s'') \<Rightarrow> (Panic, s''))
      | (Err e, s') \<Rightarrow> (Ok ([], Some e), s')
      | (Panic, s') \<Rightarrow> (Panic, s'))"

definition Encoder_Read :: "nat \<Rightarrow> ZeroheavyEncoder \<Rightarrow> (bytes \<times> go_error option) res \<times> ZeroheavyEncoder" where
  "Encoder_Read n = read_into Encoder_readOne n"

section \<open>The decoder\<close>

record ZeroheavyDecoder =
  dec_source :: bytes
  dec_buffer :: "bool list"
  eofAfterBuffer :: bool
  deferredZero :: bool
  numDeferredOnes :: nat

definition NewZeroheavyDecoder :: "bytes \<Rightarrow> ZeroheavyDecoder" where
  "NewZeroheavyDecoder source =
     \<lparr>dec_source = source, dec_buffer = [], eofAfterBuffer = False, deferredZero = False, numDeferredOnes = 0\<rparr>"

definition pushBit :: "bool \<Rightarrow> ZeroheavyDecoder \<Rightarrow> ZeroheavyDecoder" where
  "pushBit b br =
     (if deferredZero br then
        (if b then br\<lparr>numDeferredOnes := numDeferredOnes br + 1\<rparr>
         else br\<lparr>dec_buffer := dec_buffer br @ False # replicate (numDeferredOnes br) True, numDeferredOnes := 0\<rparr>)
      else if b then br\<lparr>dec_buffer := dec_buffer br @ [True]\<rparr>
      else br\<lparr>deferredZero := True\<rparr>)"

definition push7Bits :: "u8 \<Rightarrow> ZeroheavyDecoder \<Rightarrow> ZeroheavyDecoder" where
  "push7Bits b br = fold (\<lambda>i. pushBit (b AND push_bit (6 - i) 1 \<noteq> 0)) [0..<7] br"

definition refill :: "ZeroheavyDecoder \<Rightarrow> bool \<times> ZeroheavyDecoder" where
  "refill br =
     (case dec_source br of
        [] \<Rightarrow> (True, br)
      | b # rest \<Rightarrow>
          let br = br\<lparr>dec_source := rest\<rparr> in
          (False,
           if b = 0 then pushBit False (pushBit False br)
           else if b = 1 then (pushBit False ^^ 6) (pushBit True (pushBit False br))
           else if b < 0x80 then push7Bits b (pushBit True (pushBit False br))
           else push7Bits (b AND 0x7f) (pushBit True br)))"

lemma dec_source_push [simp]:
  "dec_source (pushBit b br) = dec_source br" "dec_source ((pushBit b ^^ n) br) = dec_source br"
  "dec_source (push7Bits v br) = dec_source br"
proof -
  show *: "dec_source (pushBit b br) = dec_source br" for b br by (simp add: pushBit_def)
  show "dec_source ((pushBit b ^^ n) br) = dec_source br" by (induction n) (simp_all add: *)
  have "dec_source (fold (\<lambda>i. pushBit (f i)) is br) = dec_source br" for f "is" by (induction "is" arbitrary: br) (simp_all add: *)
  then show "dec_source (push7Bits v br) = dec_source br" by (simp add: push7Bits_def)
qed

lemma refill_source: "refill br = (eof, br') \<Longrightarrow> if eof then dec_source br = [] \<and> br' = br else Suc (length (dec_source br')) = length (dec_source br)"
  by (auto simp: refill_def Let_def split: list.splits if_splits)

function nextBit :: "(ZeroheavyDecoder, bool) call" where
  "nextBit br =
     (case dec_buffer br of
        b # rest \<Rightarrow> (Ok b, br\<lparr>dec_buffer := rest\<rparr>)
      | [] \<Rightarrow>
          if eofAfterBuffer br then (Err ErrEOF, br)
          else (case refill br of (eof, br') \<Rightarrow> nextBit (br'\<lparr>eofAfterBuffer := eof\<rparr>)))"
  by pat_completeness auto
termination
  by (relation "measure (\<lambda>br. length (dec_source br) + (if eofAfterBuffer br then 0 else 1))")
    (auto dest!: refill_source [OF sym] split: if_splits)

declare nextBit.simps [simp del]

primrec readBits :: "nat \<Rightarrow> u8 \<Rightarrow> (ZeroheavyDecoder, u8) call" where
  "readBits 0 ret = returnM ret"
| "readBits (Suc n) ret =
     bindM nextBit (\<lambda>b. readBits n (if b then push_bit 1 ret OR 1 else push_bit 1 ret))"

definition Decoder_readOne :: "(ZeroheavyDecoder, u8) call" where
  "Decoder_readOne = readBits 8 0"

definition Decoder_Read :: "nat \<Rightarrow> ZeroheavyDecoder \<Rightarrow> (bytes \<times> go_error option) res \<times> ZeroheavyDecoder" where
  "Decoder_Read n = read_into Decoder_readOne n"

text \<open>\<^verbatim>\<open>io.ReadAll\<close>: reads until the end of the input; it may not end on a reader without end.\<close>

partial_function (option) read_all :: "('s, u8) call \<Rightarrow> 's \<Rightarrow> bytes res option" where
  "read_all one s =
     (case one s of
        (Ok b, s') \<Rightarrow>
          Option.bind (read_all one s') (\<lambda>r. Some (case r of Ok bs \<Rightarrow> Ok (b # bs) | Err e \<Rightarrow> Err e | Panic \<Rightarrow> Panic))
      | (Err e, s') \<Rightarrow> Some (if e = ErrEOF then Ok [] else Err e)
      | (Panic, s') \<Rightarrow> Some Panic)"

section \<open>Bits and patterns\<close>

definition bits8 :: "u8 \<Rightarrow> bool list" where
  "bits8 b = map (\<lambda>i. bit b (7 - i)) [0..<8]"

definition bits7 :: "u8 \<Rightarrow> bool list" where
  "bits7 b = map (\<lambda>i. bit b (6 - i)) [0..<7]"

text \<open>The bits a byte of the code stands for.\<close>

definition pattern :: "u8 \<Rightarrow> bool list" where
  "pattern z =
     (if z = 0 then [False, False]
      else if z = 1 then False # True # replicate 6 False
      else if z < 0x80 then False # True # bits7 z
      else True # bits7 (z AND 0x7f))"

definition shift_bit :: "bool \<Rightarrow> u8 \<Rightarrow> u8" where
  "shift_bit b r = (if b then push_bit 1 r + 1 else push_bit 1 r)"

lemma and_push_bit_neq_0: "(b :: u8) AND push_bit n 1 \<noteq> 0 \<longleftrightarrow> bit b n"
proof -
  have "x \<noteq> 0 \<longleftrightarrow> (\<exists>k. bit x k)" for x :: u8
    by (auto simp: bit_word_eqI intro: bit_word_eqI)
  then show ?thesis by (auto simp: bit_and_iff bit_exp_iff dest: bit_imp_possible_bit)
qed

lemma all_bits: "(\<forall>xs. length xs = n \<longrightarrow> P xs) \<longleftrightarrow> list_all P (List.n_lists n [False, True])"
  by (auto simp: list_all_iff set_n_lists)

lemma pattern_high: "length bs = 7 \<Longrightarrow> pattern (fold shift_bit bs 1) = True # bs"
proof -
  have "\<forall>bs. length bs = 7 \<longrightarrow> pattern (fold shift_bit bs 1) = True # bs"
    unfolding all_bits by code_simp
  then show "length bs = 7 \<Longrightarrow> ?thesis" by blast
qed

lemma pattern_low:
  assumes "length bs = 6"
  shows "if fold shift_bit bs 1 = 64 then pattern 1 = False # True # bs
    else pattern (shift_bit b (fold shift_bit bs 1) AND 0x7f) = False # True # bs @ [b]"
proof -
  have "\<forall>bs. length bs = 6 \<longrightarrow> (\<forall>b \<in> set [False, True]. if fold shift_bit bs 1 = 64 then pattern 1 = False # True # bs
      else pattern (shift_bit b (fold shift_bit bs 1) AND 0x7f) = False # True # bs @ [b])"
    unfolding all_bits by code_simp
  then show ?thesis using assms by (cases b) auto
qed

lemma shift_low: "shift_bit b r AND 0x7f = (let r' = push_bit 1 r AND 0x7f in if b then r' + 1 else r')"
proof -
  have "\<forall>r \<in> set (map word_of_nat [0..<256]). \<forall>b \<in> set [False, True]. shift_bit b r AND 0x7f = (let r' = push_bit 1 r AND 0x7f in if b then r' + 1 else r')"
    by code_simp
  moreover have "r \<in> set (map word_of_nat [0..<256])" by (auto simp: image_iff intro!: bexI [of _ "unat r"])
  ultimately show ?thesis by (cases b) auto
qed

lemma bits8_shift: "fold (\<lambda>b r. if b then push_bit 1 r OR 1 else push_bit 1 r) (bits8 v) 0 = v"
proof -
  have "\<forall>v \<in> set (map word_of_nat [0..<256]). fold (\<lambda>b (r :: u8). if b then push_bit 1 r OR 1 else push_bit 1 r) (bits8 v) 0 = v"
    by code_simp
  moreover have "v \<in> set (map word_of_nat [0..<256])" by (auto simp: image_iff intro!: bexI [of _ "unat v"])
  ultimately show ?thesis by blast
qed

section \<open>The encoder reads the bits of its input and then padding\<close>

text \<open>The bits left of the input, or \<open>None\<close> in the padding.\<close>

primrec next_bit :: "bool list option \<Rightarrow> bool \<times> bool list option" where
  "next_bit None = (True, None)"
| "next_bit (Some xs) = (case xs of [] \<Rightarrow> (False, None) | x # ys \<Rightarrow> (x, Some ys))"

primrec next_bits :: "nat \<Rightarrow> bool list option \<Rightarrow> bool list \<times> bool list option" where
  "next_bits 0 st = ([], st)"
| "next_bits (Suc n) st = (case next_bit st of (b, st') \<Rightarrow> case next_bits n st' of (bs, st'') \<Rightarrow> (b # bs, st''))"

lemma length_next_bits: "length (fst (next_bits n st)) = n"
  by (induction n arbitrary: st) (simp_all split: prod.splits, metis fst_conv)

lemma next_bits_add:
  "next_bits (m + n) st = (case next_bits m st of (xs, st') \<Rightarrow> case next_bits n st' of (ys, st'') \<Rightarrow> (xs @ ys, st''))"
  by (induction m arbitrary: st) (simp_all split: prod.splits)

lemma next_bits_None: "next_bits n None = (replicate n True, None)"
  by (induction n) simp_all

lemma next_bits_Some:
  "next_bits n (Some xs) =
     (if n \<le> length xs then (take n xs, Some (drop n xs)) else (xs @ False # replicate (n - length xs - 1) True, None))"
proof (induction n arbitrary: xs)
  case (Suc n)
  then show ?case by (cases xs) (auto simp: next_bits_None)
qed simp

definition enc_bits :: "ZeroheavyEncoder \<Rightarrow> bool list option" where
  "enc_bits e = (if nowInPadding e then None
     else Some (drop (unat (bitsReadFromBuffer e)) (bits8 (enc_buffer e)) @ concat (map bits8 (enc_inner e))))"

definition enc_ok :: "ZeroheavyEncoder \<Rightarrow> bool" where
  "enc_ok e \<longleftrightarrow> unat (bitsReadFromBuffer e) \<le> 8"

lemma length_bits8 [simp]: "length (bits8 b) = 8"
  by (simp add: bits8_def)

lemma buffered_bit_step:
  assumes "unat (bitsReadFromBuffer e) < 8" and "\<not> nowInPadding e"
  shows "case buffered_bit e of (b, e') \<Rightarrow> enc_ok e' \<and> atEof e' = atEof e \<and> next_bit (enc_bits e) = (b, enc_bits e')"
proof -
  let ?k = "unat (bitsReadFromBuffer e)"
  have k: "unat (bitsReadFromBuffer e + 1) = Suc ?k" using assms(1) by (simp add: unat_plus_mod)
  have "unat (7 - bitsReadFromBuffer e) = 7 - ?k"
    using assms(1) by (subst unat_sub) (simp_all add: word_le_nat_alt)
  then have b: "fst (buffered_bit e) = bits8 (enc_buffer e) ! ?k"
    using assms(1) by (simp add: buffered_bit_def and_push_bit_neq_0 bits8_def del: push_bit_of_1)
  have "drop ?k (bits8 (enc_buffer e)) = bits8 (enc_buffer e) ! ?k # drop (Suc ?k) (bits8 (enc_buffer e))"
    using assms(1) by (simp add: Cons_nth_drop_Suc)
  then show ?thesis
    using assms b by (auto simp: buffered_bit_def enc_ok_def enc_bits_def k)
qed

lemma nextInputBit_step:
  assumes "enc_ok e"
  shows "case nextInputBit e of (b, e') \<Rightarrow> enc_ok e' \<and> atEof e' = atEof e \<and> next_bit (enc_bits e) = (b, enc_bits e')"
proof (cases "nowInPadding e")
  case True
  then show ?thesis using assms by (simp add: nextInputBit_def enc_bits_def)
next
  case pad: False
  show ?thesis
  proof (cases "bitsReadFromBuffer e = 8")
    case False
    then have "unat (bitsReadFromBuffer e) \<noteq> 8" by (simp add: word_eq_unat)
    with assms have "unat (bitsReadFromBuffer e) < 8" by (simp add: enc_ok_def)
    from buffered_bit_step [OF this pad] False pad show ?thesis by (simp add: nextInputBit_def)
  next
    case True
    show ?thesis
    proof (cases "enc_inner e")
      case Nil
      with True pad show ?thesis by (simp add: nextInputBit_def enc_bits_def enc_ok_def)
    next
      case (Cons b rest)
      let ?e = "e\<lparr>enc_inner := rest, bitsReadFromBuffer := 0, enc_buffer := b\<rparr>"
      have "enc_bits ?e = enc_bits e" using Cons True pad by (simp add: enc_bits_def)
      with buffered_bit_step [of ?e] Cons True pad show ?thesis by (simp add: nextInputBit_def)
    qed
  qed
qed

lemma shiftIn_step:
  assumes "enc_ok e"
  shows "case shiftIn n ret e of (ret', e') \<Rightarrow> enc_ok e' \<and> atEof e' = atEof e \<and>
    (\<exists>bs. next_bits n (enc_bits e) = (bs, enc_bits e') \<and> ret' = fold shift_bit bs ret)"
  using assms
proof (induction n arbitrary: ret e)
  case (Suc n)
  obtain b e1 where b: "nextInputBit e = (b, e1)" by force
  with nextInputBit_step [OF Suc.prems] have e1: "enc_ok e1" "atEof e1 = atEof e" "next_bit (enc_bits e) = (b, enc_bits e1)" by auto
  from Suc.IH [OF e1(1), of "shift_bit b ret"] e1 b show ?case
    by (auto simp: shift_bit_def split: prod.splits)
qed simp

lemma readOneImpl_step:
  assumes "enc_ok e" and "readOneImpl e = (z, e')"
  shows "enc_ok e' \<and> atEof e' = atEof e \<and> (\<exists>n. 0 < n \<and> next_bits n (enc_bits e) = (pattern z, enc_bits e'))"
proof -
  obtain b1 e1 where b1: "nextInputBit e = (b1, e1)" by force
  with nextInputBit_step [OF assms(1)] have e1: "enc_ok e1" "atEof e1 = atEof e" "next_bit (enc_bits e) = (b1, enc_bits e1)" by auto
  show ?thesis
  proof (cases b1)
    case True
    with assms(2) b1 have "shiftIn 7 1 e1 = (z, e')" by (simp add: readOneImpl_def)
    with shiftIn_step [OF e1(1), of 7 1] obtain bs where bs: "enc_ok e'" "atEof e' = atEof e1"
      "next_bits 7 (enc_bits e1) = (bs, enc_bits e')" "z = fold shift_bit bs 1" by auto
    have "length bs = 7" using length_next_bits [of 7 "enc_bits e1"] bs(3) by simp
    then have "pattern z = True # bs" unfolding bs(4) by (rule pattern_high)
    moreover have "next_bits (Suc 7) (enc_bits e) = (True # bs, enc_bits e')"
      using True e1(3) bs(3) by (simp only: next_bits.simps prod.case)
    ultimately show ?thesis using bs e1(2) by (metis zero_less_Suc)
  next
    case b1F: False
    obtain b2 e2 where b2: "nextInputBit e1 = (b2, e2)" by force
    with nextInputBit_step [OF e1(1)] have e2: "enc_ok e2" "atEof e2 = atEof e1" "next_bit (enc_bits e1) = (b2, enc_bits e2)" by auto
    show ?thesis
    proof (cases b2)
      case False
      with assms(2) b1 b1F b2 have "z = 0" "e' = e2" by (simp_all add: readOneImpl_def)
      moreover have "next_bits 2 (enc_bits e) = ([False, False], enc_bits e2)"
        using e1(3) e2(3) False b1F by (simp add: numeral_2_eq_2)
      ultimately show ?thesis using e1(2) e2 by (intro conjI exI [of _ 2]) (simp_all add: pattern_def)
    next
      case b2T: True
      obtain ret e3 where r: "shiftIn 6 1 e2 = (ret, e3)" by force
      with shiftIn_step [OF e2(1), of 6 1] obtain bs where bs: "enc_ok e3" "atEof e3 = atEof e2"
        "next_bits 6 (enc_bits e2) = (bs, enc_bits e3)" "ret = fold shift_bit bs 1" by auto
      have l: "length bs = 6" using length_next_bits [of 6 "enc_bits e2"] bs(3) by simp
      have n8: "next_bits (Suc (Suc 6)) (enc_bits e) = (False # True # bs, enc_bits e3)"
        using b1F b2T e1(3) e2(3) bs(3) by (simp only: next_bits.simps prod.case)
      obtain b e4 where b: "nextInputBit e3 = (b, e4)" by force
      with nextInputBit_step [OF bs(1)] have e4: "enc_ok e4" "atEof e4 = atEof e3" "next_bit (enc_bits e3) = (b, enc_bits e4)" by auto
      show ?thesis
      proof (cases "ret = 64")
        case True
        with assms(2) b1 b1F b2 b2T r have "z = 1" "e' = e3" by (simp_all add: readOneImpl_def)
        moreover have "pattern 1 = False # True # bs" using pattern_low [OF l] True bs(4) by simp
        ultimately show ?thesis using n8 bs e1(2) e2(2) by (metis zero_less_Suc)
      next
        case False
        with assms(2) b1 b1F b2 b2T r b have "z = shift_bit b ret AND 0x7f" "e' = e4"
          by (simp_all add: readOneImpl_def shift_low Let_def)
        moreover have "pattern (shift_bit b ret AND 0x7f) = False # True # bs @ [b]" using pattern_low [OF l, of b] False bs(4) by simp
        moreover have "next_bits (Suc (Suc 6) + 1) (enc_bits e) = (False # True # bs @ [b], enc_bits e4)"
          unfolding next_bits_add n8 using e4(3) by simp
        ultimately show ?thesis using e1(2) e2(2) bs(2) e4(1,2) by (intro conjI exI [of _ "Suc (Suc 6) + 1"]) simp_all
      qed
    qed
  qed
qed

text \<open>What an encoder reads to the end of its output are the bits left, a zero and ones.\<close>

lemma read_all_encoder:
  assumes "enc_ok e" and "\<not> atEof e" and "enc_bits e = Some xs"
  shows "\<exists>zs j. read_all Encoder_readOne e = Some (Ok zs) \<and> concat (map pattern zs) = xs @ False # replicate j True"
  using assms
proof (induction "length xs" arbitrary: xs e rule: less_induct)
  case less
  obtain z e' where z: "readOneImpl e = (z, e')" by force
  from readOneImpl_step [OF less.prems(1) z] less.prems(2,3) obtain n where e': "enc_ok e'" "\<not> atEof e'" "0 < n"
    "next_bits n (Some xs) = (pattern z, enc_bits e')" by auto
  show ?case
  proof (cases "n \<le> length xs")
    case True
    with e'(4) have p: "pattern z = take n xs" and b: "enc_bits e' = Some (drop n xs)" by (auto simp: next_bits_Some)
    then have "\<not> nowInPadding e'" by (auto simp: enc_bits_def split: if_splits)
    then have one: "Encoder_readOne e = (Ok z, e')" using less.prems(2) z by (simp add: Encoder_readOne_def)
    have "length (drop n xs) < length xs" using e'(3) True by simp
    from less.hyps [OF this e'(1,2) b] obtain zs j where "read_all Encoder_readOne e' = Some (Ok zs)"
      "concat (map pattern zs) = drop n xs @ False # replicate j True" by blast
    then have "read_all Encoder_readOne e = Some (Ok (z # zs))" "concat (map pattern (z # zs)) = xs @ False # replicate j True"
      using p by (simp_all add: read_all.simps [of _ e] one) 
    then show ?thesis by blast
  next
    case False
    with e'(4) have p: "pattern z = xs @ False # replicate (n - length xs - 1) True" and b: "enc_bits e' = None" by (auto simp: next_bits_Some)
    then have "nowInPadding e'" by (auto simp: enc_bits_def split: if_splits)
    then have one: "Encoder_readOne e = (Ok z, e'\<lparr>atEof := True\<rparr>)" using less.prems(2) z by (simp add: Encoder_readOne_def)
    have "read_all Encoder_readOne (e'\<lparr>atEof := True\<rparr>) = Some (Ok [])"
      by (subst read_all.simps) (simp add: Encoder_readOne_def)
    then have "read_all Encoder_readOne e = Some (Ok [z])" by (subst read_all.simps) (simp add: one)
    with p show ?thesis by (intro exI [of _ "[z]"] exI [of _ "n - length xs - 1"]) simp
  qed
qed

section \<open>The decoder drops the last zero and the ones after it\<close>

text \<open>The bits pushed so far that were not taken out, the deferred ones included.\<close>

definition pushed :: "ZeroheavyDecoder \<Rightarrow> bool list" where
  "pushed br = dec_buffer br @ (if deferredZero br then False # replicate (numDeferredOnes br) True else [])"

definition dec_ok :: "ZeroheavyDecoder \<Rightarrow> bool" where
  "dec_ok br \<longleftrightarrow> (\<not> deferredZero br \<longrightarrow> numDeferredOnes br = 0 \<and> False \<notin> set (dec_buffer br)) \<and> (eofAfterBuffer br \<longrightarrow> dec_source br = [])"

lemma pushBit_pushed:
  assumes "dec_ok br"
  shows "dec_ok (pushBit b br)" and "pushed (pushBit b br) = pushed br @ [b]"
  using assms by (auto simp: dec_ok_def pushBit_def pushed_def replicate_append_same)

lemma fold_pushBit:
  assumes "dec_ok br"
  shows "dec_ok (fold (\<lambda>i. pushBit (f i)) is br) \<and> pushed (fold (\<lambda>i. pushBit (f i)) is br) = pushed br @ map f is"
  using assms by (induction "is" arbitrary: br) (simp_all add: pushBit_pushed)

lemma push7Bits_pushed:
  assumes "dec_ok br"
  shows "dec_ok (push7Bits v br)" and "pushed (push7Bits v br) = pushed br @ bits7 v"
proof -
  have "map (\<lambda>i. v AND push_bit (6 - i) 1 \<noteq> 0) [0..<7] = bits7 v"
    unfolding bits7_def and_push_bit_neq_0 ..
  then show "dec_ok (push7Bits v br)" "pushed (push7Bits v br) = pushed br @ bits7 v"
    using fold_pushBit [OF assms, of "\<lambda>i. v AND push_bit (6 - i) 1 \<noteq> 0" "[0..<7]"] unfolding push7Bits_def by simp_all
qed

lemma pow_pushBit:
  assumes "dec_ok br"
  shows "dec_ok ((pushBit b ^^ n) br) \<and> pushed ((pushBit b ^^ n) br) = pushed br @ replicate n b"
  using assms by (induction n) (simp_all add: pushBit_pushed replicate_append_same)

text \<open>Every bit the decoder is still to push, in order.\<close>

definition upcoming :: "ZeroheavyDecoder \<Rightarrow> bool list" where
  "upcoming br = pushed br @ concat (map pattern (dec_source br))"

lemma refill_step:
  assumes "dec_ok br" and "dec_source br = z # rest" and "refill br = (eof, br')"
  shows "\<not> eof \<and> dec_ok br' \<and> upcoming br' = upcoming br \<and> dec_source br' = rest"
proof -
  let ?b = "br\<lparr>dec_source := rest\<rparr>"
  have ok: "dec_ok ?b" and p: "pushed ?b = pushed br" using assms(1,2) by (auto simp: dec_ok_def pushed_def)
  note push = pushBit_pushed push7Bits_pushed pow_pushBit ok
  from assms(2,3) show ?thesis
    by (auto simp: refill_def Let_def push upcoming_def pattern_def p)
qed

lemma only_last_zero:
  assumes "ys @ False # replicate n True = xs @ False # replicate j True"
  shows "ys = xs"
proof -
  have "length (takeWhile (\<lambda>b. b) (rev (zs @ False # replicate k True))) = k" for zs k
    by (simp add: takeWhile_append2 takeWhile_tail)
  from this [of ys n] this [of xs j] assms have "n = j" by simp
  with assms show ?thesis by simp
qed

lemma nextBit_step:
  assumes "dec_ok br" and "upcoming br = xs @ False # replicate j True"
  shows "case xs of [] \<Rightarrow> fst (nextBit br) = Err ErrEOF
    | x # ys \<Rightarrow> \<exists>br'. nextBit br = (Ok x, br') \<and> dec_ok br' \<and> upcoming br' = ys @ False # replicate j True"
  using assms
proof (induction br rule: nextBit.induct)
  case (1 br)
  show ?case
  proof (cases "dec_buffer br")
    case (Cons b rest)
    obtain x ys where xs: "xs = x # ys"
    proof (cases xs)
      case Nil
      show ?thesis
      proof (cases "deferredZero br")
        case True
        with 1(3) Cons Nil have "b # rest @ (False # replicate (numDeferredOnes br) True) @ concat (map pattern (dec_source br)) = False # replicate j True"
          by (simp add: upcoming_def pushed_def)
        then have "False \<in> set (replicate j True)" by (metis append_Cons in_set_conv_decomp list.inject set_append UnCI list.set_intros(1))
        then show ?thesis by simp
      next
        case False
        with 1(2) Cons have "b" by (auto simp: dec_ok_def)
        with 1(3) Cons Nil show ?thesis by (simp add: upcoming_def pushed_def)
      qed
    qed (rule that)
    let ?br = "br\<lparr>dec_buffer := rest\<rparr>"
    have "upcoming br = b # upcoming ?br" using Cons by (simp add: upcoming_def pushed_def)
    with 1(3) xs have "b = x" "upcoming ?br = ys @ False # replicate j True" by simp_all
    moreover have "dec_ok ?br" using 1(2) Cons by (auto simp: dec_ok_def)
    ultimately show ?thesis using Cons xs by (simp add: nextBit.simps [of br])
  next
    case Nil
    show ?thesis
    proof (cases "eofAfterBuffer br")
      case True
      then have "pushed br = xs @ False # replicate j True" using 1(2,3) by (simp add: upcoming_def dec_ok_def)
      with Nil have "[] @ False # replicate (numDeferredOnes br) True = xs @ False # replicate j True"
        by (simp add: pushed_def split: if_splits)
      then have "xs = []" using only_last_zero by metis
      then show ?thesis using Nil True by (simp add: nextBit.simps [of br])
    next
      case False
      obtain eof br' where r: "refill br = (eof, br')" by force
      let ?br = "br'\<lparr>eofAfterBuffer := eof\<rparr>"
      have "dec_ok ?br \<and> upcoming ?br = upcoming br"
      proof (cases "dec_source br")
        case Nil
        with r 1(2) show ?thesis by (auto simp: refill_def dec_ok_def upcoming_def pushed_def)
      next
        case (Cons z rest)
        from refill_step [OF 1(2) Cons r] show ?thesis by (auto simp: dec_ok_def upcoming_def pushed_def)
      qed
      moreover have nb: "nextBit br = nextBit ?br" using Nil False r by (simp add: nextBit.simps [of br])
      ultimately show ?thesis unfolding nb using 1(1) [OF Nil False r [symmetric]] 1(3) by simp
    qed
  qed
qed

lemma readBits_step:
  assumes "dec_ok br" and "upcoming br = xs @ ys @ False # replicate j True"
  shows "\<exists>br'. readBits (length xs) ret br = (Ok (fold (\<lambda>b r. if b then push_bit 1 r OR 1 else push_bit 1 r) xs ret), br') \<and>
    dec_ok br' \<and> upcoming br' = ys @ False # replicate j True"
  using assms
proof (induction xs arbitrary: br ret)
  case (Cons x xs)
  from nextBit_step [OF Cons.prems(1), of "x # xs @ ys" j] Cons.prems(2) obtain br1 where
    "nextBit br = (Ok x, br1)" "dec_ok br1" "upcoming br1 = xs @ ys @ False # replicate j True" by auto
  with Cons.IH [OF this(2,3)] show ?case by (simp add: bindM_Ok)
qed (simp add: returnM_def)

lemma read_all_decoder:
  assumes "dec_ok br" and "upcoming br = concat (map bits8 bs) @ False # replicate j True"
  shows "read_all Decoder_readOne br = Some (Ok bs)"
  using assms
proof (induction bs arbitrary: br)
  case Nil
  from nextBit_step [OF Nil.prems(1), of "[]" j] Nil.prems(2) obtain br' where "nextBit br = (Err ErrEOF, br')"
    by (cases "nextBit br") auto
  then have "Decoder_readOne br = (Err ErrEOF, br')" by (simp add: Decoder_readOne_def eval_nat_numeral bindM_Err)
  then show ?case by (subst read_all.simps) simp
next
  case (Cons b bs)
  from readBits_step [OF Cons.prems(1), of "bits8 b" "concat (map bits8 bs)" j 0] Cons.prems(2) obtain br' where
    "Decoder_readOne br = (Ok b, br')" "dec_ok br'" "upcoming br' = concat (map bits8 bs) @ False # replicate j True"
    by (auto simp: Decoder_readOne_def bits8_shift)
  with Cons.IH [OF this(2,3)] show ?case by (subst read_all.simps) simp
qed

text \<open>
  C18. The code is lossless: reading all of an encoder ends, for every input, and a decoder over what was read
  gives the input back, the padding dropped.
\<close>

theorem zeroheavy_roundtrip:
  "\<exists>zs. read_all Encoder_readOne (NewZeroheavyEncoder bs) = Some (Ok zs) \<and>
     read_all Decoder_readOne (NewZeroheavyDecoder zs) = Some (Ok bs)"
proof -
  have "enc_ok (NewZeroheavyEncoder bs)" "\<not> atEof (NewZeroheavyEncoder bs)" "enc_bits (NewZeroheavyEncoder bs) = Some (concat (map bits8 bs))"
    by (simp_all add: NewZeroheavyEncoder_def enc_ok_def enc_bits_def)
  from read_all_encoder [OF this] obtain zs j where zs: "read_all Encoder_readOne (NewZeroheavyEncoder bs) = Some (Ok zs)"
    "concat (map pattern zs) = concat (map bits8 bs) @ False # replicate j True" by blast
  have "read_all Decoder_readOne (NewZeroheavyDecoder zs) = Some (Ok bs)"
    by (rule read_all_decoder [of _ bs j]) (simp_all add: NewZeroheavyDecoder_def dec_ok_def upcoming_def pushed_def zs(2))
  with zs(1) show ?thesis by blast
qed

end
