(* ===== verification/Blobs.thy ===== *)
theory Blobs
  imports ArbosUtil
begin

text \<open>
  \<^verbatim>\<open>util/blobs/blobs.go\<close>: batch data in EIP-4844 blobs. A blob is 4096 field elements of 32 bytes; the last 31 bytes
  of each hold data, and six bits of the first one. The RLP codec and the KZG library are parameters.
\<close>

unbundle bit_operations_syntax

section \<open>Filling a blob\<close>

definition BlobTxFieldElementsPerBlob :: nat where "BlobTxFieldElementsPerBlob = 4096"
definition spareBlobBits :: nat where "spareBlobBits = 6"
definition BlobEncodableData :: nat where "BlobEncodableData = 254 * BlobTxFieldElementsPerBlob div 8"

text \<open>\<^verbatim>\<open>copy(blob[i:], data)\<close> for data that fits.\<close>

definition copy_at :: "nat \<Rightarrow> bytes \<Rightarrow> bytes \<Rightarrow> bytes" where
  "copy_at i data blob = take i blob @ data @ drop (i + length data) blob"

text \<open>The loops run over the field elements from a given one, \<open>n\<close> of them; they return the data left and the blob.\<close>

primrec fillBlobBytes_loop :: "nat \<Rightarrow> nat \<Rightarrow> bytes \<Rightarrow> bytes \<Rightarrow> bytes \<times> bytes" where
  "fillBlobBytes_loop 0 fieldElement blob data = (data, blob)"
| "fillBlobBytes_loop (Suc n) fieldElement blob data =
     (let startIdx = fieldElement * 32 + 1;
          blob' = copy_at startIdx (take 31 data) blob
      in if length data \<le> 31 then ([], blob')
         else fillBlobBytes_loop n (fieldElement + 1) blob' (drop 31 data))"

definition fillBlobBytes :: "bytes \<Rightarrow> bytes \<Rightarrow> bytes \<times> bytes" where
  "fillBlobBytes blob data = fillBlobBytes_loop BlobTxFieldElementsPerBlob 0 blob data"

primrec fillBlobBits_loop :: "nat \<Rightarrow> nat \<Rightarrow> u16 \<Rightarrow> int \<Rightarrow> bytes \<Rightarrow> bytes \<Rightarrow> int \<times> bytes \<times> bytes" where
  "fillBlobBits_loop 0 fieldElement acc accBits blob data = (accBits, data, blob)"
| "fillBlobBits_loop (Suc n) fieldElement acc accBits blob data =
     (let more = (accBits < int spareBlobBits \<and> data \<noteq> []);
          acc1 = (if more then acc OR push_bit (nat accBits) (ucast (hd data)) else acc);
          accBits1 = (if more then accBits + 8 else accBits) - int spareBlobBits;
          data1 = (if more then tl data else data);
          blob1 = blob[fieldElement * 32 := ucast (acc1 AND (push_bit spareBlobBits 1 - 1))]
      in if accBits1 < 0 then (accBits1, data1, blob1)
         else fillBlobBits_loop n (fieldElement + 1) (drop_bit spareBlobBits acc1) accBits1 blob1 data1)"

definition fillBlobBits :: "bytes \<Rightarrow> bytes \<Rightarrow> (bytes \<times> bytes) res" where
  "fillBlobBits blob data =
     (case fillBlobBits_loop BlobTxFieldElementsPerBlob 0 0 0 blob data of (accBits, data', blob') \<Rightarrow>
       if accBits > 0 then Err (ErrMsg ''somehow ended up with spare accBits'') else Ok (data', blob'))"

definition newBlob :: bytes where
  "newBlob = replicate (BlobTxFieldElementsPerBlob * 32) 0"

text \<open>Every round takes data off while there is some, so the loop ends; the fuel is the length of the data.\<close>

primrec EncodeBlobs_loop :: "nat \<Rightarrow> bytes \<Rightarrow> bytes list \<Rightarrow> bytes list res option" where
  "EncodeBlobs_loop 0 data blobs = (if data = [] then Some (Ok blobs) else None)"
| "EncodeBlobs_loop (Suc fuel) data blobs =
     (if data = [] then Some (Ok blobs)
      else case fillBlobBytes newBlob data of (data1, b1) \<Rightarrow>
        (case fillBlobBits b1 data1 of
           Ok (data2, b2) \<Rightarrow> EncodeBlobs_loop fuel data2 (blobs @ [b2])
         | Err e \<Rightarrow> Some (Err e)
         | Panic \<Rightarrow> Some Panic))"

definition EncodeBlobs :: "(bytes \<Rightarrow> bytes res) \<Rightarrow> bytes \<Rightarrow> bytes list res option" where
  "EncodeBlobs rlp_encode data =
     (case rlp_encode data of
        Ok rlpData \<Rightarrow> EncodeBlobs_loop (length rlpData) rlpData []
      | Err e \<Rightarrow> Some (Err e)
      | Panic \<Rightarrow> Some Panic)"

section \<open>Reading blobs\<close>

primrec DecodeBits_loop :: "nat \<Rightarrow> nat \<Rightarrow> u16 \<Rightarrow> nat \<Rightarrow> bytes \<Rightarrow> bytes \<Rightarrow> nat \<times> bytes" where
  "DecodeBits_loop 0 fieldIndex acc accBits blob rlpData = (accBits, rlpData)"
| "DecodeBits_loop (Suc n) fieldIndex acc accBits blob rlpData =
     (let acc1 = acc OR push_bit accBits (ucast (blob ! (fieldIndex * 32)));
          accBits1 = accBits + spareBlobBits
      in if accBits1 \<ge> 8 then DecodeBits_loop n (fieldIndex + 1) (drop_bit 8 acc1) (accBits1 - 8) blob (rlpData @ [ucast acc1])
         else DecodeBits_loop n (fieldIndex + 1) acc1 accBits1 blob rlpData)"

definition DecodeBlob :: "bytes \<Rightarrow> bytes res" where
  "DecodeBlob blob =
     (let rlpBytes = concat (map (\<lambda>fieldIndex. take 31 (drop (fieldIndex * 32 + 1) blob)) [0..<BlobTxFieldElementsPerBlob]) in
      case DecodeBits_loop BlobTxFieldElementsPerBlob 0 0 0 blob rlpBytes of (accBits, rlpData) \<Rightarrow>
        if accBits \<noteq> 0 then Err (ErrMsg ''somehow ended up with spare accBits'') else Ok rlpData)"

primrec DecodeBlobs_loop :: "bytes list \<Rightarrow> bytes \<Rightarrow> bytes res" where
  "DecodeBlobs_loop [] rlpData = Ok rlpData"
| "DecodeBlobs_loop (blob # blobs) rlpData = bindR (DecodeBlob blob) (\<lambda>d. DecodeBlobs_loop blobs (rlpData @ d))"

definition DecodeBlobs :: "(bytes \<Rightarrow> bytes res) \<Rightarrow> bytes list \<Rightarrow> bytes res" where
  "DecodeBlobs rlp_decode blobs = bindR (DecodeBlobs_loop blobs []) rlp_decode"

section \<open>Commitments\<close>

definition CommitmentToVersionedHash :: "('c \<Rightarrow> bytes) \<Rightarrow> 'c \<Rightarrow> hash" where
  "CommitmentToVersionedHash sha256 commitment = bytes_hash ((sha256 commitment)[0 := 1])"

primrec ComputeCommitmentsAndHashes :: "(bytes \<Rightarrow> 'c res) \<Rightarrow> ('c \<Rightarrow> bytes) \<Rightarrow> bytes list \<Rightarrow> ('c list \<times> hash list) res" where
  "ComputeCommitmentsAndHashes commit sha256 [] = Ok ([], [])"
| "ComputeCommitmentsAndHashes commit sha256 (blob # blobs) =
     bindR (commit blob) (\<lambda>c.
     bindR (ComputeCommitmentsAndHashes commit sha256 blobs) (\<lambda>(cs, hs).
       Ok (c # cs, CommitmentToVersionedHash sha256 c # hs)))"

primrec ComputeBlobProofs_loop :: "(bytes \<Rightarrow> 'c \<Rightarrow> 'p res) \<Rightarrow> (bytes \<times> 'c) list \<Rightarrow> 'p list res" where
  "ComputeBlobProofs_loop prove [] = Ok []"
| "ComputeBlobProofs_loop prove (x # xs) =
     bindR (prove (fst x) (snd x)) (\<lambda>p. bindR (ComputeBlobProofs_loop prove xs) (\<lambda>ps. Ok (p # ps)))"

definition ComputeBlobProofs :: "(bytes \<Rightarrow> 'c \<Rightarrow> 'p res) \<Rightarrow> bytes list \<Rightarrow> 'c list \<Rightarrow> 'p list res" where
  "ComputeBlobProofs prove blobs commitments =
     (if length blobs \<noteq> length commitments then Err (ErrMsg ''ComputeBlobProofs got blobs but commitments'')
      else ComputeBlobProofs_loop prove (zip blobs commitments))"

section \<open>Four spare sextets hold three bytes\<close>

definition enc4 :: "u8 \<Rightarrow> u8 \<Rightarrow> u8 \<Rightarrow> bytes" where
  "enc4 a b c =
     (let x = ucast a :: u16; y = drop_bit 6 x OR push_bit 2 (ucast b); z = drop_bit 6 y OR push_bit 4 (ucast c)
      in [ucast (x AND 63), ucast (y AND 63), ucast (z AND 63), ucast (drop_bit 6 z AND 63)])"

lemma and_63: "x AND 63 = take_bit 6 (x :: u16)"
  by (simp add: take_bit_eq_mask mask_eq_exp_minus_1)

lemma byte_eqI:
  assumes "bit x 0 = bit y 0" "bit x 1 = bit y 1" "bit x 2 = bit y 2" "bit x 3 = bit y 3"
    "bit x 4 = bit y 4" "bit x 5 = bit y 5" "bit x 6 = bit y 6" "bit x 7 = bit y 7"
  shows "x = (y :: u8)"
proof (rule bit_word_eqI)
  fix n assume "n < LENGTH(8)"
  then have "n \<in> {0, 1, 2, 3, 4, 5, 6, 7}" by auto
  with assms show "bit x n = bit y n" by auto
qed

lemma bit_byte_high [simp]: "8 \<le> n \<Longrightarrow> \<not> bit (x :: u8) n"
  using bit_imp_le_length [of x n] by auto

lemma drop_6_small:
  "drop_bit 6 (drop_bit 6 (drop_bit 6 (drop_bit 6 (ucast (a :: u8)) OR push_bit 2 (ucast (b :: u8))) OR push_bit 4 (ucast (c :: u8)))) = (0 :: u16)"
  by (rule bit_word_eqI) (auto simp: bit_simps)

lemma sextets_bytes:
  fixes a b c :: u8
  defines "x \<equiv> ucast a :: u16" 
  defines "y \<equiv> drop_bit 6 x OR push_bit 2 (ucast b)"
  defines "z \<equiv> drop_bit 6 y OR push_bit 4 (ucast c)"
  defines "p \<equiv> ucast (ucast (x AND 63) :: u8) OR push_bit 6 (ucast (ucast (y AND 63) :: u8)) :: u16"
  defines "q \<equiv> drop_bit 8 p OR push_bit 4 (ucast (ucast (z AND 63) :: u8))"
  defines "r \<equiv> drop_bit 8 q OR push_bit 2 (ucast (ucast (drop_bit 6 z AND 63) :: u8))"
  shows "ucast p = a" and "ucast q = b" and "ucast r = c" and "drop_bit 8 r = 0"
proof -
  note b = and_63 bit_simps x_def y_def z_def p_def q_def r_def
  show "ucast p = a" by (rule byte_eqI) (simp_all add: b)
  show "ucast q = b" by (rule byte_eqI) (simp_all add: b)
  show "ucast r = c" by (rule byte_eqI) (simp_all add: b)
  show "drop_bit 8 r = 0" by (rule bit_word_eqI) (simp add: b)
qed

section \<open>The first bytes of the field elements\<close>

primrec write_heads :: "nat \<Rightarrow> bytes \<Rightarrow> bytes \<Rightarrow> bytes" where
  "write_heads fe [] blob = blob"
| "write_heads fe (h # hs) blob = write_heads (fe + 1) hs (blob[fe * 32 := h])"

lemma length_write_heads [simp]: "length (write_heads fe hs blob) = length blob"
  by (induction hs arbitrary: fe blob) simp_all

lemma write_heads_append: "write_heads fe (xs @ ys) blob = write_heads (fe + length xs) ys (write_heads fe xs blob)"
  by (induction xs arbitrary: fe blob) simp_all

lemma write_heads_nth:
  assumes "32 * (fe + length hs) \<le> length blob" and "j < length blob"
  shows "write_heads fe hs blob ! j =
    (if j mod 32 = 0 \<and> fe \<le> j div 32 \<and> j div 32 < fe + length hs then hs ! (j div 32 - fe) else blob ! j)"
  using assms
proof (induction hs arbitrary: fe blob)
  case (Cons h hs)
  have at: "fe * 32 = j \<longleftrightarrow> j mod 32 = 0 \<and> j div 32 = fe" by auto
  have "(h # hs) ! (j div 32 - fe) = hs ! (j div 32 - Suc fe)" if "Suc fe \<le> j div 32"
    using that by (simp add: nth_Cons')
  with Cons at show ?case by (simp add: nth_list_update)
qed auto

lemma write_zeros:
  assumes "32 * (fe + m) \<le> length blob" and "\<And>i. i < m \<Longrightarrow> blob ! ((fe + i) * 32) = 0"
  shows "write_heads fe (replicate m 0) blob = blob"
proof (rule nth_equalityI)
  fix j assume j: "j < length (write_heads fe (replicate m 0) blob)"
  have "blob ! j = 0" if "j mod 32 = 0" "fe \<le> j div 32" "j div 32 < fe + m"
    using assms(2) [of "j div 32 - fe"] that by (auto simp: mult.commute)
  with j assms(1) show "write_heads fe (replicate m 0) blob ! j = blob ! j"
    by (subst write_heads_nth) auto
qed simp

definition byte_at :: "bytes \<Rightarrow> nat \<Rightarrow> u8" where
  "byte_at d i = (if i < length d then d ! i else 0)"

primrec enc_heads :: "nat \<Rightarrow> bytes \<Rightarrow> bytes" where
  "enc_heads 0 d = []"
| "enc_heads (Suc k) d = enc4 (byte_at d 0) (byte_at d 1) (byte_at d 2) @ enc_heads k (drop 3 d)"

lemma length_enc4 [simp]: "length (enc4 a b c) = 4"
  by (simp add: enc4_def Let_def)

lemma length_enc_heads [simp]: "length (enc_heads k d) = 4 * k"
  by (induction k arbitrary: d) simp_all

lemma enc4_zero: "enc4 0 0 0 = replicate 4 0"
  by (simp add: enc4_def Let_def eval_nat_numeral)

lemma enc_heads_Nil: "enc_heads k [] = replicate (4 * k) 0"
  by (induction k) (simp_all add: byte_at_def enc4_zero replicate_add)

lemma drop_12_small: "drop_bit 12 (push_bit 4 (ucast (c :: u8))) = (0 :: u16)"
  by (rule bit_word_eqI) (simp add: bit_simps)

lemma fillBits_group:
  "fillBlobBits_loop (Suc (Suc (Suc (Suc n)))) fe 0 0 blob (a # b # c # rest) =
     fillBlobBits_loop n (Suc (Suc (Suc (Suc fe)))) 0 0 (write_heads fe (enc4 a b c) blob) rest"
  by (simp add: Let_def spareBlobBits_def enc4_def drop_12_small)

text \<open>The first bytes of the elements from \<open>fe\<close> on are still zero.\<close>

definition fresh :: "nat \<Rightarrow> nat \<Rightarrow> bytes \<Rightarrow> bool" where
  "fresh fe n blob \<longleftrightarrow> 32 * (fe + n) \<le> length blob \<and> (\<forall>i < n. blob ! ((fe + i) * 32) = 0)"

lemma freshD: "fresh fe n blob \<Longrightarrow> i < n \<Longrightarrow> blob ! ((fe + i) * 32) = 0"
  by (simp add: fresh_def)

lemma write_fresh:
  assumes "fresh fe n blob" and n: "n = length xs + m"
  shows "write_heads fe (xs @ replicate m 0) blob = write_heads fe xs blob"
  unfolding write_heads_append
proof (rule write_zeros)
  fix i assume i: "i < m"
  with assms have "blob ! ((fe + (length xs + i)) * 32) = 0" unfolding fresh_def by (metis nat_add_left_cancel_less)
  with assms i show "write_heads fe xs blob ! ((fe + length xs + i) * 32) = 0"
    by (subst write_heads_nth) (auto simp: fresh_def algebra_simps)
qed (use assms in \<open>simp add: fresh_def\<close>)

lemma fillBits_short:
  assumes "length d < 3" and "fresh fe 4 blob"
  shows "\<exists>bits < 0. fillBlobBits_loop (Suc (Suc (Suc (Suc n)))) fe 0 0 blob d =
     (bits, [], write_heads fe (enc4 (byte_at d 0) (byte_at d 1) (byte_at d 2)) blob)"
proof -
  have drops: "drop_bit 12 (ucast (a :: u8)) = (0 :: u16)" "drop_bit 12 (push_bit 2 (ucast a)) = (0 :: u16)" for a
    by (rule bit_word_eqI; simp add: bit_simps)+
  consider "d = []" | a where "d = [a]" | a b where "d = [a, b]"
    using assms(1) by (cases d; cases "tl d"; cases "tl (tl d)") auto
  then show ?thesis
  proof cases
    case 1
    have "enc4 0 0 0 = [0] @ replicate 3 0" by (simp add: enc4_zero eval_nat_numeral)
    moreover have "write_heads fe ([0] @ replicate 3 0) blob = write_heads fe [0] blob" by (rule write_fresh [OF assms(2)]) simp
    ultimately have "write_heads fe (enc4 0 0 0) blob = write_heads fe [0] blob" by (simp only:)
    with 1 show ?thesis by (simp add: Let_def spareBlobBits_def byte_at_def)
  next
    case (2 a)
    let ?h = "[ucast (ucast a AND (63 :: u16)), ucast (drop_bit 6 (ucast a) AND (63 :: u16))]"
    have "enc4 a 0 0 = ?h @ replicate 2 0" by (simp add: enc4_def drops Let_def numeral_2_eq_2)
    moreover have "write_heads fe (?h @ replicate 2 0) blob = write_heads fe ?h blob" by (rule write_fresh [OF assms(2)]) simp
    ultimately have "write_heads fe (enc4 a 0 0) blob = write_heads fe ?h blob" by (simp only:)
    with 2 show ?thesis by (simp add: Let_def spareBlobBits_def byte_at_def)
  next
    case (3 a b)
    let ?y = "drop_bit 6 (ucast a) OR push_bit 2 (ucast b) :: u16"
    let ?h = "[ucast (ucast a AND (63 :: u16)), ucast (?y AND 63), ucast (drop_bit 6 ?y AND 63)]"
    have "enc4 a b 0 = ?h @ replicate 1 0" by (simp add: enc4_def drops Let_def)
    moreover have "write_heads fe (?h @ replicate 1 0) blob = write_heads fe ?h blob" by (rule write_fresh [OF assms(2)]) simp
    ultimately have "write_heads fe (enc4 a b 0) blob = write_heads fe ?h blob" by (simp only:)
    with 3 show ?thesis by (simp add: Let_def spareBlobBits_def byte_at_def)
  qed
qed

lemma fillBits_groups:
  assumes "fresh fe (4 * k) blob"
  shows "\<exists>bits \<le> 0. fillBlobBits_loop (4 * k) fe 0 0 blob d = (bits, drop (3 * k) d, write_heads fe (enc_heads k d) blob)"
  using assms
proof (induction k arbitrary: fe blob d)
  case (Suc k)
  have n: "4 * Suc k = Suc (Suc (Suc (Suc (4 * k))))" by simp
  show ?case
  proof (cases "length d < 3")
    case True
    have "fresh fe 4 blob" using Suc.prems by (simp add: fresh_def)
    from fillBits_short [OF True this, of "4 * k"] obtain bits where bits: "bits < 0"
      "fillBlobBits_loop (4 * Suc k) fe 0 0 blob d = (bits, [], write_heads fe (enc4 (byte_at d 0) (byte_at d 1) (byte_at d 2)) blob)"
      unfolding n by blast
    have "write_heads fe (enc4 (byte_at d 0) (byte_at d 1) (byte_at d 2) @ replicate (4 * k) 0) blob =
        write_heads fe (enc4 (byte_at d 0) (byte_at d 1) (byte_at d 2)) blob"
      by (rule write_fresh [OF Suc.prems]) simp
    with True bits show ?thesis by (auto simp: enc_heads_Nil intro!: exI [of _ bits])
  next
    case False
    then obtain a b c rest where d: "d = a # b # c # rest"
      by (cases d; cases "tl d"; cases "tl (tl d)") auto
    let ?blob = "write_heads fe (enc4 a b c) blob"
    have "fresh (Suc (Suc (Suc (Suc fe)))) (4 * k) ?blob"
      unfolding fresh_def
    proof (intro conjI allI impI)
      fix i assume i: "i < 4 * k"
      then have "4 + i < 4 * Suc k" by simp
      with Suc.prems have "blob ! ((fe + (4 + i)) * 32) = 0" by (rule freshD)
      with Suc.prems i show "?blob ! ((Suc (Suc (Suc (Suc fe))) + i) * 32) = 0"
        by (subst write_heads_nth) (auto simp: fresh_def algebra_simps)
    qed (use Suc.prems in \<open>simp add: fresh_def\<close>)
    note IH = Suc.IH [OF this, of rest]
    have fe: "fe + 4 = Suc (Suc (Suc (Suc fe)))" by simp
    have w: "write_heads fe (enc_heads (Suc k) d) blob = write_heads (Suc (Suc (Suc (Suc fe)))) (enc_heads k rest) ?blob"
      by (simp add: d byte_at_def write_heads_append fe)
    have "drop 3 d = rest" by (simp add: d)
    then have "drop (3 * Suc k) d = drop (3 * k) rest" by (metis drop_drop add.commute mult_Suc_right)
    moreover have "fillBlobBits_loop (4 * Suc k) fe 0 0 blob d = fillBlobBits_loop (4 * k) (Suc (Suc (Suc (Suc fe)))) 0 0 ?blob rest"
      unfolding n d by (rule fillBits_group)
    ultimately show ?thesis unfolding w using IH by (simp only:)
  qed
qed simp

section \<open>Reading the spare bits back\<close>

lemma DecodeBits_4:
  fixes h0 h1 h2 h3 :: u8
  assumes "blob ! (fe * 32) = h0" "blob ! (Suc fe * 32) = h1" "blob ! (Suc (Suc fe) * 32) = h2" "blob ! (Suc (Suc (Suc fe)) * 32) = h3"
  defines "p \<equiv> ucast h0 OR push_bit 6 (ucast h1)"
  defines "q \<equiv> drop_bit 8 p OR push_bit 4 (ucast h2)"
  defines "r \<equiv> drop_bit 8 q OR push_bit 2 (ucast h3)"
  shows "DecodeBits_loop (Suc (Suc (Suc (Suc n)))) fe 0 0 blob out =
    DecodeBits_loop n (Suc (Suc (Suc (Suc fe)))) (drop_bit 8 r) 0 blob (out @ [ucast p, ucast q, ucast r])"
  using assms(1-4) by (simp add: p_def q_def r_def spareBlobBits_def Let_def)

lemma DecodeBits_group:
  assumes "map (\<lambda>i. blob ! ((fe + i) * 32)) [0..<4] = enc4 a b c"
  shows "DecodeBits_loop (Suc (Suc (Suc (Suc n)))) fe 0 0 blob out = DecodeBits_loop n (Suc (Suc (Suc (Suc fe)))) 0 0 blob (out @ [a, b, c])"
proof -
  let ?x = "ucast a :: u16" let ?y = "drop_bit 6 ?x OR push_bit 2 (ucast b)" let ?z = "drop_bit 6 ?y OR push_bit 4 (ucast c)"
  have h: "blob ! (fe * 32) = ucast (?x AND 63)" "blob ! (Suc fe * 32) = ucast (?y AND 63)" "blob ! (Suc (Suc fe) * 32) = ucast (?z AND 63)"
    "blob ! (Suc (Suc (Suc fe)) * 32) = ucast (drop_bit 6 ?z AND 63)"
    using assms by (simp_all add: enc4_def Let_def upt_conv_Cons add.commute)
  show ?thesis by (simp only: DecodeBits_4 [OF h] sextets_bytes)
qed

text \<open>The bytes of a list, padded with zeros to a length.\<close>

definition padded :: "nat \<Rightarrow> bytes \<Rightarrow> bytes" where
  "padded n d = take n (d @ replicate n 0)"

lemma length_padded [simp]: "length (padded n d) = n"
  by (simp add: padded_def)

lemma nth_padded: "i < n \<Longrightarrow> padded n d ! i = byte_at d i"
  by (auto simp: padded_def byte_at_def nth_append)

lemma byte_at_drop: "byte_at (drop m d) i = byte_at d (m + i)"
  by (auto simp: byte_at_def)

lemma padded_split: "padded (m + n) d = padded m d @ padded n (drop m d)"
  by (rule nth_equalityI) (auto simp: nth_padded nth_append byte_at_def)

lemma DecodeBits_groups:
  assumes "map (\<lambda>i. blob ! ((fe + i) * 32)) [0..<4 * k] = enc_heads k d"
  shows "DecodeBits_loop (4 * k) fe 0 0 blob out = (0, out @ padded (3 * k) d)"
  using assms
proof (induction k arbitrary: fe d out)
  case 0
  then show ?case by (simp add: padded_def)
next
  case (Suc k)
  have n: "4 * Suc k = Suc (Suc (Suc (Suc (4 * k))))" "4 * Suc k = 4 + 4 * k" by simp_all
  have "map (\<lambda>i. blob ! ((fe + i) * 32)) [0..<4 + 4 * k] =
      map (\<lambda>i. blob ! ((fe + i) * 32)) [0..<4] @ map (\<lambda>i. blob ! ((fe + 4 + i) * 32)) [0..<4 * k]"
    by (rule nth_equalityI) (auto simp: nth_append algebra_simps)
  with Suc.prems have g: "map (\<lambda>i. blob ! ((fe + i) * 32)) [0..<4] = enc4 (byte_at d 0) (byte_at d 1) (byte_at d 2)"
    and r: "map (\<lambda>i. blob ! ((fe + 4 + i) * 32)) [0..<4 * k] = enc_heads k (drop 3 d)"
    unfolding n(2) by (simp_all add: append_eq_append_conv)
  have fe: "fe + 4 = Suc (Suc (Suc (Suc fe)))" by simp
  have "padded 3 d = [byte_at d 0, byte_at d 1, byte_at d 2]"
    by (rule nth_equalityI) (auto simp: nth_padded less_Suc_eq numeral_3_eq_3 numeral_2_eq_2)
  then show ?case
    unfolding n(1) DecodeBits_group [OF g] using Suc.IH [OF r [unfolded fe]] padded_split [of 3 "3 * k" d] by simp
qed

section \<open>The bytes of the field elements\<close>

lemma nth_copy_at:
  "i + length xs \<le> length blob \<Longrightarrow> j < length blob \<Longrightarrow>
     copy_at i xs blob ! j = (if i \<le> j \<and> j < i + length xs then xs ! (j - i) else blob ! j)"
  by (auto simp: copy_at_def nth_append)

lemma length_copy_at [simp]: "i + length xs \<le> length blob \<Longrightarrow> length (copy_at i xs blob) = length blob"
  by (simp add: copy_at_def)

lemma fillBytes_loop:
  assumes "32 * (fe + n) \<le> length blob" and "fillBlobBytes_loop n fe blob d = (rest, blob')"
  shows "rest = drop (31 * n) d \<and> length blob' = length blob \<and> (\<forall>f i. f < n \<longrightarrow> i < 31 \<longrightarrow>
      blob' ! ((fe + f) * 32 + 1 + i) = (if 31 * f + i < length d then d ! (31 * f + i) else blob ! ((fe + f) * 32 + 1 + i))) \<and>
    (\<forall>j < length blob. j mod 32 = 0 \<or> j div 32 < fe \<longrightarrow> blob' ! j = blob ! j)"
  using assms
proof (induction n arbitrary: fe blob d)
  case (Suc n)
  let ?b = "copy_at (fe * 32 + 1) (take 31 d) blob"
  have fits: "fe * 32 + 1 + length (take 31 d) \<le> length blob" using Suc.prems(1) by simp
  have b: "?b ! j = (if fe * 32 + 1 \<le> j \<and> j < fe * 32 + 1 + min 31 (length d) then d ! (j - (fe * 32 + 1)) else blob ! j)"
    if "j < length blob" for j
    using nth_copy_at [OF fits that] by (auto simp: min_def)
  have head: "\<not> (fe * 32 + 1 \<le> j \<and> j < fe * 32 + 1 + min 31 (length d))" if "j mod 32 = 0 \<or> j div 32 < fe" for j
  proof
    assume "fe * 32 + 1 \<le> j \<and> j < fe * 32 + 1 + min 31 (length d)"
    then have "fe * 32 < j" "j < fe * 32 + 32" by auto
    then have "j div 32 = fe" by (simp add: div_nat_eqI)
    with that div_mult_mod_eq [of j 32] \<open>fe * 32 < j\<close> show False by simp
  qed
  show ?case
  proof (cases "length d \<le> 31")
    case True
    with Suc.prems(2) have r: "rest = []" "blob' = ?b" by (simp_all add: Let_def)
    have "?b ! ((fe + f) * 32 + 1 + i) = (if 31 * f + i < length d then d ! (31 * f + i) else blob ! ((fe + f) * 32 + 1 + i))"
      if "f < Suc n" "i < 31" for f i
    proof -
      have "(fe + f) * 32 + 1 + i < length blob" using Suc.prems(1) that by simp
      from b [OF this] that True show ?thesis by (cases f) auto
    qed
    moreover have "?b ! j = blob ! j" if "j < length blob" "j mod 32 = 0 \<or> j div 32 < fe" for j
      using b [OF that(1)] head [OF that(2)] by auto
    ultimately show ?thesis using r True fits by simp
  next
    case False
    with Suc.prems(2) have r: "fillBlobBytes_loop n (fe + 1) ?b (drop 31 d) = (rest, blob')" by (simp add: Let_def)
    have l: "32 * (fe + 1 + n) \<le> length ?b" using Suc.prems(1) fits by simp
    note IH = Suc.IH [OF l r]
    have "blob' ! ((fe + f) * 32 + 1 + i) = (if 31 * f + i < length d then d ! (31 * f + i) else blob ! ((fe + f) * 32 + 1 + i))"
      if "f < Suc n" "i < 31" for f i
    proof (cases f)
      case 0
      have p: "fe * 32 + 1 + i < length blob" "(fe * 32 + 1 + i) div 32 < fe + 1" using Suc.prems(1) that by simp_all
      with IH fits have "blob' ! (fe * 32 + 1 + i) = ?b ! (fe * 32 + 1 + i)" by simp
      with b [OF p(1)] that(2) False 0 show ?thesis by simp
    next
      case (Suc g)
      have "(fe + f) * 32 + 1 + i < length blob" using Suc.prems(1) that by simp
      from b [OF this] have "?b ! ((fe + f) * 32 + 1 + i) = blob ! ((fe + f) * 32 + 1 + i)" using Suc by simp
      moreover have "blob' ! ((fe + 1 + g) * 32 + 1 + i) =
          (if 31 * g + i < length (drop 31 d) then drop 31 d ! (31 * g + i) else ?b ! ((fe + 1 + g) * 32 + 1 + i))"
        using IH that Suc by blast
      ultimately show ?thesis using Suc by (simp add: algebra_simps less_diff_conv)
    qed
    moreover have "blob' ! j = blob ! j" if "j < length blob" "j mod 32 = 0 \<or> j div 32 < fe" for j
    proof -
      have "blob' ! j = ?b ! j" using IH that fits by auto
      then show ?thesis using b [OF that(1)] head [OF that(2)] by auto
    qed
    moreover have "drop (31 * n) (drop 31 d) = drop (31 * Suc n) d" by (simp add: add.commute)
    ultimately show ?thesis using IH fits by simp
  qed
qed simp

section \<open>A blob holds its data\<close>

lemma fresh_newBlob: "fresh 0 BlobTxFieldElementsPerBlob newBlob" and length_newBlob: "length newBlob = 32 * BlobTxFieldElementsPerBlob"
  by (simp_all add: fresh_def newBlob_def)

lemma concat_padded:
  assumes "\<And>f. f < n \<Longrightarrow> g f = padded 31 (drop (31 * f) d)"
  shows "concat (map g [0..<n]) = padded (31 * n) d"
  using assms
proof (induction n)
  case 0
  then show ?case by (simp add: padded_def)
next
  case (Suc n)
  have "31 * Suc n = 31 * n + 31" by simp
  then show ?case using Suc by (simp only: padded_split upt_Suc map_append concat_append) simp
qed

lemma blob_roundtrip:
  assumes "fillBlobBytes newBlob d = (d1, b1)"
  shows "\<exists>b2. fillBlobBits b1 d1 = Ok (drop BlobEncodableData d, b2) \<and> DecodeBlob b2 = Ok (padded BlobEncodableData d)"
proof -
  let ?N = "BlobTxFieldElementsPerBlob"
  have N: "?N = 4 * 1024" by (simp add: BlobTxFieldElementsPerBlob_def)
  have B: "BlobEncodableData = 31 * ?N + 3 * 1024" by (simp add: BlobEncodableData_def BlobTxFieldElementsPerBlob_def)
  have z: "newBlob ! j = 0" if "j < 32 * ?N" for j using that by (simp add: newBlob_def)
  have "32 * (0 + ?N) \<le> length newBlob" by (simp add: length_newBlob)
  from fillBytes_loop [OF this assms [unfolded fillBlobBytes_def]] have d1: "d1 = drop (31 * ?N) d" and l: "length b1 = 32 * ?N"
    and body: "\<And>f i. f < ?N \<Longrightarrow> i < 31 \<Longrightarrow> b1 ! (f * 32 + 1 + i) = byte_at d (31 * f + i)"
    and heads: "\<And>j. j < 32 * ?N \<Longrightarrow> j mod 32 = 0 \<Longrightarrow> b1 ! j = 0"
    using z by (auto simp: length_newBlob byte_at_def)
  have "fresh 0 (4 * 1024) b1" unfolding fresh_def N [symmetric] using l heads by simp
  from fillBits_groups [OF this, of d1] obtain bits where bits: "bits \<le> 0"
    "fillBlobBits_loop ?N 0 0 0 b1 d1 = (bits, drop (3 * 1024) d1, write_heads 0 (enc_heads 1024 d1) b1)" unfolding N by blast
  let ?b = "write_heads 0 (enc_heads 1024 d1) b1"
  have fits: "32 * (0 + length (enc_heads 1024 d1)) \<le> length b1" by (simp add: l N)
  have "drop (3 * 1024) d1 = drop BlobEncodableData d" unfolding d1 B by (simp add: add.commute)
  with bits have fill: "fillBlobBits b1 d1 = Ok (drop BlobEncodableData d, ?b)" by (simp add: fillBlobBits_def)
  have "take 31 (drop (f * 32 + 1) ?b) = padded 31 (drop (31 * f) d)" if f: "f < ?N" for f
  proof (rule nth_equalityI)
    show "length (take 31 (drop (f * 32 + 1) ?b)) = length (padded 31 (drop (31 * f) d))" using f l by simp
    fix i assume "i < length (take 31 (drop (f * 32 + 1) ?b))"
    then have i: "i < 31" by simp
    have p: "f * 32 + 1 + i < length b1" "(f * 32 + 1 + i) mod 32 \<noteq> 0" using f i l by auto
    have "?b ! (f * 32 + 1 + i) = byte_at d (31 * f + i)"
      using write_heads_nth [OF fits p(1)] p(2) body [OF f i] by simp
    with i p(1) show "take 31 (drop (f * 32 + 1) ?b) ! i = padded 31 (drop (31 * f) d) ! i"
      by (simp add: nth_padded byte_at_drop)
  qed
  then have c: "concat (map (\<lambda>f. take 31 (drop (f * 32 + 1) ?b)) [0..<?N]) = padded (31 * ?N) d" by (rule concat_padded)
  have "map (\<lambda>i. ?b ! ((0 + i) * 32)) [0..<4 * 1024] = enc_heads 1024 d1"
  proof (rule nth_equalityI)
    fix i assume "i < length (map (\<lambda>i. ?b ! ((0 + i) * 32)) [0..<4 * 1024])"
    then have i: "i < 4 * 1024" by simp
    then have "i * 32 < length b1" by (simp add: l N)
    from write_heads_nth [OF fits this] i show "map (\<lambda>i. ?b ! ((0 + i) * 32)) [0..<4 * 1024] ! i = enc_heads 1024 d1 ! i" by simp
  qed simp
  from DecodeBits_groups [OF this, of "padded (31 * ?N) d"] have bits':
    "DecodeBits_loop ?N 0 0 0 ?b (padded (31 * ?N) d) = (0, padded (31 * ?N) d @ padded (3 * 1024) d1)" unfolding N .
  have "DecodeBlob ?b = Ok (padded (31 * ?N) d @ padded (3 * 1024) d1)"
    unfolding DecodeBlob_def Let_def c bits' by simp
  with fill show ?thesis unfolding B padded_split d1 by blast
qed

lemma DecodeBlobs_loop_append: "DecodeBlobs_loop bs out = bindR (DecodeBlobs_loop bs []) (\<lambda>d. Ok (out @ d))"
proof (induction bs arbitrary: out)
  case (Cons b bs)
  show ?case
  proof (cases "DecodeBlob b")
    case (Ok d)
    from Cons.IH [of "out @ d"] Cons.IH [of d] show ?thesis by (cases "DecodeBlobs_loop bs []") (simp_all add: Ok)
  qed simp_all
qed simp

lemma EncodeBlobs_loop_run:
  assumes "length d \<le> fuel"
  shows "\<exists>bs. EncodeBlobs_loop fuel d blobs = Some (Ok (blobs @ bs)) \<and> length d \<le> BlobEncodableData * length bs \<and>
    DecodeBlobs_loop bs [] = Ok (padded (BlobEncodableData * length bs) d)"
  using assms
proof (induction fuel arbitrary: d blobs)
  case 0
  then show ?case by (intro exI [of _ "[]"]) (simp add: padded_def)
next
  case (Suc fuel)
  show ?case
  proof (cases "d = []")
    case True
    then show ?thesis by (intro exI [of _ "[]"]) (simp add: padded_def)
  next
    case False
    obtain d1 b1 where b1: "fillBlobBytes newBlob d = (d1, b1)" by force
    from blob_roundtrip [OF b1] obtain b2 where b2: "fillBlobBits b1 d1 = Ok (drop BlobEncodableData d, b2)"
      "DecodeBlob b2 = Ok (padded BlobEncodableData d)" by blast
    have "0 < BlobEncodableData" by (simp add: BlobEncodableData_def BlobTxFieldElementsPerBlob_def)
    with Suc.prems False have "length (drop BlobEncodableData d) \<le> fuel" by (cases d) auto
    from Suc.IH [OF this, of "blobs @ [b2]"] obtain bs where bs: "EncodeBlobs_loop fuel (drop BlobEncodableData d) (blobs @ [b2]) = Some (Ok (blobs @ [b2] @ bs))"
      "length (drop BlobEncodableData d) \<le> BlobEncodableData * length bs"
      "DecodeBlobs_loop bs [] = Ok (padded (BlobEncodableData * length bs) (drop BlobEncodableData d))" by auto
    have "EncodeBlobs_loop (Suc fuel) d blobs = Some (Ok (blobs @ b2 # bs))" using False b1 b2(1) bs(1) by simp
    moreover have "DecodeBlobs_loop (b2 # bs) [] = Ok (padded (BlobEncodableData * length (b2 # bs)) d)"
      using b2(2) bs(3) DecodeBlobs_loop_append [of bs "padded BlobEncodableData d"] padded_split [of BlobEncodableData "BlobEncodableData * length bs" d] by simp
    moreover have "length d \<le> BlobEncodableData * length (b2 # bs)" using bs(2) by simp
    ultimately show ?thesis by blast
  qed
qed

text \<open>
  C10. Blobs carry batch data without loss: encoding ends and succeeds, in as many blobs as the data needs, and
  decoding the blobs gives the data back. The RLP codec is assumed to encode this data and to decode it again from a
  stream that goes on with zeros.
\<close>

theorem blobs_roundtrip:
  assumes "rlp_encode data = Ok e" and "\<And>z. rlp_decode (e @ replicate z 0) = Ok data"
  shows "\<exists>blobs. EncodeBlobs rlp_encode data = Some (Ok blobs) \<and> length e \<le> BlobEncodableData * length blobs \<and>
    DecodeBlobs rlp_decode blobs = Ok data"
proof -
  from EncodeBlobs_loop_run [of e "length e" "[]"] obtain bs where bs: "EncodeBlobs_loop (length e) e [] = Some (Ok bs)"
    "length e \<le> BlobEncodableData * length bs" "DecodeBlobs_loop bs [] = Ok (padded (BlobEncodableData * length bs) e)" by auto
  then have "DecodeBlobs rlp_decode bs = rlp_decode (e @ replicate (BlobEncodableData * length bs - length e) 0)"
    by (simp add: DecodeBlobs_def padded_def min_def)
  with assms bs(1,2) show ?thesis by (simp add: EncodeBlobs_def)
qed

definition toy_rlp :: "bytes \<Rightarrow> bytes res" where
  "toy_rlp d = Ok (of_nat (length d) # d)"

definition toy_unrlp :: "bytes \<Rightarrow> bytes res" where
  "toy_unrlp bs = (case bs of [] \<Rightarrow> Err ErrEOF | n # rest \<Rightarrow> Ok (take (unat n) rest))"

theorem blobs_roundtrip_witness:
  "\<exists>blobs. EncodeBlobs toy_rlp [7, 8, 9] = Some (Ok blobs) \<and> DecodeBlobs toy_unrlp blobs = Ok [7, 8, 9]"
  using blobs_roundtrip [of toy_rlp "[7, 8, 9]" "[3, 7, 8, 9]" toy_unrlp]
  by (auto simp: toy_rlp_def toy_unrlp_def)

end
