(* ===== verification/DasTree.thy ===== *)
theory DasTree
  imports Arbbits
begin

text \<open>
  \<^verbatim>\<open>das/dastree/dastree.go\<close>: the hash tree over the 64 kB bins of a batch, and the reader that recovers the batch from
  the root with an oracle for preimages. Keccak and the oracle are parameters.
\<close>

unbundle bit_operations_syntax

section \<open>Hashing\<close>

definition BinSize :: u32 where "BinSize = 64 * 1024"
definition NodeByte :: u8 where "NodeByte = 0xff"
definition LeafByte :: u8 where "LeafByte = 0xfe"

record node =
  node_hash :: hash
  node_size :: u32

text \<open>The pairs given to the closure \<^verbatim>\<open>record\<close>, in order.\<close>

type_synonym records = "(hash \<times> bytes) list"

definition keccord :: "(bytes \<Rightarrow> bytes) \<Rightarrow> bytes \<Rightarrow> records \<Rightarrow> hash \<times> records" where
  "keccord K value recs = (let h = bytes_hash (K value) in (h, recs @ [(h, value)]))"

definition keccord_leaf :: "(bytes \<Rightarrow> bytes) \<Rightarrow> bytes \<Rightarrow> records \<Rightarrow> hash \<times> records" where
  "keccord_leaf K bin recs =
     (case keccord K bin recs of (h, recs1) \<Rightarrow> keccord K (LeafByte # hash_bytes h) recs1)"

text \<open>The loop over the bins; its counter is 32 bits wide and would wrap on inputs of nearly 4 GB.\<close>

partial_function (option) leaves_loop ::
  "(bytes \<Rightarrow> bytes) \<Rightarrow> bytes \<Rightarrow> u32 \<Rightarrow> u32 \<Rightarrow> node list \<Rightarrow> records \<Rightarrow> (node list \<times> records) res option" where
  "leaves_loop K unrolled len bin leaves recs =
     (if bin < len then
        let end' = MinInt (bin + BinSize) len in
        if end' < bin then Some Panic
        else (case keccord_leaf K (drop (unat bin) (take (unat end') unrolled)) recs of (h, recs') \<Rightarrow>
          leaves_loop K unrolled len (bin + BinSize) (leaves @ [\<lparr>node_hash = h, node_size = end' - bin\<rparr>]) recs')
      else Some (Ok (leaves, recs)))"

definition pairNodes :: "(bytes \<Rightarrow> bytes) \<Rightarrow> node \<Rightarrow> node \<Rightarrow> records \<Rightarrow> node \<times> records" where
  "pairNodes K a b recs =
     (let sizeUnder = node_size a + node_size b;
          dataUnder = ConcatByteSlices [hash_bytes (node_hash a), hash_bytes (node_hash b), Uint32ToBytes sizeUnder]
      in case keccord K (NodeByte # dataUnder) recs of (h, recs') \<Rightarrow> (\<lparr>node_hash = h, node_size = sizeUnder\<rparr>, recs'))"

fun pairLayer :: "(bytes \<Rightarrow> bytes) \<Rightarrow> node list \<Rightarrow> records \<Rightarrow> node list \<times> records" where
  "pairLayer K (a # b # rest) recs =
     (case pairNodes K a b recs of (parent, recs1) \<Rightarrow>
      case pairLayer K rest recs1 of (paired, recs2) \<Rightarrow> (parent # paired, recs2))"
| "pairLayer K layer recs = (layer, recs)"

lemma length_pairLayer: "length (fst (pairLayer K layer recs)) = (length layer + 1) div 2"
  by (induction K layer recs rule: pairLayer.induct) (auto split: prod.splits)

function layers_loop :: "(bytes \<Rightarrow> bytes) \<Rightarrow> node list \<Rightarrow> records \<Rightarrow> node list \<times> records" where
  "layers_loop K layer recs =
     (if length layer > 1 then case pairLayer K layer recs of (paired, recs') \<Rightarrow> layers_loop K paired recs' else (layer, recs))"
  by pat_completeness auto
termination
proof (relation "measure (\<lambda>(K, layer, recs). length layer)")
  fix K layer recs paired recs'
  assume "1 < length layer" and "(paired, recs') = pairLayer K layer recs"
  with length_pairLayer [of K layer recs] have "length paired < length layer" by (cases "pairLayer K layer recs") auto
  then show "((K, paired, recs'), K, layer, recs) \<in> measure (\<lambda>(K :: bytes \<Rightarrow> bytes, layer :: node list, recs :: records). length layer)"
    by simp
qed simp

declare layers_loop.simps [simp del]

definition RecordHash :: "(bytes \<Rightarrow> bytes) \<Rightarrow> bytes list \<Rightarrow> (hash \<times> records) res option" where
  "RecordHash K preimage =
     (let unrolled = ConcatByteSlices preimage in
      if length unrolled = 0 then
        (case keccord_leaf K [] [] of (h, recs) \<Rightarrow> Some (Ok (FlipBit h 0, recs)))
      else
        (case leaves_loop K unrolled (of_nat (length unrolled)) 0 [] [] of
           None \<Rightarrow> None
         | Some r \<Rightarrow> Some (bindR r (\<lambda>(leaves, recs).
             case layers_loop K leaves recs of
               (n # _, recs') \<Rightarrow> Ok (FlipBit (node_hash n) 0, recs')
             | ([], recs') \<Rightarrow> Panic))))"

definition Hash :: "(bytes \<Rightarrow> bytes) \<Rightarrow> bytes list \<Rightarrow> hash res option" where
  "Hash K preimage = map_option (\<lambda>r. bindR r (\<lambda>(h, recs). Ok h)) (RecordHash K preimage)"

definition HashBytes :: "(bytes \<Rightarrow> bytes) \<Rightarrow> bytes list \<Rightarrow> bytes res option" where
  "HashBytes K preimage = map_option (\<lambda>r. bindR r (\<lambda>h. Ok (hash_bytes h))) (Hash K preimage)"

definition FlatHashToTreeLeaf :: "hash \<Rightarrow> bytes" where
  "FlatHashToTreeLeaf flat = LeafByte # hash_bytes flat"

definition FlatHashToTreeHash :: "(bytes \<Rightarrow> bytes) \<Rightarrow> hash \<Rightarrow> hash" where
  "FlatHashToTreeHash K flat = FlipBit (bytes_hash (K (FlatHashToTreeLeaf flat))) 0"

definition ValidHash :: "(bytes \<Rightarrow> bytes) \<Rightarrow> hash \<Rightarrow> bytes \<Rightarrow> bool res option" where
  "ValidHash K h preimage =
     map_option (\<lambda>r. bindR r (\<lambda>tree.
       Ok (h = tree \<or> (preimage \<noteq> [] \<and> hd preimage \<noteq> NodeByte \<and> hd preimage \<noteq> LeafByte \<and> h = bytes_hash (K preimage)))))
     (Hash K [preimage])"

section \<open>Recovering the preimage\<close>

definition unpeal :: "(hash \<Rightarrow> bytes res) \<Rightarrow> hash \<Rightarrow> (u8 \<times> bytes) res" where
  "unpeal oracle h =
     bindR (oracle h) (\<lambda>data.
       case data of [] \<Rightarrow> Err (ErrMsg ''invalid node'')
       | kind # rest \<Rightarrow>
           if (kind = LeafByte \<and> length data \<noteq> 33) \<or> (kind = NodeByte \<and> length data \<noteq> 69)
           then Err (ErrMsg ''invalid node for hash'') else Ok (kind, rest))"

definition node_children :: "u32 \<Rightarrow> bytes \<Rightarrow> node \<times> node" where
  "node_children n data =
     (let power = (ucast (NextOrCurrentPowerOf2 (ucast n)) :: u32) in
      (\<lparr>node_hash = bytes_hash (take 32 data), node_size = power div 2\<rparr>,
       \<lparr>node_hash = bytes_hash (take 32 (drop 32 data)), node_size = n - power div 2\<rparr>))"

text \<open>The walk with an explicit stack, its top at the front; it ends only if the preimages are finite trees.\<close>

partial_function (option) Content_loop :: "(hash \<Rightarrow> bytes res) \<Rightarrow> node list \<Rightarrow> node list \<Rightarrow> node list res option" where
  "Content_loop oracle stack leaves =
     (case stack of [] \<Rightarrow> Some (Ok leaves)
      | place # rest \<Rightarrow>
          (case unpeal oracle (node_hash place) of
             Err e \<Rightarrow> Some (Err e)
           | Panic \<Rightarrow> Some Panic
           | Ok (kind, data) \<Rightarrow>
               if kind = LeafByte then
                 Content_loop oracle rest (leaves @ [\<lparr>node_hash = bytes_hash data, node_size = node_size place\<rparr>])
               else if kind = NodeByte then
                 (case BytesToUint32 (drop 64 data) of
                    Err e \<Rightarrow> Some (Err e)
                  | Panic \<Rightarrow> Some Panic
                  | Ok n \<Rightarrow>
                      if node_size place \<noteq> n then Some (Err (ErrMsg ''invalid size data''))
                      else (case node_children n data of (prior, after) \<Rightarrow> Content_loop oracle (prior # after # rest) leaves))
               else Some (Err (ErrMsg ''failed to resolve preimage''))))"

primrec readBins :: "(hash \<Rightarrow> bytes res) \<Rightarrow> node list \<Rightarrow> bytes \<Rightarrow> bytes res" where
  "readBins oracle [] preimage = Ok preimage"
| "readBins oracle (leaf # leaves) preimage =
     bindR (oracle (node_hash leaf)) (\<lambda>bin.
       if length bin \<noteq> unat (node_size leaf) then Err (ErrMsg ''leaf has an incorrectly sized bin'')
       else readBins oracle leaves (preimage @ bin))"

definition Content :: "(bytes \<Rightarrow> bytes) \<Rightarrow> hash \<Rightarrow> (hash \<Rightarrow> bytes res) \<Rightarrow> bytes res option" where
  "Content K root oracle =
     (let start = FlipBit root 0 in
      case unpeal oracle start of
        Err e \<Rightarrow> Some (Err e)
      | Panic \<Rightarrow> Some Panic
      | Ok (kind, upper) \<Rightarrow>
          if kind = LeafByte then Some (oracle (bytes_hash upper))
          else if kind = NodeByte then
            (case BytesToUint32 (drop 64 upper) of
               Err e \<Rightarrow> Some (Err e)
             | Panic \<Rightarrow> Some Panic
             | Ok size' \<Rightarrow>
                 (case Content_loop oracle [\<lparr>node_hash = start, node_size = size'\<rparr>] [] of
                    None \<Rightarrow> None
                  | Some r \<Rightarrow>
                      (case bindR r (\<lambda>leaves. readBins oracle leaves []) of
                         Ok preimage \<Rightarrow>
                           map_option (\<lambda>h. bindR h (\<lambda>h. if h \<noteq> root then Err (ErrMsg ''preimage not canonically hashed'') else Ok preimage))
                             (Hash K [preimage])
                       | Err e \<Rightarrow> Some (Err e)
                       | Panic \<Rightarrow> Some Panic)))
          else Some (Err (ErrMsg ''unexpected root preimage of kind'')))"

section \<open>Trees of bins\<close>

datatype dtree = DLeaf bytes | DNode dtree dtree

primrec dsize :: "dtree \<Rightarrow> nat" where
  "dsize (DLeaf b) = length b"
| "dsize (DNode l r) = dsize l + dsize r"

primrec dflat :: "dtree \<Rightarrow> bytes" where
  "dflat (DLeaf b) = b"
| "dflat (DNode l r) = dflat l @ dflat r"

primrec dvalue :: "(bytes \<Rightarrow> bytes) \<Rightarrow> dtree \<Rightarrow> bytes" where
  "dvalue K (DLeaf b) = LeafByte # hash_bytes (bytes_hash (K b))"
| "dvalue K (DNode l r) = NodeByte # hash_bytes (bytes_hash (K (dvalue K l))) @ hash_bytes (bytes_hash (K (dvalue K r))) @
     Uint32ToBytes (of_nat (dsize l + dsize r))"

definition dnode :: "(bytes \<Rightarrow> bytes) \<Rightarrow> dtree \<Rightarrow> node" where
  "dnode K t = \<lparr>node_hash = bytes_hash (K (dvalue K t)), node_size = of_nat (dsize t)\<rparr>"

text \<open>The hashes with preimages that a reader of the tree needs, and the bins it finds.\<close>

primrec drecs :: "(bytes \<Rightarrow> bytes) \<Rightarrow> dtree \<Rightarrow> (hash \<times> bytes) set" where
  "drecs K (DLeaf b) = {(bytes_hash (K b), b), (bytes_hash (K (dvalue K (DLeaf b))), dvalue K (DLeaf b))}"
| "drecs K (DNode l r) = drecs K l \<union> drecs K r \<union> {(bytes_hash (K (dvalue K (DNode l r))), dvalue K (DNode l r))}"

primrec dbins :: "(bytes \<Rightarrow> bytes) \<Rightarrow> dtree \<Rightarrow> node list" where
  "dbins K (DLeaf b) = [\<lparr>node_hash = bytes_hash (K b), node_size = of_nat (length b)\<rparr>]"
| "dbins K (DNode l r) = dbins K l @ dbins K r"

text \<open>The left part of a node is the largest power of two below its size.\<close>

primrec dwf :: "dtree \<Rightarrow> bool" where
  "dwf (DLeaf b) \<longleftrightarrow> True"
| "dwf (DNode l r) \<longleftrightarrow> dwf l \<and> dwf r \<and> 0 < dsize r \<and> dsize r \<le> dsize l \<and> (\<exists>k. dsize l = 2 ^ k)"

lemma NextOrCurrentPowerOf2_split:
  assumes "2 ^ k < n" "n \<le> 2 ^ (k + 1)" "n \<le> 2 ^ 31"
  shows "unat (NextOrCurrentPowerOf2 (of_nat n)) = 2 ^ (k + 1)"
proof -
  have "(2 :: nat) ^ k < 2 ^ 31" using assms by linarith
  then have "k < 31" by (simp only: power_strict_increasing_iff)
  then have k: "(2 :: nat) ^ (k + 2) \<le> 2 ^ 32" by (intro power_increasing) auto
  have u: "unat (of_nat n :: u64) = n" using assms by (simp add: unat_of_nat)
  have np: "unat (NextPowerOf2 (of_nat n)) = 2 ^ bit_len n" using assms by (simp add: NextPowerOf2_unat u)
  have dbl: "unat (2 * of_nat n :: u64) = 2 * n" using assms u by (simp add: unat_times_mod)
  show ?thesis
  proof (cases "n = 2 ^ (k + 1)")
    case True
    have "bit_len n = k + 2"
      using bit_len_le_iff [of n "k + 2"] bit_len_le_iff [of n "k + 1"] True by simp
    then have "unat (NextPowerOf2 (of_nat n)) = unat (2 * of_nat n :: u64)" using np dbl True by simp
    then have "NextPowerOf2 (of_nat n) = 2 * of_nat n" by (simp only: word_eq_unat)
    then have "NextOrCurrentPowerOf2 (of_nat n) = 2 * of_nat n div 2" by (simp add: NextOrCurrentPowerOf2_def)
    then show ?thesis using dbl True by (simp add: unat_div)
  next
    case False
    have "bit_len n = k + 1"
      using bit_len_le_iff [of n "k + 1"] bit_len_le_iff [of n k] False assms by auto
    then have p: "unat (NextPowerOf2 (of_nat n)) = 2 ^ (k + 1)" using np by simp
    then have "NextPowerOf2 (of_nat n) \<noteq> 2 * of_nat n" using dbl assms by auto
    then show ?thesis using p by (simp add: NextOrCurrentPowerOf2_def)
  qed
qed

lemma node_children_split:
  assumes "dsize l = 2 ^ k" "0 < dsize r" "dsize r \<le> dsize l" "dsize l + dsize r \<le> 2 ^ 31" "length tl' = 4"
  shows "node_children (of_nat (dsize l + dsize r)) (hash_bytes a @ hash_bytes b @ tl') =
    (\<lparr>node_hash = a, node_size = of_nat (dsize l)\<rparr>, \<lparr>node_hash = b, node_size = of_nat (dsize r)\<rparr>)"
proof -
  let ?n = "dsize l + dsize r"
  have n: "unat (of_nat ?n :: u32) = ?n" using assms(4) by (simp add: unat_of_nat del: of_nat_add)
  then have "(ucast (of_nat ?n :: u32) :: u64) = of_nat ?n" by (simp add: word_eq_unat unat_ucast_bound unat_of_nat del: of_nat_add)
  moreover have "unat (NextOrCurrentPowerOf2 (of_nat ?n)) = 2 ^ (k + 1)"
    by (rule NextOrCurrentPowerOf2_split) (use assms in auto)
  ultimately have p: "unat (NextOrCurrentPowerOf2 (ucast (of_nat ?n :: u32))) = 2 * dsize l" using assms(1) by simp
  have "dsize l < 2 ^ 31" using assms(2,4) by linarith
  with p have "unat (ucast (NextOrCurrentPowerOf2 (ucast (of_nat ?n :: u32))) :: u32) = 2 * dsize l"
    by (simp add: unsigned_ucast_eq take_bit_nat_eq_self)
  then have "unat ((ucast (NextOrCurrentPowerOf2 (ucast (of_nat ?n :: u32))) :: u32) div 2) = dsize l" by (simp add: unat_div)
  then have h: "(ucast (NextOrCurrentPowerOf2 (ucast (of_nat ?n :: u32))) :: u32) div 2 = of_nat (dsize l)"
    using \<open>dsize l < 2 ^ 31\<close> by (simp add: word_eq_unat unat_of_nat)
  show ?thesis unfolding node_children_def Let_def h by (simp add: of_nat_add)
qed

lemma Content_loop_tree:
  assumes "dwf t" "dsize t \<le> 2 ^ 31" "\<forall>(h, v) \<in> drecs K t. oracle h = Ok v"
  shows "Content_loop oracle (dnode K t # stack) leaves = Content_loop oracle stack (leaves @ dbins K t)"
  using assms
proof (induction t arbitrary: stack leaves)
  case (DLeaf b)
  then have "unpeal oracle (node_hash (dnode K (DLeaf b))) = Ok (LeafByte, hash_bytes (bytes_hash (K b)))"
    by (simp add: unpeal_def dnode_def LeafByte_def NodeByte_def)
  then show ?case by (subst Content_loop.simps) (simp add: dnode_def)
next
  case (DNode l r)
  let ?n = "of_nat (dsize l + dsize r) :: u32"
  let ?d = "hash_bytes (bytes_hash (K (dvalue K l))) @ hash_bytes (bytes_hash (K (dvalue K r))) @ Uint32ToBytes ?n"
  have len4: "length (Uint32ToBytes ?n) = 4" by simp
  have "oracle (node_hash (dnode K (DNode l r))) = Ok (NodeByte # ?d)" using DNode.prems(3) by (simp add: dnode_def)
  then have up: "unpeal oracle (node_hash (dnode K (DNode l r))) = Ok (NodeByte, ?d)"
    by (simp add: unpeal_def LeafByte_def NodeByte_def)
  have sz: "BytesToUint32 (drop 64 ?d) = Ok ?n"
    using BytesToUint32_Uint32ToBytes [of ?n "[]"] by simp
  from DNode.prems(1) obtain k where "dsize l = 2 ^ k" by auto
  from node_children_split [OF this _ _ _ len4] DNode.prems have ch: "node_children ?n ?d = (dnode K l, dnode K r)"
    by (simp add: dnode_def)
  have "Content_loop oracle (dnode K (DNode l r) # stack) leaves = Content_loop oracle (dnode K l # dnode K r # stack) leaves"
    by (subst Content_loop.simps) (simp only: list.case up sz ch res.case prod.case, simp add: dnode_def LeafByte_def NodeByte_def)
  also have "\<dots> = Content_loop oracle stack (leaves @ dbins K (DNode l r))"
    using DNode by simp
  finally show ?case .
qed

lemma readBins_tree:
  assumes "dsize t \<le> 2 ^ 31" "\<forall>(h, v) \<in> drecs K t. oracle h = Ok v"
  shows "readBins oracle (dbins K t @ rest) pre = readBins oracle rest (pre @ dflat t)"
  using assms
proof (induction t arbitrary: rest pre)
  case (DLeaf b)
  then have "unat (of_nat (length b) :: u32) = length b" by (simp add: unat_of_nat)
  with DLeaf show ?case by simp
next
  case (DNode l r)
  from DNode.prems have "dsize l \<le> 2 ^ 31" "dsize r \<le> 2 ^ 31" by auto
  with DNode show ?case by simp
qed

section \<open>The layers\<close>

fun pairT :: "dtree list \<Rightarrow> dtree list" where
  "pairT (a # b # rest) = DNode a b # pairT rest"
| "pairT ts = ts"

text \<open>A layer of full trees of a power of two, the last of which may be smaller.\<close>

fun layer_ok :: "nat \<Rightarrow> dtree list \<Rightarrow> bool" where
  "layer_ok m [] \<longleftrightarrow> False"
| "layer_ok m [t] \<longleftrightarrow> dwf t \<and> 0 < dsize t \<and> dsize t \<le> 2 ^ m"
| "layer_ok m (t # ts) \<longleftrightarrow> dwf t \<and> dsize t = 2 ^ m \<and> layer_ok m ts"

lemma layer_ok_Cons: "ts \<noteq> [] \<Longrightarrow> layer_ok m (t # ts) \<longleftrightarrow> dwf t \<and> dsize t = 2 ^ m \<and> layer_ok m ts"
  by (cases ts) auto

lemma pairT_Nil [simp]: "pairT ts = [] \<longleftrightarrow> ts = []"
  by (cases ts rule: pairT.cases) auto

lemma layer_ok_first: "layer_ok m (t # ts) \<Longrightarrow> dwf t \<and> 0 < dsize t \<and> dsize t \<le> 2 ^ m"
  by (cases ts) auto

lemma layer_ok_pairT: "layer_ok m ts \<Longrightarrow> layer_ok (Suc m) (pairT ts)"
proof (induction ts rule: pairT.induct)
  case (1 a b rest)
  have a: "dwf a" "dsize a = 2 ^ m" and rest: "layer_ok m (b # rest)" using 1(2) by (simp_all add: layer_ok_Cons)
  from layer_ok_first [OF rest] have b: "dwf b" "0 < dsize b" "dsize b \<le> 2 ^ m" by auto
  show ?case
  proof (cases "rest = []")
    case True
    with a b show ?thesis by auto
  next
    case False
    with rest have "dsize b = 2 ^ m" "layer_ok m rest" by (simp_all add: layer_ok_Cons)
    with 1(1) a b False show ?thesis by (auto simp: layer_ok_Cons)
  qed
qed auto

lemma pairT_flat: "concat (map dflat (pairT ts)) = concat (map dflat ts)"
  by (induction ts rule: pairT.induct) auto

lemma pairT_size: "sum_list (map dsize (pairT ts)) = sum_list (map dsize ts)"
  by (induction ts rule: pairT.induct) auto

lemma pairLayer_trees:
  assumes "\<Union> (drecs K ` set ts) \<subseteq> set recs"
  shows "\<exists>recs'. pairLayer K (map (dnode K) ts) recs = (map (dnode K) (pairT ts), recs') \<and> set recs \<subseteq> set recs' \<and>
    \<Union> (drecs K ` set (pairT ts)) \<subseteq> set recs'"
  using assms
proof (induction ts arbitrary: recs rule: pairT.induct)
  case (1 a b rest)
  let ?recs = "recs @ [(bytes_hash (K (dvalue K (DNode a b))), dvalue K (DNode a b))]"
  have "pairNodes K (dnode K a) (dnode K b) recs = (dnode K (DNode a b), ?recs)"
    by (simp add: pairNodes_def dnode_def keccord_def Let_def)
  moreover have "\<Union> (drecs K ` set rest) \<subseteq> set ?recs" using 1(2) by auto
  from 1(1) [OF this] obtain recs' where "pairLayer K (map (dnode K) rest) ?recs = (map (dnode K) (pairT rest), recs')"
    "set ?recs \<subseteq> set recs'" "\<Union> (drecs K ` set (pairT rest)) \<subseteq> set recs'" by blast
  ultimately show ?case using 1(2) by auto
qed auto

lemma layers_loop_trees:
  assumes "layer_ok m ts" "\<Union> (drecs K ` set ts) \<subseteq> set recs"
  shows "\<exists>t recs'. layers_loop K (map (dnode K) ts) recs = ([dnode K t], recs') \<and> dwf t \<and>
    dflat t = concat (map dflat ts) \<and> dsize t = sum_list (map dsize ts) \<and> set recs \<subseteq> set recs' \<and> drecs K t \<subseteq> set recs'"
  using assms
proof (induction "length ts" arbitrary: m ts recs rule: less_induct)
  case less
  show ?case
  proof (cases "length ts > 1")
    case False
    with less.prems(1) obtain t where "ts = [t]" by (cases ts rule: pairT.cases) auto
    with less.prems show ?thesis by (subst layers_loop.simps) auto
  next
    case True
    from pairLayer_trees [OF less.prems(2)] obtain recs1 where p: "pairLayer K (map (dnode K) ts) recs = (map (dnode K) (pairT ts), recs1)"
      "set recs \<subseteq> set recs1" "\<Union> (drecs K ` set (pairT ts)) \<subseteq> set recs1" by blast
    have "length (pairT ts) = (length ts + 1) div 2" using length_pairLayer [of K "map (dnode K) ts" recs] p(1) by simp
    with True have "length (pairT ts) < length ts" by auto
    from less.hyps [OF this layer_ok_pairT [OF less.prems(1)] p(3)] obtain t recs' where
      t: "layers_loop K (map (dnode K) (pairT ts)) recs1 = ([dnode K t], recs')" "dwf t" "dflat t = concat (map dflat ts)"
        "dsize t = sum_list (map dsize ts)" "set recs1 \<subseteq> set recs'" "drecs K t \<subseteq> set recs'"
      by (auto simp: pairT_flat pairT_size)
    have "layers_loop K (map (dnode K) ts) recs = ([dnode K t], recs')"
      using True p(1) t(1) by (subst layers_loop.simps) simp
    with t(2-6) p(2) show ?thesis by blast
  qed
qed

section \<open>The bins\<close>

function chunks :: "bytes \<Rightarrow> bytes list" where
  "chunks u = (if u = [] then [] else take 65536 u # chunks (drop 65536 u))"
  by pat_completeness auto
termination
  by (relation "measure length") simp_all

declare chunks.simps [simp del]

lemma concat_chunks: "concat (chunks u) = u"
  by (induction u rule: chunks.induct) (subst chunks.simps, simp)

lemma layer_ok_chunks: "u \<noteq> [] \<Longrightarrow> layer_ok 16 (map DLeaf (chunks u))"
proof (induction u rule: chunks.induct)
  case (1 u)
  show ?case
  proof (cases "drop 65536 u = []")
    case True
    then show ?thesis using 1(2) by (subst chunks.simps) (simp add: chunks.simps [of "[]"])
  next
    case False
    then have "chunks (drop 65536 u) \<noteq> []" by (subst chunks.simps) simp
    moreover have "layer_ok 16 (map DLeaf (chunks (drop 65536 u)))" using 1 False by blast
    ultimately show ?thesis using 1(2) False by (subst chunks.simps) (simp add: layer_ok_Cons)
  qed
qed

lemma keccord_leaf_tree:
  "keccord_leaf K b recs = (bytes_hash (K (dvalue K (DLeaf b))),
     recs @ [(bytes_hash (K b), b), (bytes_hash (K (dvalue K (DLeaf b))), dvalue K (DLeaf b))])"
  by (simp add: keccord_leaf_def keccord_def Let_def)

lemma leaves_loop_chunks:
  assumes "length u \<le> 2 ^ 31" "bin \<le> length u + 65535" "\<Union> (drecs K ` set ts) \<subseteq> set recs"
  shows "\<exists>recs'. leaves_loop K u (of_nat (length u)) (of_nat bin) (map (dnode K) ts) recs =
      Some (Ok (map (dnode K) (ts @ map DLeaf (chunks (drop bin u))), recs')) \<and>
    \<Union> (drecs K ` set (ts @ map DLeaf (chunks (drop bin u)))) \<subseteq> set recs'"
  using assms
proof (induction "length u - bin" arbitrary: bin ts recs rule: less_induct)
  case less
  have u: "unat (of_nat (length u) :: u32) = length u" "unat (of_nat bin :: u32) = bin"
    using less.prems by (simp_all add: unat_of_nat)
  show ?case
  proof (cases "bin < length u")
    case False
    then have "drop bin u = []" by simp
    with False u less.prems(3) show ?thesis
      by (subst leaves_loop.simps) (simp add: word_less_nat_alt chunks.simps [of "[]"])
  next
    case True
    let ?stop = "min (bin + 65536) (length u)"
    let ?b = "take 65536 (drop bin u)"
    have nx: "of_nat bin + BinSize = (of_nat (bin + 65536) :: u32)" by (simp add: BinSize_def)
    have nxu: "unat (of_nat (bin + 65536) :: u32) = bin + 65536" using True less.prems(1) by (simp add: unat_of_nat del: of_nat_add)
    have e: "MinInt (of_nat (bin + 65536)) (of_nat (length u)) = (of_nat ?stop :: u32)"
      by (simp add: MinInt_def word_less_nat_alt nxu u min_def del: of_nat_add)
    have eu: "unat (of_nat ?stop :: u32) = ?stop" using less.prems(1) by (simp add: unat_of_nat del: of_nat_add)
    have b: "drop bin (take ?stop u) = ?b" using True by (simp add: min_def drop_take)
    have "length ?b = ?stop - bin" "bin \<le> ?stop" using True by auto
    then have sz: "of_nat ?stop - of_nat bin = (of_nat (length ?b) :: u32)" by (simp only: of_nat_diff)
    have le: "(?stop < bin) = False" using True by simp
    let ?recs = "recs @ [(bytes_hash (K ?b), ?b), (bytes_hash (K (dvalue K (DLeaf ?b))), dvalue K (DLeaf ?b))]"
    have "leaves_loop K u (of_nat (length u)) (of_nat bin) (map (dnode K) ts) recs =
        leaves_loop K u (of_nat (length u)) (of_nat (bin + 65536)) (map (dnode K) (ts @ [DLeaf ?b])) ?recs"
      using True u by (subst leaves_loop.simps)
        (simp add: word_less_nat_alt nx e eu le b sz keccord_leaf_tree dnode_def Let_def del: of_nat_add dvalue.simps)
    moreover have "\<Union> (drecs K ` set (ts @ [DLeaf ?b])) \<subseteq> set ?recs" using less.prems(3) by auto
    moreover have "length u - (bin + 65536) < length u - bin" "bin + 65536 \<le> length u + 65535" using True by simp_all
    moreover have "chunks (drop bin u) = ?b # chunks (drop (bin + 65536) u)" using True by (subst chunks.simps) (simp add: add.commute)
    ultimately show ?thesis using less.hyps [of "bin + 65536" "ts @ [DLeaf ?b]" ?recs] less.prems(1) by simp
  qed
qed

lemma FlipBit_0_involution: "FlipBit (FlipBit h 0) 0 = h"
proof -
  let ?bs = "hash_bytes h" and ?m = "push_bit (unat (7 :: u8)) 1 :: u8"
  have "hash_bytes (FlipBit h 0) = ?bs[0 := ?bs ! 0 XOR ?m]" by (simp add: FlipBit_def Let_def hash_bytes_inverse)
  then have "FlipBit (FlipBit h 0) 0 = bytes_hash (?bs[0 := (?bs ! 0 XOR ?m) XOR ?m])"
    by (simp add: FlipBit_def [of "FlipBit h 0"] Let_def)
  also have "(?bs ! 0 XOR ?m) XOR ?m = ?bs ! 0" by (simp add: xor.assoc)
  finally show ?thesis by simp
qed

lemma RecordHash_tree:
  assumes "0 < length data" "length data \<le> 2 ^ 31"
  shows "\<exists>t recs. RecordHash K [data] = Some (Ok (FlipBit (bytes_hash (K (dvalue K t))) 0, recs)) \<and>
    dwf t \<and> dflat t = data \<and> dsize t = length data \<and> drecs K t \<subseteq> set recs"
proof -
  have "length data \<noteq> 0" using assms(1) by simp
  from leaves_loop_chunks [OF assms(2), of 0 K "[]" "[]"] obtain recs where leaves:
    "leaves_loop K data (of_nat (length data)) 0 [] [] = Some (Ok (map (dnode K) (map DLeaf (chunks data)), recs))"
    "\<Union> (drecs K ` set (map DLeaf (chunks data))) \<subseteq> set recs" by auto
  have "layer_ok 16 (map DLeaf (chunks data))" using assms(1) by (intro layer_ok_chunks) auto
  from layers_loop_trees [OF this leaves(2)] obtain t recs' where t: "layers_loop K (map (dnode K) (map DLeaf (chunks data))) recs = ([dnode K t], recs')"
    "dwf t" "dflat t = concat (map dflat (map DLeaf (chunks data)))" "dsize t = sum_list (map dsize (map DLeaf (chunks data)))" "drecs K t \<subseteq> set recs'"
    by blast
  have "dflat t = data" using t(3) by (simp add: comp_def concat_chunks)
  moreover have "dsize t = length (concat (chunks data))" using t(4) by (simp add: comp_def length_concat)
  moreover have "RecordHash K [data] = Some (Ok (FlipBit (bytes_hash (K (dvalue K t))) 0, recs'))"
    using leaves(1) t(1) \<open>length data \<noteq> 0\<close> by (simp add: RecordHash_def Let_def dnode_def)
  ultimately show ?thesis using t(2,5) by (auto simp: concat_chunks)
qed

text \<open>
  C9. A batch can be recovered from its root: hashing a batch of at most 2 GB ends with a root and the recorded
  preimages, and the reader, with any oracle that answers for these, ends and returns the batch.
\<close>

theorem dastree_roundtrip:
  assumes "length data \<le> 2 ^ 31"
  shows "\<exists>root recs. RecordHash K [data] = Some (Ok (root, recs)) \<and>
    (\<forall>oracle. (\<forall>(h, v) \<in> set recs. oracle h = Ok v) \<longrightarrow> Content K root oracle = Some (Ok data))"
proof (cases "length data = 0")
  case True
  have "RecordHash K [data] = Some (Ok (FlipBit (bytes_hash (K (dvalue K (DLeaf [])))) 0,
      [(bytes_hash (K []), []), (bytes_hash (K (dvalue K (DLeaf []))), dvalue K (DLeaf []))]))"
    using True by (simp add: RecordHash_def keccord_leaf_tree del: dvalue.simps)
  then show ?thesis
    using True by (simp add: Content_def unpeal_def Let_def FlipBit_0_involution LeafByte_def NodeByte_def)
next
  case False
  then have "0 < length data" by simp
  from RecordHash_tree [OF this assms, of K] obtain t recs where t:
    "RecordHash K [data] = Some (Ok (FlipBit (bytes_hash (K (dvalue K t))) 0, recs))" "dwf t" "dflat t = data" "dsize t = length data"
    "drecs K t \<subseteq> set recs" by blast
  have "Content K (FlipBit (bytes_hash (K (dvalue K t))) 0) ask = Some (Ok data)" if "\<forall>(h, v) \<in> set recs. ask h = Ok v" for ask
  proof -
    have orc: "\<forall>(h, v) \<in> drecs K t. ask h = Ok v" using that t(5) by blast
    show ?thesis
    proof (cases t)
      case (DLeaf b)
      with orc t(3) show ?thesis by (simp add: Content_def unpeal_def Let_def FlipBit_0_involution LeafByte_def NodeByte_def)
    next
      case (DNode l r)
      let ?n = "of_nat (dsize l + dsize r) :: u32"
      let ?d = "hash_bytes (bytes_hash (K (dvalue K l))) @ hash_bytes (bytes_hash (K (dvalue K r))) @ Uint32ToBytes ?n"
      have up: "unpeal ask (bytes_hash (K (dvalue K t))) = Ok (NodeByte, ?d)"
        using orc DNode by (simp add: unpeal_def LeafByte_def NodeByte_def)
      have sz: "BytesToUint32 (Uint32ToBytes ?n) = Ok ?n" using BytesToUint32_Uint32ToBytes [of ?n "[]"] by (simp del: of_nat_add)
      have start: "\<lparr>node_hash = bytes_hash (K (dvalue K t)), node_size = ?n\<rparr> = dnode K t" using DNode by (simp add: dnode_def)
      have "dsize t \<le> 2 ^ 31" using t(4) assms by simp
      from Content_loop_tree [OF t(2) this orc, of "[]" "[]"] have walk: "Content_loop ask [dnode K t] [] = Some (Ok (dbins K t))"
        by (simp add: Content_loop.simps [of ask "[]"])
      from readBins_tree [OF \<open>dsize t \<le> 2 ^ 31\<close> orc, of "[]" "[]"] t(3) have bins: "readBins ask (dbins K t) [] = Ok data" by simp
      have "Hash K [data] = Some (Ok (FlipBit (bytes_hash (K (dvalue K t))) 0))" using t(1) by (simp add: Hash_def)
      then show ?thesis
        by (simp add: Content_def Let_def FlipBit_0_involution up sz start walk bins LeafByte_def NodeByte_def del: of_nat_add)
    qed
  qed
  with t(1) show ?thesis by blast
qed

definition lenK :: "bytes \<Rightarrow> bytes" where
  "lenK bs = [of_nat (length bs)]"

theorem dastree_roundtrip_witness:
  "\<exists>root recs. RecordHash lenK [[1, 2, 3]] = Some (Ok (root, recs)) \<and>
     Content lenK root (\<lambda>h. if h = 3 then Ok [1, 2, 3] else Ok (LeafByte # hash_bytes 3)) = Some (Ok [1, 2, 3])"
proof -
  let ?ask = "\<lambda>h. if h = 3 then Ok [1, 2, 3] else Ok (LeafByte # hash_bytes 3)"
  have "length [1 :: u8, 2, 3] \<le> 2 ^ 31" by simp
  from dastree_roundtrip [OF this, of lenK] obtain root recs where r: "RecordHash lenK [[1, 2, 3]] = Some (Ok (root, recs))"
    "\<forall>orc. (\<forall>(h, v) \<in> set recs. orc h = Ok v) \<longrightarrow> Content lenK root orc = Some (Ok [1, 2, 3])" by blast
  have h: "bytes_hash (lenK [1, 2, 3]) = 3" "bytes_hash (lenK (LeafByte # hash_bytes 3)) = 33" by (simp_all add: lenK_def bytes_hash_def be_nat_def)
  have "recs = [(3, [1, 2, 3]), (33, LeafByte # hash_bytes 3)]"
    using r(1) by (simp add: RecordHash_def leaves_loop.simps layers_loop.simps BinSize_def MinInt_def Let_def keccord_leaf_def keccord_def h)
  with r show ?thesis by auto
qed

end
