(* ===== verification/ArbosState.thy ===== *)
theory ArbosState
  imports L1Pricing Retryables AddressTable Blockhash MerkleAccumulator Programs IncomingMessage
begin

text \<open>
  \<^verbatim>\<open>arbos/arbosState/arbosstate.go\<close>: the state of ArbOS as one record of the components' handles, each opened
  on its own subspace of the root storage, with its initialization, its upgrades and its accessors. The
  lists of active precompiles are go-ethereum's and parameters of the chain configuration. The lemmas show
  that the subspaces do not overlap, what an initialized state holds, and what an upgrade changes.
\<close>

section \<open>Burners of a call\<close>

text \<open>
  \<^verbatim>\<open>x, err := f(); Restrict(err)\<close>: the call carries on with the zero value after an error, unless the burner
  refuses access-controlled work.
\<close>

definition restrictM :: "'a \<Rightarrow> 'a arb \<Rightarrow> 'a arb" where
  "restrictM z m w =
     (case m w of
        (Ok x, w') \<Rightarrow> thenM (Restrict None) (returnM x) w'
      | (Err e, w') \<Rightarrow> thenM (Restrict (Some e)) (returnM z) w'
      | (Panic, w') \<Rightarrow> (Panic, w'))"

text \<open>A caller that panics on an error.\<close>

definition ensureM :: "'a arb \<Rightarrow> 'a arb" where
  "ensureM m w = (case m w of (Err e, w') \<Rightarrow> (Panic, w') | rw \<Rightarrow> rw)"

text \<open>A call under a burner of its own; the burner before it is the burner after it.\<close>

definition withBurner :: "burner \<Rightarrow> 'a arb \<Rightarrow> 'a arb" where
  "withBurner b m w = (case m (w\<lparr>w_burner := b\<rparr>) of (r, w') \<Rightarrow> (r, w'\<lparr>w_burner := w_burner w\<rparr>))"

section \<open>The state\<close>

record ArbosState =
  st_arbosVersion :: u64
  st_upgradeVersion :: StorageSlot
  st_upgradeTimestamp :: StorageSlot
  st_networkFeeAccount :: StorageSlot
  st_l1PricingState :: L1PricingState
  st_l2PricingState :: L2PricingState
  st_retryableState :: RetryableState
  st_addressTable :: AddressTable
  st_chainOwners :: AddressSet
  st_sendMerkle :: "world backend"
  st_programs :: Programs
  st_blockhashes :: Blockhashes
  st_chainId :: StorageSlot
  st_chainConfig :: Storage
  st_genesisBlockNum :: StorageSlot
  st_infraFeeAccount :: StorageSlot
  st_brotliCompressionLevel :: StorageSlot
  st_backingStorage :: Storage

definition ErrUninitializedArbOS :: go_error where "ErrUninitializedArbOS = ErrMsg ''ArbOS uninitialized''"
definition ErrAlreadyInitialized :: go_error where "ErrAlreadyInitialized = ErrMsg ''ArbOS is already initialized''"

definition versionOffset :: u64 where "versionOffset = 0"
definition upgradeVersionOffset :: u64 where "upgradeVersionOffset = 1"
definition upgradeTimestampOffset :: u64 where "upgradeTimestampOffset = 2"
definition networkFeeAccountOffset :: u64 where "networkFeeAccountOffset = 3"
definition chainIdOffset :: u64 where "chainIdOffset = 4"
definition genesisBlockNumOffset :: u64 where "genesisBlockNumOffset = 5"
definition infraFeeAccountOffset :: u64 where "infraFeeAccountOffset = 6"
definition brotliCompressionLevelOffset :: u64 where "brotliCompressionLevelOffset = 7"

definition l1PricingSubspace :: bytes where "l1PricingSubspace = [0]"
definition l2PricingSubspace :: bytes where "l2PricingSubspace = [1]"
definition retryablesSubspace :: bytes where "retryablesSubspace = [2]"
definition addressTableSubspace :: bytes where "addressTableSubspace = [3]"
definition chainOwnerSubspace :: bytes where "chainOwnerSubspace = [4]"
definition sendMerkleSubspace :: bytes where "sendMerkleSubspace = [5]"
definition blockhashesSubspace :: bytes where "blockhashesSubspace = [6]"
definition chainConfigSubspace :: bytes where "chainConfigSubspace = [7]"
definition programsSubspace :: bytes where "programsSubspace = [8]"

definition OpenArbosState :: "(bytes \<Rightarrow> bytes) \<Rightarrow> ArbosState arb" where
  "OpenArbosState K =
     bindM NewGeth (\<lambda>backingStorage.
     bindM (GetUint64ByUint64 K backingStorage versionOffset) (\<lambda>arbosVersion.
       if arbosVersion = 0 then failM ErrUninitializedArbOS else
       returnM
         \<lparr>st_arbosVersion = arbosVersion,
          st_upgradeVersion = OpenStorageBackedUint64 K backingStorage upgradeVersionOffset,
          st_upgradeTimestamp = OpenStorageBackedUint64 K backingStorage upgradeTimestampOffset,
          st_networkFeeAccount = OpenStorageBackedAddress K backingStorage networkFeeAccountOffset,
          st_l1PricingState = OpenL1PricingState K (OpenCachedSubStorage K backingStorage l1PricingSubspace),
          st_l2PricingState = OpenL2PricingState K (OpenCachedSubStorage K backingStorage l2PricingSubspace),
          st_retryableState = OpenRetryableState K (OpenCachedSubStorage K backingStorage retryablesSubspace),
          st_addressTable = AddressTable_Open K (OpenCachedSubStorage K backingStorage addressTableSubspace),
          st_chainOwners = OpenAddressSet K (OpenCachedSubStorage K backingStorage chainOwnerSubspace),
          st_sendMerkle = stored_acc K (OpenCachedSubStorage K backingStorage sendMerkleSubspace),
          st_programs = Programs_Open K (OpenSubStorage K backingStorage programsSubspace),
          st_blockhashes = OpenBlockhashes K (OpenCachedSubStorage K backingStorage blockhashesSubspace),
          st_chainId = OpenStorageBackedBigInt K backingStorage chainIdOffset,
          st_chainConfig = OpenStorageBackedBytes K backingStorage chainConfigSubspace,
          st_genesisBlockNum = OpenStorageBackedUint64 K backingStorage genesisBlockNumOffset,
          st_infraFeeAccount = OpenStorageBackedAddress K backingStorage infraFeeAccountOffset,
          st_brotliCompressionLevel = OpenStorageBackedUint64 K backingStorage brotliCompressionLevelOffset,
          st_backingStorage = backingStorage\<rparr>))"

text \<open>Opening the system's state puts a fresh unmetered burner in charge.\<close>

definition OpenSystemArbosState :: "(bytes \<Rightarrow> bytes) \<Rightarrow> bool \<Rightarrow> ArbosState arb" where
  "OpenSystemArbosState K readOnly w =
     (case OpenArbosState K (w\<lparr>w_burner := BSystem (NewSystemBurner readOnly)\<rparr>) of
        (Ok newState, w') \<Rightarrow> thenM (Restrict None) (returnM newState) w'
      | (Err e, w') \<Rightarrow> thenM (Restrict (Some e)) (failM e) w'
      | (Panic, w') \<Rightarrow> (Panic, w'))"

definition OpenSystemArbosStateOrPanic :: "(bytes \<Rightarrow> bytes) \<Rightarrow> bool \<Rightarrow> ArbosState arb" where
  "OpenSystemArbosStateOrPanic K readOnly = ensureM (OpenSystemArbosState K readOnly)"

text \<open>The version in storage; \<^verbatim>\<open>log.Crit\<close> ends the process.\<close>

definition ArbOSVersion :: "(bytes \<Rightarrow> bytes) \<Rightarrow> u64 arb" where
  "ArbOSVersion K =
     withBurner (BSystem (NewSystemBurner False))
       (bindM NewGeth (\<lambda>backingStorage. ensureM (GetUint64ByUint64 K backingStorage versionOffset)))"

section \<open>Accessors\<close>

definition ScheduleArbOSUpgrade :: "ArbosState \<Rightarrow> u64 \<Rightarrow> u64 \<Rightarrow> unit arb" where
  "ScheduleArbOSUpgrade st newVersion timestamp =
     thenM (StorageBackedUint64_Set (st_upgradeVersion st) newVersion)
       (StorageBackedUint64_Set (st_upgradeTimestamp st) timestamp)"

definition GetScheduledUpgrade :: "ArbosState \<Rightarrow> (u64 \<times> u64) arb" where
  "GetScheduledUpgrade st =
     bindM (StorageBackedUint64_Get (st_upgradeVersion st)) (\<lambda>version.
     bindM (StorageBackedUint64_Get (st_upgradeTimestamp st)) (\<lambda>timestamp. returnM (version, timestamp)))"

definition SetFormatVersion :: "(bytes \<Rightarrow> bytes) \<Rightarrow> ArbosState \<Rightarrow> u64 \<Rightarrow> ArbosState arb" where
  "SetFormatVersion K st val =
     thenM (restrictM () (SetUint64ByUint64 K (st_backingStorage st) versionOffset val))
       (returnM (st\<lparr>st_arbosVersion := val\<rparr>))"

definition BrotliCompressionLevel :: "ArbosState \<Rightarrow> u64 arb" where
  "BrotliCompressionLevel st = StorageBackedUint64_Get (st_brotliCompressionLevel st)"

text \<open>\<^verbatim>\<open>arbcompress.LEVEL_WELL\<close>.\<close>

definition LEVEL_WELL :: u64 where "LEVEL_WELL = 11"

definition SetBrotliCompressionLevel :: "ArbosState \<Rightarrow> u64 \<Rightarrow> unit arb" where
  "SetBrotliCompressionLevel st val =
     (if val \<le> LEVEL_WELL then StorageBackedUint64_Set (st_brotliCompressionLevel st) val
      else failM (ErrMsg ''invalid brotli compression level''))"

definition NetworkFeeAccount :: "ArbosState \<Rightarrow> address arb" where
  "NetworkFeeAccount st = StorageBackedAddress_Get (st_networkFeeAccount st)"

definition SetNetworkFeeAccount :: "ArbosState \<Rightarrow> address \<Rightarrow> unit arb" where
  "SetNetworkFeeAccount st account = StorageBackedAddress_Set (st_networkFeeAccount st) account"

definition InfraFeeAccount :: "ArbosState \<Rightarrow> address arb" where
  "InfraFeeAccount st = StorageBackedAddress_Get (st_infraFeeAccount st)"

definition SetInfraFeeAccount :: "ArbosState \<Rightarrow> address \<Rightarrow> unit arb" where
  "SetInfraFeeAccount st account = StorageBackedAddress_Set (st_infraFeeAccount st) account"

definition ArbosState_ChainId :: "ArbosState \<Rightarrow> int arb" where
  "ArbosState_ChainId st = StorageBackedBigInt_Get (st_chainId st)"

definition ArbosState_ChainConfig :: "(bytes \<Rightarrow> bytes) \<Rightarrow> ArbosState \<Rightarrow> bytes arb" where
  "ArbosState_ChainConfig K st = StorageBackedBytes_Get K (st_chainConfig st)"

definition SetChainConfig :: "(bytes \<Rightarrow> bytes) \<Rightarrow> ArbosState \<Rightarrow> bytes \<Rightarrow> unit arb" where
  "SetChainConfig K st serializedChainConfig = StorageBackedBytes_Set K (st_chainConfig st) serializedChainConfig"

definition ArbosState_GenesisBlockNum :: "ArbosState \<Rightarrow> u64 arb" where
  "ArbosState_GenesisBlockNum st = StorageBackedUint64_Get (st_genesisBlockNum st)"

section \<open>Upgrades\<close>

definition ErrFatalNodeOutOfDate :: go_error where
  "ErrFatalNodeOutOfDate = ErrMsg ''please upgrade to the latest version of the node software''"

text \<open>The state changes of one version, or \<open>None\<close> where the node does not know the version.\<close>

definition upgradeStep :: "(bytes \<Rightarrow> bytes) \<Rightarrow> ArbosState \<Rightarrow> bool \<Rightarrow> u64 \<Rightarrow> unit arb option" where
  "upgradeStep K st firstTime nextArbosVersion =
     (let l1 = st_l1PricingState st in
      if nextArbosVersion = 2 then Some (ensureM (SetLastSurplus l1 0 1))
      else if nextArbosVersion = 3 then
        Some (thenM (ensureM (SetPerBatchGasCost l1 0)) (ensureM (SetAmortizedCostCapBips l1 (- 1))))
      else if 4 \<le> nextArbosVersion \<and> nextArbosVersion \<le> 9 then Some (returnM ())
      else if nextArbosVersion = 10 then
        Some (bindM (GetBalance L1PricerFundsPoolAddress) (\<lambda>balance. ensureM (SetL1FeesAvailable l1 balance)))
      else if nextArbosVersion = 11 then
        Some (thenM (ensureM (SetPerBatchGasCost l1 InitialPerBatchGasCostV12))
             (bindM (ensureM (AmortizedCostCapBips l1)) (\<lambda>oldAmortizationCap.
              thenM (if oldAmortizationCap = - 1 then ensureM (SetAmortizedCostCapBips l1 0) else returnM ())
                (if \<not> firstTime then ensureM (AddressSet_ClearList K (st_chainOwners st)) else returnM ()))))
      else if nextArbosVersion = 20 then
        Some (thenM (ensureM (SetBrotliCompressionLevel st 1))
                (Programs_Initialize K (OpenSubStorage K (st_backingStorage st) programsSubspace)))
      else if 12 \<le> nextArbosVersion \<and> nextArbosVersion \<le> 19 then Some (returnM ())
      else None)"

lemma unat_succ_less:
  assumes "(x :: u64) < y"
  shows "unat (x + 1) = unat x + 1"
proof -
  have "unat x + 1 < 18446744073709551616" using assms unat_u64_bound [of y] unfolding word_less_nat_alt by linarith
  then show ?thesis by (simp add: unat_plus_mod)
qed

text \<open>The loop returns the state with the version it reached, and the error if it met an unknown one.\<close>

function UpgradeArbosVersion_loop ::
  "(bytes \<Rightarrow> bytes) \<Rightarrow> bool \<Rightarrow> u64 \<Rightarrow> ArbosState \<Rightarrow> (ArbosState \<times> go_error option) arb" where
  "UpgradeArbosVersion_loop K firstTime upgradeTo st =
     (if st_arbosVersion st < upgradeTo then
        (case upgradeStep K st firstTime (st_arbosVersion st + 1) of
           None \<Rightarrow> returnM (st, Some ErrFatalNodeOutOfDate)
         | Some step \<Rightarrow>
             thenM step (UpgradeArbosVersion_loop K firstTime upgradeTo (st\<lparr>st_arbosVersion := st_arbosVersion st + 1\<rparr>)))
      else returnM (st, None))"
  by pat_completeness auto
termination
proof (relation "measure (\<lambda>(K, firstTime, upgradeTo, st). unat upgradeTo - unat (st_arbosVersion st))", goal_cases)
  case (2 K firstTime upgradeTo st step)
  then have "unat (st_arbosVersion st + 1) = unat (st_arbosVersion st) + 1" "unat (st_arbosVersion st) < unat upgradeTo"
    by (simp_all add: unat_succ_less word_less_nat_alt)
  then show ?case by simp
qed simp

declare UpgradeArbosVersion_loop.simps [simp del]

definition UpgradeArbosVersion ::
  "(bytes \<Rightarrow> bytes) \<Rightarrow> ArbosState \<Rightarrow> u64 \<Rightarrow> bool \<Rightarrow> (ArbosState \<times> go_error option) arb" where
  "UpgradeArbosVersion K st upgradeTo firstTime =
     bindM (UpgradeArbosVersion_loop K firstTime upgradeTo st) (\<lambda>(st', err).
       case err of Some e \<Rightarrow> returnM (st', Some e)
       | None \<Rightarrow>
           thenM (if firstTime \<and> upgradeTo \<ge> 6 then
                    thenM (if upgradeTo < 11 then restrictM () (SetPerBatchGasCost (st_l1PricingState st') InitialPerBatchGasCostV6)
                           else returnM ())
                   (thenM (restrictM () (SetEquilibrationUnits (st_l1PricingState st') InitialEquilibrationUnitsV6))
                   (thenM (restrictM () (SetSpeedLimitPerSecond (st_l2PricingState st') InitialSpeedLimitPerSecondV6))
                      (restrictM () (SetMaxPerBlockGasLimit (st_l2PricingState st') InitialPerBlockGasLimitV6))))
                  else returnM ())
          (thenM (restrictM () (SetUint64ByUint64 K (st_backingStorage st') versionOffset (st_arbosVersion st')))
             (returnM (st', None))))"

definition UpgradeArbosVersionIfNecessary ::
  "(bytes \<Rightarrow> bytes) \<Rightarrow> ArbosState \<Rightarrow> u64 \<Rightarrow> (ArbosState \<times> go_error option) arb" where
  "UpgradeArbosVersionIfNecessary K st currentTimestamp =
     bindM (restrictM 0 (StorageBackedUint64_Get (st_upgradeVersion st))) (\<lambda>upgradeTo.
     bindM (orM 0 (StorageBackedUint64_Get (st_upgradeTimestamp st))) (\<lambda>flagday.
       if st_arbosVersion st < upgradeTo \<and> currentTimestamp \<ge> flagday
       then UpgradeArbosVersion K st upgradeTo False
       else returnM (st, None)))"

section \<open>Initialization\<close>

text \<open>What the chain configuration says, with go-ethereum's lists of precompiles active with and without Arbitrum.\<close>

record ChainParams =
  cfg_InitialArbOSVersion :: u64
  cfg_InitialChainOwner :: address
  cfg_GenesisBlockNum :: u64
  cfg_ChainID :: int
  cfg_arbPrecompiles :: "address list"
  cfg_ethPrecompiles :: "address list"

definition getArbitrumOnlyGenesisPrecompiles :: "ChainParams \<Rightarrow> address list" where
  "getArbitrumOnlyGenesisPrecompiles cfg = filter (\<lambda>addr. addr \<notin> set (cfg_ethPrecompiles cfg)) (cfg_arbPrecompiles cfg)"

text \<open>The state database keeps the hash of an account's code.\<close>

definition SetCode :: "(bytes \<Rightarrow> bytes) \<Rightarrow> address \<Rightarrow> bytes \<Rightarrow> unit arb" where
  "SetCode K addr code w = (Ok (), w\<lparr>w_codeHash := (w_codeHash w)(addr := bytes_hash (K code))\<rparr>)"

primrec SetCode_loop :: "(bytes \<Rightarrow> bytes) \<Rightarrow> address list \<Rightarrow> unit arb" where
  "SetCode_loop K [] = returnM ()"
| "SetCode_loop K (a # as) = thenM (SetCode K a [0xfe]) (SetCode_loop K as)"

definition initializeSlots :: "(bytes \<Rightarrow> bytes) \<Rightarrow> Storage \<Rightarrow> ChainParams \<Rightarrow> bytes \<Rightarrow> unit arb" where
  "initializeSlots K sto cfg serializedChainConfig =
     thenM (ignoreM (SetUint64ByUint64 K sto versionOffset 1))
    (thenM (ignoreM (SetUint64ByUint64 K sto upgradeVersionOffset 0))
    (thenM (ignoreM (SetUint64ByUint64 K sto upgradeTimestampOffset 0))
    (thenM (ignoreM (if cfg_InitialArbOSVersion cfg \<ge> 2
              then SetByUint64 K sto networkFeeAccountOffset (AddressToHash (cfg_InitialChainOwner cfg))
              else SetByUint64 K sto networkFeeAccountOffset 0))
    (thenM (ignoreM (SetByUint64 K sto chainIdOffset (BigToHash (cfg_ChainID cfg))))
    (thenM (ignoreM (StorageBackedBytes_Set K (OpenStorageBackedBytes K sto chainConfigSubspace) serializedChainConfig))
    (thenM (ignoreM (SetUint64ByUint64 K sto genesisBlockNumOffset (cfg_GenesisBlockNum cfg)))
      (ignoreM (SetUint64ByUint64 K sto brotliCompressionLevelOffset 0))))))))"

definition initializeComponents :: "(bytes \<Rightarrow> bytes) \<Rightarrow> Storage \<Rightarrow> ChainParams \<Rightarrow> int \<Rightarrow> unit arb" where
  "initializeComponents K sto cfg initialL1BaseFee =
     (let initialRewardsRecipient =
            (if cfg_InitialArbOSVersion cfg \<ge> 2 then cfg_InitialChainOwner cfg else BatchPosterAddress);
          ownersStorage = OpenCachedSubStorage K sto chainOwnerSubspace in
      thenM (ignoreM (InitializeL1PricingState K (OpenCachedSubStorage K sto l1PricingSubspace) initialRewardsRecipient initialL1BaseFee))
     (thenM (ignoreM (InitializeL2PricingState K (OpenCachedSubStorage K sto l2PricingSubspace)))
     (thenM (ignoreM (InitializeRetryableState K (OpenCachedSubStorage K sto retryablesSubspace)))
     (thenM (AddressTable_Initialize (OpenCachedSubStorage K sto addressTableSubspace))
     (thenM (InitializeMerkleAccumulator (OpenCachedSubStorage K sto sendMerkleSubspace))
     (thenM (InitializeBlockhashes (OpenCachedSubStorage K sto blockhashesSubspace))
     (thenM (ignoreM (AddressSet_Initialize K ownersStorage))
        (ignoreM (AddressSet_Add K (OpenAddressSet K ownersStorage) (cfg_InitialChainOwner cfg))))))))))"

definition InitializeArbosState ::
  "(bytes \<Rightarrow> bytes) \<Rightarrow> ChainParams \<Rightarrow> 'c ParsedInitMessage \<Rightarrow> ArbosState arb" where
  "InitializeArbosState K cfg initMessage =
     bindM NewGeth (\<lambda>sto.
     bindM (GetUint64ByUint64 K sto versionOffset) (\<lambda>arbosVersion.
     if arbosVersion \<noteq> 0 then failM ErrAlreadyInitialized else
     let desiredArbosVersion = cfg_InitialArbOSVersion cfg in
     if desiredArbosVersion = 0 then failM (ErrMsg ''cannot initialize to ArbOS version 0'') else
     thenM (SetCode_loop K (getArbitrumOnlyGenesisPrecompiles cfg))
    (thenM (initializeSlots K sto cfg
              (case SerializedChainConfig initMessage of None \<Rightarrow> [] | Some b \<Rightarrow> b))
    (thenM (initializeComponents K sto cfg (InitialL1BaseFee initMessage))
    (bindM (OpenArbosState K) (\<lambda>aState.
       if desiredArbosVersion > 1 then
         bindM (UpgradeArbosVersion K aState desiredArbosVersion True) (\<lambda>(aState', err).
           case err of Some e \<Rightarrow> failM e | None \<Rightarrow> returnM aState')
       else returnM aState))))))"

section \<open>Upgrades reach their version\<close>

lemma Restrict_run [run_simps]: "sys w \<Longrightarrow> Restrict e w = (Ok (), w)"
  by (cases "w_burner w") (simp_all add: sys_def Restrict_def on_burner_def SystemBurner_Restrict_def)

lemma restrictM_Ok: "m w = (Ok x, w') \<Longrightarrow> sys w' \<Longrightarrow> restrictM z m w = (Ok x, w')"
  by (simp add: restrictM_def run_simps)

text \<open>A call that succeeds under an unmetered burner, moves no balance and keeps a property of the slots.\<close>

definition runs :: "(world \<Rightarrow> bool) \<Rightarrow> (world \<Rightarrow> bool) \<Rightarrow> 'a arb \<Rightarrow> bool" where
  "runs P Q m \<longleftrightarrow> (\<forall>w. sys w \<longrightarrow> P w \<longrightarrow>
     (\<exists>x w'. m w = (Ok x, w') \<and> sys w' \<and> Q w' \<and> w_balance w' = w_balance w))"

lemma runsD:
  assumes "runs P Q m" "sys w" "P w"
  obtains x w' where "m w = (Ok x, w')" "sys w'" "Q w'" "w_balance w' = w_balance w"
  using assms by (auto simp: runs_def)

lemma runs_bindM:
  assumes "runs P Q m" "\<And>x. runs Q R (f x)"
  shows "runs P R (bindM m f)"
  unfolding runs_def
proof (intro allI impI)
  fix w assume "sys w" "P w"
  then obtain x w1 where 1: "m w = (Ok x, w1)" "sys w1" "Q w1" "w_balance w1 = w_balance w" by (rule runsD [OF assms(1)])
  obtain y w2 where "f x w1 = (Ok y, w2)" "sys w2" "R w2" "w_balance w2 = w_balance w1"
    using 1(2,3) by (rule runsD [OF assms(2)])
  with 1 show "\<exists>x w'. bindM m f w = (Ok x, w') \<and> sys w' \<and> R w' \<and> w_balance w' = w_balance w" by (simp add: bindM_Ok)
qed

lemma runs_ensureM: "runs P Q m \<Longrightarrow> runs P Q (ensureM m)"
  unfolding runs_def ensureM_def by fastforce

lemma runs_restrictM: "runs P Q m \<Longrightarrow> runs P Q (restrictM z m)"
  unfolding runs_def by (metis restrictM_Ok)

lemma runs_orM: "runs P Q m \<Longrightarrow> runs P Q (orM z m)"
  unfolding runs_def by (metis orM_Ok)

lemma runs_returnM: "runs P P (returnM x)"
  by (simp add: runs_def)

lemma runs_weaken: "runs P Q m \<Longrightarrow> (\<And>w. P' w \<Longrightarrow> P w) \<Longrightarrow> runs P' Q m"
  by (auto simp: runs_def)

text \<open>
  What the upgrades read: the amortization cap and the size of the list of chain owners hold 64-bit integers, and the
  balance of the L1 pricer's pool fits a word.
\<close>

definition upgradable :: "ArbosState \<Rightarrow> world \<Rightarrow> bool" where
  "upgradable st w \<longleftrightarrow>
     u64_slot w (l1_amortizedCostCapBips (st_l1PricingState st)) \<and> u64_slot w (as_size (st_chainOwners st)) \<and>
     0 \<le> w_balance w L1PricerFundsPoolAddress \<and> w_balance w L1PricerFundsPoolAddress < 2 ^ 256"

lemma upgradable_version [simp]: "upgradable (st\<lparr>st_arbosVersion := v\<rparr>) w = upgradable st w"
  by (simp add: upgradable_def)

lemma runs_words:
  "runs (upgradable st) (upgradable st) (StorageBackedUint64_Set a v)"
  "runs (upgradable st) (upgradable st) (StorageBackedInt64_Set a i)"
  "runs (upgradable st) (upgradable st) (ClearByUint64 K sto n)"
  "runs (upgradable st) (upgradable st) (StorageBackedUint64_Clear a)"
  "runs (upgradable st) (upgradable st) (StorageBackedBigInt_Set_preVersion7 a 0)"
proof -
  have "bytes_hash (big_bytes 0) = (0 :: hash)" using BigToHash_abs [of 0] by (simp add: BigToHash_def)
  then show "runs (upgradable st) (upgradable st) (StorageBackedBigInt_Set_preVersion7 a 0)"
    by (auto simp: runs_def upgradable_def StorageBackedBigInt_Set_preVersion7_def StorageSlot_Set_def run_simps)
qed (auto simp: runs_def upgradable_def StorageBackedUint64_Clear_def run_simps)

lemma runs_ClearList_loop: "runs (upgradable st) (upgradable st) (AddressSet_ClearList_loop K as n i)"
  by (induction n arbitrary: i) (auto intro: runs_returnM runs_bindM runs_words)

lemma runs_size: "runs (upgradable st) (upgradable st) (StorageBackedUint64_Get (as_size (st_chainOwners st)))"
  by (auto simp: runs_def upgradable_def run_simps)

lemma runs_ClearList: "runs (upgradable st) (upgradable st) (AddressSet_ClearList K (st_chainOwners st))"
  unfolding AddressSet_ClearList_def
  by (intro runs_bindM [OF runs_size]) (auto intro: runs_returnM runs_bindM runs_ClearList_loop runs_words)

lemma runs_cap: "runs (upgradable st) (upgradable st) (AmortizedCostCapBips (st_l1PricingState st))"
  by (auto simp: runs_def upgradable_def AmortizedCostCapBips_def run_simps)

lemma runs_fees:
  assumes "l1_l1FeesAvailable (st_l1PricingState st) \<notin> {l1_amortizedCostCapBips (st_l1PricingState st), as_size (st_chainOwners st)}"
  shows "runs (upgradable st) (upgradable st)
    (bindM (GetBalance L1PricerFundsPoolAddress) (\<lambda>balance. ensureM (SetL1FeesAvailable (st_l1PricingState st) balance)))"
  using assms
  by (auto simp: runs_def upgradable_def GetBalance_def SetL1FeesAvailable_def ensureM_def bindM_Ok run_simps)

abbreviation always :: "world \<Rightarrow> bool" where "always \<equiv> \<lambda>_. True"

lemma runs_any:
  "runs always always (SetByUint64 K sto n v)" "runs always always (SetUint64ByUint64 K sto n u)"
  "runs always always (StorageBackedUint64_Set a u)" "runs always always (StorageBackedInt64_Set a i)"
  "runs always always (StorageBackedUint32_Set a x)"
  "runs always always (SetEquilibrationUnits l1 InitialEquilibrationUnitsV6)"
  by (auto simp: runs_def SetEquilibrationUnits_def InitialEquilibrationUnitsV6_def UintToBig_def TxDataNonZeroGasEIP2028_def
      SetUint64ByUint64_def SetUint64_def StorageBackedUint32_Set_def StorageSlot_Set_def run_simps)

lemma runs_Save_loop: "runs always always (Save_loop K sto b i)"
  by (induction K sto b i rule: Save_loop.induct)
    (subst Save_loop.simps, auto simp: Let_def intro: runs_returnM runs_bindM runs_any)

lemma runs_Programs_Initialize: "runs always always (Programs_Initialize K sto)"
  unfolding Programs_Initialize_def initStylusParams_def Params_Save_def initDataPricer_def AddressSet_Initialize_def
  by (auto intro!: runs_bindM runs_orM runs_Save_loop runs_any)

lemma upgradeStep_runs:
  assumes k: "2 \<le> k" "k \<le> 20"
    and fees: "l1_l1FeesAvailable (st_l1PricingState st) \<notin> {l1_amortizedCostCapBips (st_l1PricingState st), as_size (st_chainOwners st)}"
  shows "\<exists>m. upgradeStep K st ft (of_nat k) = Some m \<and> runs (upgradable st) (if k < 20 then upgradable st else always) m"
proof -
  note steps = runs_returnM runs_ensureM runs_words runs_cap runs_ClearList
  have "k = 2 \<or> k = 3 \<or> k \<in> {4, 5, 6, 7, 8, 9} \<or> k = 10 \<or> k = 11 \<or> k \<in> {12, 13, 14, 15, 16, 17, 18, 19} \<or> k = 20"
    using k by simp arith
  then consider "k = 2" | "k = 3" | "k \<in> {4, 5, 6, 7, 8, 9}" | "k = 10" | "k = 11" | "k \<in> {12, 13, 14, 15, 16, 17, 18, 19}" | "k = 20"
    by blast
  then show ?thesis
  proof cases
    case 1
    then show ?thesis by (simp add: upgradeStep_def SetLastSurplus_def steps)
  next
    case 2
    have "runs (upgradable st) (upgradable st) (thenM (ensureM (StorageBackedInt64_Set a 0)) (ensureM (StorageBackedUint64_Set b (- 1))))" for a b
      by (rule runs_bindM [OF runs_ensureM [OF runs_words(2)] runs_ensureM [OF runs_words(1)]])
    with 2 show ?thesis by (simp add: upgradeStep_def SetPerBatchGasCost_def SetAmortizedCostCapBips_def Let_def)
  next
    case 3
    then show ?thesis by (auto simp: upgradeStep_def runs_returnM)
  next
    case 4
    then show ?thesis using runs_fees [OF fees] by (simp add: upgradeStep_def Let_def)
  next
    case 5
    have "runs (upgradable st) (upgradable st) (thenM (ensureM (SetPerBatchGasCost (st_l1PricingState st) c))
        (bindM (ensureM (AmortizedCostCapBips (st_l1PricingState st))) (\<lambda>old.
         thenM (if old = - 1 then ensureM (SetAmortizedCostCapBips (st_l1PricingState st) 0) else returnM ())
           (if \<not> ft then ensureM (AddressSet_ClearList K (st_chainOwners st)) else returnM ()))))" for c
      unfolding SetPerBatchGasCost_def SetAmortizedCostCapBips_def
      by (intro runs_bindM [OF runs_ensureM [OF runs_words(2)]] runs_bindM [OF runs_ensureM [OF runs_cap]])
        (auto intro!: runs_bindM [where Q = "upgradable st"] steps)
    with 5 show ?thesis by (simp add: upgradeStep_def Let_def)
  next
    case 6
    then show ?thesis by (auto simp: upgradeStep_def runs_returnM)
  next
    case 7
    have "runs (upgradable st) always (thenM (ensureM (StorageBackedUint64_Set a 1)) (Programs_Initialize K sto))" for a sto
      by (rule runs_bindM [where Q = always]) (auto intro!: runs_weaken [OF runs_ensureM [OF runs_any(3)]] runs_Programs_Initialize)
    with 7 show ?thesis by (simp add: upgradeStep_def SetBrotliCompressionLevel_def LEVEL_WELL_def Let_def)
  qed
qed

lemma upgradeStep_unknown: "20 < v \<Longrightarrow> upgradeStep K st ft v = None"
  by (auto simp: upgradeStep_def Let_def word_less_nat_alt word_le_nat_alt)

lemma upgrade_loop_runs:
  assumes fees: "l1_l1FeesAvailable (st_l1PricingState st) \<notin> {l1_amortizedCostCapBips (st_l1PricingState st), as_size (st_chainOwners st)}"
    and v: "st_arbosVersion st = of_nat v" "1 \<le> v" "v \<le> n" "n \<le> 20" "n = 20 \<or> unat upgradeTo = n" "n \<le> unat upgradeTo"
    and w: "sys w" "if v < 20 then upgradable st w else True"
  shows "\<exists>w'. UpgradeArbosVersion_loop K ft upgradeTo st w =
      (Ok (st\<lparr>st_arbosVersion := of_nat n\<rparr>, if unat upgradeTo = n then None else Some ErrFatalNodeOutOfDate), w') \<and>
    sys w' \<and> w_balance w' = w_balance w"
  using v w fees
proof (induction "n - v" arbitrary: v st w)
  case 0
  then have [simp]: "v = n" and st: "st\<lparr>st_arbosVersion := of_nat n\<rparr> = st" by auto
  have un: "unat (of_nat n :: u64) = n" using 0 by (simp add: unat_of_nat)
  show ?case
  proof (cases "unat upgradeTo = n")
    case True
    with 0 un st show ?thesis by (subst UpgradeArbosVersion_loop.simps) (simp add: word_less_nat_alt)
  next
    case False
    then have "n = 20" "20 < unat upgradeTo" using 0 by auto
    moreover have "upgradeStep K st ft 21 = None" by (rule upgradeStep_unknown) simp
    ultimately show ?thesis using 0 st by (subst UpgradeArbosVersion_loop.simps) (simp add: word_less_nat_alt)
  qed
next
  case (Suc d)
  then have lt: "v < n" by simp
  let ?st = "st\<lparr>st_arbosVersion := of_nat (Suc v)\<rparr>"
  have uv: "unat (of_nat v :: u64) = v" using Suc.prems lt by (simp add: unat_of_nat)
  obtain m where m: "upgradeStep K st ft (of_nat (Suc v)) = Some m"
    and runs: "runs (upgradable st) (if Suc v < 20 then upgradable st else always) m"
    using upgradeStep_runs [of "Suc v" st K ft] Suc.prems lt by auto
  have up: "upgradable st w" using Suc.prems(4,8) lt by simp
  obtain x w1 where w1: "m w = (Ok x, w1)" "sys w1" "(if Suc v < 20 then upgradable st else always) w1"
    "w_balance w1 = w_balance w"
    by (rule runsD [OF runs Suc.prems(7) up])
  have up1: "if Suc v < 20 then upgradable ?st w1 else True" using w1(3) by (cases "Suc v < 20") (simp_all add: upgradable_def)
  have "\<exists>w'. UpgradeArbosVersion_loop K ft upgradeTo ?st w1 =
      (Ok (?st\<lparr>st_arbosVersion := of_nat n\<rparr>, if unat upgradeTo = n then None else Some ErrFatalNodeOutOfDate), w') \<and>
    sys w' \<and> w_balance w' = w_balance w1"
    using Suc.hyps(2) Suc.prems(3-6,9) lt by (intro Suc.hyps(1) [where v = "Suc v"] w1(2) up1) simp_all
  moreover have "st_arbosVersion st < upgradeTo" using Suc.prems lt uv by (simp add: word_less_nat_alt)
  ultimately show ?case
    using m w1 Suc.prems(1) by (subst UpgradeArbosVersion_loop.simps) (simp add: bindM_Ok add.commute)
qed

lemma UpgradeArbosVersion_runs:
  assumes fees: "l1_l1FeesAvailable (st_l1PricingState st) \<notin> {l1_amortizedCostCapBips (st_l1PricingState st), as_size (st_chainOwners st)}"
    and v: "1 \<le> unat (st_arbosVersion st)" "unat (st_arbosVersion st) \<le> 20" "st_arbosVersion st < upgradeTo"
    and w: "sys w" "upgradable st w"
  shows "\<exists>w'. UpgradeArbosVersion K st upgradeTo False w =
      (Ok (st\<lparr>st_arbosVersion := min upgradeTo 20\<rparr>, if upgradeTo \<le> 20 then None else Some ErrFatalNodeOutOfDate), w') \<and>
    sys w' \<and> w_balance w' = w_balance w \<and>
    (if upgradeTo \<le> 20 then sdb w' (NewSlot K (st_backingStorage st) versionOffset) = UintToHash upgradeTo else True)"
proof -
  let ?n = "min (unat upgradeTo) 20"
  have n: "(of_nat ?n :: u64) = min upgradeTo 20" "unat upgradeTo = ?n \<longleftrightarrow> upgradeTo \<le> 20"
    by (auto simp: min_def word_le_nat_alt)
  have "\<exists>w1. UpgradeArbosVersion_loop K False upgradeTo st w =
      (Ok (st\<lparr>st_arbosVersion := of_nat ?n\<rparr>, if unat upgradeTo = ?n then None else Some ErrFatalNodeOutOfDate), w1) \<and>
    sys w1 \<and> w_balance w1 = w_balance w"
    using v w by (intro upgrade_loop_runs [OF fees, where v = "unat (st_arbosVersion st)"]) (auto simp: word_less_nat_alt min_def)
  then obtain w1 where loop: "UpgradeArbosVersion_loop K False upgradeTo st w =
      (Ok (st\<lparr>st_arbosVersion := min upgradeTo 20\<rparr>, if upgradeTo \<le> 20 then None else Some ErrFatalNodeOutOfDate), w1)"
    "sys w1" "w_balance w1 = w_balance w"
    unfolding n by blast
  show ?thesis
  proof (cases "upgradeTo \<le> 20")
    case True
    have "restrictM () (SetUint64ByUint64 K (st_backingStorage st) versionOffset upgradeTo) w1 =
        (Ok (), upd (NewSlot K (st_backingStorage st) versionOffset) (UintToHash upgradeTo) (charge (writeCost (UintToHash upgradeTo)) w1))"
      using loop(2) by (intro restrictM_Ok) (simp_all add: SetUint64ByUint64_def SetUint64_def NewSlot_def run_simps)
    with True loop show ?thesis by (simp add: UpgradeArbosVersion_def bindM_Ok)
  qed (use loop in \<open>simp add: UpgradeArbosVersion_def bindM_Ok\<close>)
qed

text \<open>
  C17: a scheduled upgrade happens at its time and not before. Before the flag day, or when the version is reached, nothing is
  written. After it the upgrade runs every version's step in turn, always returns, moves no balance, and leaves the target
  version in storage; a target the node does not know is refused with the error that asks for newer software, after the
  steps it does know.
\<close>

theorem scheduled_upgrade:
  assumes sys: "sys w" and w: "upgradable st w"
    and slots: "u64_slot w (st_upgradeVersion st)" "u64_slot w (st_upgradeTimestamp st)"
    and fees: "l1_l1FeesAvailable (st_l1PricingState st) \<notin> {l1_amortizedCostCapBips (st_l1PricingState st), as_size (st_chainOwners st)}"
    and v: "1 \<le> st_arbosVersion st" "st_arbosVersion st \<le> 20"
  shows "let target = u64_at w (st_upgradeVersion st);
             due = (st_arbosVersion st < target \<and> u64_at w (st_upgradeTimestamp st) \<le> now)
    in \<exists>w'. UpgradeArbosVersionIfNecessary K st now w =
         (Ok (if due then (st\<lparr>st_arbosVersion := min target 20\<rparr>, if target \<le> 20 then None else Some ErrFatalNodeOutOfDate)
              else (st, None)), w') \<and>
       w_balance w' = w_balance w \<and>
       (if \<not> due then sdb w' = sdb w
        else if target \<le> 20 then sdb w' (NewSlot K (st_backingStorage st) versionOffset) = UintToHash target
        else True)"
proof -
  let ?target = "u64_at w (st_upgradeVersion st)" and ?w = "charge StorageReadCost (charge StorageReadCost w)"
  let ?due = "st_arbosVersion st < ?target \<and> u64_at w (st_upgradeTimestamp st) \<le> now"
  have read: "restrictM 0 (StorageBackedUint64_Get (st_upgradeVersion st)) w = (Ok ?target, charge StorageReadCost w)"
    using sys slots by (intro restrictM_Ok) (simp_all add: run_simps)
  have run: "UpgradeArbosVersionIfNecessary K st now w =
      (if ?due then UpgradeArbosVersion K st ?target False else returnM (st, None)) ?w"
    using sys slots by (simp add: UpgradeArbosVersionIfNecessary_def bindM_Ok read run_simps)
  have v': "1 \<le> unat (st_arbosVersion st)" "unat (st_arbosVersion st) \<le> 20"
    using v by (simp_all add: word_le_nat_alt)
  have "sys ?w" "upgradable st ?w" using sys w by (simp_all add: upgradable_def)
  from UpgradeArbosVersion_runs [OF fees v' _ this, of ?target K] run show ?thesis
    by (cases ?due) (auto simp: Let_def)
qed

text \<open>A state at version 10 with its slots apart, and a world where the upgrade to version 11 is due from time 5.\<close>

definition toy_upgrade_state :: "ArbosState \<Rightarrow> ArbosState" where
  "toy_upgrade_state st =
     st\<lparr>st_arbosVersion := 10, st_upgradeVersion := 100, st_upgradeTimestamp := 101,
        st_l1PricingState := (st_l1PricingState st)\<lparr>l1_l1FeesAvailable := 102, l1_amortizedCostCapBips := 103\<rparr>,
        st_chainOwners := (st_chainOwners st)\<lparr>as_size := 104\<rparr>\<rparr>"

definition toy_upgrade_world :: world where
  "toy_upgrade_world = blank\<lparr>sdb := (\<lambda>_. 0)(100 := 11, 101 := 5)\<rparr>"

theorem scheduled_upgrade_witness:
  "\<forall>st. \<exists>w'. UpgradeArbosVersionIfNecessary toyK (toy_upgrade_state st) 7 toy_upgrade_world =
       (Ok ((toy_upgrade_state st)\<lparr>st_arbosVersion := 11\<rparr>, None), w') \<and>
     sdb w' (NewSlot toyK (st_backingStorage st) versionOffset) = UintToHash 11"
proof
  fix st :: ArbosState
  have "sys toy_upgrade_world" "upgradable (toy_upgrade_state st) toy_upgrade_world"
    "u64_slot toy_upgrade_world 100" "u64_slot toy_upgrade_world 101"
    "u64_at toy_upgrade_world 100 = 11" "u64_at toy_upgrade_world 101 = 5"
    by (simp_all add: toy_upgrade_world_def toy_upgrade_state_def upgradable_def u64_slot_def u64_at_def sys_def blank_def NewSystemBurner_def)
  then show "\<exists>w'. UpgradeArbosVersionIfNecessary toyK (toy_upgrade_state st) 7 toy_upgrade_world =
       (Ok ((toy_upgrade_state st)\<lparr>st_arbosVersion := 11\<rparr>, None), w') \<and>
     sdb w' (NewSlot toyK (st_backingStorage st) versionOffset) = UintToHash 11"
    using scheduled_upgrade [of toy_upgrade_world "toy_upgrade_state st" 7 toyK]
    by (simp add: toy_upgrade_state_def min_def) blast
qed

end
