(* ===== verification/Supply.thy ===== *)
theory Supply
  imports ArbosState
begin

text \<open>
  The total supply: the sum of the balances of all accounts. Every operation of the components keeps it, since
  they only move balances by transfers; the lemmas are collected for \<open>simp\<close> so that a handler's proof
  unfolds its definition and applies them.
\<close>

named_theorems supply_intros \<open>calls that keep the total of all balances\<close>

definition totalSupply :: "world \<Rightarrow> int" where
  "totalSupply w = totalOf UNIV w"

definition keeps_supply :: "'a arb \<Rightarrow> bool" where
  "keeps_supply m \<longleftrightarrow> (\<forall>w. totalSupply (snd (m w)) = totalSupply w)"

lemma keeps_supplyD: "keeps_supply m \<Longrightarrow> m w = (r, w') \<Longrightarrow> totalSupply w' = totalSupply w"
  by (metis keeps_supply_def snd_conv)

lemma supply_burner [simp]: "totalSupply (w\<lparr>w_burner := b\<rparr>) = totalSupply w"
  by (simp add: totalSupply_def totalOf_def)

lemma keeps_balance_supply: "keeps_balance m \<Longrightarrow> keeps_supply m"
  by (simp add: keeps_balance_def keeps_supply_def totalSupply_def totalOf_def)

lemma keeps_supply_bindM [supply_intros]:
  "keeps_supply m \<Longrightarrow> (\<And>x. keeps_supply (f x)) \<Longrightarrow> keeps_supply (bindM m f)"
  by (auto simp: keeps_supply_def bindM_def split: prod.splits res.splits) (metis snd_conv)+

lemma keeps_supply_wrap [supply_intros]:
  "keeps_supply m \<Longrightarrow> keeps_supply (orM z m)"
  "keeps_supply m \<Longrightarrow> keeps_supply (mapErrM e m)"
  "keeps_supply m \<Longrightarrow> keeps_supply (ensureM m)"
  "keeps_supply m \<Longrightarrow> keeps_supply (withBurner b m)"
  by (simp_all add: keeps_supply_def ensureM_def withBurner_def split: prod.splits res.splits) (metis snd_conv supply_burner)+

lemma keeps_supply_basic [supply_intros]:
  "keeps_supply (returnM x)" "keeps_supply (failM e)" "keeps_supply panicM" "keeps_supply (liftR r)"
  "keeps_supply (Burn n)" "keeps_supply ReadOnly" "keeps_supply (GetState a)" "keeps_supply (SetState a v)"
  "keeps_supply (HandleError e)"
  by (rule keeps_balance_supply, rule keeps_balance_basic)+

lemma keeps_supply_Restrict [supply_intros]: "keeps_supply (Restrict e)"
  by (simp add: keeps_supply_def Restrict_def on_burner_def split: burner.split prod.split)

lemma keeps_supply_restrictM [supply_intros]: "keeps_supply m \<Longrightarrow> keeps_supply (restrictM z m)"
  unfolding keeps_supply_def restrictM_def
proof
  fix w assume m: "\<forall>w. totalSupply (snd (m w)) = totalSupply w"
  obtain r w' where mw: "m w = (r, w')" by (cases "m w")
  have R: "keeps_supply (thenM (Restrict e) (returnM x))" for e and x :: 'a by (simp add: supply_intros)
  show "totalSupply (snd (case m w of (Ok x, w') \<Rightarrow> thenM (Restrict None) (returnM x) w'
      | (Err e, w') \<Rightarrow> thenM (Restrict (Some e)) (returnM z) w' | (Panic, w') \<Rightarrow> (Panic, w'))) = totalSupply w"
    using R m mw by (cases r) (auto simp: keeps_supply_def dest: spec [of _ w])
qed

lemma keeps_supply_if [supply_intros]:
  "(b \<Longrightarrow> keeps_supply m) \<Longrightarrow> (\<not> b \<Longrightarrow> keeps_supply n) \<Longrightarrow> keeps_supply (if b then m else n)"
  by simp

lemma keeps_supply_GetBalance [supply_intros]: "keeps_supply (GetBalance a)"
  by (simp add: keeps_supply_def GetBalance_def)

lemma keeps_supply_transfer [supply_intros]: "keeps_supply (TransferBalance (Some f) (Some t) amount)"
  using totalOf_transfer [of UNIV f t amount] unfolding keeps_supply_def totalSupply_def
  by (metis UNIV_I finite_code surjective_pairing)

section \<open>Storage\<close>

lemma keeps_supply_storage [supply_intros]:
  "keeps_supply (Get K s k)" "keeps_supply (GetUint64 K s k)" "keeps_supply (GetByUint64 K s i)"
  "keeps_supply (GetUint64ByUint64 K s i)" "keeps_supply (Set K s k v)" "keeps_supply (SetUint64 K s k n)"
  "keeps_supply (SetByUint64 K s i v)" "keeps_supply (SetUint64ByUint64 K s i n)" "keeps_supply (Clear K s k)"
  "keeps_supply (ClearByUint64 K s i)" "keeps_supply (KeccakHash K d)"
  by (rule keeps_balance_supply, rule keeps_balance_storage)+

lemma keeps_supply_values [supply_intros]:
  "keeps_supply (StorageBackedUint64_Get a)" "keeps_supply (StorageBackedUint64_Set a n)"
  "keeps_supply (StorageBackedUint64_Increment a)" "keeps_supply (StorageBackedUint64_Decrement a)"
  "keeps_supply (StorageBackedUint64_Clear a)"
  "keeps_supply (StorageBackedInt64_Get a)" "keeps_supply (StorageBackedInt64_Set a n')"
  "keeps_supply (StorageBackedBigUint_Get a)" "keeps_supply (StorageBackedBigUint_SetChecked a x)"
  "keeps_supply (StorageBackedBigUint_SetSaturatingWithWarning a x)"
  "keeps_supply (StorageBackedBigInt_Get a)" "keeps_supply (StorageBackedBigInt_SetChecked a x)"
  "keeps_supply (StorageBackedBigInt_SetSaturatingWithWarning a x)"
  "keeps_supply (StorageBackedBigInt_Set_preVersion7 a x)" "keeps_supply (StorageBackedBigInt_SetByUint a u)"
  "keeps_supply (StorageBackedAddress_Get a)" "keeps_supply (StorageBackedAddress_Set a ad)"
  "keeps_supply (StorageBackedAddressOrNil_Get a)" "keeps_supply (StorageBackedAddressOrNil_Set a oad)"
  by (simp_all add: slot_op_defs supply_intros Let_def split: option.split)

lemma keeps_supply_bytes [supply_intros]:
  "keeps_supply (ClearBytes K s)" "keeps_supply (SetBytes K s b)" "keeps_supply (GetBytes K s)"
  by (rule keeps_balance_supply, rule keeps_balance_bytes)+

lemma keeps_supply_queue [supply_intros]:
  "keeps_supply (InitializeQueue K sto)" "keeps_supply (Queue_Put K q v)" "keeps_supply (Queue_Get K q)" "keeps_supply (Queue_Peek K q)"
  by (rule keeps_balance_supply, rule keeps_balance_queue)+

section \<open>Components\<close>

lemmas address_set_defs =
  AddressSet_Initialize_def AddressSet_Size_def AddressSet_IsMember_def AddressSet_AllMembers_def AddressSet_ClearList_def
  AddressSet_Add_def

lemma keeps_supply_address_set_loops [supply_intros]:
  "keeps_supply (AddressSet_AllMembers_loop K as n i)" "keeps_supply (AddressSet_ClearList_loop K as n i)"
  by (induction n arbitrary: i) (simp_all add: supply_intros)

lemma keeps_supply_address_set [supply_intros]:
  "keeps_supply (AddressSet_Initialize K sto)" "keeps_supply (AddressSet_IsMember K as a)"
  "keeps_supply (AddressSet_AllMembers K as m)" "keeps_supply (AddressSet_ClearList K as)" "keeps_supply (AddressSet_Add K as a)"
  by (simp_all add: address_set_defs supply_intros)

lemma keeps_supply_batch_poster [supply_intros]:
  "keeps_supply (ContainsPoster K bpt a)" "keeps_supply (AddPoster K bpt a p)" "keeps_supply (OpenPoster K bpt a b)"
  "keeps_supply (TotalFundsDue bpt)" "keeps_supply (FundsDue bps)" "keeps_supply (SetFundsDue bps x)"
  "keeps_supply (PayTo bps)" "keeps_supply (SetPayTo bps a)" "keeps_supply (AllPosters K bpt n)"
  by (simp_all add: ContainsPoster_def AddPoster_def OpenPoster_def TotalFundsDue_def FundsDue_def SetFundsDue_def PayTo_def
      SetPayTo_def AllPosters_def internalOpen_def supply_intros Let_def)

lemma keeps_supply_l1_access [supply_intros]:
  "keeps_supply (PayRewardsTo ps)" "keeps_supply (EquilibrationUnits ps)" "keeps_supply (SetEquilibrationUnits ps x)"
  "keeps_supply (Inertia ps)" "keeps_supply (PerUnitReward ps)" "keeps_supply (LastUpdateTime ps)" "keeps_supply (SetLastUpdateTime ps t)"
  "keeps_supply (FundsDueForRewards ps)" "keeps_supply (SetFundsDueForRewards ps x)" "keeps_supply (UnitsSinceUpdate ps)"
  "keeps_supply (SetUnitsSinceUpdate ps u)" "keeps_supply (L1FeesAvailable ps)" "keeps_supply (GetL1PricingSurplus ps)"
  "keeps_supply (LastSurplus ps)" "keeps_supply (SetLastSurplus ps x v)" "keeps_supply (AddToUnitsSinceUpdate ps u)"
  "keeps_supply (PricePerUnit ps)" "keeps_supply (SetPricePerUnit ps x)" "keeps_supply (PerBatchGasCost ps)"
  "keeps_supply (SetPerBatchGasCost ps c)" "keeps_supply (AmortizedCostCapBips ps)" "keeps_supply (SetAmortizedCostCapBips ps u)"
  "keeps_supply (SetL1FeesAvailable ps x)" "keeps_supply (AddToL1FeesAvailable ps x)" "keeps_supply (TransferFromL1FeesAvailable ps a x)"
  by (simp_all add: PayRewardsTo_def EquilibrationUnits_def SetEquilibrationUnits_def Inertia_def PerUnitReward_def LastUpdateTime_def
      SetLastUpdateTime_def FundsDueForRewards_def SetFundsDueForRewards_def UnitsSinceUpdate_def SetUnitsSinceUpdate_def
      L1FeesAvailable_def GetL1PricingSurplus_def LastSurplus_def SetLastSurplus_def AddToUnitsSinceUpdate_def PricePerUnit_def
      SetPricePerUnit_def PerBatchGasCost_def SetPerBatchGasCost_def AmortizedCostCapBips_def SetAmortizedCostCapBips_def
      SetL1FeesAvailable_def AddToL1FeesAvailable_def TransferFromL1FeesAvailable_def supply_intros Let_def)

lemma keeps_supply_settle_loop [supply_intros]:
  "keeps_supply (preVersion2_settle_loop K ps addrs available)"
  by (induction addrs arbitrary: available) (simp_all add: supply_intros Let_def)

lemma keeps_supply_settlement_parts [supply_intros]:
  "keeps_supply (capWeiSpent ps v b u x)" "keeps_supply m \<Longrightarrow> keeps_supply (adjustPrice ps v u m)"
  "keeps_supply (preVersion2_adjustPrice ps u x)"
  by (simp_all add: capWeiSpent_def adjustPrice_def preVersion2_adjustPrice_def supply_intros Let_def split: option.split prod.split)

lemma keeps_supply_settlement [supply_intros]:
  "keeps_supply (UpdateForBatchPosterSpending K ps v t now a x f)"
  by (simp add: UpdateForBatchPosterSpending_def preversion10_UpdateForBatchPosterSpending_def
      preVersion2_UpdateForBatchPosterSpending_def supply_intros Let_def split: prod.split)

lemma keeps_supply_poster_cost [supply_intros]: "keeps_supply (PosterDataCost K compress marshal c ps msg a l)"
  by (simp add: PosterDataCost_def GetPosterInfo_def supply_intros Let_def split: option.split prod.split)

lemma keeps_supply_l2 [supply_intros]:
  "keeps_supply (BaseFeeWei l2)" "keeps_supply (MinBaseFeeWei l2)" "keeps_supply (PerBlockGasLimit l2)"
  "keeps_supply (SetSpeedLimitPerSecond l2 u)" "keeps_supply (SetMaxPerBlockGasLimit l2 u)"
  "keeps_supply (AddToGasPool l2 g)" "keeps_supply (UpdatePricingModel l2 t)"
  by (simp_all add: l2_access AddToGasPool_def UpdatePricingModel_def supply_intros)

lemma keeps_supply_retryables [supply_intros]:
  "keeps_supply (DeleteRetryable K rs t)" "keeps_supply (TryToReapOneRetryable K rs now)" "keeps_supply (CreateRetryable K rs t tmo a b v c d)"
  "keeps_supply (OpenRetryable K rs t now)" "keeps_supply (IncrementNumTries r)" "keeps_supply (MakeTx K r cid n f g t a m s)"
  by (simp_all add: DeleteRetryable_def TryToReapOneRetryable_def CreateRetryable_def OpenRetryable_def IncrementNumTries_def
      MakeTx_def From_def To_def Callvalue_def Calldata_def StorageBackedBytes_Get_def StorageBackedBytes_Set_def
      supply_intros Let_def split: option.split)

lemma keeps_supply_record_loop [supply_intros]: "keeps_supply (RecordNewL1Block_loop K bh h v n nx)"
  by (induction K bh h v n nx rule: RecordNewL1Block_loop.induct) (subst RecordNewL1Block_loop.simps, simp add: supply_intros)

lemma keeps_supply_blockhash [supply_intros]:
  "keeps_supply (Blockhashes_L1BlockNumber bh)" "keeps_supply (Blockhashes_BlockHash K bh n)" "keeps_supply (Blockhashes_RecordNewL1Block K bh n h v)"
  by (simp_all add: Blockhashes_L1BlockNumber_def Blockhashes_BlockHash_def Blockhashes_RecordNewL1Block_def supply_intros)

lemma keeps_supply_Save_loop [supply_intros]: "keeps_supply (Save_loop K sto b i)"
  by (induction K sto b i rule: Save_loop.induct) (subst Save_loop.simps, simp add: supply_intros Let_def)

lemma keeps_supply_programs [supply_intros]: "keeps_supply (Programs_Initialize K sto)"
  by (simp add: Programs_Initialize_def initStylusParams_def Params_Save_def initDataPricer_def slot_op_defs supply_intros Let_def)

section \<open>The ArbOS state\<close>

lemma keeps_supply_NewGeth [supply_intros]: "keeps_supply NewGeth"
  by (simp add: keeps_supply_def NewGeth_def totalSupply_def totalOf_def)

lemma keeps_supply_open [supply_intros]: "keeps_supply (OpenArbosState K)"
  by (simp add: OpenArbosState_def supply_intros)

lemma keeps_supply_open_system [supply_intros]:
  "keeps_supply (OpenSystemArbosState K ro)" "keeps_supply (OpenSystemArbosStateOrPanic K ro)"
proof -
  show "keeps_supply (OpenSystemArbosState K ro)"
    unfolding keeps_supply_def
  proof
    fix w :: world
    let ?w = "w\<lparr>w_burner := BSystem (NewSystemBurner ro)\<rparr>"
    obtain r w' where o: "OpenArbosState K ?w = (r, w')" by (cases "OpenArbosState K ?w")
    have s: "totalSupply w' = totalSupply w" using keeps_supplyD [OF keeps_supply_open o] by simp
    have "keeps_supply (thenM (Restrict e) (returnM x))" "keeps_supply (thenM (Restrict e) (failM e' :: ArbosState arb))"
      for e e' and x :: ArbosState by (simp_all add: supply_intros)
    with o s show "totalSupply (snd (OpenSystemArbosState K ro w)) = totalSupply w"
      by (cases r) (simp_all add: OpenSystemArbosState_def keeps_supply_def)
  qed
  then show "keeps_supply (OpenSystemArbosStateOrPanic K ro)" by (simp add: OpenSystemArbosStateOrPanic_def supply_intros)
qed

lemma keeps_supply_accessors [supply_intros]:
  "keeps_supply (NetworkFeeAccount st)" "keeps_supply (InfraFeeAccount st)" "keeps_supply (BrotliCompressionLevel st)"
  "keeps_supply (SetBrotliCompressionLevel st v)"
  by (simp_all add: NetworkFeeAccount_def InfraFeeAccount_def BrotliCompressionLevel_def SetBrotliCompressionLevel_def supply_intros)

lemma keeps_supply_upgradeStep: "upgradeStep K st ft v = Some m \<Longrightarrow> keeps_supply m"
  by (auto simp: upgradeStep_def Let_def supply_intros split: if_splits)

lemma keeps_supply_upgrade_loop [supply_intros]: "keeps_supply (UpgradeArbosVersion_loop K ft v st)"
  by (induction K ft v st rule: UpgradeArbosVersion_loop.induct)
    (subst UpgradeArbosVersion_loop.simps, auto simp: supply_intros intro: keeps_supply_bindM keeps_supply_upgradeStep split: option.split)

lemma keeps_supply_upgrade [supply_intros]:
  "keeps_supply (UpgradeArbosVersion K st v ft)" "keeps_supply (UpgradeArbosVersionIfNecessary K st t)"
  by (simp_all add: UpgradeArbosVersion_def UpgradeArbosVersionIfNecessary_def supply_intros split: prod.split option.split)

end
