(* ===== verification/InternalTx.thy ===== *)
theory InternalTx
  imports Supply ParseL2
begin

text \<open>
  \<^verbatim>\<open>arbos/internal_tx.go\<close>: the transactions ArbOS sends itself, at the start of a block and for a batch posting
  report. The ABI of \<^verbatim>\<open>ArbosActs\<close> is a parameter (\<open>internal_abi\<close>).
\<close>

section \<open>Definitions\<close>

text \<open>What the EVM's block context gives.\<close>

record BlockContext =
  bc_BaseFee :: int
  bc_Coinbase :: address
  bc_Time :: u64
  bc_BlockNumber :: int
  bc_GetHash :: "u64 \<Rightarrow> hash"

text \<open>
  The two methods: (base fee, L1 block number, L2 block number, time passed) for a block, and (batch timestamp,
  poster, batch data gas, L1 base fee) for a report.
\<close>

record internal_abi =
  InternalTxStartBlockMethodID :: bytes
  InternalTxBatchPostingReportMethodID :: bytes
  PackInternalTxDataStartBlock :: "int \<Rightarrow> u64 \<Rightarrow> u64 \<Rightarrow> u64 \<Rightarrow> bytes res"
  UnpackInternalTxDataStartBlock :: "bytes \<Rightarrow> (int \<times> u64 \<times> u64 \<times> u64) res"
  UnpackInternalTxDataBatchPostingReport :: "bytes \<Rightarrow> (int \<times> address \<times> u64 \<times> int) res"

definition InternalTxStartBlock ::
  "internal_abi \<Rightarrow> int \<Rightarrow> int option \<Rightarrow> u64 \<Rightarrow> u64 \<Rightarrow> u64 \<Rightarrow> u64 \<Rightarrow> ArbitrumInternalTx res" where
  "InternalTxStartBlock abi chainId l1BaseFee l1BlockNum headerNumber headerTime lastHeaderTime =
     (case PackInternalTxDataStartBlock abi (case l1BaseFee of None \<Rightarrow> 0 | Some f \<Rightarrow> f) l1BlockNum headerNumber
             (headerTime - lastHeaderTime) of
        Ok data \<Rightarrow> Ok \<lparr>ait_ChainId = chainId, ait_Data = data\<rparr>
      | _ \<Rightarrow> Panic)"

definition applyStartBlock ::
  "(bytes \<Rightarrow> bytes) \<Rightarrow> BlockContext \<Rightarrow> ArbosState \<Rightarrow> u64 \<Rightarrow> u64 \<Rightarrow> (ArbosState \<times> go_error option) arb" where
  "applyStartBlock K evm st l1Number timePassed =
     bindM (restrictM 0 (Blockhashes_L1BlockNumber (st_blockhashes st))) (\<lambda>oldL1BlockNumber.
     bindM (restrictM 0 (BaseFeeWei (st_l2PricingState st))) (\<lambda>l2BaseFee.
     thenM (if l1Number > oldL1BlockNumber then
              restrictM () (Blockhashes_RecordNewL1Block K (st_blockhashes st) (l1Number - 1)
                (if bc_BlockNumber evm > 0 then bc_GetHash evm (big_Uint64 (bc_BlockNumber evm) - 1) else 0)
                (st_arbosVersion st))
            else returnM ())
    (let currentTime = bc_Time evm in
     thenM (ignoreM (TryToReapOneRetryable K (st_retryableState st) currentTime))
    (thenM (ignoreM (TryToReapOneRetryable K (st_retryableState st) currentTime))
    (thenM (UpdatePricingModel (st_l2PricingState st) timePassed)
       (UpgradeArbosVersionIfNecessary K st currentTime))))))"

definition applyBatchPostingReport ::
  "(bytes \<Rightarrow> bytes) \<Rightarrow> BlockContext \<Rightarrow> ArbosState \<Rightarrow> int \<Rightarrow> address \<Rightarrow> u64 \<Rightarrow> int \<Rightarrow> unit arb" where
  "applyBatchPostingReport K evm st batchTimestamp batchPosterAddress batchDataGas l1BaseFeeWei =
     (let l1p = st_l1PricingState st in
      bindM (orM 0 (PerBatchGasCost l1p)) (\<lambda>perBatchGas.
      let gasSpent = SaturatingAdd perBatchGas (SaturatingCast batchDataGas :: i64);
          weiSpent = BigMulByUint l1BaseFeeWei (SaturatingUCast gasSpent) in
      ignoreM (UpdateForBatchPosterSpending K l1p (st_arbosVersion st) (big_Uint64 batchTimestamp) (bc_Time evm)
        batchPosterAddress weiSpent l1BaseFeeWei)))"

definition ApplyInternalTxUpdate ::
  "(bytes \<Rightarrow> bytes) \<Rightarrow> internal_abi \<Rightarrow> BlockContext \<Rightarrow> ArbitrumInternalTx \<Rightarrow> ArbosState \<Rightarrow> (ArbosState \<times> go_error option) arb" where
  "ApplyInternalTxUpdate K abi evm tx st =
     (let data = ait_Data tx in
      if length data < 4 then returnM (st, Some (ErrMsg ''internal tx data is too short'')) else
      let selector = take 4 data in
      if selector = InternalTxStartBlockMethodID abi then
        (case UnpackInternalTxDataStartBlock abi data of
           Err e \<Rightarrow> returnM (st, Some e) | Panic \<Rightarrow> panicM
         | Ok (l1BaseFee, l1Number, l2BlockNumber, timePassed) \<Rightarrow>
             applyStartBlock K evm st
               (if st_arbosVersion st < 8 then l1Number + 1 else l1Number)
               (if st_arbosVersion st < 3 then l2BlockNumber else timePassed))
      else if selector = InternalTxBatchPostingReportMethodID abi then
        (case UnpackInternalTxDataBatchPostingReport abi data of
           Err e \<Rightarrow> returnM (st, Some e) | Panic \<Rightarrow> panicM
         | Ok (batchTimestamp, batchPosterAddress, batchDataGas, l1BaseFeeWei) \<Rightarrow>
             thenM (applyBatchPostingReport K evm st batchTimestamp batchPosterAddress batchDataGas l1BaseFeeWei)
               (returnM (st, None)))
      else returnM (st, Some (ErrMsg ''unknown internal tx method selector'')))"

section \<open>Supply\<close>

lemma keeps_supply_internal [supply_intros]: "keeps_supply (ApplyInternalTxUpdate K abi evm tx st)"
  by (simp add: ApplyInternalTxUpdate_def applyStartBlock_def applyBatchPostingReport_def supply_intros Let_def
      split: res.split prod.split)

end
