(* ===== verification/TxProcessor.thy ===== *)
theory TxProcessor
  imports InternalTx
begin

text \<open>
  \<^verbatim>\<open>arbos/tx_processor.go\<close>: the hooks through which ArbOS takes part in go-ethereum's execution of a transaction.
  A hook takes the processor's record and returns it updated. What go-ethereum, the emitters of events and the
  encoders provide is a parameter (\<open>tx_env\<close>); tracers are not modelled. The lemmas account for gas and for
  the total of balances over the hooks.
\<close>

section \<open>Messages and processors\<close>

datatype MessageRunMode = MessageCommitMode | MessageGasEstimationMode | MessageEthcallMode

datatype tx_inner =
    InnerDeposit
  | InnerInternal ArbitrumInternalTx
  | InnerSubmitRetryable ArbitrumSubmitRetryableTx
  | InnerRetry ArbitrumRetryTx
  | InnerOther

record underlying_tx =
  utx_inner :: tx_inner
  utx_Type :: tx_type
  utx_Hash :: hash
  utx_ChainId :: int

text \<open>A message: what the L1 pricer reads of it (\<open>tm_priced\<close>) and the rest.\<close>

record TxMessage =
  tm_Tx :: "underlying_tx option"
  tm_From :: address
  tm_TxRunMode :: MessageRunMode
  tm_GasPrice :: int
  tm_SkipL1Charging :: bool
  tm_priced :: Message

record tx_env =
  te_evm :: BlockContext
  te_GasPrice :: int
  te_ChainID :: int
  te_abi :: internal_abi
  te_compress :: "bytes \<Rightarrow> u64 \<Rightarrow> bytes res"
  te_marshal :: "DynamicFeeTx \<Rightarrow> bytes option"
  te_arbitrumOneChainID :: int
  te_retryTxHash :: "ArbitrumRetryTx \<Rightarrow> hash"
  te_EmitTicketCreatedEvent :: "hash \<Rightarrow> unit arb"
  te_EmitReedeemScheduledEvent :: "u64 \<Rightarrow> u64 \<Rightarrow> hash \<Rightarrow> hash \<Rightarrow> address \<Rightarrow> int \<Rightarrow> int \<Rightarrow> unit arb"

record contract =
  contract_Address :: address
  contract_IsDelegateOrCallcode :: bool

record TxProcessor =
  tp_msg :: TxMessage
  tp_state :: ArbosState
  PosterFee :: int
  posterGas :: u64
  computeHoldGas :: u64
  delayedInbox :: bool
  Contracts :: "contract list"
  tp_Programs :: "address \<Rightarrow> u64"
  TopTxType :: "tx_type option"
  CurrentRetryable :: "hash option"
  CurrentRefundTo :: "address option"
  cachedL1BlockNumber :: "u64 option"
  cachedL1BlockHashes :: "u64 \<rightharpoonup> hash"

definition GasEstimationL1PricePadding :: Bips where "GasEstimationL1PricePadding = 11000"

definition NewTxProcessor :: "(bytes \<Rightarrow> bytes) \<Rightarrow> tx_env \<Rightarrow> TxMessage \<Rightarrow> TxProcessor arb" where
  "NewTxProcessor K env msg =
     bindM (OpenSystemArbosStateOrPanic K False) (\<lambda>arbosState.
       returnM \<lparr>tp_msg = msg, tp_state = arbosState, PosterFee = 0, posterGas = 0, computeHoldGas = 0,
         delayedInbox = (bc_Coinbase (te_evm env) \<noteq> BatchPosterAddress), Contracts = [], tp_Programs = (\<lambda>_. 0),
         TopTxType = None, CurrentRetryable = None, CurrentRefundTo = None, cachedL1BlockNumber = None,
         cachedL1BlockHashes = Map.empty\<rparr>)"

definition PushContract :: "contract \<Rightarrow> TxProcessor \<Rightarrow> TxProcessor" where
  "PushContract c p =
     (let p' = p\<lparr>Contracts := Contracts p @ [c]\<rparr> in
      if \<not> contract_IsDelegateOrCallcode c
      then p'\<lparr>tp_Programs := (tp_Programs p)(contract_Address c := tp_Programs p (contract_Address c) + 1)\<rparr>
      else p')"

definition PopContract :: "TxProcessor \<Rightarrow> TxProcessor res" where
  "PopContract p =
     (if Contracts p = [] then Panic else
      let popped = last (Contracts p); p' = p\<lparr>Contracts := butlast (Contracts p)\<rparr> in
      if \<not> contract_IsDelegateOrCallcode popped
      then Ok (p'\<lparr>tp_Programs := (tp_Programs p)(contract_Address popped := tp_Programs p (contract_Address popped) - 1)\<rparr>)
      else Ok p')"

text \<open>The pool after, and the amount taken.\<close>

definition takeFunds :: "int \<Rightarrow> int \<Rightarrow> (int \<times> int) res" where
  "takeFunds pool amount =
     (if amount < 0 then Panic
      else if BigLessThan pool amount then Ok (0, pool)
      else Ok (pool - amount, amount))"

definition ExecuteWASM ::
  "(bytes \<Rightarrow> bytes) \<Rightarrow> TxProcessor \<Rightarrow> call_context \<Rightarrow>
   (address \<Rightarrow> hash \<Rightarrow> evmData \<Rightarrow> goParams \<Rightarrow> MemoryModel \<Rightarrow> 'r arb) \<Rightarrow> 'r arb" where
  "ExecuteWASM K p ctx callProgram =
     (let reentrant = tp_Programs p (cc_Address ctx) > 1 in
      CallProgram K (st_programs (tp_state p)) ctx callProgram reentrant)"

section \<open>The start of a transaction\<close>

text \<open>\<^verbatim>\<open>err := f()\<close>, where the caller looks at the error.\<close>

definition errOf :: "unit arb \<Rightarrow> go_error option arb" where
  "errOf m w = (case m w of (Ok _, w') \<Rightarrow> (Ok None, w') | (Err e, w') \<Rightarrow> (Ok (Some e), w') | (Panic, w') \<Rightarrow> (Panic, w'))"

text \<open>\<^verbatim>\<open>x, err := f(); Restrict(err)\<close> for a pointer, nil after an error.\<close>

definition restrictPtr :: "'a arb \<Rightarrow> 'a option arb" where
  "restrictPtr m = restrictM None (bindM m (\<lambda>x. returnM (Some x)))"

text \<open>The results of the hook: whether to end the transaction, the gas used, the error, the return data.\<close>

type_synonym hook_result = "bool \<times> u64 \<times> go_error option \<times> bytes"

abbreviation transfer :: "address \<Rightarrow> address \<Rightarrow> int \<Rightarrow> unit arb" where
  "transfer from to amount \<equiv> TransferBalance (Some from) (Some to) amount"

text \<open>
  The infrastructure's share of a retryable's gas: the pool left for the network, and whether the payment failed.
\<close>

definition payInfraFee ::
  "ArbosState \<Rightarrow> address \<Rightarrow> int \<Rightarrow> u64 \<Rightarrow> int \<Rightarrow> (int \<times> bool) arb" where
  "payInfraFee st from effectiveBaseFee usergas networkCost =
     (if st_arbosVersion st \<ge> 11 then
        bindM (restrictM 0 (InfraFeeAccount st)) (\<lambda>infraFeeAccount.
        if infraFeeAccount \<noteq> 0 then
          bindM (restrictM 0 (MinBaseFeeWei (st_l2PricingState st))) (\<lambda>minBaseFee.
          let infraFee = BigMin minBaseFee effectiveBaseFee in
          bindM (liftR (takeFunds networkCost (BigMulByUint infraFee usergas))) (\<lambda>(networkCost', infraCost).
          bindM (errOf (transfer from infraFeeAccount infraCost)) (\<lambda>err.
            returnM (networkCost', err \<noteq> None))))
        else returnM (networkCost, False))
      else returnM (networkCost, False))"

text \<open>\<^verbatim>\<open>params.TxGas\<close> of go-ethereum.\<close>

definition TxGas :: u64 where "TxGas = 21000"

definition effectiveBaseFee :: "tx_env \<Rightarrow> TxMessage \<Rightarrow> int" where
  "effectiveBaseFee env msg =
     (if tm_TxRunMode msg \<noteq> MessageCommitMode \<and> msg_GasFeeCap (tm_priced msg) = 0 then 0 else bc_BaseFee (te_evm env))"

text \<open>
  Scheduling the first attempt. In the source \<^verbatim>\<open>networkCost\<close> and \<^verbatim>\<open>gascost\<close> name one big integer, so taking the
  infrastructure's share from the one takes it from the other: \<open>gascost\<close> below is what is left of it.
\<close>

definition scheduleRedeem ::
  "(bytes \<Rightarrow> bytes) \<Rightarrow> tx_env \<Rightarrow> ArbosState \<Rightarrow> ArbitrumSubmitRetryableTx \<Rightarrow> int \<Rightarrow> hash \<Rightarrow> Retryable \<Rightarrow>
   int \<Rightarrow> u64 \<Rightarrow> int \<Rightarrow> int \<Rightarrow> int \<Rightarrow> int \<Rightarrow> hook_result arb" where
  "scheduleRedeem K env st tx chainId ticketId retryable baseFee usergas gascost availableRefund submissionFee withheldSubmissionFee =
     bindM (liftR (takeFunds availableRefund gascost)) (\<lambda>(available1, withheldGasFunds).
     let priceRefund = BigMulByUint (BigSub (asr_GasFeeCap tx) baseFee) (asr_Gas tx) in
     bindM (liftR (takeFunds available1 (if priceRefund < 0 then 0 else priceRefund))) (\<lambda>(available2, gasPriceRefund).
     thenM (ignoreM (transfer (asr_From tx) (asr_FeeRefundAddr tx) gasPriceRefund))
    (let maxRefund = available2 + withheldGasFunds + withheldSubmissionFee in
     bindM (restrictPtr (MakeTx K retryable chainId 0 baseFee usergas ticketId (asr_FeeRefundAddr tx) maxRefund submissionFee)) (\<lambda>inner.
     bindM (restrictM 0 (IncrementNumTries retryable)) (\<lambda>_.
     case inner of None \<Rightarrow> panicM
     | Some retryTxInner \<Rightarrow>
     thenM (ignoreM (te_EmitReedeemScheduledEvent env usergas (art_Nonce retryTxInner) ticketId (te_retryTxHash env retryTxInner)
              (asr_FeeRefundAddr tx) maxRefund submissionFee))
       (returnM (True, usergas, None, hash_bytes ticketId)))))))"

definition autoRedeem ::
  "(bytes \<Rightarrow> bytes) \<Rightarrow> tx_env \<Rightarrow> TxMessage \<Rightarrow> ArbosState \<Rightarrow> ArbitrumSubmitRetryableTx \<Rightarrow> int \<Rightarrow> hash \<Rightarrow> address \<Rightarrow>
   Retryable \<Rightarrow> int \<Rightarrow> int \<Rightarrow> int \<Rightarrow> hook_result arb" where
  "autoRedeem K env msg st tx chainId ticketId networkFeeAccount retryable availableRefund submissionFee withheldSubmissionFee =
     bindM (GetBalance (asr_From tx)) (\<lambda>balance.
     let baseFee = effectiveBaseFee env msg;
         usergas = msg_GasLimit (tm_priced msg);
         maxGasCost = BigMulByUint (asr_GasFeeCap tx) usergas;
         maxFeePerGasTooLow = BigLessThan (asr_GasFeeCap tx) baseFee in
     if BigLessThan balance maxGasCost \<or> usergas < TxGas \<or> maxFeePerGasTooLow then
       bindM (liftR (takeFunds availableRefund maxGasCost)) (\<lambda>(_, gasCostRefund).
       thenM (ignoreM (transfer (asr_From tx) (asr_FeeRefundAddr tx) gasCostRefund))
         (returnM (True, 0, None, hash_bytes ticketId)))
     else
     bindM (payInfraFee st (asr_From tx) baseFee usergas (BigMulByUint baseFee usergas)) (\<lambda>(networkCost, infraFailed).
     if infraFailed then returnM (True, 0, None, hash_bytes ticketId) else
     bindM (if BigGreaterThan networkCost 0 then errOf (transfer (asr_From tx) networkFeeAccount networkCost)
            else returnM None) (\<lambda>networkErr.
     if networkErr \<noteq> None then returnM (True, 0, None, hash_bytes ticketId) else
     scheduleRedeem K env st tx chainId ticketId retryable baseFee usergas networkCost availableRefund submissionFee
       withheldSubmissionFee)))"

definition submitRetryable ::
  "(bytes \<Rightarrow> bytes) \<Rightarrow> tx_env \<Rightarrow> TxMessage \<Rightarrow> ArbosState \<Rightarrow> underlying_tx \<Rightarrow> ArbitrumSubmitRetryableTx \<Rightarrow> hook_result arb" where
  "submitRetryable K env msg st utx tx =
     (let ticketId = utx_Hash utx; escrow = RetryableEscrowAddress K ticketId; from = asr_From tx in
     bindM (orM 0 (NetworkFeeAccount st)) (\<lambda>networkFeeAccount.
     bindM (liftR (takeFunds (asr_DepositValue tx) (asr_RetryValue tx))) (\<lambda>(available0, _).
     thenM (MintBalance (Some from) (asr_DepositValue tx))
    (bindM (GetBalance from) (\<lambda>balanceAfterMint.
     if BigLessThan balanceAfterMint (asr_MaxSubmissionFee tx)
     then returnM (True, 0, Some (ErrMsg ''insufficient funds for max submission fee''), []) else
     case asr_L1BaseFee tx of None \<Rightarrow> panicM
     | Some l1BaseFee \<Rightarrow>
     let submissionFee = RetryableSubmissionFee (of_nat (length (asr_RetryData tx))) l1BaseFee in
     if BigLessThan (asr_MaxSubmissionFee tx) submissionFee
     then returnM (True, 0, Some (ErrMsg ''max submission fee is less than the actual submission fee''), []) else
     bindM (errOf (transfer from networkFeeAccount submissionFee)) (\<lambda>feeErr.
     if feeErr \<noteq> None then returnM (True, 0, feeErr, []) else
     bindM (liftR (takeFunds available0 submissionFee)) (\<lambda>(available1, withheldSubmissionFee).
     bindM (liftR (takeFunds available1 (BigSub (asr_MaxSubmissionFee tx) submissionFee))) (\<lambda>(available2, submissionFeeRefund).
     thenM (ignoreM (transfer from (asr_FeeRefundAddr tx) submissionFeeRefund))
    (bindM (errOf (transfer from escrow (asr_RetryValue tx))) (\<lambda>callValueErr.
     if callValueErr \<noteq> None then
       thenM (ignoreM (transfer networkFeeAccount from submissionFee))
      (thenM (ignoreM (transfer from (asr_FeeRefundAddr tx) withheldSubmissionFee))
         (returnM (True, 0, callValueErr, [])))
     else
     bindM (restrictM (retryable_at K (st_retryableState st) ticketId) (CreateRetryable K (st_retryableState st) ticketId
              (bc_Time (te_evm env) + RetryableLifetimeSeconds) from (asr_RetryTo tx) (asr_RetryValue tx)
              (asr_Beneficiary tx) (asr_RetryData tx))) (\<lambda>retryable.
     thenM (ignoreM (te_EmitTicketCreatedEvent env ticketId))
       (autoRedeem K env msg st tx (utx_ChainId utx) ticketId networkFeeAccount retryable available2 submissionFee
          withheldSubmissionFee))))))))))))"

text \<open>\<^verbatim>\<open>core.Transfer\<close> of go-ethereum.\<close>

definition core_Transfer :: "address \<Rightarrow> address \<Rightarrow> int \<Rightarrow> unit arb" where
  "core_Transfer sender recipient amount = thenM (SubBalance sender amount) (AddBalance recipient amount)"

definition StartTxHook :: "(bytes \<Rightarrow> bytes) \<Rightarrow> tx_env \<Rightarrow> TxProcessor \<Rightarrow> (TxProcessor \<times> hook_result) arb" where
  "StartTxHook K env p =
     (let msg = tp_msg p; from = tm_From msg in
      case tm_Tx msg of None \<Rightarrow> returnM (p, False, 0, None, [])
      | Some utx \<Rightarrow>
      let p1 = p\<lparr>TopTxType := Some (utx_Type utx)\<rparr> in
      case utx_inner utx of
        InnerDeposit \<Rightarrow>
          (case msg_To (tm_priced msg) of
             None \<Rightarrow> returnM (p1, True, 0, Some (ErrMsg ''eth deposit has no To address''), [])
           | Some to \<Rightarrow>
               thenM (MintBalance (Some from) (msg_Value (tm_priced msg)))
              (thenM (core_Transfer from to (msg_Value (tm_priced msg)))
                 (returnM (p1, True, 0, None, []))))
      | InnerInternal tx \<Rightarrow>
          if from \<noteq> arbosAddress then returnM (p1, False, 0, Some (ErrMsg ''internal tx not from arbAddress''), [])
          else bindM (ApplyInternalTxUpdate K (te_abi env) (te_evm env) tx (tp_state p)) (\<lambda>(st, err).
            returnM (p1\<lparr>tp_state := st\<rparr>, True, 0, err, []))
      | InnerSubmitRetryable tx \<Rightarrow>
          bindM (submitRetryable K env msg (tp_state p) utx tx) (\<lambda>r. returnM (p1, r))
      | InnerRetry tx \<Rightarrow>
          bindM (errOf (transfer (RetryableEscrowAddress K (art_TicketId tx)) (art_From tx) (art_Value tx))) (\<lambda>err.
            if err \<noteq> None then returnM (p1, True, 0, err, []) else
            thenM (MintBalance (Some (art_From tx)) (BigMulByUint (bc_BaseFee (te_evm env)) (art_Gas tx)))
              (returnM (p1\<lparr>CurrentRetryable := Some (art_TicketId tx), CurrentRefundTo := Some (art_RefundTo tx)\<rparr>,
                 False, 0, None, [])))
      | InnerOther \<Rightarrow> returnM (p1, False, 0, None, []))"

section \<open>Charging for gas\<close>

definition GetPosterGas :: "ArbosState \<Rightarrow> int \<Rightarrow> MessageRunMode \<Rightarrow> int \<Rightarrow> u64 arb" where
  "GetPosterGas st baseFee runMode posterCost =
     (if runMode = MessageGasEstimationMode then
        bindM (orM 0 (MinBaseFeeWei (st_l2PricingState st))) (\<lambda>minGasPrice.
        bindM (liftR (BigMulByFrac baseFee 7 8)) (\<lambda>adjusted.
        let adjustedPrice = (if BigLessThan adjusted minGasPrice then minGasPrice else adjusted) in
        bindM (liftR (BigMulByBips posterCost GasEstimationL1PricePadding)) (\<lambda>padded.
        bindM (liftR (BigDiv padded adjustedPrice)) (\<lambda>q. returnM (BigToUintSaturating q)))))
      else bindM (liftR (BigDiv posterCost baseFee)) (\<lambda>q. returnM (BigToUintSaturating q)))"

text \<open>The message as the L1 pricer reads it.\<close>

definition priced_message :: "TxMessage \<Rightarrow> Message" where
  "priced_message msg = (tm_priced msg)\<lparr>msg_gasEstimation := (tm_TxRunMode msg = MessageGasEstimationMode)\<rparr>"

definition chargePoster ::
  "(bytes \<Rightarrow> bytes) \<Rightarrow> tx_env \<Rightarrow> TxProcessor \<Rightarrow> TxProcessor arb" where
  "chargePoster K env p =
     (let msg = tp_msg p; st = tp_state p; basefee = bc_BaseFee (te_evm env);
          poster = (if tm_TxRunMode msg \<noteq> MessageCommitMode then BatchPosterAddress else bc_Coinbase (te_evm env)) in
      bindM (mapErrM (ErrMsg ''failed to get brotli compression level'') (BrotliCompressionLevel st)) (\<lambda>level.
      bindM (PosterDataCost K (te_compress env) (te_marshal env) (te_arbitrumOneChainID env) (st_l1PricingState st)
               (priced_message msg) poster level) (\<lambda>(posterCost, calldataUnits, priced).
      thenM (if calldataUnits > 0 then restrictM () (AddToUnitsSinceUpdate (st_l1PricingState st) calldataUnits) else returnM ())
     (bindM (GetPosterGas st basefee (tm_TxRunMode msg) posterCost) (\<lambda>gas.
        returnM (p\<lparr>posterGas := gas, PosterFee := BigMulByUint basefee gas,
                    tp_msg := msg\<lparr>tm_priced := (tm_priced msg)\<lparr>msg_Tx := msg_Tx priced\<rparr>\<rparr>\<rparr>))))))"

definition ErrIntrinsicGas :: go_error where "ErrIntrinsicGas = ErrMsg ''intrinsic gas too low''"

text \<open>The processor, the gas remaining, the recipient of tips and the error.\<close>

definition GasChargingHook ::
  "(bytes \<Rightarrow> bytes) \<Rightarrow> tx_env \<Rightarrow> TxProcessor \<Rightarrow> u64 \<Rightarrow> (TxProcessor \<times> u64 \<times> address \<times> go_error option) arb" where
  "GasChargingHook K env p gasRemaining =
     (let msg = tp_msg p in
      bindM (orM 0 (NetworkFeeAccount (tp_state p))) (\<lambda>tipRecipient.
      let p0 = (if tm_TxRunMode msg = MessageCommitMode then p\<lparr>tp_msg := msg\<lparr>tm_SkipL1Charging := False\<rparr>\<rparr> else p);
          charged = (bc_BaseFee (te_evm env) > 0 \<and> \<not> tm_SkipL1Charging (tp_msg p0)) in
      bindM (if charged then chargePoster K env p0 else returnM p0) (\<lambda>p1.
      let gasNeededToStartEVM = (if charged then posterGas p1 else 0) in
      if gasRemaining < gasNeededToStartEVM then returnM (p1, gasRemaining, tipRecipient, Some ErrIntrinsicGas) else
      let remaining = gasRemaining - gasNeededToStartEVM in
      if tm_TxRunMode msg \<noteq> MessageEthcallMode then
        bindM (orM 0 (PerBlockGasLimit (st_l2PricingState (tp_state p)))) (\<lambda>gasAvailable.
          if remaining > gasAvailable
          then returnM (p1\<lparr>computeHoldGas := remaining - gasAvailable\<rparr>, gasAvailable, tipRecipient, None)
          else returnM (p1, remaining, tipRecipient, None))
      else returnM (p1, remaining, tipRecipient, None))))"

definition RunMode :: "TxProcessor \<Rightarrow> MessageRunMode" where
  "RunMode p = tm_TxRunMode (tp_msg p)"

definition NonrefundableGas :: "TxProcessor \<Rightarrow> u64" where
  "NonrefundableGas p = posterGas p"

definition ForceRefundGas :: "TxProcessor \<Rightarrow> u64" where
  "ForceRefundGas p = computeHoldGas p"

section \<open>The end of a transaction\<close>

text \<open>The refund out of one account; the result is what is left of the limit.\<close>

definition refund :: "ArbitrumRetryTx \<Rightarrow> int \<Rightarrow> address \<Rightarrow> int \<Rightarrow> int arb" where
  "refund inner maxRefund refundFrom amount =
     bindM (liftR (takeFunds maxRefund amount)) (\<lambda>(maxRefund', toRefundAddr).
     thenM (ignoreM (transfer refundFrom (art_RefundTo inner) toRefundAddr))
    (thenM (ignoreM (transfer refundFrom (art_From inner) (BigSub amount toRefundAddr)))
       (returnM maxRefund')))"

definition retryBaseFee :: "tx_env \<Rightarrow> TxMessage \<Rightarrow> ArbitrumRetryTx \<Rightarrow> int" where
  "retryBaseFee env msg inner =
     (if tm_TxRunMode msg = MessageCommitMode \<and> \<not> BigEquals (art_GasFeeCap inner) (bc_BaseFee (te_evm env))
      then bc_BaseFee (te_evm env) else art_GasFeeCap inner)"

text \<open>
  The refunds and the fate of the ticket. \<open>gasRefund\<close> is go-ethereum's refund for the gas left, which the caller has
  undone.
\<close>

definition settleRetry ::
  "(bytes \<Rightarrow> bytes) \<Rightarrow> ArbosState \<Rightarrow> address \<Rightarrow> ArbitrumRetryTx \<Rightarrow> int \<Rightarrow> int \<Rightarrow> u64 \<Rightarrow> u64 \<Rightarrow> bool \<Rightarrow> unit arb" where
  "settleRetry K st networkFeeAccount inner baseFee gasRefund gasLeft gasUsed success =
     bindM (if success then refund inner (art_MaxRefund inner) networkFeeAccount (art_SubmissionFeeRefund inner)
            else bindM (liftR (takeFunds (art_MaxRefund inner) (art_SubmissionFeeRefund inner))) (\<lambda>(m, _). returnM m)) (\<lambda>maxRefund1.
     bindM (liftR (takeFunds maxRefund1 (BigMulByUint baseFee gasUsed))) (\<lambda>(maxRefund2, _).
     bindM (if st_arbosVersion st \<ge> 11 then
              bindM (restrictM 0 (InfraFeeAccount st)) (\<lambda>infraFeeAccount.
              if infraFeeAccount \<noteq> 0 then
                bindM (restrictM 0 (MinBaseFeeWei (st_l2PricingState st))) (\<lambda>minBaseFee.
                let infraFee = BigMin minBaseFee baseFee in
                bindM (liftR (takeFunds gasRefund (BigMulByUint infraFee gasLeft))) (\<lambda>(networkRefund, infraRefund).
                bindM (refund inner maxRefund2 infraFeeAccount infraRefund) (\<lambda>maxRefund3. returnM (networkRefund, maxRefund3))))
              else returnM (gasRefund, maxRefund2))
            else returnM (gasRefund, maxRefund2)) (\<lambda>(networkRefund, maxRefund3).
     bindM (refund inner maxRefund3 networkFeeAccount networkRefund) (\<lambda>_.
     thenM (if success then
              withBurner (BSystem (NewSystemBurner False))
                (bindM (OpenSystemArbosStateOrPanic K False) (\<lambda>fresh.
                 bindM (orM False (DeleteRetryable K (st_retryableState fresh) (art_TicketId inner))) (\<lambda>_. returnM ())))
            else ensureM (transfer (art_From inner) (RetryableEscrowAddress K (art_TicketId inner)) (art_Value inner)))
       (restrictM () (AddToGasPool (st_l2PricingState st) (- SaturatingCast gasUsed)))))))"

definition endRetry ::
  "(bytes \<Rightarrow> bytes) \<Rightarrow> tx_env \<Rightarrow> TxProcessor \<Rightarrow> address \<Rightarrow> ArbitrumRetryTx \<Rightarrow> u64 \<Rightarrow> u64 \<Rightarrow> bool \<Rightarrow> unit arb" where
  "endRetry K env p networkFeeAccount inner gasLeft gasUsed success =
     (let baseFee = retryBaseFee env (tp_msg p) inner; gasRefund = BigMulByUint baseFee gasLeft in
      thenM (ignoreM (BurnBalance (Some (art_From inner)) gasRefund))
        (settleRetry K (tp_state p) networkFeeAccount inner baseFee gasRefund gasLeft gasUsed success))"

text \<open>The infrastructure's share of the compute cost, and what is left for the network.\<close>

definition mintInfraFee :: "ArbosState \<Rightarrow> int \<Rightarrow> u64 \<Rightarrow> u64 \<Rightarrow> int \<Rightarrow> int arb" where
  "mintInfraFee st basefee gasUsed gasForPoster computeCost =
     (if st_arbosVersion st > 4 then
        bindM (restrictM 0 (InfraFeeAccount st)) (\<lambda>infraFeeAccount.
        if infraFeeAccount \<noteq> 0 then
          bindM (restrictM 0 (MinBaseFeeWei (st_l2PricingState st))) (\<lambda>minBaseFee.
          let infraFee = BigMin minBaseFee basefee;
              computeGas = SaturatingUSub gasUsed gasForPoster;
              infraComputeCost = BigMulByUint infraFee computeGas in
          thenM (MintBalance (Some infraFeeAccount) infraComputeCost)
            (returnM (BigSub computeCost infraComputeCost)))
        else returnM computeCost)
      else returnM computeCost)"

definition endOrdinary :: "tx_env \<Rightarrow> TxProcessor \<Rightarrow> address \<Rightarrow> u64 \<Rightarrow> TxProcessor arb" where
  "endOrdinary env p networkFeeAccount gasUsed =
     (let st = tp_state p; basefee = bc_BaseFee (te_evm env);
          totalCost = BigMul basefee (UintToBig gasUsed);
          underpaid = BigSub totalCost (PosterFee p) < 0;
          p1 = (if underpaid then p\<lparr>PosterFee := 0\<rparr> else p);
          computeCost0 = (if underpaid then totalCost else BigSub totalCost (PosterFee p)) in
     bindM (mintInfraFee st basefee gasUsed (posterGas p) computeCost0) (\<lambda>computeCost.
     thenM (if BigGreaterThan computeCost 0 then MintBalance (Some networkFeeAccount) computeCost else returnM ())
    (let posterFeeDestination = (if st_arbosVersion st < 2 then bc_Coinbase (te_evm env) else L1PricerFundsPoolAddress) in
     thenM (MintBalance (Some posterFeeDestination) (PosterFee p1))
    (thenM (if st_arbosVersion st \<ge> 10 then bindM (orM 0 (AddToL1FeesAvailable (st_l1PricingState st) (PosterFee p1))) (\<lambda>_. returnM ())
            else returnM ())
    (thenM (if tm_GasPrice (tp_msg p) > 0 then
              let computeGas = (if gasUsed > posterGas p then gasUsed - posterGas p else gasUsed) in
              restrictM () (AddToGasPool (st_l2PricingState st) (- SaturatingCast computeGas))
            else returnM ())
       (returnM p1))))))"

definition EndTxHook :: "(bytes \<Rightarrow> bytes) \<Rightarrow> tx_env \<Rightarrow> TxProcessor \<Rightarrow> u64 \<Rightarrow> bool \<Rightarrow> TxProcessor arb" where
  "EndTxHook K env p gasLeft success =
     bindM (orM 0 (NetworkFeeAccount (tp_state p))) (\<lambda>networkFeeAccount.
     let gasLimit = msg_GasLimit (tm_priced (tp_msg p)) in
     if gasLeft > gasLimit then panicM else
     let gasUsed = gasLimit - gasLeft in
     case tm_Tx (tp_msg p) of
       Some utx \<Rightarrow>
         if utx_Type utx = ArbitrumRetryTxType then
           (case utx_inner utx of
              InnerRetry inner \<Rightarrow> thenM (endRetry K env p networkFeeAccount inner gasLeft gasUsed success) (returnM p)
            | _ \<Rightarrow> panicM)
         else endOrdinary env p networkFeeAccount gasUsed
     | None \<Rightarrow> endOrdinary env p networkFeeAccount gasUsed)"

section \<open>What the EVM asks the processor\<close>

text \<open>A log of a redeem: \<open>redeemEvent\<close> is what \<^verbatim>\<open>util.ParseRedeemScheduledLog\<close> returns.\<close>

record redeemEvent =
  ev_TicketId :: hash
  ev_SequenceNum :: u64
  ev_DonatedGas :: u64
  ev_GasDonor :: address
  ev_MaxRefund :: int
  ev_SubmissionFeeRefund :: int

text \<open>
  The logs of the transaction are given as parsed: \<open>None\<close> for one that is no redeem or does not parse. Where
  \<^verbatim>\<open>MakeTx\<close> fails its nil result is turned into a transaction, which panics.
\<close>

primrec ScheduledTxes_loop ::
  "(bytes \<Rightarrow> bytes) \<Rightarrow> tx_env \<Rightarrow> TxProcessor \<Rightarrow> redeemEvent option list \<Rightarrow> ArbitrumRetryTx list arb" where
  "ScheduledTxes_loop K env p [] = returnM []"
| "ScheduledTxes_loop K env p (l # logs) =
     (case l of None \<Rightarrow> ScheduledTxes_loop K env p logs
      | Some event \<Rightarrow>
          bindM (orM None (OpenRetryable K (st_retryableState (tp_state p)) (ev_TicketId event) (bc_Time (te_evm env)))) (\<lambda>r.
          case r of None \<Rightarrow> ScheduledTxes_loop K env p logs
          | Some retryable \<Rightarrow>
              bindM (ensureM (MakeTx K retryable (te_ChainID env) (ev_SequenceNum event) (effectiveBaseFee env (tp_msg p))
                (ev_DonatedGas event) (ev_TicketId event) (ev_GasDonor event) (ev_MaxRefund event)
                (ev_SubmissionFeeRefund event))) (\<lambda>redeem.
              bindM (ScheduledTxes_loop K env p logs) (\<lambda>scheduled. returnM (redeem # scheduled)))))"

definition ScheduledTxes ::
  "(bytes \<Rightarrow> bytes) \<Rightarrow> tx_env \<Rightarrow> TxProcessor \<Rightarrow> redeemEvent option list \<Rightarrow> ArbitrumRetryTx list arb" where
  "ScheduledTxes K env p logs = ScheduledTxes_loop K env p logs"

definition L1BlockNumber :: "(bytes \<Rightarrow> bytes) \<Rightarrow> TxProcessor \<Rightarrow> (TxProcessor \<times> u64) arb" where
  "L1BlockNumber K p =
     (case cachedL1BlockNumber p of Some n \<Rightarrow> returnM (p, n)
      | None \<Rightarrow>
          bindM (withBurner (BSystem (NewSystemBurner False))
            (bindM (OpenSystemArbosState K False) (\<lambda>st. Blockhashes_L1BlockNumber (st_blockhashes st)))) (\<lambda>blockNum.
            returnM (p\<lparr>cachedL1BlockNumber := Some blockNum\<rparr>, blockNum)))"

definition L1BlockHash :: "(bytes \<Rightarrow> bytes) \<Rightarrow> TxProcessor \<Rightarrow> u64 \<Rightarrow> (TxProcessor \<times> hash) arb" where
  "L1BlockHash K p number =
     (case cachedL1BlockHashes p number of Some h \<Rightarrow> returnM (p, h)
      | None \<Rightarrow>
          bindM (withBurner (BSystem (NewSystemBurner False))
            (bindM (OpenSystemArbosState K False) (\<lambda>st. Blockhashes_BlockHash K (st_blockhashes st) number))) (\<lambda>h.
            returnM (p\<lparr>cachedL1BlockHashes := (cachedL1BlockHashes p)(number \<mapsto> h)\<rparr>, h)))"

definition DropTip :: "TxProcessor \<Rightarrow> bool" where
  "DropTip p = (st_arbosVersion (tp_state p) \<noteq> 9 \<or> delayedInbox p)"

definition GetPaidGasPrice :: "tx_env \<Rightarrow> TxProcessor \<Rightarrow> int" where
  "GetPaidGasPrice env p =
     (if st_arbosVersion (tp_state p) \<noteq> 9 then
        (if tm_TxRunMode (tp_msg p) \<noteq> MessageCommitMode \<and> msg_GasFeeCap (tm_priced (tp_msg p)) = 0 then 0
         else bc_BaseFee (te_evm env))
      else te_GasPrice env)"

definition GasPriceOp :: "tx_env \<Rightarrow> TxProcessor \<Rightarrow> int" where
  "GasPriceOp env p = (if st_arbosVersion (tp_state p) \<ge> 3 then GetPaidGasPrice env p else te_GasPrice env)"

definition FillReceiptInfo :: "TxProcessor \<Rightarrow> u64" where
  "FillReceiptInfo p = posterGas p"

text \<open>Of the processor's message, which is nil in a processor that was made without one.\<close>

definition MsgIsNonMutating :: "TxMessage option \<Rightarrow> bool" where
  "MsgIsNonMutating msg =
     (case msg of None \<Rightarrow> False
      | Some m \<Rightarrow> tm_TxRunMode m = MessageGasEstimationMode \<or> tm_TxRunMode m = MessageEthcallMode)"

section \<open>Supply\<close>

lemma keeps_supply_errOf [supply_intros]: "keeps_supply m \<Longrightarrow> keeps_supply (errOf m)"
  by (simp add: keeps_supply_def errOf_def split: prod.split res.split) (metis snd_conv)

lemma keeps_supply_restrictPtr [supply_intros]: "keeps_supply m \<Longrightarrow> keeps_supply (restrictPtr m)"
  by (simp add: restrictPtr_def supply_intros)

text \<open>The emitters of events move no balances.\<close>

definition emits_only :: "tx_env \<Rightarrow> bool" where
  "emits_only env \<longleftrightarrow>
     (\<forall>t. keeps_balance (te_EmitTicketCreatedEvent env t)) \<and>
     (\<forall>g n t h a m s. keeps_balance (te_EmitReedeemScheduledEvent env g n t h a m s))"

lemma keeps_supply_emit [supply_intros]:
  "emits_only env \<Longrightarrow> keeps_supply (te_EmitTicketCreatedEvent env t)"
  "emits_only env \<Longrightarrow> keeps_supply (te_EmitReedeemScheduledEvent env g n t h a m s)"
  by (simp_all add: emits_only_def keeps_balance_supply)

lemma keeps_supply_autoRedeem [supply_intros]:
  "emits_only env \<Longrightarrow> keeps_supply (autoRedeem K env msg st tx c t nfa r av sf held)"
  by (simp add: autoRedeem_def scheduleRedeem_def payInfraFee_def supply_intros Let_def split: prod.split option.split)

lemma totalSupply_add:
  "totalSupply (w\<lparr>w_balance := (w_balance w)(a := w_balance w a + n)\<rparr>) = totalSupply w + n"
  by (simp add: totalSupply_def totalOf_def sum_fun_upd)

lemma MintBalance_supply: "MintBalance (Some t) n w = (Ok x, w') \<Longrightarrow> totalSupply w' = totalSupply w + n"
  by (auto simp: MintBalance_def TransferBalance_def AddBalance_def totalSupply_add split: if_splits)

lemma keeps_supply_core_Transfer [supply_intros]: "keeps_supply (core_Transfer f t n)"
  by (auto simp: keeps_supply_def core_Transfer_def SubBalance_def AddBalance_def bindM_def totalSupply_def totalOf_def sum_fun_upd)

text \<open>A call that succeeds adds \<open>n\<close> to the supply.\<close>

definition adds_supply :: "int \<Rightarrow> 'a arb \<Rightarrow> bool" where
  "adds_supply n m \<longleftrightarrow> (\<forall>w x w'. m w = (Ok x, w') \<longrightarrow> totalSupply w' = totalSupply w + n)"

lemma adds_supplyD: "adds_supply n m \<Longrightarrow> m w = (Ok x, w') \<Longrightarrow> totalSupply w' = totalSupply w + n"
  by (simp add: adds_supply_def)

lemma adds_supply_0: "keeps_supply m \<Longrightarrow> adds_supply 0 m"
  by (simp add: adds_supply_def keeps_supplyD)

lemma adds_supply_Mint: "adds_supply n (MintBalance (Some t) n)"
  by (simp add: adds_supply_def MintBalance_supply)

lemma adds_supply_before: "keeps_supply m \<Longrightarrow> (\<And>x. adds_supply n (f x)) \<Longrightarrow> adds_supply n (bindM m f)"
  unfolding adds_supply_def by (metis bindM_Ok_iff keeps_supplyD)

lemma adds_supply_after:
  assumes "adds_supply n m" "\<And>x. keeps_supply (f x)"
  shows "adds_supply n (bindM m f)"
  unfolding adds_supply_def bindM_Ok_iff
  using adds_supplyD [OF assms(1)] keeps_supplyD [OF assms(2)] by fastforce

lemma adds_supply_submit:
  "emits_only env \<Longrightarrow> adds_supply (asr_DepositValue tx) (submitRetryable K env msg st utx tx)"
  unfolding submitRetryable_def Let_def
  apply (rule adds_supply_before, simp add: supply_intros)
  apply (rule adds_supply_before, simp add: supply_intros)
  apply (split prod.split, intro allI impI, rule adds_supply_after [OF adds_supply_Mint])
  apply (simp add: supply_intros split: option.split prod.split)
  done

section \<open>A concrete environment\<close>

text \<open>A block with base fee 3, an ABI that decodes nothing and emitters that do nothing.\<close>

definition toy_tx_env :: tx_env where
  "toy_tx_env =
     \<lparr>te_evm = \<lparr>bc_BaseFee = 3, bc_Coinbase = 9, bc_Time = 100, bc_BlockNumber = 1, bc_GetHash = (\<lambda>_. 0)\<rparr>,
      te_GasPrice = 3, te_ChainID = 1,
      te_abi = \<lparr>InternalTxStartBlockMethodID = [1, 2, 3, 4], InternalTxBatchPostingReportMethodID = [5, 6, 7, 8],
        PackInternalTxDataStartBlock = (\<lambda>_ _ _ _. Err (ErrMsg [])), UnpackInternalTxDataStartBlock = (\<lambda>_. Err (ErrMsg [])),
        UnpackInternalTxDataBatchPostingReport = (\<lambda>_. Err (ErrMsg []))\<rparr>,
      te_compress = (\<lambda>b _. Ok b), te_marshal = (\<lambda>_. None), te_arbitrumOneChainID = 42161, te_retryTxHash = (\<lambda>_. 0),
      te_EmitTicketCreatedEvent = (\<lambda>_. returnM ()), te_EmitReedeemScheduledEvent = (\<lambda>_ _ _ _ _ _ _. returnM ())\<rparr>"

definition toy_message :: "underlying_tx option \<Rightarrow> TxMessage" where
  "toy_message utx =
     \<lparr>tm_Tx = utx, tm_From = 1, tm_TxRunMode = MessageCommitMode, tm_GasPrice = 0, tm_SkipL1Charging = False,
      tm_priced = \<lparr>msg_Tx = None, msg_Nonce = 0, msg_GasTipCap = 0, msg_GasFeeCap = 3, msg_GasLimit = 10,
        msg_gasEstimation = False, msg_To = Some 2, msg_Value = 5, msg_Data = [], msg_AccessList = []\<rparr>\<rparr>"

definition toy_processor :: "ArbosState \<Rightarrow> underlying_tx option \<Rightarrow> TxProcessor" where
  "toy_processor st utx =
     \<lparr>tp_msg = toy_message utx, tp_state = st, PosterFee = 6, posterGas = 2, computeHoldGas = 0, delayedInbox = False,
      Contracts = [], tp_Programs = (\<lambda>_. 0), TopTxType = None, CurrentRetryable = None, CurrentRefundTo = None,
      cachedL1BlockNumber = None, cachedL1BlockHashes = Map.empty\<rparr>"

lemma emits_only_toy: "emits_only toy_tx_env"
  by (simp add: emits_only_def toy_tx_env_def bal_intros)

section \<open>What a transaction brings and takes\<close>

text \<open>
  C1: the start of a transaction changes the total of all balances by exactly what it brings: a deposit by its value,
  a submitted retryable by its deposit whatever becomes of the submission, a retry by the gas its redeemer has prepaid unless
  the escrow cannot pay, and every other transaction, the internal ones that settle with batch posters, reap retryables and
  upgrade ArbOS included, by nothing.
\<close>

theorem start_hook_supply:
  assumes emits: "emits_only env"
    and run: "StartTxHook K env p w = (Ok (p', ends, gasUsed, err, data), w')"
  shows "totalSupply w' = totalSupply w +
    (case tm_Tx (tp_msg p) of None \<Rightarrow> 0
     | Some utx \<Rightarrow>
         (case utx_inner utx of
            InnerDeposit \<Rightarrow> if msg_To (tm_priced (tp_msg p)) = None then 0 else msg_Value (tm_priced (tp_msg p))
          | InnerInternal tx \<Rightarrow> 0
          | InnerSubmitRetryable tx \<Rightarrow> asr_DepositValue tx
          | InnerRetry tx \<Rightarrow> if err = None then bc_BaseFee (te_evm env) * uint (art_Gas tx) else 0
          | InnerOther \<Rightarrow> 0))"
proof (cases "tm_Tx (tp_msg p)")
  case None
  with run show ?thesis by (simp add: StartTxHook_def)
next
  case (Some utx)
  note start = run [unfolded StartTxHook_def Let_def, simplified Some option.case]
  show ?thesis
  proof (cases "utx_inner utx")
    case InnerDeposit
    let ?v = "msg_Value (tm_priced (tp_msg p))"
    have "adds_supply ?v (thenM (MintBalance (Some f) ?v) (thenM (core_Transfer f to ?v) (returnM r)))"
      for f to and r :: "TxProcessor \<times> hook_result"
      by (intro adds_supply_after adds_supply_Mint) (simp add: supply_intros)
    from adds_supplyD [OF this] start InnerDeposit Some show ?thesis by (cases "msg_To (tm_priced (tp_msg p))") auto
  next
    case (InnerInternal tx)
    with start Some show ?thesis
      by (auto simp: bindM_Ok_iff dest: keeps_supplyD [OF keeps_supply_internal] split: if_splits prod.splits)
  next
    case (InnerSubmitRetryable tx)
    have "adds_supply (asr_DepositValue tx) (bindM (submitRetryable K env (tp_msg p) (tp_state p) utx tx) (\<lambda>r. returnM (b, r)))"
      for b :: TxProcessor by (intro adds_supply_after adds_supply_submit emits) (simp add: supply_intros)
    with start InnerSubmitRetryable Some show ?thesis by (auto dest: adds_supplyD)
  next
    case (InnerRetry tx)
    let ?e = "RetryableEscrowAddress K (art_TicketId tx)"
    obtain e w1 where e: "errOf (transfer ?e (art_From tx) (art_Value tx)) w = (Ok e, w1)"
      using start InnerRetry by (auto simp: bindM_Ok_iff)
    have "keeps_supply (errOf (transfer ?e (art_From tx) (art_Value tx)))" by (simp add: supply_intros)
    from keeps_supplyD [OF this e] have "totalSupply w1 = totalSupply w" .
    with start InnerRetry Some e show ?thesis
      by (auto simp: bindM_Ok_iff BigMulByUint_def UintToBig_def dest: MintBalance_supply split: if_splits)
  next
    case InnerOther
    with start Some show ?thesis by simp
  qed
qed

theorem start_hook_supply_witness:
  "\<forall>st. let utx = \<lparr>utx_inner = InnerDeposit, utx_Type = ArbitrumDepositTxType, utx_Hash = 0, utx_ChainId = 1\<rparr>;
          p = toy_processor st (Some utx)
     in \<exists>p' w'. StartTxHook toyK toy_tx_env p blank = (Ok (p', True, 0, None, []), w') \<and> totalSupply w' = totalSupply blank + 5"
proof
  fix st :: ArbosState
  let ?p = "toy_processor st (Some \<lparr>utx_inner = InnerDeposit, utx_Type = ArbitrumDepositTxType, utx_Hash = 0, utx_ChainId = 1\<rparr>)"
  obtain p' w' where run: "StartTxHook toyK toy_tx_env ?p blank = (Ok (p', True, 0, None, []), w')"
    by (simp add: StartTxHook_def toy_processor_def toy_message_def MintBalance_run core_Transfer_def SubBalance_def AddBalance_def
        bindM_def)
  from start_hook_supply [OF emits_only_toy run] run show "let utx = \<lparr>utx_inner = InnerDeposit, utx_Type = ArbitrumDepositTxType, utx_Hash = 0, utx_ChainId = 1\<rparr>;
          p = toy_processor st (Some utx)
     in \<exists>p' w'. StartTxHook toyK toy_tx_env p blank = (Ok (p', True, 0, None, []), w') \<and> totalSupply w' = totalSupply blank + 5"
    by (auto simp: Let_def toy_processor_def toy_message_def)
qed

lemma mintInfraFee_supply:
  assumes run: "mintInfraFee st basefee gasUsed pg cost w = (Ok c, w')" and bf: "0 \<le> basefee"
  shows "\<exists>i. c = cost - i \<and> totalSupply w' = totalSupply w + i \<and> i \<le> basefee * uint (SaturatingUSub gasUsed pg)"
proof (cases "c = cost \<and> totalSupply w' = totalSupply w")
  case True
  with bf show ?thesis by (intro exI [of _ 0]) simp
next
  case False
  have k: "keeps_supply (restrictM 0 (InfraFeeAccount st))" "keeps_supply (restrictM 0 (MinBaseFeeWei (st_l2PricingState st)))"
    by (simp_all add: supply_intros)
  from False run obtain a m w1 w2 where "restrictM 0 (InfraFeeAccount st) w = (Ok a, w1)"
    "restrictM 0 (MinBaseFeeWei (st_l2PricingState st)) w1 = (Ok m, w2)"
    and mint: "MintBalance (Some a) (BigMin m basefee * uint (SaturatingUSub gasUsed pg)) w2 = (Ok (), w')"
    and c: "c = cost - BigMin m basefee * uint (SaturatingUSub gasUsed pg)"
    by (auto simp: mintInfraFee_def ok_iffs Let_def BigMulByUint_def BigSub_def dest: keeps_supplyD [OF k(1)] split: if_splits)
  with keeps_supplyD [OF k(1)] keeps_supplyD [OF k(2)] have "totalSupply w2 = totalSupply w" by simp
  with MintBalance_supply [OF mint] c bf show ?thesis
    by (intro exI [of _ "BigMin m basefee * uint (SaturatingUSub gasUsed pg)"])
      (simp add: BigMin_def BigLessThan_def mult_right_mono)
qed

lemma SaturatingUSub_uint: "uint (SaturatingUSub x y) = (if y < x then uint x - uint y else 0)" for x y :: u64
proof (cases "y < x")
  case True
  then have le: "y \<le> x" by simp
  then have "int (unat (x - y)) = int (unat x) - int (unat y)" unfolding unat_minus_le [OF le] by (intro of_nat_diff) (simp only: word_le_nat_alt)
  then have "uint (x - y) = uint x - uint y" by (simp only: uint_nat)
  moreover have "SaturatingUSub x y = x - y" using True unfolding SaturatingUSub_def by (simp only: if_not_P not_le)
  ultimately show ?thesis using True by (simp only: if_P)
next
  case False
  then have "SaturatingUSub x y = 0" by (simp add: SaturatingUSub_def not_less)
  with False show ?thesis by simp
qed

lemma adds_supply_positive:
  "0 \<le> n \<Longrightarrow> adds_supply n (if BigGreaterThan n 0 then MintBalance (Some t) n else returnM ())"
  by (auto simp: BigGreaterThan_def adds_supply_Mint intro: adds_supply_Mint) (simp add: adds_supply_def)

lemma adds_supply_endOrdinary:
  assumes fee: "PosterFee p = bc_BaseFee (te_evm env) * uint (posterGas p)" and bf: "0 \<le> bc_BaseFee (te_evm env)"
  shows "adds_supply (bc_BaseFee (te_evm env) * uint gasUsed) (endOrdinary env p networkFeeAccount gasUsed)"
  unfolding adds_supply_def
proof (intro allI impI)
  fix w p' w'
  let ?B = "bc_BaseFee (te_evm env)" and ?pg = "posterGas p"
  let ?under = "?B * uint gasUsed - PosterFee p < 0"
  let ?cost = "if ?under then ?B * uint gasUsed else ?B * uint gasUsed - PosterFee p"
  let ?p1 = "if ?under then p\<lparr>PosterFee := 0\<rparr> else p"
  let ?fee = "PosterFee ?p1"
  assume run: "endOrdinary env p networkFeeAccount gasUsed w = (Ok p', w')"
  obtain c w1 w2 w3 to w4 u2 u3 u4 u5 where infra: "mintInfraFee (tp_state p) ?B gasUsed ?pg ?cost w = (Ok c, w1)"
    and net: "(if BigGreaterThan c 0 then MintBalance (Some networkFeeAccount) c else returnM ()) w1 = (Ok u2, w2)"
    and poster: "MintBalance (Some to) ?fee w2 = (Ok u3, w3)"
    and fees: "(if st_arbosVersion (tp_state p) \<ge> 10 then bindM (orM 0 (AddToL1FeesAvailable (st_l1PricingState (tp_state p)) ?fee)) (\<lambda>_. returnM ())
            else returnM ()) w3 = (Ok u4, w4)"
    and pool: "(if tm_GasPrice (tp_msg p) > 0 then
              restrictM () (AddToGasPool (st_l2PricingState (tp_state p)) (- SaturatingCast (if gasUsed > ?pg then gasUsed - ?pg else gasUsed)))
            else returnM ()) w4 = (Ok u5, w')"
    using run [unfolded endOrdinary_def Let_def BigMul_def BigSub_def UintToBig_def bindM_Ok_iff returnM_Ok_iff] by blast
  obtain i where i: "c = ?cost - i" "totalSupply w1 = totalSupply w + i" "i \<le> ?B * uint (SaturatingUSub gasUsed ?pg)"
    using mintInfraFee_supply [OF infra bf] by blast
  have "?B * (uint gasUsed - uint ?pg) \<le> 0 \<or> ?pg < gasUsed"
    using bf by (auto simp: word_less_def mult_nonneg_nonpos)
  then have "?B * uint (SaturatingUSub gasUsed ?pg) \<le> ?cost"
    using bf unfolding SaturatingUSub_uint by (auto simp: fee right_diff_distrib)
  with i have c: "0 \<le> c" by simp
  have "totalSupply w2 = totalSupply w1 + c" using adds_supplyD [OF adds_supply_positive [OF c] net] .
  moreover have "totalSupply w3 = totalSupply w2 + ?fee" using MintBalance_supply [OF poster] .
  moreover have "keeps_supply (if st_arbosVersion (tp_state p) \<ge> 10
      then bindM (orM 0 (AddToL1FeesAvailable (st_l1PricingState (tp_state p)) ?fee)) (\<lambda>_. returnM ()) else returnM ())"
    by (simp add: supply_intros)
  note keeps_supplyD [OF this fees]
  moreover have "keeps_supply (if tm_GasPrice (tp_msg p) > 0 then
      restrictM () (AddToGasPool (st_l2PricingState (tp_state p)) (- SaturatingCast (if gasUsed > ?pg then gasUsed - ?pg else gasUsed)))
      else returnM ())"
    by (simp add: supply_intros)
  note keeps_supplyD [OF this pool]
  ultimately show "totalSupply w' = totalSupply w + ?B * uint gasUsed" using i by (cases ?under) simp_all
qed

lemma BurnBalance_supply:
  assumes "ignoreM (BurnBalance (Some a) n) w = (Ok x, w')"
  shows "totalSupply w' = totalSupply w - (if n \<le> w_balance w a then n else 0)"
  using assms totalSupply_add [of w a "- n"]
  by (auto simp: BurnBalance_def TransferBalance_def GetBalance_def SubBalance_def BigLessThan_def bindM_def orM_def
      split: if_splits)

lemma keeps_supply_refund [supply_intros]: "keeps_supply (refund inner m a n)"
  by (simp add: refund_def supply_intros split: prod.split)

lemma keeps_supply_settleRetry: "keeps_supply (settleRetry K st nfa inner f r gl gu success)"
  by (simp add: settleRetry_def supply_intros Let_def split: prod.split)

lemma endRetry_supply:
  assumes "endRetry K env p nfa inner gasLeft gasUsed success w = (Ok x, w')"
  shows "totalSupply w' = totalSupply w -
    (let gasRefund = retryBaseFee env (tp_msg p) inner * uint gasLeft
     in if gasRefund \<le> w_balance w (art_From inner) then gasRefund else 0)"
proof -
  obtain u w1 where burn: "ignoreM (BurnBalance (Some (art_From inner)) (BigMulByUint (retryBaseFee env (tp_msg p) inner) gasLeft)) w = (Ok u, w1)"
    and rest: "settleRetry K (tp_state p) nfa inner (retryBaseFee env (tp_msg p) inner)
        (BigMulByUint (retryBaseFee env (tp_msg p) inner) gasLeft) gasLeft gasUsed success w1 = (Ok x, w')"
    using assms by (auto simp: endRetry_def Let_def bindM_Ok_iff)
  from keeps_supplyD [OF keeps_supply_settleRetry rest] BurnBalance_supply [OF burn] show ?thesis
    by (simp add: BigMulByUint_def Let_def)
qed

text \<open>The retry a message carries.\<close>

definition retry_of :: "TxMessage \<Rightarrow> ArbitrumRetryTx option" where
  "retry_of msg =
     (case tm_Tx msg of None \<Rightarrow> None
      | Some utx \<Rightarrow>
          if utx_Type utx = ArbitrumRetryTxType then (case utx_inner utx of InnerRetry inner \<Rightarrow> Some inner | _ \<Rightarrow> None) else None)"

text \<open>
  C2: the end of an ordinary transaction mints exactly the base fee of the gas used, divided over the infrastructure
  account, the network account and the destination of the poster's fee, also when the gas used does not cover the poster's
  charge; the end of a retry burns the refund go-ethereum gave for its gas left, if its sender still has it, and moves no
  funds in or out of the chain otherwise.
\<close>

theorem end_hook_supply:
  assumes run: "EndTxHook K env p gasLeft success w = (Ok p', w')"
    and fee: "PosterFee p = bc_BaseFee (te_evm env) * uint (posterGas p)"
    and base: "0 \<le> bc_BaseFee (te_evm env)"
  shows "gasLeft \<le> msg_GasLimit (tm_priced (tp_msg p)) \<and>
    totalSupply w' = totalSupply w +
      (case retry_of (tp_msg p) of
         Some inner \<Rightarrow>
           - (let gasRefund = retryBaseFee env (tp_msg p) inner * uint gasLeft
              in if gasRefund \<le> w_balance w (art_From inner) then gasRefund else 0)
       | None \<Rightarrow> bc_BaseFee (te_evm env) * uint (msg_GasLimit (tm_priced (tp_msg p)) - gasLeft))"
proof -
  let ?limit = "msg_GasLimit (tm_priced (tp_msg p))"
  obtain nfa w1 where nfa: "orM 0 (NetworkFeeAccount (tp_state p)) w = (Ok nfa, w1)"
    using run by (auto simp: EndTxHook_def bindM_Ok_iff)
  have "keeps_balance (orM 0 (NetworkFeeAccount (tp_state p)))" by (simp add: NetworkFeeAccount_def slot_op_defs bal_intros)
  from keeps_balanceD [OF this nfa] have bal: "w_balance w1 = w_balance w" .
  then have s1: "totalSupply w1 = totalSupply w" by (simp add: totalSupply_def totalOf_def)
  from run nfa have limit: "gasLeft \<le> ?limit"
    by (auto simp: EndTxHook_def bindM_Ok Let_def split: if_splits)
  show ?thesis
  proof (cases "retry_of (tp_msg p)")
    case None
    with run nfa limit have "endOrdinary env p nfa (?limit - gasLeft) w1 = (Ok p', w')"
      by (auto simp: EndTxHook_def bindM_Ok Let_def not_less retry_of_def split: option.splits if_splits tx_inner.splits)
    with adds_supplyD [OF adds_supply_endOrdinary [OF fee base] this] None s1 limit show ?thesis by simp
  next
    case (Some inner)
    with run nfa limit obtain u where "endRetry K env p nfa inner gasLeft (?limit - gasLeft) success w1 = (Ok u, w')"
      by (auto simp: EndTxHook_def bindM_Ok bindM_Ok_iff Let_def not_less retry_of_def split: option.splits if_splits tx_inner.splits)
    with endRetry_supply [OF this] Some s1 bal limit show ?thesis by simp
  qed
qed

theorem end_hook_supply_witness:
  "\<forall>st. \<exists>p' w'.
     EndTxHook toyK toy_tx_env (toy_processor (st\<lparr>st_arbosVersion := 3\<rparr>) None) 4 True blank = (Ok p', w') \<and>
     totalSupply w' = totalSupply blank + 18"
proof
  fix st :: ArbosState
  let ?p = "toy_processor (st\<lparr>st_arbosVersion := 3\<rparr>) None"
  have "sys blank" by (rule sys_blank)
  then obtain p' w' where run: "EndTxHook toyK toy_tx_env ?p 4 True blank = (Ok p', w')"
    by (simp add: EndTxHook_def endOrdinary_def mintInfraFee_def toy_processor_def toy_message_def toy_tx_env_def
        NetworkFeeAccount_def BigMul_def BigSub_def UintToBig_def BigGreaterThan_def MintBalance_run run_simps Let_def)
  from end_hook_supply [OF run] run
  show "\<exists>p' w'. EndTxHook toyK toy_tx_env ?p 4 True blank = (Ok p', w') \<and> totalSupply w' = totalSupply blank + 18"
    by (auto simp: toy_processor_def toy_message_def toy_tx_env_def retry_of_def)
qed

section \<open>Gas\<close>

lemma chargePoster_fee:
  assumes "chargePoster K env p w = (Ok p', w')"
  shows "\<exists>g m. p' = p\<lparr>posterGas := g, PosterFee := bc_BaseFee (te_evm env) * uint g, tp_msg := m\<rparr>"
  using assms by (auto simp: chargePoster_def bindM_Ok_iff Let_def BigMulByUint_def split: prod.splits)

lemma unat_split_gas:
  assumes "g \<le> (gas :: u64)"
  shows "unat (gas - g) + unat g = unat gas"
  using assms by (simp add: unat_minus_le word_le_nat_alt)

text \<open>
  C7: charging for gas neither loses nor creates gas: what the EVM is left with, the poster's gas and the gas held back because
  of the block limit add up to the gas supplied, and nothing is held back from a call; the hook gives up exactly when the supply
  does not cover the poster's gas, and the fee recorded is the base fee of the poster's gas, which the end of the transaction
  relies on.
\<close>

theorem gas_charging_accounts:
  assumes run: "GasChargingHook K env p gas w = (Ok (p', left, tip, err), w')"
    and fresh: "PosterFee p = 0" "posterGas p = 0" "computeHoldGas p = 0"
  shows "PosterFee p' = bc_BaseFee (te_evm env) * uint (posterGas p') \<and>
    err = (if gas < posterGas p' then Some ErrIntrinsicGas else None) \<and>
    (if err = None then unat left + unat (posterGas p') + unat (computeHoldGas p') = unat gas
     else left = gas \<and> computeHoldGas p' = 0) \<and>
    (RunMode p = MessageEthcallMode \<longrightarrow> computeHoldGas p' = 0)"
proof -
  let ?p0 = "if tm_TxRunMode (tp_msg p) = MessageCommitMode then p\<lparr>tp_msg := (tp_msg p)\<lparr>tm_SkipL1Charging := False\<rparr>\<rparr> else p"
  let ?charged = "bc_BaseFee (te_evm env) > 0 \<and> \<not> tm_SkipL1Charging (tp_msg ?p0)"
  obtain p1 w1 w2 t where p1: "(if ?charged then chargePoster K env ?p0 else returnM ?p0) w1 = (Ok p1, w2)"
    and rest: "(let need = if ?charged then posterGas p1 else 0 in
      if gas < need then returnM (p1, gas, t, Some ErrIntrinsicGas) else
      let remaining = gas - need in
      if tm_TxRunMode (tp_msg p) \<noteq> MessageEthcallMode then
        bindM (orM 0 (PerBlockGasLimit (st_l2PricingState (tp_state p)))) (\<lambda>gasAvailable.
          if remaining > gasAvailable then returnM (p1\<lparr>computeHoldGas := remaining - gasAvailable\<rparr>, gasAvailable, t, None)
          else returnM (p1, remaining, t, None))
      else returnM (p1, remaining, t, None)) w2 = (Ok (p', left, tip, err), w')"
    using run unfolding GasChargingHook_def Let_def bindM_Ok_iff by blast
  have hold: "computeHoldGas p1 = 0" and fee: "PosterFee p1 = bc_BaseFee (te_evm env) * uint (posterGas p1)"
    and need: "\<not> ?charged \<Longrightarrow> posterGas p1 = 0"
    using p1 fresh by (auto dest!: chargePoster_fee split: if_splits)
  then have n: "(if ?charged then posterGas p1 else 0) = posterGas p1" by simp
  show ?thesis
  proof (cases "gas < posterGas p1")
    case True
    with rest hold fee show ?thesis unfolding n by (auto simp: Let_def)
  next
    case False
    then have le: "posterGas p1 \<le> gas" by simp
    from False rest [unfolded n] consider
      (all) "p' = p1" "left = gas - posterGas p1" "err = None"
    | (held) avail where "p' = p1\<lparr>computeHoldGas := gas - posterGas p1 - avail\<rparr>" "left = avail" "err = None"
        "avail < gas - posterGas p1" "RunMode p \<noteq> MessageEthcallMode"
      by (auto simp: Let_def bindM_Ok_iff RunMode_def split: if_splits)
    then show ?thesis
    proof cases
      case all
      with hold fee le False unat_split_gas [OF le] show ?thesis by simp
    next
      case held
      then have "unat (gas - posterGas p1 - avail) + unat avail = unat (gas - posterGas p1)" by (intro unat_split_gas) simp
      with held fee False unat_split_gas [OF le] show ?thesis by simp
    qed
  qed
qed

theorem gas_charging_accounts_witness:
  "\<forall>st. \<exists>p' left tip w'.
     GasChargingHook toyK (toy_tx_env\<lparr>te_evm := (te_evm toy_tx_env)\<lparr>bc_BaseFee := 0\<rparr>\<rparr>)
       ((toy_processor st None)\<lparr>PosterFee := 0, posterGas := 0\<rparr>) 50 blank = (Ok (p', left, tip, None), w') \<and>
     unat left + unat (posterGas p') + unat (computeHoldGas p') = 50"
proof
  fix st :: ArbosState
  let ?env = "toy_tx_env\<lparr>te_evm := (te_evm toy_tx_env)\<lparr>bc_BaseFee := 0\<rparr>\<rparr>"
  let ?p = "(toy_processor st None)\<lparr>PosterFee := 0, posterGas := 0\<rparr>"
  have "sys blank" by (rule sys_blank)
  then obtain p' left tip w' where run: "GasChargingHook toyK ?env ?p 50 blank = (Ok (p', left, tip, None), w')"
    by (simp add: GasChargingHook_def toy_processor_def toy_message_def toy_tx_env_def NetworkFeeAccount_def l2_access run_simps u64_slot_def u64_at_def
        Let_def cong: if_cong)
  from gas_charging_accounts [OF run] run
  show "\<exists>p' left tip w'. GasChargingHook toyK ?env ?p 50 blank = (Ok (p', left, tip, None), w') \<and>
     unat left + unat (posterGas p') + unat (computeHoldGas p') = 50"
    by (auto simp: toy_processor_def)
qed

section \<open>The first attempt of a retryable\<close>

lemma takeFunds_run: "0 \<le> n \<Longrightarrow> takeFunds pool n = Ok (pool - min pool n, min pool n)"
  by (simp add: takeFunds_def BigLessThan_def)

lemma errOf_Ok: "m w = (Ok x, w') \<Longrightarrow> errOf m w = (Ok None, w')"
  by (simp add: errOf_def)

lemma sys_balance [simp]: "sys (w\<lparr>w_balance := B\<rparr>) = sys w"
  by (simp add: sys_def)

lemma payInfraFee_run:
  assumes sys: "sys w" and v: "st_arbosVersion st \<ge> 11"
    and a: "ucast (sdb w (st_infraFeeAccount st)) = (a :: address)" "a \<noteq> 0"
    and m: "uint (sdb w (l2_minBaseFeeWei (st_l2PricingState st))) = m"
    and bf: "0 \<le> bf" and afford: "bf * uint gas \<le> w_balance w f"
  shows "\<exists>w1. payInfraFee st f bf gas (bf * uint gas) w = (Ok (bf * uint gas - min m bf * uint gas, False), w1) \<and> sys w1 \<and>
    sdb w1 = sdb w \<and> w_balance w1 = moved f a (min m bf * uint gas) (w_balance w)"
proof -
  let ?w = "charge StorageReadCost (charge StorageReadCost w)" and ?I = "min m bf * uint gas"
  have I: "0 \<le> ?I" "?I \<le> bf * uint gas" using m bf by (auto intro: mult_right_mono)
  then have pay: "transfer f a ?I ?w = (Ok (), ?w\<lparr>w_balance := moved f a ?I (w_balance w)\<rparr>)"
    using afford by (simp add: TransferBalance_moved)
  have min: "BigMin m bf = min m bf" by (simp add: BigMin_def BigLessThan_def min_def)
  have acc: "restrictM 0 (InfraFeeAccount st) w = (Ok a, charge StorageReadCost w)"
    using sys a by (intro restrictM_Ok) (simp_all add: InfraFeeAccount_def run_simps)
  have fee: "restrictM 0 (MinBaseFeeWei (st_l2PricingState st)) (charge StorageReadCost w) = (Ok m, ?w)"
    using sys m by (intro restrictM_Ok) (simp_all add: MinBaseFeeWei_def run_simps)
  have take: "takeFunds (bf * uint gas) (BigMulByUint (BigMin m bf) gas) = Ok (bf * uint gas - ?I, ?I)"
    using I by (simp add: BigMulByUint_def min takeFunds_run min_absorb2)
  have "payInfraFee st f bf gas (bf * uint gas) w = (Ok (bf * uint gas - ?I, False), ?w\<lparr>w_balance := moved f a ?I (w_balance w)\<rparr>)"
    using v a(2) by (simp add: payInfraFee_def bindM_Ok acc fee take pay errOf_def Let_def)
  with sys show ?thesis by simp
qed

lemma keeps_balance_Restrict [bal_intros]: "keeps_balance (Restrict e)"
  by (simp add: keeps_balance_def Restrict_def on_burner_def split: burner.split prod.split)

lemma keeps_balance_restrictM [bal_intros]:
  assumes "keeps_balance m"
  shows "keeps_balance (restrictM z m)"
  unfolding keeps_balance_def
proof
  fix w
  obtain r w1 where m: "m w = (r, w1)" by (cases "m w")
  have "keeps_balance (thenM (Restrict e) (returnM x))" for e and x :: 'a by (simp add: bal_intros)
  with m keeps_balanceD [OF assms m] show "w_balance (snd (restrictM z m w)) = w_balance w"
    by (cases r) (simp_all add: restrictM_def keeps_balance_def)
qed

lemma keeps_balance_retry [bal_intros]:
  "keeps_balance (restrictPtr (MakeTx K r c n f g t a m s))" "keeps_balance (restrictM 0 (IncrementNumTries r))"
  by (simp_all add: restrictPtr_def MakeTx_def From_def To_def Callvalue_def Calldata_def StorageBackedBytes_Get_def
      IncrementNumTries_def slot_op_defs bal_intros)

lemma scheduleRedeem_balances:
  assumes run: "scheduleRedeem K env st tx c t r bf gas cost avail sf held w = (Ok res, w')" and emits: "emits_only env"
    and R: "R = min (avail - min avail cost) ((asr_GasFeeCap tx - bf) * uint (asr_Gas tx))"
    and nonneg: "0 \<le> cost" "0 \<le> avail" "bf \<le> asr_GasFeeCap tx" and afford: "R \<le> w_balance w (asr_From tx)"
  shows "w_balance w' = moved (asr_From tx) (asr_FeeRefundAddr tx) R (w_balance w)"
proof -
  let ?P = "(asr_GasFeeCap tx - bf) * uint (asr_Gas tx)"
  let ?w = "w\<lparr>w_balance := moved (asr_From tx) (asr_FeeRefundAddr tx) R (w_balance w)\<rparr>"
  have P: "0 \<le> ?P" using nonneg by simp
  then have "0 \<le> R" using R nonneg by simp
  then have pay: "transfer (asr_From tx) (asr_FeeRefundAddr tx) R w = (Ok (), ?w)" using afford by (rule TransferBalance_moved)
  have t1: "takeFunds avail cost = Ok (avail - min avail cost, min avail cost)" using nonneg by (simp add: takeFunds_run)
  have t2: "takeFunds (avail - min avail cost) (if BigMulByUint (BigSub (asr_GasFeeCap tx) bf) (asr_Gas tx) < 0 then 0
      else BigMulByUint (BigSub (asr_GasFeeCap tx) bf) (asr_Gas tx)) = Ok (avail - min avail cost - R, R)"
    using P R by (simp add: takeFunds_run BigMulByUint_def BigSub_def)
  define rest where "rest mr = bindM (restrictPtr (MakeTx K r c 0 bf gas t (asr_FeeRefundAddr tx) mr sf)) (\<lambda>inner.
     bindM (restrictM 0 (IncrementNumTries r)) (\<lambda>_.
     case inner of None \<Rightarrow> panicM
     | Some retryTxInner \<Rightarrow>
     thenM (ignoreM (te_EmitReedeemScheduledEvent env gas (art_Nonce retryTxInner) t (te_retryTxHash env retryTxInner)
              (asr_FeeRefundAddr tx) mr sf))
       (returnM (True, gas, None :: go_error option, hash_bytes t))))" for mr
  have keeps: "keeps_balance (rest mr)" for mr
    using emits unfolding rest_def emits_only_def by (simp add: bal_intros split: option.split)
  have "rest (avail - min avail cost - R + min avail cost + held) ?w = (Ok res, w')"
    using run by (simp add: scheduleRedeem_def rest_def bindM_Ok t1 t2 pay orM_Ok Let_def cong: option.case_cong)
  from keeps_balanceD [OF keeps, of _ ?w, OF this] show ?thesis by simp
qed

text \<open>
  C8: the first attempt of a retryable charges the sender the gas at the base fee, the infrastructure's minimum to its account and the
  rest to the network, and then refunds the excess of the fee cap to the refund address as far as the deposit goes. What the source
  withholds from the deposit for the gas is the network's part only, since the infrastructure's part was taken from the same big
  integer: a deposit that covers just the gas still pays a refund, up to the infrastructure's part, which its own comment rules out.
\<close>

theorem auto_redeem_accounting:
  fixes st :: ArbosState and tx :: ArbitrumSubmitRetryableTx and w :: world
  defines "F \<equiv> asr_From tx" and "gas \<equiv> asr_Gas tx"
    and "infra \<equiv> (ucast (sdb w (st_infraFeeAccount st)) :: address)"
    and "minFee \<equiv> uint (sdb w (l2_minBaseFeeWei (st_l2PricingState st)))"
  assumes run: "autoRedeem K env msg st tx c t nfa r avail sf held w = (Ok res, w')"
    and sys: "sys w" and emits: "emits_only env" and v: "11 \<le> st_arbosVersion st" and infra: "infra \<noteq> 0"
    and fee: "0 \<le> effectiveBaseFee env msg" "effectiveBaseFee env msg \<le> asr_GasFeeCap tx"
    and limit: "msg_GasLimit (tm_priced msg) = gas" "TxGas \<le> gas"
    and afford: "asr_GasFeeCap tx * uint gas \<le> w_balance w F" and avail: "0 \<le> avail"
  shows "let cost = effectiveBaseFee env msg * uint gas;
             share = min minFee (effectiveBaseFee env msg) * uint gas;
             R = min (avail - min avail (cost - share)) ((asr_GasFeeCap tx - effectiveBaseFee env msg) * uint gas)
    in w_balance w' =
         moved F (asr_FeeRefundAddr tx) R (moved F nfa (cost - share) (moved F infra share (w_balance w)))"
proof -
  let ?bf = "effectiveBaseFee env msg" and ?cap = "asr_GasFeeCap tx"
  let ?cost = "?bf * uint gas" and ?share = "min minFee ?bf * uint gas"
  let ?R = "min (avail - min avail (?cost - ?share)) ((?cap - ?bf) * uint gas)"
  have le: "?cost \<le> ?cap * uint gas" using fee by (simp add: mult_right_mono)
  have share: "0 \<le> ?share" "?share \<le> ?cost" using fee unfolding minFee_def by (auto intro: mult_right_mono)
  obtain w1 where w1: "payInfraFee st F ?bf gas ?cost w = (Ok (?cost - ?share, False), w1)" "sys w1"
    "w_balance w1 = moved F infra ?share (w_balance w)"
    using payInfraFee_run [OF sys v _ infra, of minFee ?bf gas F] fee afford le by (auto simp: infra_def minFee_def)
  have bal1: "?cap * uint gas - ?share \<le> w_balance w1 F"
    using moved_pool [OF share(1), of "w_balance w" F infra] afford w1(3) by simp
  define w2 where "w2 = w1\<lparr>w_balance := moved F nfa (?cost - ?share) (w_balance w1)\<rparr>"
  have pay: "(if BigGreaterThan (?cost - ?share) 0 then errOf (transfer F nfa (?cost - ?share)) else returnM None) w1 = (Ok None, w2)"
    using share le bal1
    by (auto simp: BigGreaterThan_def w2_def errOf_def TransferBalance_moved intro: world.equality)
  have "(?cap - ?bf) * uint gas \<le> w_balance w2 F"
    using moved_pool [of "?cost - ?share" "w_balance w1" F nfa] share bal1 by (simp add: w2_def left_diff_distrib)
  then have R: "?R \<le> w_balance w2 F" by simp
  have balance: "GetBalance (asr_From tx) w = (Ok (w_balance w (asr_From tx)), w)" by (simp add: GetBalance_def)
  have guard: "\<not> (BigLessThan (w_balance w (asr_From tx)) (?cap * uint gas) \<or> gas < TxGas \<or> BigLessThan ?cap ?bf)"
    using fee limit afford by (simp add: BigLessThan_def F_def not_less)
  have "scheduleRedeem K env st tx c t r ?bf gas (?cost - ?share) avail sf held w2 = (Ok res, w')"
    using run w1(1) pay
    unfolding autoRedeem_def Let_def BigMulByUint_def limit(1) bindM_Ok [where m = "GetBalance (asr_From tx)", OF balance]
      if_not_P [OF guard] F_def
    by (simp add: bindM_Ok)
  from scheduleRedeem_balances [OF this emits, of ?R] share fee avail R
  show ?thesis by (simp add: w2_def w1(3) gas_def F_def Let_def)
qed

text \<open>A world whose slots all hold one, where every account has a million.\<close>

definition redeem_world :: world where
  "redeem_world = blank\<lparr>sdb := (\<lambda>_. 1), w_balance := (\<lambda>_. 1000000)\<rparr>"

definition toy_retryable :: Retryable where
  "toy_retryable = \<lparr>rt_id = 0, backingStorage = toyStorage, numTries = 9, rt_from = 9, rt_to = 9, callvalue = 9, beneficiary = 9,
     calldata = toyStorage, timeout = 9, timeoutWindowsLeft = 9\<rparr>"

definition toy_submit :: ArbitrumSubmitRetryableTx where
  "toy_submit = \<lparr>asr_ChainId = 1, asr_RequestId = 0, asr_From = 3, asr_L1BaseFee = Some 0, asr_DepositValue = 63000, asr_GasFeeCap = 4,
     asr_Gas = 21000, asr_RetryTo = None, asr_RetryValue = 0, asr_Beneficiary = 3, asr_MaxSubmissionFee = 0, asr_FeeRefundAddr = 2,
     asr_RetryData = []\<rparr>"

definition redeem_message :: TxMessage where
  "redeem_message = (toy_message None)\<lparr>tm_priced := (tm_priced (toy_message None))\<lparr>msg_GasLimit := 21000\<rparr>\<rparr>"

lemma redeem_world_sel [simp]:
  "sys redeem_world" "sdb redeem_world = (\<lambda>_. 1)" "w_balance redeem_world = (\<lambda>_. 1000000)"
  by (simp_all add: redeem_world_def sys_def blank_def NewSystemBurner_def)

lemma toy_submit_sel [simp]:
  "asr_From toy_submit = 3" "asr_GasFeeCap toy_submit = 4" "asr_Gas toy_submit = 21000" "asr_FeeRefundAddr toy_submit = 2"
  "msg_GasLimit (tm_priced redeem_message) = 21000"
  by (simp_all add: toy_submit_def redeem_message_def)

lemma GetBytes_ones:
  assumes "sys w" "sdb w = (\<lambda>_. 1)"
  shows "\<exists>x w'. GetBytes K s w = (Ok x, w') \<and> sys w' \<and> sdb w' = (\<lambda>_. 1)"
  using assms by (simp add: GetBytes_def storage_op_defs GetBytes_loop.simps run_simps)

lemma MakeTx_total:
  assumes "sys w" "sdb w = (\<lambda>_. 1)"
  shows "\<exists>x w'. MakeTx K toy_retryable c n f g t a m s w = (Ok x, w') \<and> sys w' \<and> sdb w' = (\<lambda>_. 1)"
proof -
  let ?w = "charge StorageReadCost (charge StorageReadCost (charge StorageReadCost w))"
  obtain x w' where "GetBytes K toyStorage ?w = (Ok x, w')" "sys w'" "sdb w' = (\<lambda>_. 1)"
    using GetBytes_ones [of ?w K toyStorage] assms by auto
  with assms show ?thesis
    by (simp add: MakeTx_def toy_retryable_def From_def To_def Callvalue_def Calldata_def StorageBackedBytes_Get_def
        StorageBackedAddressOrNil_Get_def run_simps)
qed

lemma scheduleRedeem_total:
  assumes "sys w" "sdb w = (\<lambda>_. 1)" "w_balance w 3 \<ge> 21000"
  shows "\<exists>res w'. scheduleRedeem K toy_tx_env st toy_submit 1 0 toy_retryable 3 21000 42000 63000 0 0 w = (Ok res, w')"
proof -
  let ?w = "w\<lparr>w_balance := moved 3 2 21000 (w_balance w)\<rparr>"
  obtain x w1 where tx: "MakeTx K toy_retryable 1 0 3 21000 0 2 42000 0 ?w = (Ok x, w1)" and w1: "sys w1" "sdb w1 = (\<lambda>_. 1)"
    using MakeTx_total [of ?w K 1 0 3 21000 0 2 42000 0] assms by (auto simp: sys_def)
  have "transfer 3 2 21000 w = (Ok (), ?w)" using assms by (simp add: TransferBalance_moved)
  moreover have "restrictPtr (MakeTx K toy_retryable 1 0 3 21000 0 2 42000 0) ?w = (Ok (Some x), w1)"
    unfolding restrictPtr_def using tx w1 by (intro restrictM_Ok) (simp_all add: bindM_Ok)
  moreover obtain y w2 where "IncrementNumTries toy_retryable w1 = (Ok y, w2)" "sys w2"
    using w1 by (simp add: IncrementNumTries_def toy_retryable_def u64_slot_def u64_at_def run_simps)
  then have "restrictM 0 (IncrementNumTries toy_retryable) w1 = (Ok y, w2)" by (rule restrictM_Ok)
  ultimately show ?thesis
    by (simp add: scheduleRedeem_def toy_tx_env_def takeFunds_run BigMulByUint_def BigSub_def bindM_Ok orM_Ok ex_bool_eq)
qed

theorem auto_redeem_accounting_witness:
  "\<forall>st. \<exists>res w'.
     autoRedeem toyK toy_tx_env redeem_message (st\<lparr>st_arbosVersion := 11\<rparr>) toy_submit 1 0 4 toy_retryable 63000 0 0 redeem_world
       = (Ok res, w') \<and>
     w_balance w' 2 = w_balance redeem_world 2 + 21000"
proof
  fix st :: ArbosState
  let ?st = "st\<lparr>st_arbosVersion := 11\<rparr>"
  have fee: "effectiveBaseFee toy_tx_env redeem_message = 3"
    by (simp add: effectiveBaseFee_def toy_tx_env_def redeem_message_def toy_message_def)
  have "\<exists>w1. payInfraFee ?st 3 3 21000 63000 redeem_world = (Ok (42000, False), w1) \<and> sys w1 \<and> sdb w1 = (\<lambda>_. 1) \<and>
      w_balance w1 = moved 3 1 21000 (w_balance redeem_world)"
    using payInfraFee_run [of redeem_world ?st 1 1 3 21000 3] by simp
  then obtain w1 where w1: "payInfraFee ?st 3 3 21000 63000 redeem_world = (Ok (42000, False), w1)" "sys w1" "sdb w1 = (\<lambda>_. 1)"
      "w_balance w1 = moved 3 1 21000 (w_balance redeem_world)" by blast
  let ?w2 = "w1\<lparr>w_balance := moved 3 4 42000 (w_balance w1)\<rparr>"
  have pay: "transfer 3 4 42000 w1 = (Ok (), ?w2)" using w1(4) by (simp add: TransferBalance_moved moved_def)
  obtain res w' where sched: "scheduleRedeem toyK toy_tx_env ?st toy_submit 1 0 toy_retryable 3 21000 42000 63000 0 0 ?w2 = (Ok res, w')"
    using scheduleRedeem_total [of ?w2 toyK ?st] w1 by (auto simp: moved_def)
  have run: "autoRedeem toyK toy_tx_env redeem_message ?st toy_submit 1 0 4 toy_retryable 63000 0 0 redeem_world = (Ok res, w')"
    using w1(1) pay sched
    by (simp add: autoRedeem_def fee GetBalance_def BigLessThan_def BigGreaterThan_def
        BigMulByUint_def TxGas_def errOf_def bindM_Ok Let_def)
  have "w_balance w' 2 = w_balance redeem_world 2 + 21000"
    using auto_redeem_accounting [OF run] emits_only_toy fee
    by (simp add: TxGas_def moved_def Let_def)
  with run show "\<exists>res w'. autoRedeem toyK toy_tx_env redeem_message ?st toy_submit 1 0 4 toy_retryable 63000 0 0 redeem_world
       = (Ok res, w') \<and> w_balance w' 2 = w_balance redeem_world 2 + 21000" by blast
qed

end
