(* ===== verification/Spec2Isabelle.thy ===== *)
theory Spec2Isabelle
  imports AddressTable MerkleTree L1Pricing Retryables ParseL2 Programs ZeroHeavy Blobs DasTree TxProcessor
begin

text \<open>
  \<^bold>\<open>A verification of ArbOS, the state machine of an Arbitrum chain.\<close>

  \<^bold>\<open>The program.\<close> ArbOS (\<^verbatim>\<open>src/arbos\<close>) is the part of the node that decides what a block does. It keeps its state in
  the storage of one account, as a tree of storage spaces; each component (queue, address set, pricing, retryable
  tickets, Stylus programs, and so on) owns a space. Messages from the parent chain are parsed into transactions, and
  go-ethereum runs them, calling the hooks of the transaction processor at the start, when it charges gas and at the
  end. Beside ArbOS stand the codecs a batch goes through (\<^verbatim>\<open>src/zeroheavy\<close>, \<^verbatim>\<open>src/util/blobs\<close>,
  \<^verbatim>\<open>src/das/dastree\<close>) and the Merkle trees of outgoing messages (\<^verbatim>\<open>src/util/merkletree\<close>).

  \<^bold>\<open>The embedding.\<close> Machine integers are words of their width, \<^verbatim>\<open>big.Int\<close> is \<^typ>\<open>int\<close>, hashes and addresses are words of
  256 and 160 bits, byte slices are lists of 8-bit words. A Go call is a function from a state to an outcome and a state;
  the outcome is \<open>Ok\<close> with a value, \<open>Err\<close> with an error, or \<open>Panic\<close> (\<open>Prelude\<close>). The state of ArbOS is the record \<open>world\<close>
  (\<open>Burn\<close>): the slots of the account, the balances of all accounts, and the burner that meters the call. An open
  component is a record of the slots it uses, as in the source. The sources' functions keep their names; where two
  packages share one, the type comes first (\<open>Queue_Get\<close>, \<open>AddressSet_Remove\<close>). Keccak is a parameter \<open>K\<close> everywhere;
  what is assumed of it is \<open>collision_free\<close> on the keys a component uses, and \<open>toyK\<close> shows that this can hold. Other code that is
  not in the repository (RLP, brotli, KZG, SHA-256, the ABI, event emitters, the decoder of signed transactions, the wasm
  compiler) is a parameter of the definitions that use it.

  \<^bold>\<open>The theories.\<close>

  \<^item> \<open>Prelude\<close>: the types, big-endian codecs, outcomes and the combinators of calls.
  \<^item> \<open>Arbmath\<close>, \<open>Arbbits\<close>: \<^verbatim>\<open>util/arbmath\<close>. What the saturating operations do on every branch; rounding, square root and
    exponential; codecs.
  \<^item> \<open>Burn\<close>: \<^verbatim>\<open>arbos/burn/burn.go\<close> and the burner of \<^verbatim>\<open>precompiles/context.go\<close>, two interpretations of one interface.
  \<^item> \<open>ArbosUtil\<close>: \<^verbatim>\<open>arbos/util/util.go\<close> and \<^verbatim>\<open>transfer.go\<close>. Conversions, stream readers, transfers that keep the total.
  \<^item> \<open>Storage\<close>, \<open>StorageFacts\<close>: \<^verbatim>\<open>arbos/storage/storage.go\<close>. Distinct keys never share a slot; byte strings are read back;
    read-only burners protect the slots. \<open>StorageFacts\<close> holds the symbolic execution of storage calls (\<open>run_simps\<close>) that all later
    theories use, and the interface of counters with its two implementations.
  \<^item> \<open>Queue\<close>, \<open>AddressIndex\<close>, \<open>AddressSet\<close>, \<open>AddressTable\<close>, \<open>Blockhash\<close>: the containers in storage. The queue refines a list and the set
    a finite set for any sequence of operations; the table's indices are permanent and its compression inverts; the ring
    of block hashes is described for every block number. Two theorems pin down what the code does wrong or unlike its
    comments: removal before version 11 and the first skipped block.
  \<^item> \<open>MerkleAccumulator\<close>, \<open>MerkleTree\<close>: \<^verbatim>\<open>arbos/merkleAccumulator\<close> and \<^verbatim>\<open>util/merkletree\<close>. The two accumulators are
    interpretations of one store; their root is the reference root. Trees agree with accumulators, inclusion proofs are
    complete and sound, summaries stand for their trees, the reader inverts the writer.
  \<^item> \<open>L2Pricing\<close>: \<^verbatim>\<open>arbos/l2pricing\<close>. The backlog is exact within its range; an update sets the fee to the price of the backlog.
  \<^item> \<open>BatchPoster\<close>, \<open>L1Pricing\<close>: \<^verbatim>\<open>arbos/l1pricing\<close> with its older versions. The table refines an abstract one; a settlement
    pays only from the fees available, and a report with a bad time changes nothing but the table of posters.
  \<^item> \<open>Retryables\<close>: \<^verbatim>\<open>arbos/retryables/retryable.go\<close>. Tickets refine an abstract map; the steps of the chain are an inductive
    relation, and from every reachable state the reaper removes each ticket, after its deadline and not before.
  \<^item> \<open>IncomingMessage\<close>, \<open>ParseL2\<close>: \<^verbatim>\<open>arbos/arbostypes\<close> and \<^verbatim>\<open>arbos/parse_l2.go\<close>. Round trips; the parser of nested batches ends,
    never panics and yields boundedly many transactions.
  \<^item> \<open>Programs\<close>: \<^verbatim>\<open>arbos/programs\<close> (parameters, data pricer, memory model, table of programs, activation, the charge of a call).
  \<^item> \<open>ArbosState\<close>, \<open>InternalTx\<close>, \<open>TxProcessor\<close>: \<^verbatim>\<open>arbosState/arbosstate.go\<close>, \<^verbatim>\<open>internal_tx.go\<close>, \<^verbatim>\<open>tx_processor.go\<close>. A scheduled
    upgrade runs on time and ends in its version; the hooks create and destroy exactly the funds they should; gas is neither
    lost nor created; what the first attempt of a retryable charges and refunds.
  \<^item> \<open>Supply\<close>: every operation of the components keeps the sum of all balances; collected in \<open>supply_intros\<close> for the hooks.
  \<^item> \<open>ZeroHeavy\<close>, \<open>Blobs\<close>, \<open>DasTree\<close>: the codecs of a batch. Each decoder inverts its encoder, and both end.

  \<^bold>\<open>Loops, fuel and bounds.\<close> Most loops are structural or have a termination proof (the parser, the upgrade loop, the ring of
  block hashes, the accumulator's append, the layers of the data availability tree). Fuel is used where the bound is
  plain: 64 rounds for the padding of a root and 65 for that of a rebuilt tree, since each doubles a 64-bit capacity; one
  unit per byte of the stream for the tree reader, since each call consumes a byte; the length of the data for the blob
  encoder, since each blob takes data off. The theorems say that the fuel is enough. The two loops of \<open>DasTree\<close> are partial functions, and the
  round trip shows that they return. Where a claim needs a range (less than \<open>2 ^ 63\<close> items in a tree, block numbers \<open>257\<close> below
  the largest, products that fit 63 bits in the pricing model), the range is a hypothesis of the theorem: outside of it the code wraps around,
  which the definitions follow because they compute on words.

  \<^bold>\<open>Abbreviated.\<close> Tracing and logging have no effect on the chain and are left out; \<^verbatim>\<open>log.Crit\<close> is a panic. The pages and
  recent programs of \<^verbatim>\<open>CallProgram\<close> live in go-ethereum's state database, so their operations are fields of \<open>call_context\<close>, and running
  the program is a parameter. The errors of the program precompile carry their arguments as numbers; the source calls them
  through variables that the precompiles assign.

  \<^bold>\<open>Not modelled.\<close> Block production (\<^verbatim>\<open>block_processor.go\<close>) drives the EVM of go-ethereum, which is not part of the repository. The
  precompiles are ABI bindings, by reflection, of the operations modelled here. The sequencer inbox reader, the Stylus runtime and
  compression call code outside of the sources. The node, execution node, staker, validator, data availability services and
  feed are services over databases and networks. The import of classic state and the tools under \<^verbatim>\<open>cmd\<close> read files. In
  \<^verbatim>\<open>arbmath\<close> the helpers on floating-point numbers are left out.
\<close>

end
